(* ===== verification/Prelude.thy ===== *)
theory Prelude
  imports Main "HOL-Library.Word" "HOL-Library.Char_ord" "HOL-Library.List_Lexorder"
    "HOL-Library.Product_Lexorder" "HOL-Library.Multiset"
begin

text \<open>
  The part of the Go language and its standard library that the repository's code uses,
  as executable definitions, with the generic lemmas the component theories share.

  A Go string is a sequence of bytes, so it is a \<open>string\<close> here (a list of 8-bit
  characters) and \<open>length\<close> is Go's \<open>len\<close>. \<open>uint32\<close> and \<open>uint64\<close> are words of
  that width. \<open>int64\<close> and \<open>int\<close> are \<open>int\<close>; where an addition of the source can
  overflow, \<open>i64\<close> writes the wrap-around out. \<open>time.Time\<close> is the instant in
  nanoseconds since Go's zero time, with its location. An error value made by
  \<open>errors.New\<close> is its message, and a Go result pair \<open>(value, error)\<close> is
  \<open>string + 'a\<close>, with \<open>Inl\<close> for the error.
\<close>

named_theorems go_eval \<open>definitions unfolded to evaluate a concrete input\<close>
named_theorems go_len \<open>length facts of the string library\<close>

type_synonym u32 = "32 word"
type_synonym u64 = "64 word"
type_synonym 'a result = "string + 'a"

unbundle bit_operations_syntax

section \<open>Results\<close>

text \<open>
  A Go function that returns early on an error is a chain of \<open>and_then\<close>;
  \<open>or_error\<close> is a call whose own error is replaced by a message.
\<close>

definition and_then :: "'a result \<Rightarrow> ('a \<Rightarrow> 'b result) \<Rightarrow> 'b result" where
  [go_eval]: "and_then r f = (case r of Inl e \<Rightarrow> Inl e | Inr x \<Rightarrow> f x)"

definition or_error :: "'a option \<Rightarrow> string \<Rightarrow> 'a result" where
  [go_eval]: "or_error r msg = (case r of None \<Rightarrow> Inl msg | Some x \<Rightarrow> Inr x)"

lemma and_then_Inr_iff: "and_then r f = Inr y \<longleftrightarrow> (\<exists>x. r = Inr x \<and> f x = Inr y)"
  by (cases r) (simp_all add: and_then_def)

lemma or_error_Inr_iff: "or_error r msg = Inr x \<longleftrightarrow> r = Some x"
  by (cases r) (simp_all add: or_error_def)

lemmas result_iffs = and_then_Inr_iff or_error_Inr_iff

section \<open>Integers\<close>

text \<open>\<open>int64\<close> arithmetic wraps around in two's complement.\<close>

definition i64 :: "int \<Rightarrow> int" where
  "i64 x = (x + 2 ^ 63) mod 2 ^ 64 - 2 ^ 63"

abbreviation max_int64 :: int where "max_int64 \<equiv> 9223372036854775807"

lemma i64_id: "- (2 ^ 63) \<le> x \<Longrightarrow> x < 2 ^ 63 \<Longrightarrow> i64 x = x"
  by (simp add: i64_def)

lemma i64_id_nonneg [simp]: "0 \<le> x \<Longrightarrow> x \<le> max_int64 \<Longrightarrow> i64 x = x"
  by (rule i64_id) simp_all

text \<open>\<open>math.MaxUint32\<close> and \<open>math.MaxUint64\<close>.\<close>

abbreviation max_u32 :: u32 where "max_u32 \<equiv> 0xFFFFFFFF"
abbreviation max_u64 :: u64 where "max_u64 \<equiv> 0xFFFFFFFFFFFFFFFF"

lemma unat_max_u32: "unat max_u32 = 2 ^ 32 - 1" by simp
lemma unat_max_u64: "unat max_u64 = 2 ^ 64 - 1" by simp

lemma u64_eq_max_iff: "(x :: u64) = max_u64 \<longleftrightarrow> unat x = 2 ^ 64 - 1"
  by (simp add: word_unat_eq_iff)

lemma unat_lt_u64: "unat (x :: u64) < 2 ^ 64"
  by (rule order_less_le_trans [OF unsigned_less]) simp

lemma unat_lt_u32: "unat (x :: u32) < 2 ^ 32"
  by (rule order_less_le_trans [OF unsigned_less]) simp

lemma unat_suc_u64: "(x :: u64) \<noteq> max_u64 \<Longrightarrow> unat (x + 1) = unat x + 1"
  using unat_lt_u64 [of x] by (simp add: u64_eq_max_iff unat_word_ariths)

lemma unat_suc_u32: "(x :: u32) \<noteq> max_u32 \<Longrightarrow> unat (x + 1) = unat x + 1"
  using unat_lt_u32 [of x] by (simp add: word_unat_eq_iff unat_word_ariths)

lemma unat_pred_u64: "0 < unat (x :: u64) \<Longrightarrow> unat (x - 1) = unat x - 1"
  by (metis One_nat_def Suc_leI unat_1 unat_sub word_le_nat_alt)

text \<open>\<open>b - a + 1\<close> counts the positions of an interval, unless it is the whole type.\<close>

lemma unat_count_u64:
  assumes "(a :: u64) \<le> b" and "b \<noteq> max_u64"
  shows "unat (b - a + 1) = unat b - unat a + 1"
proof -
  have ab: "unat (b - a) = unat b - unat a"
    using assms(1) by (rule unat_sub)
  have "unat b < 2 ^ 64 - 1"
    using assms(2) unat_lt_u64 [of b] by (simp add: u64_eq_max_iff)
  then show ?thesis
    using ab by (simp add: unat_word_ariths)
qed

section \<open>Times\<close>

datatype location = UTC | OffsetZone int

record gotime =
  t_ns :: int
  t_loc :: location

definition zero_time :: gotime where
  "zero_time = \<lparr>t_ns = 0, t_loc = UTC\<rparr>"

definition time_is_zero :: "gotime \<Rightarrow> bool" where
  "time_is_zero t \<longleftrightarrow> t_ns t = 0"

definition time_utc :: "gotime \<Rightarrow> gotime" where
  "time_utc t = t\<lparr>t_loc := UTC\<rparr>"

definition time_after :: "gotime \<Rightarrow> gotime \<Rightarrow> bool" where
  "time_after a b \<longleftrightarrow> t_ns b < t_ns a"

definition time_before :: "gotime \<Rightarrow> gotime \<Rightarrow> bool" where
  "time_before a b \<longleftrightarrow> t_ns a < t_ns b"

definition time_equal :: "gotime \<Rightarrow> gotime \<Rightarrow> bool" where
  "time_equal a b \<longleftrightarrow> t_ns a = t_ns b"

fun loc_offset :: "location \<Rightarrow> int" where
  "loc_offset UTC = 0"
| "loc_offset (OffsetZone n) = n"

lemmas time_defs = zero_time_def time_is_zero_def time_utc_def time_after_def
  time_before_def time_equal_def

lemma time_utc_simps [simp]:
  "t_ns (time_utc t) = t_ns t" "t_loc (time_utc t) = UTC"
  "time_utc (time_utc t) = time_utc t" "time_utc zero_time = zero_time"
  "t_loc zero_time = UTC" "t_ns zero_time = 0"
  by (simp_all add: time_defs)

section \<open>Bytes and strings\<close>

abbreviation byte :: "char \<Rightarrow> nat" where "byte c \<equiv> of_char c"

definition is_digit :: "char \<Rightarrow> bool" where
  "is_digit c \<longleftrightarrow> 48 \<le> byte c \<and> byte c \<le> 57"

definition is_upper_hex :: "char \<Rightarrow> bool" where
  "is_upper_hex c \<longleftrightarrow> 65 \<le> byte c \<and> byte c \<le> 70"

definition is_lower_hex :: "char \<Rightarrow> bool" where
  "is_lower_hex c \<longleftrightarrow> 97 \<le> byte c \<and> byte c \<le> 102"

definition hex_char :: "char \<Rightarrow> bool" where
  "hex_char c \<longleftrightarrow> is_digit c \<or> is_upper_hex c \<or> is_lower_hex c"

definition hex_val :: "char \<Rightarrow> nat" where
  "hex_val c = (if is_digit c then byte c - 48
     else if is_upper_hex c then byte c - 55 else byte c - 87)"

text \<open>
  \<open>strings.IndexFunc(s, unicode.IsControl) >= 0\<close>: the control characters are U+0000 to
  U+001F, U+007F, and U+0080 to U+009F. The last ones are the byte \<open>0xC2\<close> followed by
  their low byte; \<open>0xC2\<close> never continues a character, so it always starts one.
\<close>

definition ascii_control :: "char \<Rightarrow> bool" where
  "ascii_control c \<longleftrightarrow> byte c < 32 \<or> byte c = 127"

fun has_control :: "string \<Rightarrow> bool" where
  "has_control [] = False"
| "has_control [c] = ascii_control c"
| "has_control (c # d # cs) \<longleftrightarrow>
     ascii_control c \<or> (byte c = 194 \<and> 128 \<le> byte d \<and> byte d \<le> 159) \<or> has_control (d # cs)"

definition has_prefix :: "string \<Rightarrow> string \<Rightarrow> bool" where
  "has_prefix s p \<longleftrightarrow> take (length p) s = p"

definition has_suffix :: "string \<Rightarrow> string \<Rightarrow> bool" where
  "has_suffix s p \<longleftrightarrow> length p \<le> length s \<and> drop (length s - length p) s = p"

definition trim_prefix :: "string \<Rightarrow> string \<Rightarrow> string" where
  "trim_prefix s p = (if has_prefix s p then drop (length p) s else s)"

definition trim_suffix :: "string \<Rightarrow> string \<Rightarrow> string" where
  "trim_suffix s p = (if has_suffix s p then take (length s - length p) s else s)"

text \<open>\<open>strings.Split\<close> and \<open>strings.SplitN\<close> with a one-byte separator, \<open>strings.Cut\<close>.\<close>

fun split_on :: "char \<Rightarrow> string \<Rightarrow> string list" where
  "split_on c [] = [[]]"
| "split_on c (x # xs) =
     (if x = c then [] # split_on c xs
      else case split_on c xs of [] \<Rightarrow> [[x]] | p # ps \<Rightarrow> (x # p) # ps)"

fun cut_at :: "string \<Rightarrow> string \<Rightarrow> (string \<times> string) option" where
  "cut_at sep [] = (if sep = [] then Some ([], []) else None)"
| "cut_at sep (x # xs) =
     (if has_prefix (x # xs) sep then Some ([], drop (length sep) (x # xs))
      else map_option (\<lambda>(a, b). (x # a, b)) (cut_at sep xs))"

fun split_n :: "nat \<Rightarrow> char \<Rightarrow> string \<Rightarrow> string list" where
  "split_n 0 c s = []"
| "split_n (Suc 0) c s = [s]"
| "split_n (Suc (Suc n)) c s =
     (case cut_at [c] s of None \<Rightarrow> [s] | Some (a, b) \<Rightarrow> a # split_n (Suc n) c b)"

fun contains_str :: "string \<Rightarrow> string \<Rightarrow> bool" where
  "contains_str [] p \<longleftrightarrow> p = []"
| "contains_str (x # xs) p \<longleftrightarrow> has_prefix (x # xs) p \<or> contains_str xs p"

lemma split_on_nonempty [simp]: "split_on c s \<noteq> []"
  by (induction s) (auto split: list.splits)

lemma split_on_none: "c \<notin> set s \<Longrightarrow> split_on c s = [s]"
  by (induction s) auto

lemma split_on_append: "c \<notin> set a \<Longrightarrow> split_on c (a @ c # b) = a # split_on c b"
  by (induction a) auto

lemma split_on_parts: "p \<in> set (split_on c s) \<Longrightarrow> c \<notin> set p"
  by (induction s arbitrary: p) (auto split: list.splits if_splits)

lemma split_on_length_parts: "p \<in> set (split_on c s) \<Longrightarrow> length p \<le> length s"
  by (induction s arbitrary: p) (auto split: list.splits if_splits intro: le_SucI)

text \<open>\<open>strings.LastIndexByte\<close>, as the suffix that starts at the last occurrence.\<close>

fun last_from :: "char \<Rightarrow> string \<Rightarrow> string option" where
  "last_from c [] = None"
| "last_from c (x # xs) =
     (case last_from c xs of Some t \<Rightarrow> Some t | None \<Rightarrow> if x = c then Some (x # xs) else None)"

definition is_hex :: "string \<Rightarrow> bool" where
  "is_hex s \<longleftrightarrow> s \<noteq> [] \<and> list_all hex_char s"

definition hex_value :: "string \<Rightarrow> nat" where
  "hex_value s = foldl (\<lambda>a c. 16 * a + hex_val c) 0 s"

definition dec_value :: "string \<Rightarrow> nat" where
  "dec_value s = foldl (\<lambda>a c. 10 * a + (byte c - 48)) 0 s"

text \<open>\<open>strconv.ParseUint(s, 10, bits)\<close> and \<open>strconv.ParseInt(s, 10, 64)\<close> (also \<open>Atoi\<close>).\<close>

definition parse_uint :: "nat \<Rightarrow> string \<Rightarrow> nat option" where
  "parse_uint bits s =
     (if s = [] \<or> \<not> list_all is_digit s then None
      else let v = dec_value s in if v < 2 ^ bits then Some v else None)"

definition parse_int64 :: "string \<Rightarrow> int option" where
  "parse_int64 s =
     (case s of [] \<Rightarrow> None
      | c # cs \<Rightarrow>
          (let neg = (c = CHR ''-''); body = (if neg \<or> c = CHR ''+'' then cs else s)
           in if body = [] \<or> \<not> list_all is_digit body then None
              else let v = (if neg then - int (dec_value body) else int (dec_value body))
                   in if - (2 ^ 63) \<le> v \<and> v < 2 ^ 63 then Some v else None))"

text \<open>\<open>fmt.Sprintf("%0kX", n)\<close> for \<open>n < 16 ^ k\<close>.\<close>

definition hex_digit :: "nat \<Rightarrow> char" where
  "hex_digit n = (if n < 10 then char_of (48 + n) else char_of (55 + n))"

fun hex_fixed :: "nat \<Rightarrow> nat \<Rightarrow> string" where
  "hex_fixed 0 n = []"
| "hex_fixed (Suc k) n = hex_fixed k (n div 16) @ [hex_digit (n mod 16)]"


lemma hex_fixed_length [simp, go_len]: "length (hex_fixed k n) = k"
  by (induction k arbitrary: n) auto

lemma hex_digit_small: "n < 16 \<Longrightarrow> hex_val (hex_digit n) = n \<and> hex_char (hex_digit n)"
  by (auto simp: hex_digit_def hex_val_def hex_char_def is_digit_def is_upper_hex_def)

lemma hex_fixed_hex: "list_all hex_char (hex_fixed k n)"
  by (induction k arbitrary: n) (auto simp: hex_digit_small)

lemma is_hex_hex_fixed: "0 < k \<Longrightarrow> is_hex (hex_fixed k n)"
  using hex_fixed_length [of k n] by (auto simp: is_hex_def hex_fixed_hex simp del: hex_fixed_length)

lemma hex_value_snoc: "hex_value (s @ [c]) = 16 * hex_value s + hex_val c"
  by (simp add: hex_value_def)

lemma hex_value_fixed: "n < 16 ^ k \<Longrightarrow> hex_value (hex_fixed k n) = n"
proof (induction k arbitrary: n)
  case 0
  then show ?case by (simp add: hex_value_def)
next
  case (Suc k)
  from Suc.prems have "n div 16 < 16 ^ k"
    by (simp add: div_less_iff_less_mult mult.commute)
  then have "hex_value (hex_fixed k (n div 16)) = n div 16"
    by (rule Suc.IH)
  then show ?case
    by (simp add: hex_value_snoc hex_digit_small)
qed

lemma hex_val_bound: "hex_char c \<Longrightarrow> hex_val c < 16"
  by (auto simp: hex_char_def hex_val_def is_digit_def is_upper_hex_def is_lower_hex_def)

lemma hex_value_bound: "list_all hex_char s \<Longrightarrow> hex_value s < 16 ^ length s"
proof (induction s rule: rev_induct)
  case Nil
  then show ?case by (simp add: hex_value_def)
next
  case (snoc c s)
  then have "hex_value s < 16 ^ length s" and "hex_val c < 16"
    by (auto intro: hex_val_bound)
  then show ?case by (simp add: hex_value_snoc)
qed

section \<open>Case conversion and white space\<close>

text \<open>
  \<open>strings.ToLower\<close> and \<open>strings.ToUpper\<close>. Beside the ASCII letters, the characters
  whose image is an ASCII letter are mapped: U+0130 and U+212A to lower case, U+0131 and
  U+017F to upper case. This is the one boundary of the model of texts: every other character
  outside ASCII is left as it is, while Go maps a letter to another character outside ASCII and
  replaces bytes that are not UTF-8. The tables of Unicode are not modelled. The comparisons of
  the code are with ASCII texts, which such a character never equals before or after, but a
  status or type of a backup and a host name that contain one are shown, published or hashed in
  the spelling they came in.
\<close>

definition lower_char :: "char \<Rightarrow> char" where
  "lower_char c = (if 65 \<le> byte c \<and> byte c \<le> 90 then char_of (byte c + 32) else c)"

definition upper_char :: "char \<Rightarrow> char" where
  "upper_char c = (if 97 \<le> byte c \<and> byte c \<le> 122 then char_of (byte c - 32) else c)"

fun to_lower :: "string \<Rightarrow> string" where
  "to_lower [] = []"
| "to_lower (c # cs) =
     (if has_prefix (c # cs) [CHR 0xC4, CHR 0xB0] then CHR ''i'' # to_lower (drop 1 cs)
      else if has_prefix (c # cs) [CHR 0xE2, CHR 0x84, CHR 0xAA] then CHR ''k'' # to_lower (drop 2 cs)
      else lower_char c # to_lower cs)"

fun to_upper :: "string \<Rightarrow> string" where
  "to_upper [] = []"
| "to_upper (c # cs) =
     (if has_prefix (c # cs) [CHR 0xC4, CHR 0xB1] then CHR ''I'' # to_upper (drop 1 cs)
      else if has_prefix (c # cs) [CHR 0xC5, CHR 0xBF] then CHR ''S'' # to_upper (drop 1 cs)
      else upper_char c # to_upper cs)"

text \<open>
  \<open>strings.EqualFold\<close> where one side is a hexadecimal number or the word \<open>none\<close>: no
  character outside ASCII folds to one of those letters, so the fold is the ASCII one.
\<close>

definition equal_fold :: "string \<Rightarrow> string \<Rightarrow> bool" where
  "equal_fold a b \<longleftrightarrow> map lower_char a = map lower_char b"

text \<open>
  \<open>strings.TrimSpace\<close>: the white space characters of \<open>unicode.IsSpace\<close>, by their UTF-8
  encodings. The first byte of an encoding always starts a character, so a string begins (or
  ends) with such a character exactly if it begins (or ends) with those bytes.
\<close>

definition space_codes :: "string list" where
  "space_codes =
     [[CHR 0x09], [CHR 0x0A], [CHR 0x0B], [CHR 0x0C], [CHR 0x0D], [CHR 0x20],
      [CHR 0xC2, CHR 0x85], [CHR 0xC2, CHR 0xA0], [CHR 0xE1, CHR 0x9A, CHR 0x80],
      [CHR 0xE2, CHR 0x80, CHR 0x80], [CHR 0xE2, CHR 0x80, CHR 0x81],
      [CHR 0xE2, CHR 0x80, CHR 0x82], [CHR 0xE2, CHR 0x80, CHR 0x83],
      [CHR 0xE2, CHR 0x80, CHR 0x84], [CHR 0xE2, CHR 0x80, CHR 0x85],
      [CHR 0xE2, CHR 0x80, CHR 0x86], [CHR 0xE2, CHR 0x80, CHR 0x87],
      [CHR 0xE2, CHR 0x80, CHR 0x88], [CHR 0xE2, CHR 0x80, CHR 0x89],
      [CHR 0xE2, CHR 0x80, CHR 0x8A], [CHR 0xE2, CHR 0x80, CHR 0xA8],
      [CHR 0xE2, CHR 0x80, CHR 0xA9], [CHR 0xE2, CHR 0x80, CHR 0xAF],
      [CHR 0xE2, CHR 0x81, CHR 0x9F], [CHR 0xE3, CHR 0x80, CHR 0x80]]"

definition leading_space :: "string \<Rightarrow> nat" where
  "leading_space s = (case find (has_prefix s) space_codes of None \<Rightarrow> 0 | Some p \<Rightarrow> length p)"

definition trailing_space :: "string \<Rightarrow> nat" where
  "trailing_space s = (case find (has_suffix s) space_codes of None \<Rightarrow> 0 | Some p \<Rightarrow> length p)"

lemma leading_space_le: "leading_space s \<le> length s"
  by (auto simp: leading_space_def find_Some_iff has_prefix_def split: option.splits)
    (metis length_take min.cobounded1)

lemma trailing_space_le: "trailing_space s \<le> length s"
  by (auto simp: trailing_space_def find_Some_iff has_suffix_def split: option.splits)

function trim_left :: "string \<Rightarrow> string" where
  "trim_left s = (if leading_space s = 0 then s else trim_left (drop (leading_space s) s))"
  by pat_completeness auto
termination
proof (relation "measure length")
  fix s :: string
  assume "leading_space s \<noteq> 0"
  then show "(drop (leading_space s) s, s) \<in> measure length"
    using leading_space_le [of s] by simp
qed simp

function trim_right :: "string \<Rightarrow> string" where
  "trim_right s =
     (if trailing_space s = 0 then s else trim_right (take (length s - trailing_space s) s))"
  by pat_completeness auto
termination
proof (relation "measure length")
  fix s :: string
  assume "trailing_space s \<noteq> 0"
  then show "(take (length s - trailing_space s) s, s) \<in> measure length"
    using trailing_space_le [of s] by simp
qed simp

declare trim_left.simps [simp del] trim_right.simps [simp del]

definition trim_space :: "string \<Rightarrow> string" where
  "trim_space s = trim_right (trim_left s)"

lemma trim_left_length: "length (trim_left s) \<le> length s"
proof (induction s rule: trim_left.induct)
  case (1 s)
  then show ?case by (cases "leading_space s = 0") (auto simp: trim_left.simps [of s])
qed

lemma trim_right_length: "length (trim_right s) \<le> length s"
proof (induction s rule: trim_right.induct)
  case (1 s)
  then show ?case by (cases "trailing_space s = 0") (auto simp: trim_right.simps [of s])
qed

lemma trim_space_length [go_len]: "length (trim_space s) \<le> length s"
  unfolding trim_space_def by (rule le_trans [OF trim_right_length trim_left_length])

text \<open>\<open>path.Base\<close>: the last element of a slash-separated path.\<close>

definition path_base :: "string \<Rightarrow> string" where
  "path_base s =
     (if s = [] then ''.''
      else let t = rev (dropWhile (\<lambda>c. c = CHR ''/'') (rev s));
               b = rev (takeWhile (\<lambda>c. c \<noteq> CHR ''/'') (rev t))
           in if b = [] then ''/'' else b)"

text \<open>
  \<open>bufio.Scanner\<close> over lines with a buffer of at most \<open>maximum\<close> bytes: the lines up to
  the first one that does not fit (a line of \<open>maximum\<close> bytes or more, its newline not
  counted), and whether there was one. A trailing carriage return is dropped, an empty last
  line is not reported.
\<close>

definition drop_cr :: "string \<Rightarrow> string" where
  "drop_cr s = (if s \<noteq> [] \<and> byte (last s) = 13 then butlast s else s)"

definition raw_lines :: "string \<Rightarrow> string list" where
  "raw_lines s = (let ls = split_on (CHR 0x0A) s
     in if last ls = [] then butlast ls else ls)"

definition scan_lines :: "nat \<Rightarrow> string \<Rightarrow> string list \<times> bool" where
  "scan_lines maximum s =
     (let ls = raw_lines s; ok = takeWhile (\<lambda>l. length l < maximum) ls
      in (map drop_cr ok, length ok < length ls))"

section \<open>Maps\<close>

text \<open>
  A Go map that is only filled key by key and then iterated is an association list in the
  order its keys first appear. Go iterates in an order of its own, so what the code computes
  from such a map must not depend on the order; the sorting lemma below is how it does not.
\<close>

fun group_add :: "'k \<Rightarrow> 'a \<Rightarrow> ('k \<times> 'a list) list \<Rightarrow> ('k \<times> 'a list) list" where
  "group_add k v [] = [(k, [v])]"
| "group_add k v ((k', vs) # rest) =
     (if k' = k then (k', vs @ [v]) # rest else (k', vs) # group_add k v rest)"

fun assoc_set :: "'k \<Rightarrow> 'v \<Rightarrow> ('k \<times> 'v) list \<Rightarrow> ('k \<times> 'v) list" where
  "assoc_set k v [] = [(k, v)]"
| "assoc_set k v ((k', w) # rest) = (if k' = k then (k', v) # rest else (k', w) # assoc_set k v rest)"

lemma map_of_assoc_set: "map_of (assoc_set k v al) = (map_of al)(k \<mapsto> v)"
  by (induction k v al rule: assoc_set.induct) (auto simp: fun_eq_iff)

lemma dom_assoc_set: "fst ` set (assoc_set k v al) = insert k (fst ` set al)"
  by (induction k v al rule: assoc_set.induct) auto

lemma distinct_assoc_set: "distinct (map fst al) \<Longrightarrow> distinct (map fst (assoc_set k v al))"
  by (induction k v al rule: assoc_set.induct) (auto simp: dom_assoc_set)

lemma set_assoc_set: "set (assoc_set k v al) \<subseteq> insert (k, v) (set al)"
  by (induction k v al rule: assoc_set.induct) auto

lemma dom_group_add: "fst ` set (group_add k v al) = insert k (fst ` set al)"
  by (induction k v al rule: group_add.induct) auto

lemma distinct_group_add: "distinct (map fst al) \<Longrightarrow> distinct (map fst (group_add k v al))"
  by (induction k v al rule: group_add.induct) (auto simp: dom_group_add)

lemma map_of_group_add:
  "map_of (group_add k v al) =
     (map_of al)(k \<mapsto> (case map_of al k of None \<Rightarrow> [v] | Some vs \<Rightarrow> vs @ [v]))"
  by (induction k v al rule: group_add.induct) (auto simp: fun_eq_iff)

lemma map_of_eq_mset:
  assumes "distinct (map fst xs)" "distinct (map fst ys)" "map_of xs = map_of ys"
  shows "mset xs = mset ys"
proof -
  have "set xs = set ys"
    using assms by (metis map_of_inject_set)
  then show ?thesis
    using assms by (metis distinct_map set_eq_iff_mset_eq_distinct)
qed

text \<open>\<open>sort.Slice\<close> by a key that no two elements share has one result, whatever the input order.\<close>

lemma sort_key_order_independent:
  assumes "mset xs = mset ys" and "inj_on f (set xs)"
  shows "sort_key f xs = sort_key f ys"
  by (rule sort_key_inj_key_eq) (use assms in simp_all)

lemma strict_sorted_sort_key:
  assumes "inj_on f (set xs)" "distinct xs"
  shows "sorted_wrt (\<lambda>a b. f a < f b) (sort_key f xs)"
proof -
  have "distinct (map f (sort_key f xs))" using assms by (simp add: distinct_map)
  then have "sorted_wrt (<) (map f (sort_key f xs))" by (simp add: strict_sorted_iff)
  then show ?thesis by (simp add: sorted_wrt_map)
qed

lemma distinct_map_inj: "distinct (map f xs) \<Longrightarrow> inj_on f (set xs) \<and> distinct xs"
  by (simp add: distinct_map)

end
