(* ===== verification/Evidence.thy ===== *)
theory Evidence
  imports Prelude
begin

text \<open>
  The common evidence envelope (\<open>internal/evidence/evidence.go\<close>), its four-state
  vocabulary (\<open>api/evidence/v1alpha1/types.go\<close>) and the failure vocabulary
  (\<open>internal/fault/fault.go\<close>).

  Each string-based enumeration of the source is a datatype with the source's constants and
  one more constructor for every other string, so that the validators have something to
  reject. Capability identifiers stay strings, because the code orders and compares them as
  such. The order on states is their severity: the roll-ups of the scanner and of the
  recovery analysis take its maximum, which the locale \<open>state_rollup\<close> states once for
  both.
\<close>

section \<open>Vocabulary\<close>

datatype state = Healthy | Warning | Unhealthy | Unknown | OtherState string

fun state_text :: "state \<Rightarrow> string" where
  "state_text Healthy = ''healthy''"
| "state_text Warning = ''warning''"
| "state_text Unhealthy = ''unhealthy''"
| "state_text Unknown = ''unknown''"
| "state_text (OtherState s) = s"

datatype support = Supported | Unsupported | SupportUnknown | OtherSupport string

datatype completeness = Complete | Incomplete | Unscanned | OtherCompleteness string

type_synonym capability_id = string

definition ObjectInventory :: capability_id where "ObjectInventory = ''object-inventory''"
definition CatalogListing :: capability_id where "CatalogListing = ''catalog-listing''"
definition StructuralValidation :: capability_id where
  "StructuralValidation = ''structural-artifact-validation''"
definition DependencyValidation :: capability_id where
  "DependencyValidation = ''dependency-chain-validation''"
definition WALContinuity :: capability_id where "WALContinuity = ''wal-continuity''"
definition TimelineTraversal :: capability_id where
  "TimelineTraversal = ''timeline-history-traversal''"
definition EncryptedMetadata :: capability_id where "EncryptedMetadata = ''encrypted-metadata''"
definition RecoveryCoverage :: capability_id where
  "RecoveryCoverage = ''observed-recovery-coverage''"
definition RetentionExpectation :: capability_id where
  "RetentionExpectation = ''retention-expectation-comparison''"

lemmas capability_id_defs = ObjectInventory_def CatalogListing_def StructuralValidation_def
  DependencyValidation_def WALContinuity_def TimelineTraversal_def EncryptedMetadata_def
  RecoveryCoverage_def RetentionExpectation_def

section \<open>Severity order\<close>

fun severity :: "state \<Rightarrow> nat" where
  "severity Healthy = 0"
| "severity Warning = 1"
| "severity Unhealthy = 2"
| "severity Unknown = 3"
| "severity (OtherState s) = 4"

lemma severity_text_inj: "severity a = severity b \<Longrightarrow> state_text a = state_text b \<Longrightarrow> a = b"
  by (cases a; cases b) auto

instantiation state :: linorder
begin

definition less_eq_state :: "state \<Rightarrow> state \<Rightarrow> bool" where
  "less_eq_state a b \<longleftrightarrow>
     severity a < severity b \<or> (severity a = severity b \<and> state_text a \<le> state_text b)"

definition less_state :: "state \<Rightarrow> state \<Rightarrow> bool" where
  "less_state a b \<longleftrightarrow> a \<le> b \<and> \<not> b \<le> (a :: state)"

instance
proof
  fix a b c :: state
  show "(a < b) = (a \<le> b \<and> \<not> b \<le> a)" by (simp add: less_state_def)
  show "a \<le> a" by (simp add: less_eq_state_def)
  show "a \<le> b \<Longrightarrow> b \<le> c \<Longrightarrow> a \<le> c" by (auto simp: less_eq_state_def)
  show "a \<le> b \<Longrightarrow> b \<le> a \<Longrightarrow> a = b"
    by (auto simp: less_eq_state_def intro: severity_text_inj)
  show "a \<le> b \<or> b \<le> a" by (auto simp: less_eq_state_def)
qed

end

definition valid_state :: "state \<Rightarrow> bool" where
  "valid_state s \<longleftrightarrow> s = Healthy \<or> s = Warning \<or> s = Unhealthy \<or> s = Unknown"

definition valid_support :: "support \<Rightarrow> bool" where
  "valid_support s \<longleftrightarrow> s = Supported \<or> s = Unsupported \<or> s = SupportUnknown"

lemma valid_state_simps [simp]:
  "valid_state Healthy" "valid_state Warning" "valid_state Unhealthy" "valid_state Unknown"
  "\<not> valid_state (OtherState s)"
  by (simp_all add: valid_state_def)

lemma valid_stateE:
  "valid_state s \<Longrightarrow> (s = Healthy \<Longrightarrow> P) \<Longrightarrow> (s = Warning \<Longrightarrow> P) \<Longrightarrow> (s = Unhealthy \<Longrightarrow> P) \<Longrightarrow> (s = Unknown \<Longrightarrow> P) \<Longrightarrow> P"
  by (auto simp: valid_state_def)

lemma Healthy_least: "Healthy \<le> s"
  by (cases s) (auto simp: less_eq_state_def)

lemma le_Healthy_iff [simp]: "s \<le> Healthy \<longleftrightarrow> s = Healthy"
  by (cases s) (auto simp: less_eq_state_def)

lemma Unknown_greatest: "valid_state s \<Longrightarrow> s \<le> Unknown"
  by (auto simp: valid_state_def less_eq_state_def)

text \<open>
  The contract of the two conservative joins of the source: on the four states the join is
  the more severe one. What a roll-up over several results says follows from it.
\<close>

locale state_rollup =
  fixes join :: "state \<Rightarrow> state \<Rightarrow> state"
  assumes join_max: "valid_state a \<Longrightarrow> valid_state b \<Longrightarrow> join a b = max a b"
begin

definition rollup :: "state \<Rightarrow> state list \<Rightarrow> state" where
  "rollup a xs = foldl join a xs"

lemma rollup_Nil [simp]: "rollup a [] = a"
  by (simp add: rollup_def)

lemma rollup_Cons [simp]: "rollup a (x # xs) = rollup (join a x) xs"
  by (simp add: rollup_def)

lemma join_valid: "valid_state a \<Longrightarrow> valid_state b \<Longrightarrow> valid_state (join a b)"
  by (auto simp: join_max max_def)

lemma rollup_valid: "valid_state a \<Longrightarrow> \<forall>x\<in>set xs. valid_state x \<Longrightarrow> valid_state (rollup a xs)"
  by (induction xs arbitrary: a) (auto simp: join_valid)

lemma rollup_Max:
  "valid_state a \<Longrightarrow> \<forall>x\<in>set xs. valid_state x \<Longrightarrow> rollup a xs = Max (insert a (set xs))"
proof (induction xs arbitrary: a)
  case Nil
  then show ?case by simp
next
  case (Cons x xs)
  then have "rollup (join a x) xs = Max (insert (max a x) (set xs))"
    by (simp add: join_max join_valid max_def)
  then show ?case
    by (cases "xs = []") (simp_all add: ac_simps)
qed

lemma rollup_upper:
  "valid_state a \<Longrightarrow> \<forall>x\<in>set xs. valid_state x \<Longrightarrow> y \<in> insert a (set xs) \<Longrightarrow> y \<le> rollup a xs"
  by (simp add: rollup_Max del: Max_insert)

lemma rollup_Healthy_iff:
  "valid_state a \<Longrightarrow> \<forall>x\<in>set xs. valid_state x \<Longrightarrow>
   rollup a xs = Healthy \<longleftrightarrow> a = Healthy \<and> (\<forall>x\<in>set xs. x = Healthy)"
  using rollup_upper [of a xs]
  by (induction xs arbitrary: a) (auto simp: join_max max_def join_valid split: if_splits)

lemma rollup_mem:
  "valid_state a \<Longrightarrow> \<forall>x\<in>set xs. valid_state x \<Longrightarrow> rollup a xs \<in> insert a (set xs)"
  using Max_in [of "insert a (set xs)"] by (simp add: rollup_Max del: Max_insert)

lemma rollup_Unknown_iff:
  "valid_state a \<Longrightarrow> \<forall>x\<in>set xs. valid_state x \<Longrightarrow>
   rollup a xs = Unknown \<longleftrightarrow> Unknown \<in> insert a (set xs)"
  using rollup_mem [of a xs] rollup_upper [of a xs Unknown] rollup_valid [of a xs]
    Unknown_greatest [of "rollup a xs"] by (metis order_antisym)

end

section \<open>The envelope\<close>

record capability =
  cap_id :: capability_id
  cap_support :: support
  cap_state :: state
  cap_reason :: string

record evidence_scope =
  scope_kind :: string
  scope_name :: string

record evidence_snapshot =
  es_format :: string
  es_compatibility :: state
  es_scope :: evidence_scope
  es_generation :: u64
  es_started :: gotime
  es_completed :: gotime
  es_completeness :: completeness
  es_stale :: bool
  es_state :: state
  es_reason :: string
  es_capabilities :: "capability list"

definition initial_capability :: "capability_id \<Rightarrow> capability" where
  "initial_capability c =
     \<lparr>cap_id = c, cap_support = SupportUnknown, cap_state = Unknown,
      cap_reason = ''no completed scan''\<rparr>"

text \<open>
  \<open>slices.SortFunc\<close> is not stable; capabilities with one identifier are equal here, so
  every sort gives this list.
\<close>

definition initial_snapshot :: "string \<Rightarrow> string \<Rightarrow> capability_id list \<Rightarrow> evidence_snapshot" where
  "initial_snapshot format kind capabilities =
     \<lparr>es_format = format, es_compatibility = Unknown,
      es_scope = \<lparr>scope_kind = kind, scope_name = []\<rparr>,
      es_generation = 0, es_started = zero_time, es_completed = zero_time,
      es_completeness = Unscanned, es_stale = False, es_state = Unknown,
      es_reason = ''no completed scan'',
      es_capabilities = sort_key cap_id (map initial_capability capabilities)\<rparr>"

definition invalid_text :: "string \<Rightarrow> nat \<Rightarrow> bool" where
  "invalid_text value maximum \<longleftrightarrow> value = [] \<or> maximum < length value \<or> has_control value"

fun validate_capabilities :: "capability_id list \<Rightarrow> capability list \<Rightarrow> string option" where
  "validate_capabilities seen [] = None"
| "validate_capabilities seen (c # cs) =
     (if invalid_text (cap_id c) 128 \<or> \<not> valid_state (cap_state c)
         \<or> \<not> valid_support (cap_support c) \<or> invalid_text (cap_reason c) 256
      then Some ''evidence envelope contains an invalid capability''
      else if cap_support c \<noteq> Supported \<and> cap_state c \<noteq> Unknown
      then Some (''capability '' @ cap_id c @ '' must be unknown without proven support'')
      else if cap_id c \<in> set seen then Some (''duplicate capability '' @ cap_id c)
      else validate_capabilities (cap_id c # seen) cs)"

definition validate_evidence :: "evidence_snapshot \<Rightarrow> string option" where
  "validate_evidence s =
     (if invalid_text (es_format s) 128 \<or> invalid_text (scope_kind (es_scope s)) 128
         \<or> 256 < length (scope_name (es_scope s)) \<or> has_control (scope_name (es_scope s))
      then Some ''evidence envelope requires format and scope kind''
      else if \<not> valid_state (es_state s) \<or> \<not> valid_state (es_compatibility s)
      then Some ''evidence envelope contains an invalid state''
      else if es_completeness s \<noteq> Complete \<and> es_completeness s \<noteq> Incomplete
         \<and> es_completeness s \<noteq> Unscanned
      then Some ''evidence envelope contains invalid completeness''
      else if es_completeness s \<noteq> Complete \<and> es_state s = Healthy
      then Some ''incomplete evidence cannot be healthy''
      else if es_completeness s = Unscanned \<and> es_state s \<noteq> Unknown
      then Some ''unscanned evidence must be unknown''
      else if invalid_text (es_reason s) 256
      then Some ''evidence envelope reason must be bounded''
      else validate_capabilities [] (es_capabilities s))"

definition capability_ok :: "capability \<Rightarrow> bool" where
  "capability_ok c \<longleftrightarrow> \<not> invalid_text (cap_id c) 128 \<and> valid_state (cap_state c)
     \<and> valid_support (cap_support c) \<and> \<not> invalid_text (cap_reason c) 256
     \<and> (cap_support c = Supported \<or> cap_state c = Unknown)"

lemma validate_capabilities_iff:
  "validate_capabilities seen cs = None \<longleftrightarrow>
     (\<forall>c\<in>set cs. capability_ok c) \<and> distinct (map cap_id cs)
     \<and> cap_id ` set cs \<inter> set seen = {}"
  by (induction cs arbitrary: seen) (auto simp: capability_ok_def)

lemma validate_evidence_iff:
  "validate_evidence s = None \<longleftrightarrow>
     \<not> invalid_text (es_format s) 128 \<and> \<not> invalid_text (scope_kind (es_scope s)) 128
     \<and> length (scope_name (es_scope s)) \<le> 256 \<and> \<not> has_control (scope_name (es_scope s))
     \<and> valid_state (es_state s) \<and> valid_state (es_compatibility s)
     \<and> es_completeness s \<in> {Complete, Incomplete, Unscanned}
     \<and> (es_state s = Healthy \<longrightarrow> es_completeness s = Complete)
     \<and> (es_completeness s = Unscanned \<longrightarrow> es_state s = Unknown)
     \<and> \<not> invalid_text (es_reason s) 256
     \<and> (\<forall>c\<in>set (es_capabilities s). capability_ok c)
     \<and> distinct (map cap_id (es_capabilities s))"
  by (auto simp: validate_evidence_def validate_capabilities_iff)

lemma set_initial_capabilities:
  "set (es_capabilities (initial_snapshot f k caps)) = initial_capability ` set caps"
  by (simp add: initial_snapshot_def)

lemma map_cap_id_initial:
  "map cap_id (es_capabilities (initial_snapshot f k caps)) = sort caps"
proof (rule properties_for_sort [symmetric])
  show "mset (map cap_id (es_capabilities (initial_snapshot f k caps))) = mset caps"
    by (simp add: initial_snapshot_def initial_capability_def image_mset.compositionality comp_def)
  show "sorted (map cap_id (es_capabilities (initial_snapshot f k caps)))"
    by (simp add: initial_snapshot_def)
qed


section \<open>Properties\<close>

text \<open>
  What a valid evidence envelope promises, for every consumer of the API: healthy only
  with a complete scan, unknown when unscanned, no capability better than unknown without
  proven support, no capability twice, and only bounded text.
\<close>

lemma validate_evidence_exact:
  "validate_evidence s = None \<longleftrightarrow>
     \<not> invalid_text (es_format s) 128 \<and> \<not> invalid_text (scope_kind (es_scope s)) 128
     \<and> length (scope_name (es_scope s)) \<le> 256 \<and> \<not> has_control (scope_name (es_scope s))
     \<and> valid_state (es_state s) \<and> valid_state (es_compatibility s)
     \<and> es_completeness s \<in> {Complete, Incomplete, Unscanned}
     \<and> (es_state s \<noteq> Healthy \<or> es_completeness s = Complete)
     \<and> (es_completeness s \<noteq> Unscanned \<or> es_state s = Unknown)
     \<and> \<not> invalid_text (es_reason s) 256
     \<and> list_all capability_ok (es_capabilities s)
     \<and> distinct (map cap_id (es_capabilities s))"
  by (auto simp: validate_evidence_iff list_all_iff)

lemma validate_evidence_exact_witness:
  "validate_evidence (initial_snapshot ''barman-cloud'' ''server'' [WALContinuity]) = None"
  unfolding validate_evidence_exact
  by (simp add: initial_snapshot_def initial_capability_def capability_ok_def invalid_text_def
      capability_id_defs valid_state_def valid_support_def zero_time_def ascii_control_def)

end
