(* ===== verification/Store_Repo.thy ===== *)
theory Store_Repo
  imports Evidence
begin

text \<open>
  The read-only store boundary (\<open>internal/store/readstore.go\<close>), the error categories
  (\<open>internal/fault/fault.go\<close>), the format registry (\<open>internal/repository/registry.go\<close>)
  and the scope matchers of the two formats (\<open>internal/formats/barmancloud/format.go\<close>,
  \<open>internal/formats/pgbackrest/format.go\<close>).

  The formats and matchers are interface values in the source; here they are the variants of
  a datatype, and a method call is a case distinction. What the scanner relies on when it
  calls a matcher is the locale \<open>scope_matching\<close>, interpreted on the matchers of the model.
\<close>

section \<open>Failure categories and errors\<close>

datatype fault = FaultNone | FaultUnknown | Canceled | Timeout | InvalidConfig | Authentication
  | Authorization | Throttled | Unavailable | NotFound | Incompatible | SafetyLimit

fun fault_text :: "fault \<Rightarrow> string" where
  "fault_text FaultNone = ''''"
| "fault_text FaultUnknown = ''unknown''"
| "fault_text Canceled = ''canceled''"
| "fault_text Timeout = ''timeout''"
| "fault_text InvalidConfig = ''invalid_configuration''"
| "fault_text Authentication = ''authentication''"
| "fault_text Authorization = ''authorization''"
| "fault_text Throttled = ''throttled''"
| "fault_text Unavailable = ''unavailable''"
| "fault_text NotFound = ''not_found''"
| "fault_text Incompatible = ''incompatible_format''"
| "fault_text SafetyLimit = ''safety_limit''"

text \<open>
  An error value, as far as the code looks at one: whether \<open>errors.Is\<close> finds
  \<open>context.Canceled\<close> or \<open>context.DeadlineExceeded\<close> in it, and the category that
  \<open>errors.As\<close> finds. \<open>None\<close> of type \<open>go_error option\<close> is the nil error.
\<close>

record go_error =
  err_canceled :: bool
  err_deadline :: bool
  err_category :: "fault option"

definition plain_error :: go_error where
  "plain_error = \<lparr>err_canceled = False, err_deadline = False, err_category = None\<rparr>"

definition scan_error :: "fault \<Rightarrow> go_error" where
  "scan_error kind = \<lparr>err_canceled = False, err_deadline = False, err_category = Some kind\<rparr>"

definition categorize :: "go_error option \<Rightarrow> fault" where
  "categorize err =
     (case err of None \<Rightarrow> FaultUnknown
      | Some e \<Rightarrow> if err_canceled e then Canceled
          else if err_deadline e then Timeout
          else case err_category e of Some c \<Rightarrow> c | None \<Rightarrow> FaultUnknown)"

section \<open>The store boundary\<close>

definition MaxPageObjects :: int where "MaxPageObjects = 1000"
definition MaxKeyBytes :: nat where "MaxKeyBytes = 16384"
definition MaxCursorBytes :: nat where "MaxCursorBytes = 16384"

record object =
  ob_key :: string
  ob_size :: int
  ob_last_modified :: gotime
  ob_etag :: string

record list_request =
  lr_prefix :: string
  lr_cursor :: string
  lr_limit :: int

record page =
  pg_objects :: "object list"
  pg_next_cursor :: string

record open_request =
  or_key :: string
  or_max_bytes :: int

record stat_request =
  sr_key :: string

definition validate_list_request :: "list_request \<Rightarrow> string option" where
  "validate_list_request r =
     (if lr_limit r < 1 \<or> MaxPageObjects < lr_limit r \<or> MaxKeyBytes < length (lr_prefix r)
         \<or> MaxCursorBytes < length (lr_cursor r)
      then Some ''invalid bounded read-store request'' else None)"

definition validate_open_request :: "open_request \<Rightarrow> string option" where
  "validate_open_request r =
     (if or_key r = [] \<or> MaxKeyBytes < length (or_key r) \<or> or_max_bytes r < 1
      then Some ''invalid bounded read-store request'' else None)"

definition validate_stat_request :: "stat_request \<Rightarrow> string option" where
  "validate_stat_request r =
     (if sr_key r = [] \<or> MaxKeyBytes < length (sr_key r)
      then Some ''invalid bounded read-store request'' else None)"

text \<open>
  A reader is what an adapter (provider code over an SDK that is not in the repository)
  answers. A listing may answer differently from call to call, so its first argument is the
  number of the call. \<open>rd_open\<close> gives the bytes the opened stream yields, or says whether
  opening it or reading it failed.
\<close>

datatype opened = OpenFailed | ReadFailed | Content string

record reader =
  rd_list :: "nat \<Rightarrow> list_request \<Rightarrow> go_error + page"
  rd_open :: "open_request \<Rightarrow> opened"
  rd_stat :: "stat_request \<Rightarrow> go_error + object"

section \<open>Descriptors, formats and matchers\<close>

record descriptor =
  d_id :: string
  d_display_name :: string
  d_scope_kind :: string
  d_capabilities :: "capability_id list"

record scope_match =
  sm_name :: string
  sm_recognized :: bool

datatype scope_matcher =
    BarmanMatcher "string list" "string set"
  | PgBackRestMatcher "string list" "string set"
  | StaticMatcher "string list"

datatype repo_format = BarmanFormat | PgBackRestFormat | StaticFormat descriptor

definition barman_capabilities :: "capability_id list" where
  "barman_capabilities =
     [ObjectInventory, CatalogListing, StructuralValidation, DependencyValidation, WALContinuity,
      TimelineTraversal, EncryptedMetadata, RecoveryCoverage, RetentionExpectation]"

definition pgbackrest_capabilities :: "capability_id list" where
  "pgbackrest_capabilities =
     [ObjectInventory, CatalogListing, StructuralValidation, DependencyValidation, WALContinuity,
      TimelineTraversal, EncryptedMetadata, RecoveryCoverage, RetentionExpectation]"

definition barman_descriptor :: descriptor where
  "barman_descriptor =
     \<lparr>d_id = ''barman-cloud'', d_display_name = ''Barman Cloud'', d_scope_kind = ''server'',
      d_capabilities = barman_capabilities\<rparr>"

definition pgbackrest_descriptor :: descriptor where
  "pgbackrest_descriptor =
     \<lparr>d_id = ''pgbackrest'', d_display_name = ''pgBackRest'', d_scope_kind = ''stanza'',
      d_capabilities = pgbackrest_capabilities\<rparr>"

fun format_descriptor :: "repo_format \<Rightarrow> descriptor" where
  "format_descriptor BarmanFormat = barman_descriptor"
| "format_descriptor PgBackRestFormat = pgbackrest_descriptor"
| "format_descriptor (StaticFormat d) = d"

definition valid_discovered_name :: "string \<Rightarrow> bool" where
  "valid_discovered_name name \<longleftrightarrow>
     name \<noteq> [] \<and> name \<noteq> ''.'' \<and> name \<noteq> ''..'' \<and> length name \<le> 128
     \<and> CHR ''/'' \<notin> set name \<and> CHR 0x5C \<notin> set name \<and> \<not> has_control name"

definition pg_valid_discovered_name :: "string \<Rightarrow> bool" where
  "pg_valid_discovered_name name \<longleftrightarrow>
     name \<noteq> [] \<and> name \<noteq> ''.'' \<and> name \<noteq> ''..'' \<and> length name \<le> 128
     \<and> CHR ''/'' \<notin> set name \<and> CHR 0x5C \<notin> set name \<and> \<not> has_control name"

text \<open>The loop over the configured names, with the messages of either format.\<close>

fun configured_set ::
  "(string \<Rightarrow> bool) \<Rightarrow> string \<Rightarrow> string \<Rightarrow> string set \<Rightarrow> string list \<Rightarrow> string set result" where
  "configured_set valid bad dup seen [] = Inr seen"
| "configured_set valid bad dup seen (n # ns) =
     (if \<not> valid n then Inl bad
      else if n \<in> seen then Inl dup
      else configured_set valid bad dup (insert n seen) ns)"

definition barman_new_matcher :: "string list \<Rightarrow> scope_matcher result" where
  "barman_new_matcher configured =
     (case configured_set valid_discovered_name
         ''barman-cloud scope matcher: invalid configured server''
         ''barman-cloud scope matcher: duplicate configured server'' {} configured of
        Inl e \<Rightarrow> Inl e | Inr s \<Rightarrow> Inr (BarmanMatcher configured s))"

definition pgbackrest_new_matcher :: "string list \<Rightarrow> scope_matcher result" where
  "pgbackrest_new_matcher configured =
     (case configured_set pg_valid_discovered_name
         ''pgbackrest scope matcher: invalid configured stanza''
         ''pgbackrest scope matcher: duplicate configured stanza'' {} configured of
        Inl e \<Rightarrow> Inl e | Inr s \<Rightarrow> Inr (PgBackRestMatcher configured s))"

fun new_scope_matcher :: "repo_format \<Rightarrow> string list \<Rightarrow> scope_matcher result" where
  "new_scope_matcher BarmanFormat configured = barman_new_matcher configured"
| "new_scope_matcher PgBackRestFormat configured = pgbackrest_new_matcher configured"
| "new_scope_matcher (StaticFormat d) configured = Inr (StaticMatcher configured)"

fun initial_scopes :: "scope_matcher \<Rightarrow> string list" where
  "initial_scopes (BarmanMatcher c s) = c"
| "initial_scopes (PgBackRestMatcher c s) = c"
| "initial_scopes (StaticMatcher c) = c"

definition barman_match :: "string list \<Rightarrow> string set \<Rightarrow> string \<Rightarrow> scope_match option" where
  "barman_match configured cset key =
     (let parts = split_n 3 (CHR ''/'') key in
      if length parts < 2 \<or> \<not> valid_discovered_name (parts ! 0) then None
      else let recognized = (length parts = 3 \<and> parts ! 2 \<noteq> []
                 \<and> (parts ! 1 = ''base'' \<or> parts ! 1 = ''wals''))
           in if configured \<noteq> [] then
                (if parts ! 0 \<notin> cset then None
                 else Some \<lparr>sm_name = parts ! 0, sm_recognized = recognized\<rparr>)
              else if \<not> recognized then None
              else Some \<lparr>sm_name = parts ! 0, sm_recognized = True\<rparr>)"

definition pgbackrest_match :: "string list \<Rightarrow> string set \<Rightarrow> string \<Rightarrow> scope_match option" where
  "pgbackrest_match configured cset key =
     (let parts = split_n 3 (CHR ''/'') key in
      if length parts \<noteq> 3 \<or> parts ! 2 = [] \<or> (parts ! 0 \<noteq> ''backup'' \<and> parts ! 0 \<noteq> ''archive'')
         \<or> \<not> pg_valid_discovered_name (parts ! 1) then None
      else if configured \<noteq> [] \<and> parts ! 1 \<notin> cset then None
      else Some \<lparr>sm_name = parts ! 1, sm_recognized = True\<rparr>)"

fun match_scope :: "scope_matcher \<Rightarrow> string \<Rightarrow> scope_match option" where
  "match_scope (BarmanMatcher c s) key = barman_match c s key"
| "match_scope (PgBackRestMatcher c s) key = pgbackrest_match c s key"
| "match_scope (StaticMatcher c) key = None"

section \<open>The matcher contract\<close>

locale scope_matching =
  fixes initial :: "'m \<Rightarrow> string list"
    and matches :: "'m \<Rightarrow> string \<Rightarrow> scope_match option"
    and wf :: "'m \<Rightarrow> bool"
  assumes initial_valid: "wf m \<Longrightarrow> n \<in> set (initial m) \<Longrightarrow> valid_discovered_name n"
    and initial_distinct: "wf m \<Longrightarrow> distinct (initial m)"
    and match_valid: "wf m \<Longrightarrow> matches m key = Some r \<Longrightarrow> valid_discovered_name (sm_name r)"
    and match_confined:
      "wf m \<Longrightarrow> initial m \<noteq> [] \<Longrightarrow> matches m key = Some r \<Longrightarrow> sm_name r \<in> set (initial m)"
begin

text \<open>The scopes a listing can name, and that every one of them is valid.\<close>

definition scopes_of :: "'m \<Rightarrow> string list \<Rightarrow> string set" where
  "scopes_of m keys = set (initial m) \<union> {sm_name r | r k. k \<in> set keys \<and> matches m k = Some r}"

lemma scopes_of_valid: "wf m \<Longrightarrow> n \<in> scopes_of m keys \<Longrightarrow> valid_discovered_name n"
  by (auto simp: scopes_of_def initial_valid match_valid)

lemma scopes_of_confined: "wf m \<Longrightarrow> initial m \<noteq> [] \<Longrightarrow> scopes_of m keys = set (initial m)"
  by (auto simp: scopes_of_def match_confined)

end

fun matcher_wf :: "scope_matcher \<Rightarrow> bool" where
  "matcher_wf (BarmanMatcher c s) \<longleftrightarrow> distinct c \<and> s = set c \<and> (\<forall>n\<in>set c. valid_discovered_name n)"
| "matcher_wf (PgBackRestMatcher c s) \<longleftrightarrow> distinct c \<and> s = set c \<and> (\<forall>n\<in>set c. valid_discovered_name n)"
| "matcher_wf (StaticMatcher c) \<longleftrightarrow> distinct c \<and> (\<forall>n\<in>set c. valid_discovered_name n)"

lemma pg_valid_eq: "pg_valid_discovered_name n = valid_discovered_name n"
  by (simp add: pg_valid_discovered_name_def valid_discovered_name_def)

lemma barman_match_SomeD:
  assumes "barman_match c s key = Some r"
  shows "valid_discovered_name (sm_name r)" and "c \<noteq> [] \<Longrightarrow> sm_name r \<in> s"
  using assms by (auto simp: barman_match_def Let_def split: if_splits)

lemma pgbackrest_match_SomeD:
  assumes "pgbackrest_match c s key = Some r"
  shows "valid_discovered_name (sm_name r)" and "c \<noteq> [] \<Longrightarrow> sm_name r \<in> s"
  using assms by (auto simp: pgbackrest_match_def Let_def pg_valid_eq split: if_splits)

interpretation sm: scope_matching initial_scopes match_scope matcher_wf
proof unfold_locales
  fix m n
  assume "matcher_wf m" and "n \<in> set (initial_scopes m)"
  then show "valid_discovered_name n" by (cases m) auto
next
  fix m
  assume "matcher_wf m"
  then show "distinct (initial_scopes m)" by (cases m) auto
next
  fix m key r
  assume "matcher_wf m" and "match_scope m key = Some r"
  then show "valid_discovered_name (sm_name r)"
    by (cases m) (auto dest: barman_match_SomeD pgbackrest_match_SomeD)
next
  fix m key r
  assume "matcher_wf m" and "initial_scopes m \<noteq> []" and "match_scope m key = Some r"
  then show "sm_name r \<in> set (initial_scopes m)"
    by (cases m) (auto dest: barman_match_SomeD(2) pgbackrest_match_SomeD(2))
qed

lemma configured_set_ok:
  "configured_set valid bad dup seen ns = Inr s \<Longrightarrow>
     s = seen \<union> set ns \<and> distinct ns \<and> set ns \<inter> seen = {} \<and> (\<forall>n\<in>set ns. valid n)"
  by (induction ns arbitrary: seen) (auto split: if_splits)

lemma configured_set_complete:
  "distinct ns \<Longrightarrow> set ns \<inter> seen = {} \<Longrightarrow> \<forall>n\<in>set ns. valid n \<Longrightarrow>
   configured_set valid bad dup seen ns = Inr (seen \<union> set ns)"
  by (induction ns arbitrary: seen) auto

lemma new_scope_matcher_wf:
  assumes "new_scope_matcher f configured = Inr m"
    and "\<And>d. f = StaticFormat d \<Longrightarrow> distinct configured \<and> (\<forall>n\<in>set configured. valid_discovered_name n)"
  shows "matcher_wf m \<and> initial_scopes m = configured"
proof (cases f)
  case BarmanFormat
  with assms show ?thesis
    by (auto simp: barman_new_matcher_def split: sum.splits dest!: configured_set_ok)
next
  case PgBackRestFormat
  with assms show ?thesis
    by (auto simp: pgbackrest_new_matcher_def pg_valid_eq split: sum.splits dest!: configured_set_ok)
next
  case (StaticFormat d)
  with assms show ?thesis by auto
qed

section \<open>The registry\<close>

text \<open>Messages that quote an identifier of the input leave the quotation out.\<close>

type_synonym registry = "(string \<times> repo_format) list"

fun distinct_capabilities :: "string \<Rightarrow> capability_id list \<Rightarrow> capability_id list \<Rightarrow> string option" where
  "distinct_capabilities fid seen [] = None"
| "distinct_capabilities fid seen (c # cs) =
     (if c = [] then Some ''repository registry: format has an empty capability''
      else if c \<in> set seen then Some ''repository registry: format repeats capability''
      else distinct_capabilities fid (c # seen) cs)"

definition validate_descriptor :: "descriptor \<Rightarrow> string option" where
  "validate_descriptor d =
     (if d_id d = [] \<or> d_display_name d = [] \<or> d_scope_kind d = []
      then Some ''repository registry: descriptor identity is incomplete''
      else distinct_capabilities (d_id d) [] (d_capabilities d))"

fun register_all :: "registry \<Rightarrow> repo_format option list \<Rightarrow> registry result" where
  "register_all reg [] = Inr reg"
| "register_all reg (None # fs) = Inl ''repository registry: nil format''"
| "register_all reg (Some f # fs) =
     (let d = format_descriptor f in
      case validate_descriptor d of
        Some e \<Rightarrow> Inl e
      | None \<Rightarrow> if map_of reg (d_id d) \<noteq> None
          then Inl ''repository registry: duplicate format''
          else register_all ((d_id d, f) # reg) fs)"

definition new_registry :: "repo_format option list \<Rightarrow> registry result" where
  "new_registry fs = register_all [] fs"

definition select_format :: "registry \<Rightarrow> string \<Rightarrow> repo_format result" where
  "select_format reg i =
     (case map_of reg i of None \<Rightarrow> Inl ''repository format is not registered'' | Some f \<Rightarrow> Inr f)"

definition registry_ids :: "registry \<Rightarrow> string list" where
  "registry_ids reg = sort (map fst reg)"

definition builtins :: "registry result" where
  "builtins = new_registry [Some BarmanFormat, Some PgBackRestFormat]"

lemma register_all_inv:
  "register_all reg fs = Inr reg' \<Longrightarrow> distinct (map fst reg) \<Longrightarrow>
     (\<forall>(i, f)\<in>set reg. d_id (format_descriptor f) = i) \<Longrightarrow>
   distinct (map fst reg') \<and> (\<forall>(i, f)\<in>set reg'. d_id (format_descriptor f) = i)
     \<and> set (map fst reg') = set (map fst reg) \<union> (\<lambda>f. d_id (format_descriptor (the f))) ` set fs"
proof (induction reg fs rule: register_all.induct)
  case (3 reg f fs)
  then have "map_of reg (d_id (format_descriptor f)) = None"
    and "register_all ((d_id (format_descriptor f), f) # reg) fs = Inr reg'"
    by (auto simp: Let_def map_of_eq_None_iff split: option.splits if_splits)
  with 3 show ?case
    by (auto simp: Let_def map_of_eq_None_iff split: option.splits)
qed auto


lemma register_all_set:
  "register_all reg fs = Inr reg' \<Longrightarrow>
     set reg' = set reg \<union> {(d_id (format_descriptor f), f) | f. Some f \<in> set fs}"
proof (induction reg fs rule: register_all.induct)
  case (3 reg f fs)
  then have "register_all ((d_id (format_descriptor f), f) # reg) fs = Inr reg'"
    and "validate_descriptor (format_descriptor f) = None"
    and "map_of reg (d_id (format_descriptor f)) = None"
    by (auto simp: Let_def split: option.splits if_splits)
  with 3(1) show ?case by auto
qed auto

section \<open>Properties\<close>

text \<open>
  A repository layout names only valid scopes: every object a matcher accepts belongs to a
  scope with a valid name, and to a configured one when the configuration lists scopes.
\<close>

theorem matched_scopes_confined:
  assumes "new_scope_matcher f configured = Inr m" and "f \<in> {BarmanFormat, PgBackRestFormat}"
    and "match_scope m key = Some r"
  shows "valid_discovered_name (sm_name r) \<and> (configured \<noteq> [] \<longrightarrow> sm_name r \<in> set configured)"
proof -
  have wf: "matcher_wf m" "initial_scopes m = configured"
    using new_scope_matcher_wf [OF assms(1)] assms(2) by auto
  show ?thesis
    using sm.match_valid [OF wf(1) assms(3)] sm.match_confined [OF wf(1) _ assms(3)] wf(2) by blast
qed

lemma matched_scopes_confined_witness:
  "\<exists>m r. new_scope_matcher BarmanFormat [''pg''] = Inr m \<and> match_scope m ''pg/base/x'' = Some r
     \<and> sm_name r \<in> {''pg''}"
proof -
  let ?m = "BarmanMatcher [''pg''] {''pg''}"
  have m: "new_scope_matcher BarmanFormat [''pg''] = Inr ?m"
    by (simp add: barman_new_matcher_def valid_discovered_name_def ascii_control_def)
  moreover have r: "match_scope ?m ''pg/base/x'' = Some \<lparr>sm_name = ''pg'', sm_recognized = True\<rparr>"
    by (simp add: barman_match_def valid_discovered_name_def ascii_control_def numeral_3_eq_3
        has_prefix_def Let_def)
  ultimately show ?thesis
    using matched_scopes_confined [OF m, of "''pg/base/x''"] by auto
qed

text \<open>
  The format registry is a partial bijection between identifiers and formats: an identifier
  selects a format exactly if that format was registered under it.
\<close>

theorem registry_selects:
  assumes "new_registry fs = Inr reg"
  shows "(select_format reg i = Inr f \<longleftrightarrow> Some f \<in> set fs \<and> d_id (format_descriptor f) = i)
     \<and> sorted (registry_ids reg) \<and> distinct (registry_ids reg)"
proof -
  have d: "distinct (map fst reg)" and s: "set reg = {(d_id (format_descriptor f), f) | f. Some f \<in> set fs}"
    using register_all_inv [of "[]" fs reg] register_all_set [of "[]" fs reg] assms
    by (simp_all add: new_registry_def)
  have "select_format reg i = Inr f \<longleftrightarrow> (i, f) \<in> set reg"
    unfolding map_of_eq_Some_iff [OF d, symmetric] by (simp add: select_format_def split: option.splits)
  then show ?thesis using d by (auto simp: s registry_ids_def)
qed

lemma registry_selects_witness:
  "\<exists>reg. builtins = Inr reg \<and> select_format reg ''barman-cloud'' = Inr BarmanFormat"
proof -
  obtain reg where reg: "builtins = Inr reg"
    unfolding builtins_def new_registry_def
    by (simp add: validate_descriptor_def barman_descriptor_def pgbackrest_descriptor_def
        barman_capabilities_def pgbackrest_capabilities_def capability_id_defs)
  have "select_format reg ''barman-cloud'' = Inr BarmanFormat"
    using registry_selects [OF reg [unfolded builtins_def], of "''barman-cloud''" BarmanFormat]
    by (simp add: barman_descriptor_def)
  with reg show ?thesis by blast
qed

end
