(* ===== verification/Wal_Names.thy ===== *)
theory Wal_Names
  imports Store_Repo
begin

text \<open>
  WAL segment arithmetic and the classification of the objects below \<open>server/wals/\<close>
  (\<open>internal/formats/barmancloud/wal.go\<close>, first and middle part): segment sizes,
  positions, names and their round trips, compression suffixes, \<open>ClassifyWALObject\<close>.
\<close>

section \<open>Segment sizes and positions\<close>

definition MinWALSegmentSize :: int where "MinWALSegmentSize = 2 ^ 20"
definition MaxWALSegmentSize :: int where "MaxWALSegmentSize = 2 ^ 30"

definition valid_wal_segment_size :: "int \<Rightarrow> bool" where
  "valid_wal_segment_size sz \<longleftrightarrow>
     MinWALSegmentSize \<le> sz \<and> sz \<le> MaxWALSegmentSize \<and> sz AND (sz - 1) = 0"

definition segments_per_id :: "int \<Rightarrow> u64" where
  "segments_per_id sz = 0x100000000 div word_of_int sz"

definition wal_position :: "u32 \<Rightarrow> u32 \<Rightarrow> u32 \<Rightarrow> int \<Rightarrow> u64 result" where
  "wal_position timeline log segment sz =
     (if timeline = 0 \<or> \<not> valid_wal_segment_size sz then Inl ''invalid WAL arithmetic context''
      else let spi = segments_per_id sz in
        if spi \<le> ucast segment then Inl ''WAL segment component exceeds segment-size rollover''
        else Inr (ucast log * spi + ucast segment))"

definition wal_text :: "u32 \<Rightarrow> u32 \<Rightarrow> u32 \<Rightarrow> string" where
  "wal_text timeline log segment =
     hex_fixed 8 (unat timeline) @ hex_fixed 8 (unat log) @ hex_fixed 8 (unat segment)"

definition wal_name :: "u32 \<Rightarrow> u64 \<Rightarrow> int \<Rightarrow> string result" where
  "wal_name timeline position sz =
     (if timeline = 0 \<or> \<not> valid_wal_segment_size sz then Inl ''invalid WAL arithmetic context''
      else let spi = segments_per_id sz; log = position div spi in
        if ucast max_u32 < log then Inl ''WAL position exceeds filename range''
        else let segment = position mod spi in Inr (wal_text timeline (ucast log) (ucast segment)))"

definition parse_hex32 :: "string \<Rightarrow> u32 option" where
  "parse_hex32 value =
     (if length value \<noteq> 8 \<or> \<not> is_hex value then None else Some (of_nat (hex_value value)))"

definition parse_wal_name :: "string \<Rightarrow> int \<Rightarrow> (u32 \<times> u64) result" where
  "parse_wal_name name sz =
     (if length name \<noteq> 24 \<or> \<not> is_hex name then Inl ''invalid WAL segment name''
      else case (parse_hex32 (take 8 name), parse_hex32 (take 8 (drop 8 name)),
                 parse_hex32 (drop 16 name)) of
        (Some timeline, Some log, Some segment) \<Rightarrow>
          (case wal_position timeline log segment sz of
             Inl e \<Rightarrow> Inl e | Inr position \<Rightarrow> Inr (timeline, position))
      | _ \<Rightarrow> Inl ''invalid WAL segment name'')"

text \<open>A size with a single bit set is a power of two.\<close>

lemma and_pred_zero_power:
  "0 < n \<Longrightarrow> n AND (n - 1) = 0 \<Longrightarrow> \<exists>k. (n :: int) = 2 ^ k"
proof (induction "nat n" arbitrary: n rule: less_induct)
  case less
  have rec: "n AND (n - 1) = of_bool (odd n \<and> odd (n - 1)) + 2 * ((n div 2) AND ((n - 1) div 2))"
    by (rule and_rec)
  show ?case
  proof (cases "even n")
    case True
    then obtain m where n: "n = 2 * m" by blast
    with less.prems have "0 < m" "nat m < nat n" "(n - 1) div 2 = m - 1" by auto
    moreover from this n rec less.prems have "m AND (m - 1) = 0" by simp
    ultimately obtain k where "m = 2 ^ k" using less.hyps by blast
    with n show ?thesis by (metis power_Suc)
  next
    case False
    then obtain m where n: "n = 2 * m + 1" by (auto elim: oddE)
    with rec less.prems have "m AND m = 0" by simp
    with n show ?thesis by (intro exI [of _ 0]) simp
  qed
qed

lemma valid_size_power:
  assumes "valid_wal_segment_size sz"
  obtains k where "sz = 2 ^ k" "20 \<le> k" "k \<le> 30"
proof -
  from assms have "0 < sz" and "sz AND (sz - 1) = 0"
    by (auto simp: valid_wal_segment_size_def MinWALSegmentSize_def)
  then obtain k where k: "sz = 2 ^ k" using and_pred_zero_power by blast
  with assms have "(2::int) ^ 20 \<le> 2 ^ k" "(2::int) ^ k \<le> 2 ^ 30"
    by (simp_all add: valid_wal_segment_size_def MinWALSegmentSize_def MaxWALSegmentSize_def)
  then have "20 \<le> k" "k \<le> 30"
    by (meson one_less_numeral_iff power_increasing_iff semiring_norm(76))+
  with k that show ?thesis by blast
qed

lemma unat_segments_per_id:
  assumes "20 \<le> k" "k \<le> 30"
  shows "unat (segments_per_id (2 ^ k)) = 2 ^ (32 - k)"
proof -
  have "unat (word_of_int (2 ^ k) :: u64) = 2 ^ k"
    using assms by (simp only: unsigned_of_int) (simp add: take_bit_int_eq_self nat_power_eq)
  moreover have "(4294967296 :: nat) div 2 ^ k = 2 ^ (32 - k)"
    using assms power_diff [of "2 :: nat" k 32] by simp
  ultimately show ?thesis
    by (simp add: segments_per_id_def unat_div)
qed

lemma segments_per_id_bounds:
  assumes "valid_wal_segment_size sz"
  shows "4 \<le> unat (segments_per_id sz)" and "unat (segments_per_id sz) \<le> 4096"
proof -
  obtain k where k: "sz = 2 ^ k" "20 \<le> k" "k \<le> 30"
    using assms by (rule valid_size_power)
  then have u: "unat (segments_per_id sz) = 2 ^ (32 - k)"
    by (simp add: unat_segments_per_id)
  have "(2::nat) ^ 2 \<le> 2 ^ (32 - k)" "(2::nat) ^ (32 - k) \<le> 2 ^ 12"
    using k by (intro power_increasing; simp)+
  with u show "4 \<le> unat (segments_per_id sz)" "unat (segments_per_id sz) \<le> 4096"
    by simp_all
qed


lemma wal_position_Inr_iff:
  "wal_position tli log seg sz = Inr p \<longleftrightarrow>
     tli \<noteq> 0 \<and> valid_wal_segment_size sz \<and> unat seg < unat (segments_per_id sz)
     \<and> unat p = unat log * unat (segments_per_id sz) + unat seg"
proof (cases "valid_wal_segment_size sz")
  case True
  let ?s = "segments_per_id sz"
  have "unat log * unat ?s \<le> (2 ^ 32 - 1) * 4096"
    using unat_lt_u32 [of log] segments_per_id_bounds(2) [OF True] by (intro mult_le_mono) auto
  then have "unat (ucast log * ?s + ucast seg :: u64) = unat log * unat ?s + unat seg"
    using unat_lt_u32 [of seg] unat_lt_u32 [of log]
    by (simp add: unat_word_ariths unsigned_ucast_eq take_bit_nat_eq_self)
  moreover have "?s \<le> ucast seg \<longleftrightarrow> unat ?s \<le> unat seg"
    using unat_lt_u32 [of seg]
    by (simp add: word_le_nat_alt unsigned_ucast_eq take_bit_nat_eq_self)
  ultimately show ?thesis
    using True by (auto simp: wal_position_def Let_def word_unat_eq_iff)
qed (simp add: wal_position_def)

lemma wal_position_bound:
  assumes "wal_position tli log seg sz = Inr p"
  shows "unat p < 2 ^ 44" and "p \<noteq> max_u64"
proof -
  from assms have s: "valid_wal_segment_size sz" "unat seg < unat (segments_per_id sz)"
    and p: "unat p = unat log * unat (segments_per_id sz) + unat seg"
    by (auto simp: wal_position_Inr_iff)
  have "(unat log + 1) * unat (segments_per_id sz) \<le> 2 ^ 32 * 4096"
    using unat_lt_u32 [of log] segments_per_id_bounds(2) [OF s(1)] by (intro mult_le_mono) auto
  with s p show "unat p < 2 ^ 44" by simp
  then show "p \<noteq> max_u64" by (auto simp: u64_eq_max_iff)
qed

text \<open>The position order is the order of the name's components.\<close>

lemma wal_position_less_iff:
  assumes "wal_position tli l1 s1 sz = Inr p" and "wal_position tli l2 s2 sz = Inr q"
  shows "p < q \<longleftrightarrow> l1 < l2 \<or> (l1 = l2 \<and> s1 < s2)"
proof -
  let ?n = "unat (segments_per_id sz)"
  from assms have b: "unat s1 < ?n" "unat s2 < ?n"
    and pq: "unat p = unat l1 * ?n + unat s1" "unat q = unat l2 * ?n + unat s2"
    by (auto simp: wal_position_Inr_iff)
  have less: "a * ?n + c < d * ?n + e" if "a < d" "c < ?n" for a c d e
  proof -
    have "a * ?n + c < (a + 1) * ?n" using that by simp
    also have "\<dots> \<le> d * ?n" using that by (intro mult_le_mono1) simp
    finally show ?thesis by simp
  qed
  show ?thesis
    using less [of "unat l1" "unat l2" "unat s1" "unat s2"]
      less [of "unat l2" "unat l1" "unat s2" "unat s1"] b pq
    by (cases "unat l1" "unat l2" rule: linorder_cases)
      (auto simp: word_less_nat_alt word_unat_eq_iff)
qed

lemma wal_position_inj:
  assumes "wal_position tli l1 s1 sz = Inr p" and "wal_position tli l2 s2 sz = Inr p"
  shows "l1 = l2 \<and> s1 = s2"
  using wal_position_less_iff [OF assms] wal_position_less_iff [OF assms(2,1)] by auto

section \<open>Names\<close>

lemma wal_text_length [simp]: "length (wal_text tli log seg) = 24"
  by (simp add: wal_text_def)

lemma wal_text_hex: "is_hex (wal_text tli log seg)"
  by (auto simp: wal_text_def is_hex_def hex_fixed_hex simp flip: length_0_conv)

lemma wal_text_parts:
  "take 8 (wal_text tli log seg) = hex_fixed 8 (unat tli)"
  "take 8 (drop 8 (wal_text tli log seg)) = hex_fixed 8 (unat log)"
  "drop 16 (wal_text tli log seg) = hex_fixed 8 (unat seg)"
  by (simp_all add: wal_text_def)

lemma parse_hex32_fixed: "parse_hex32 (hex_fixed 8 (unat w)) = Some w"
proof -
  have "unat w < 16 ^ 8" using unat_lt_u32 [of w] by simp
  then show ?thesis
    using hex_value_fixed [of "unat w" 8] is_hex_hex_fixed [of 8 "unat w"]
    by (simp add: parse_hex32_def del: hex_fixed.simps)
qed

lemma parse_wal_text:
  "parse_wal_name (wal_text tli log seg) sz =
     (case wal_position tli log seg sz of Inl e \<Rightarrow> Inl e | Inr p \<Rightarrow> Inr (tli, p))"
  by (simp add: parse_wal_name_def wal_text_hex wal_text_parts parse_hex32_fixed
      split: sum.splits)

lemma wal_name_Inr_iff:
  "wal_name tli p sz = Inr n \<longleftrightarrow>
     (\<exists>log seg. wal_position tli log seg sz = Inr p \<and> n = wal_text tli log seg)"
proof (cases "tli = 0 \<or> \<not> valid_wal_segment_size sz")
  case True
  then show ?thesis by (auto simp: wal_name_def wal_position_def)
next
  case False
  let ?s = "segments_per_id sz"
  let ?log = "p div ?s" and ?seg = "p mod ?s"
  have s: "4 \<le> unat ?s" "unat ?s \<le> 4096"
    using False segments_per_id_bounds [of sz] by auto
  have u: "unat ?log = unat p div unat ?s" "unat ?seg = unat p mod unat ?s"
    by (simp_all add: unat_div unat_mod)
  have seg: "unat ?seg < 4096" "unat ?seg < unat ?s"
    using s u mod_less_divisor [of "unat ?s" "unat p"] by linarith+
  have big: "ucast max_u32 < ?log \<longleftrightarrow> 2 ^ 32 \<le> unat ?log"
    by (auto simp: word_less_nat_alt)
  show ?thesis
  proof (cases "2 ^ 32 \<le> unat ?log")
    case True
    have "\<not> wal_position tli log seg sz = Inr p" for log seg
    proof
      assume a: "wal_position tli log seg sz = Inr p"
      then have "unat p div unat ?s = unat log"
        by (auto simp: wal_position_Inr_iff)
      with True u unat_lt_u32 [of log] show False by simp
    qed
    with True big \<open>\<not> (tli = 0 \<or> _)\<close> show ?thesis by (auto simp: wal_name_def Let_def)
  next
    case small: False
    have ul: "unat (ucast ?log :: u32) = unat ?log" "unat (ucast ?seg :: u32) = unat ?seg"
      using small seg by (simp_all add: unsigned_ucast_eq take_bit_nat_eq_self)
    have pos: "wal_position tli (ucast ?log) (ucast ?seg) sz = Inr p"
      using False seg(2) unfolding wal_position_Inr_iff ul u by simp
    with small big False show ?thesis
      by (auto simp: wal_name_def Let_def dest: wal_position_inj)
  qed
qed

lemma wal_name_of_position:
  "wal_position tli log seg sz = Inr p \<Longrightarrow> wal_name tli p sz = Inr (wal_text tli log seg)"
  by (auto simp: wal_name_Inr_iff)

lemma parse_wal_name_of_name:
  "wal_name tli p sz = Inr n \<Longrightarrow> parse_wal_name n sz = Inr (tli, p)"
  by (auto simp: wal_name_Inr_iff parse_wal_text)


text \<open>A parsed name is the printed one, up to the case of its hexadecimal digits.\<close>

lemma upper_char_hex_digit: "hex_char c \<Longrightarrow> hex_digit (hex_val c) = upper_char c"
  by (auto simp: hex_char_def hex_digit_def hex_val_def upper_char_def is_digit_def
      is_upper_hex_def is_lower_hex_def)

lemma hex_fixed_value: "list_all hex_char s \<Longrightarrow> hex_fixed (length s) (hex_value s) = map upper_char s"
proof (induction s rule: rev_induct)
  case (snoc c s)
  then have "hex_val c < 16" by (simp add: hex_val_bound)
  with snoc show ?case by (simp add: hex_value_snoc upper_char_hex_digit)
qed simp

lemma parse_hex32_SomeD:
  assumes "parse_hex32 v = Some w"
  shows "hex_fixed 8 (unat w) = map upper_char v" and "length v = 8" and "is_hex v"
proof -
  from assms show len: "length v = 8" and hex: "is_hex v"
    by (auto simp: parse_hex32_def split: if_splits)
  from assms have w: "w = of_nat (hex_value v)"
    by (auto simp: parse_hex32_def split: if_splits)
  have "hex_value v < 2 ^ 32"
    using hex_value_bound [of v] len hex by (simp add: is_hex_def)
  then have "unat w = hex_value v"
    by (simp add: w unsigned_of_nat take_bit_nat_eq_self)
  then show "hex_fixed 8 (unat w) = map upper_char v"
    using hex_fixed_value [of v] len hex by (simp add: is_hex_def)
qed

lemma split24: "take 8 n @ take 8 (drop 8 n) @ drop 16 n = n"
  by (metis append_take_drop_id drop_drop add_One_commute numeral_Bit0)

lemma parse_wal_name_Inr_iff:
  "parse_wal_name n sz = Inr (tli, p) \<longleftrightarrow>
     length n = 24 \<and> is_hex n \<and> wal_name tli p sz = Inr (map upper_char n)"
proof
  assume a: "parse_wal_name n sz = Inr (tli, p)"
  then obtain log seg where len: "length n = 24" "is_hex n"
    and h: "parse_hex32 (take 8 n) = Some tli" "parse_hex32 (take 8 (drop 8 n)) = Some log"
      "parse_hex32 (drop 16 n) = Some seg"
    and pos: "wal_position tli log seg sz = Inr p"
    by (auto simp: parse_wal_name_def split: if_splits option.splits sum.splits)
  have "wal_text tli log seg = map upper_char (take 8 n @ take 8 (drop 8 n) @ drop 16 n)"
    unfolding wal_text_def using h [THEN parse_hex32_SomeD(1)] by simp
  with pos len show "length n = 24 \<and> is_hex n \<and> wal_name tli p sz = Inr (map upper_char n)"
    by (simp add: split24 wal_name_of_position)
next
  assume b: "length n = 24 \<and> is_hex n \<and> wal_name tli p sz = Inr (map upper_char n)"
  then obtain log seg where pos: "wal_position tli log seg sz = Inr p"
    and n: "map upper_char n = wal_text tli log seg"
    by (auto simp: wal_name_Inr_iff)
  have sub: "is_hex s \<Longrightarrow> length s = 8 \<Longrightarrow> map upper_char s = hex_fixed 8 (unat w) \<Longrightarrow>
      parse_hex32 s = Some w" for s and w :: u32
  proof -
    assume s: "is_hex s" "length s = 8" "map upper_char s = hex_fixed 8 (unat w)"
    then obtain v where v: "parse_hex32 s = Some v" by (simp add: parse_hex32_def)
    then have "hex_fixed 8 (unat v) = hex_fixed 8 (unat w)"
      using s(3) parse_hex32_SomeD(1) by simp
    then have "v = w" by (metis option.inject parse_hex32_fixed)
    with v show ?thesis by simp
  qed
  have hexs: "is_hex (take 8 n)" "is_hex (take 8 (drop 8 n))" "is_hex (drop 16 n)"
    using b by (auto simp: is_hex_def list_all_iff dest: in_set_takeD in_set_dropD)
  have "map upper_char (take 8 n) = hex_fixed 8 (unat tli)"
    "map upper_char (take 8 (drop 8 n)) = hex_fixed 8 (unat log)"
    "map upper_char (drop 16 n) = hex_fixed 8 (unat seg)"
    using n wal_text_parts [of tli log seg] by (simp_all flip: take_map drop_map)
  with hexs b pos show "parse_wal_name n sz = Inr (tli, p)"
    by (simp add: parse_wal_name_def sub)
qed


section \<open>Classification\<close>

datatype wal_class = WALSegment | WALPartial | WALHistory | WALBackupHistory | WALUnknown
  | WALDuplicate | OtherClass string

record classified_wal =
  cw_key :: string
  cw_server :: string
  cw_name :: string
  cw_compression :: string
  cw_class :: wal_class
  cw_timeline :: u32
  cw_log :: u32
  cw_segment :: u32
  cw_last_modified :: gotime
  cw_reason :: string

definition wal_compressions :: "(string \<times> string) list" where
  "wal_compressions =
     [(''.snappy'', ''snappy''), (''.lz4'', ''lz4''), (''.bz2'', ''bzip2''),
      (''.zst'', ''zstd''), (''.gz'', ''gzip''), (''.xz'', ''xz'')]"

definition strip_wal_compression :: "string \<Rightarrow> string \<times> string \<times> bool" where
  "strip_wal_compression name =
     (case find (\<lambda>(suf, c). has_suffix name suf) wal_compressions of
        Some (suf, c) \<Rightarrow> (trim_suffix name suf, c, True)
      | None \<Rightarrow>
          (case last_from (CHR ''.'') name of
             Some tail \<Rightarrow>
               if tail \<noteq> ''.partial'' \<and> tail \<noteq> ''.history'' \<and> tail \<noteq> ''.backup''
                  \<and> \<not> (length tail = 9 \<and> is_hex (drop 1 tail))
               then (name, [], False) else (name, ''none'', True)
           | None \<Rightarrow> (name, ''none'', True)))"


text \<open>
  \<open>ClassifyWALObject\<close> in its three steps: the path and the compression suffix, a timeline
  history file in the \<open>wals\<close> directory, a segment-named file in its hash directory.
\<close>

definition classify_history :: "classified_wal \<Rightarrow> string list \<Rightarrow> string \<Rightarrow> classified_wal" where
  "classify_history result parts name =
     (if length parts \<noteq> 3
      then result\<lparr>cw_reason := ''timeline history file is outside the WAL root''\<rparr>
      else case parse_hex32 (take 8 name) of
        None \<Rightarrow> result\<lparr>cw_reason := ''malformed timeline history name''\<rparr>
      | Some timeline \<Rightarrow>
          if timeline = 0 then result\<lparr>cw_reason := ''malformed timeline history name''\<rparr>
          else result\<lparr>cw_class := WALHistory, cw_timeline := timeline,
                 cw_reason := ''timeline history metadata''\<rparr>)"

definition classify_segment :: "classified_wal \<Rightarrow> string list \<Rightarrow> string \<Rightarrow> classified_wal" where
  "classify_segment result parts name =
     (if length parts \<noteq> 4 \<or> length (parts ! 2) \<noteq> 16 \<or> length name < 24
         \<or> \<not> equal_fold (parts ! 2) (take 16 name) \<or> \<not> is_hex (parts ! 2)
      then result\<lparr>cw_reason := ''WAL object is outside its Barman hash directory''\<rparr>
      else case (parse_hex32 (take 8 name), parse_hex32 (take 8 (drop 8 name)),
             parse_hex32 (take 8 (drop 16 name))) of
        (Some timeline, Some log, Some segment) \<Rightarrow>
          if timeline = 0 then result\<lparr>cw_reason := ''malformed WAL segment name''\<rparr>
          else let result = result\<lparr>cw_timeline := timeline, cw_log := log, cw_segment := segment\<rparr> in
            if length name = 24
            then result\<lparr>cw_class := WALSegment, cw_reason := ''complete WAL segment name''\<rparr>
            else if length name = 32 \<and> has_suffix name ''.partial''
            then result\<lparr>cw_class := WALPartial, cw_reason := ''partial WAL does not fill continuity''\<rparr>
            else if length name = 40 \<and> name ! 24 = CHR ''.'' \<and> has_suffix name ''.backup''
               \<and> is_hex (take 8 (drop 25 name))
            then result\<lparr>cw_class := WALBackupHistory, cw_reason := ''backup history metadata''\<rparr>
            else result\<lparr>cw_reason := ''malformed WAL archive object name''\<rparr>
      | _ \<Rightarrow> result\<lparr>cw_reason := ''malformed WAL segment name''\<rparr>)"

text \<open>\<open>None\<close> is the false of the source: the object is not below a Barman \<open>wals\<close> directory.\<close>

definition classify_wal_object :: "object \<Rightarrow> classified_wal option" where
  "classify_wal_object ob =
     (let parts = split_on (CHR ''/'') (ob_key ob) in
      if length parts < 3 \<or> parts ! 0 = [] \<or> parts ! 1 \<noteq> ''wals'' then None
      else let result = \<lparr>cw_key = ob_key ob, cw_server = parts ! 0, cw_name = [], cw_compression = [],
             cw_class = WALUnknown, cw_timeline = 0, cw_log = 0, cw_segment = 0,
             cw_last_modified = time_utc (ob_last_modified ob),
             cw_reason = ''unrecognized Barman WAL object''\<rparr> in
      if length parts \<noteq> 3 \<and> length parts \<noteq> 4 then Some result
      else let (name, compression, supported) = strip_wal_compression (last parts);
             result = result\<lparr>cw_name := name, cw_compression := compression\<rparr> in
      if \<not> supported then Some (result\<lparr>cw_reason := ''unsupported WAL compression suffix''\<rparr>)
      else if length name = 16 \<and> has_suffix name ''.history''
      then Some (classify_history result parts name)
      else Some (classify_segment result parts name))"

text \<open>
  What the rest of the format code relies on: the server is the first path element, a
  segment carries the components of its 24-digit name, and a history its timeline.
\<close>

definition wal_reasons :: "string list" where
  "wal_reasons =
     [''unrecognized Barman WAL object'', ''unsupported WAL compression suffix'',
      ''timeline history file is outside the WAL root'', ''malformed timeline history name'',
      ''timeline history metadata'', ''WAL object is outside its Barman hash directory'',
      ''malformed WAL segment name'', ''complete WAL segment name'',
      ''partial WAL does not fill continuity'', ''backup history metadata'',
      ''malformed WAL archive object name'']"

definition classified_wf :: "classified_wal \<Rightarrow> bool" where
  "classified_wf c \<longleftrightarrow>
     cw_class c \<in> {WALSegment, WALPartial, WALHistory, WALBackupHistory, WALUnknown}
     \<and> cw_reason c \<in> set wal_reasons
     \<and> (cw_class c = WALSegment \<longrightarrow> cw_timeline c \<noteq> 0 \<and> is_hex (cw_name c)
          \<and> map upper_char (cw_name c) = wal_text (cw_timeline c) (cw_log c) (cw_segment c))
     \<and> (cw_class c = WALHistory \<longrightarrow> cw_timeline c \<noteq> 0
          \<and> cw_name c = take 8 (cw_name c) @ ''.history''
          \<and> parse_hex32 (take 8 (cw_name c)) = Some (cw_timeline c))"

lemma has_suffix_split: "has_suffix s p \<Longrightarrow> s = take (length s - length p) s @ p"
  by (metis append_take_drop_id has_suffix_def)

lemma wal_text_of_parts:
  assumes "length n = 24" "parse_hex32 (take 8 n) = Some a" "parse_hex32 (take 8 (drop 8 n)) = Some b"
    "parse_hex32 (drop 16 n) = Some d"
  shows "is_hex n" and "map upper_char n = wal_text a b d"
proof -
  have "wal_text a b d = map upper_char (take 8 n @ take 8 (drop 8 n) @ drop 16 n)"
    unfolding wal_text_def using assms by (simp add: parse_hex32_SomeD(1))
  then show "map upper_char n = wal_text a b d" by (simp only: split24)
  have "is_hex (take 8 n @ take 8 (drop 8 n) @ drop 16 n)"
    using assms(2-4) [THEN parse_hex32_SomeD(3)] by (simp add: is_hex_def)
  then show "is_hex n" by (simp only: split24)
qed

lemma classify_history_wf:
  assumes "cw_class r = WALUnknown" "cw_name r = name" "length name = 16" "has_suffix name ''.history''"
  shows "classified_wf (classify_history r parts name)"
proof -
  have "name = take 8 name @ ''.history''"
    using has_suffix_split [OF assms(4)] assms(3) by simp
  with assms(1,2) show ?thesis
    by (auto simp: classify_history_def classified_wf_def wal_reasons_def split: option.splits)
qed

lemma classify_segment_wf:
  assumes "cw_class r = WALUnknown" "cw_name r = name"
  shows "classified_wf (classify_segment r parts name)"
proof -
  have len: "length name = 24 \<Longrightarrow> take 8 (drop 16 name) = drop 16 name" by simp
  show ?thesis
    using assms wal_text_of_parts [of name]
    by (cases "length name = 24")
      (auto simp: classify_segment_def classified_wf_def wal_reasons_def Let_def len
        split: option.splits simp del: take_eq_Nil)
qed

lemma classify_segment_key [simp]:
  "cw_key (classify_segment r parts name) = cw_key r"
  "cw_server (classify_segment r parts name) = cw_server r"
  "cw_name (classify_segment r parts name) = cw_name r"
  "cw_last_modified (classify_segment r parts name) = cw_last_modified r"
  by (simp_all add: classify_segment_def Let_def split: option.splits)

lemma classify_history_key [simp]:
  "cw_key (classify_history r parts name) = cw_key r"
  "cw_server (classify_history r parts name) = cw_server r"
  "cw_name (classify_history r parts name) = cw_name r"
  "cw_last_modified (classify_history r parts name) = cw_last_modified r"
  by (simp_all add: classify_history_def split: option.splits)

lemma classify_wf:
  assumes "classify_wal_object ob = Some c"
  shows "classified_wf c" and "cw_key c = ob_key ob"
    and "cw_server c = split_on (CHR ''/'') (ob_key ob) ! 0" and "cw_server c \<noteq> []"
    and "cw_last_modified c = time_utc (ob_last_modified ob)"
  using assms
  by (auto simp: classify_wal_object_def Let_def classify_history_wf classify_segment_wf
      classified_wf_def [of "\<lparr>cw_key = _, cw_server = _, cw_name = _, cw_compression = _,
        cw_class = WALUnknown, cw_timeline = _, cw_log = _, cw_segment = _,
        cw_last_modified = _, cw_reason = _\<rparr>"] wal_reasons_def
      split: if_splits prod.splits)


text \<open>Every stored form of a segment is recognised: plain or with any compression suffix.\<close>

definition stored_suffix :: "string \<Rightarrow> string \<Rightarrow> bool" where
  "stored_suffix suf compression \<longleftrightarrow>
     (suf, compression) \<in> set wal_compressions \<or> (suf = [] \<and> compression = ''none'')"

definition segment_key :: "string \<Rightarrow> string \<Rightarrow> string \<Rightarrow> string" where
  "segment_key server name suf = server @ ''/wals/'' @ take 16 name @ ''/'' @ name @ suf"

lemma has_suffix_append_short:
  "length p \<le> length suf \<Longrightarrow> has_suffix (n @ suf) p \<longleftrightarrow> drop (length suf - length p) suf = p"
  by (auto simp: has_suffix_def)

lemma has_suffix_append_long:
  assumes "length suf < length p" and "drop (length p - length suf) p \<noteq> suf"
  shows "\<not> has_suffix (n @ suf) p"
proof
  assume "has_suffix (n @ suf) p"
  then obtain a where "n @ suf = a @ p" using has_suffix_split by blast
  also have "\<dots> = (a @ take (length p - length suf) p) @ drop (length p - length suf) p"
    by simp
  finally have "suf = drop (length p - length suf) p"
    using assms(1) by (subst (asm) append_eq_append_conv) simp_all
  with assms(2) show False by simp
qed

lemma has_suffix_set: "has_suffix s p \<Longrightarrow> set p \<subseteq> set s"
  by (metis has_suffix_def set_drop_subset)

lemma hex_no_dot: "list_all hex_char n \<Longrightarrow> CHR ''.'' \<notin> set n \<and> CHR ''/'' \<notin> set n"
  by (auto simp: list_all_iff hex_char_def is_digit_def is_upper_hex_def is_lower_hex_def)

lemma last_from_none: "c \<notin> set s \<Longrightarrow> last_from c s = None"
  by (induction s) auto

lemma strip_stored:
  assumes "list_all hex_char n" and "stored_suffix suf cmp"
  shows "strip_wal_compression (n @ suf) = (n, cmp, True)"
proof (cases "suf = []")
  case True
  have dot: "CHR ''.'' \<notin> set n" using hex_no_dot [OF assms(1)] ..
  then have "\<not> has_suffix n s" if "CHR ''.'' \<in> set s" for s
    using has_suffix_set that by blast
  then have "find (\<lambda>(suf, c). has_suffix n suf) wal_compressions = None"
    by (auto simp: wal_compressions_def)
  with True assms(2) dot show ?thesis
    by (auto simp: strip_wal_compression_def last_from_none stored_suffix_def wal_compressions_def)
next
  case False
  then have "(suf, cmp) \<in> set wal_compressions" using assms(2) by (simp add: stored_suffix_def)
  then have "find (\<lambda>(s, c). has_suffix (n @ suf) s) wal_compressions = Some (suf, cmp)"
    unfolding wal_compressions_def set_simps
    by (elim insertE emptyE; simp add: has_suffix_append_short has_suffix_append_long)
  then show ?thesis
    by (simp add: strip_wal_compression_def trim_suffix_def has_suffix_append_short)
qed

lemma map_lower_equal_fold_refl: "equal_fold a a"
  by (simp add: equal_fold_def)

lemma classify_stored_segment:
  assumes "server \<noteq> []" "CHR ''/'' \<notin> set server" "tli \<noteq> 0" "stored_suffix suf cmp"
    and key: "ob_key ob = segment_key server (wal_text tli log seg) suf"
  shows "classify_wal_object ob =
    Some \<lparr>cw_key = ob_key ob, cw_server = server, cw_name = wal_text tli log seg,
      cw_compression = cmp, cw_class = WALSegment, cw_timeline = tli, cw_log = log,
      cw_segment = seg, cw_last_modified = time_utc (ob_last_modified ob),
      cw_reason = ''complete WAL segment name''\<rparr>"
proof -
  let ?n = "wal_text tli log seg"
  have hex: "list_all hex_char ?n" using wal_text_hex [of tli log seg] by (simp add: is_hex_def)
  then have slash: "CHR ''/'' \<notin> set ?n" by (simp add: hex_no_dot)
  have dir: "CHR ''/'' \<notin> set (take 16 ?n)" using slash by (auto dest: in_set_takeD)
  have "CHR ''/'' \<notin> set suf"
    using assms(4) by (auto simp: stored_suffix_def wal_compressions_def)
  with slash have stored: "split_on (CHR ''/'') (?n @ suf) = [?n @ suf]"
    by (simp add: split_on_none)
  have "ob_key ob = server @ CHR ''/'' # (''wals'' @ CHR ''/'' # (take 16 ?n @ CHR ''/'' # (?n @ suf)))"
    by (simp add: key segment_key_def)
  then have parts: "split_on (CHR ''/'') (ob_key ob) = [server, ''wals'', take 16 ?n, ?n @ suf]"
    using assms(2) dir stored by (simp only: split_on_append) (simp add: split_on_append)
  have dirhex: "is_hex (take 16 ?n)"
    using hex by (auto simp: is_hex_def list_all_iff dest: in_set_takeD simp flip: length_0_conv)
  have seg: "take 8 (drop 16 ?n) = hex_fixed 8 (unat seg)"
    using wal_text_parts(3) [of tli log seg] by simp
  show ?thesis
    using assms(1,3) dirhex
    by (simp add: classify_wal_object_def parts strip_stored [OF hex assms(4)] classify_segment_def
        map_lower_equal_fold_refl wal_text_parts(1,2) seg parse_hex32_fixed)
qed

lemma wal_reasons_bounded:
  "r \<in> set wal_reasons \<Longrightarrow> r \<noteq> [] \<and> length r \<le> 256 \<and> \<not> has_control r"
  by (auto simp: wal_reasons_def ascii_control_def)


section \<open>Properties\<close>

text \<open>
  C22. Segment names are parsed and printed consistently for every valid segment size: parsing
  gives a timeline and position exactly for the 24 hexadecimal digits that \<open>WALName\<close> prints
  for them, up to the case of the digits.
\<close>

theorem wal_name_parse_print:
  "parse_wal_name n sz = Inr (tli, p) \<longleftrightarrow>
     length n = 24 \<and> is_hex n \<and> wal_name tli p sz = Inr (map upper_char n)"
  by (rule parse_wal_name_Inr_iff)

text \<open>
  C23. Positions number the segments of a timeline in the order of their names, without
  collisions: comparing two positions compares (log, segment) lexicographically.
\<close>

theorem wal_position_order:
  assumes "wal_position tli l1 s1 sz = Inr p" and "wal_position tli l2 s2 sz = Inr q"
  shows "(p < q \<longleftrightarrow> l1 < l2 \<or> (l1 = l2 \<and> s1 < s2)) \<and> (p = q \<longleftrightarrow> l1 = l2 \<and> s1 = s2)
     \<and> unat p < 2 ^ 44"
  using wal_position_less_iff [OF assms] wal_position_inj assms wal_position_bound(1) [OF assms(1)]
  by auto

lemma wal_position_order_witness:
  "\<exists>p q. wal_position 1 0 255 16777216 = Inr p \<and> wal_position 1 1 0 16777216 = Inr q \<and> p < q"
proof -
  have sz: "valid_wal_segment_size 16777216" "segments_per_id 16777216 = 256"
    by (simp_all add: valid_wal_segment_size_def MinWALSegmentSize_def MaxWALSegmentSize_def
        segments_per_id_def)
  have "wal_position 1 0 255 16777216 = Inr 255" "wal_position 1 1 0 16777216 = Inr 256"
    by (simp_all add: wal_position_def sz)
  from wal_position_order [OF this] this show ?thesis by simp
qed

text \<open>
  Every stored form of a WAL segment is recognised: an object below
  \<open>server/wals/<hash>/\<close> named by a segment, plain or with any supported compression suffix, is
  classified as a segment of that server at exactly that position.
\<close>

theorem stored_segment_recognised:
  assumes "server \<noteq> []" "CHR ''/'' \<notin> set server" "stored_suffix suf cmp"
    and "wal_name tli p sz = Inr name" and "ob_key ob = segment_key server name suf"
  shows "\<exists>c. classify_wal_object ob = Some c \<and> cw_class c = WALSegment \<and> cw_server c = server
     \<and> cw_compression c = cmp \<and> cw_timeline c = tli
     \<and> wal_position tli (cw_log c) (cw_segment c) sz = Inr p"
proof -
  obtain log seg where pos: "wal_position tli log seg sz = Inr p" and n: "name = wal_text tli log seg"
    using assms(4) by (auto simp: wal_name_Inr_iff)
  then have "tli \<noteq> 0" by (simp add: wal_position_Inr_iff)
  from classify_stored_segment [OF assms(1,2) this assms(3), of ob log seg] pos assms(5) n
  show ?thesis by simp
qed

lemma stored_segment_recognised_witness:
  "\<exists>c. classify_wal_object \<lparr>ob_key = segment_key ''s'' (wal_text 1 0 7) ''.gz'', ob_size = 1,
      ob_last_modified = zero_time, ob_etag = []\<rparr> = Some c \<and> cw_class c = WALSegment"
proof -
  have "valid_wal_segment_size 16777216" "segments_per_id 16777216 = 256"
    by (simp_all add: valid_wal_segment_size_def MinWALSegmentSize_def MaxWALSegmentSize_def
        segments_per_id_def)
  then have "wal_position 1 0 7 16777216 = Inr 7" by (simp add: wal_position_def)
  then have "wal_name 1 7 16777216 = Inr (wal_text 1 0 7)" by (rule wal_name_of_position)
  moreover have "stored_suffix ''.gz'' ''gzip''" by (simp add: stored_suffix_def wal_compressions_def)
  ultimately show ?thesis
    using stored_segment_recognised [of "''s''" "''.gz''" "''gzip''" 1 7 16777216 "wal_text 1 0 7"
        "\<lparr>ob_key = segment_key ''s'' (wal_text 1 0 7) ''.gz'', ob_size = 1,
      ob_last_modified = zero_time, ob_etag = []\<rparr>"] by auto
qed

end
