(* ===== verification/Catalog.thy ===== *)
theory Catalog
  imports Wal_Names
begin

text \<open>
  The Barman backup catalog (\<open>internal/formats/barmancloud/catalog.go\<close>): the parser of
  \<open>backup.info\<close> files, the rules for backup artifacts, the structural check of one backup
  against the store, and the analysis of a whole listing.

  Parameters: \<open>parse_time layout text\<close> is Go's \<open>time.Parse\<close> (calendar code of the standard
  library), and the \<open>reader\<close> is the provider adapter. The analysis does not look at its
  context; cancelling it is a failing read or stat. The case of the status and the type is
  converted for ASCII letters only (see \<open>Prelude\<close>).
\<close>

section \<open>Backups\<close>

definition MaxBackupInfoBytes :: nat where "MaxBackupInfoBytes = 262144"

record backup =
  bk_server :: string
  bk_id :: string
  bk_status :: string
  bk_type :: string
  bk_system_id :: string
  bk_state :: state
  bk_reason :: string
  bk_begin_wal :: string
  bk_end_wal :: string
  bk_begin_lsn :: string
  bk_end_lsn :: string
  bk_segment_size :: int
  bk_version :: int
  bk_timeline :: u32
  bk_logical_bytes :: int
  bk_dedup_bytes :: "int option"
  bk_stored_bytes :: int
  bk_compression :: string
  bk_encryption :: string
  bk_tablespaces :: "string list"
  bk_begin_at :: gotime
  bk_end_at :: gotime
  bk_artifacts :: "string list"

definition empty_backup :: backup where
  "empty_backup =
     \<lparr>bk_server = [], bk_id = [], bk_status = [], bk_type = [], bk_system_id = [],
      bk_state = OtherState [], bk_reason = [], bk_begin_wal = [], bk_end_wal = [],
      bk_begin_lsn = [], bk_end_lsn = [], bk_segment_size = 0, bk_version = 0, bk_timeline = 0,
      bk_logical_bytes = 0, bk_dedup_bytes = None, bk_stored_bytes = 0, bk_compression = [],
      bk_encryption = [], bk_tablespaces = [], bk_begin_at = zero_time, bk_end_at = zero_time,
      bk_artifacts = []\<rparr>"

definition bare_backup :: "string \<Rightarrow> string \<Rightarrow> string \<Rightarrow> backup" where
  "bare_backup server i reason =
     empty_backup\<lparr>bk_server := server, bk_id := i, bk_state := Unknown, bk_reason := reason\<rparr>"

section \<open>Fields of backup.info\<close>

text \<open>A Go map of strings gives the empty string for a missing key.\<close>

type_synonym metadata = "string \<Rightarrow> string"

fun info_values :: "string list \<Rightarrow> metadata \<Rightarrow> metadata result" where
  "info_values [] values = Inr values"
| "info_values (raw # rest) values =
     (let line = trim_space raw in
      if line = [] \<or> has_prefix line ''#'' then info_values rest values
      else case cut_at ''='' line of
        None \<Rightarrow> Inl ''malformed Barman backup metadata''
      | Some (key, value) \<Rightarrow>
          if key = [] then Inl ''malformed Barman backup metadata''
          else info_values rest (values(to_lower (trim_space key) := trim_space value)))"

fun first_value :: "metadata \<Rightarrow> string list \<Rightarrow> string" where
  "first_value values [] = []"
| "first_value values (key # keys) =
     (if values key \<noteq> [] \<and> \<not> equal_fold (values key) ''none'' then values key
      else first_value values keys)"

fun first_including_none :: "metadata \<Rightarrow> string list \<Rightarrow> string" where
  "first_including_none values [] = []"
| "first_including_none values (key # keys) =
     (if values key \<noteq> [] then values key else first_including_none values keys)"

definition assign_legacy_xlog :: "string \<Rightarrow> string \<Rightarrow> string \<Rightarrow> string \<times> string" where
  "assign_legacy_xlog wal lsn value =
     (if value = [] then (wal, lsn)
      else if wal = [] \<and> length value = 24 \<and> is_hex value then (value, lsn)
      else if lsn = [] then (wal, value) else (wal, lsn))"

definition parse_optional_int :: "string \<Rightarrow> int option" where
  "parse_optional_int value = (if value = [] then Some 0 else parse_int64 value)"

definition barman_time_layouts :: "string list" where
  "barman_time_layouts =
     [''2006-01-02T15:04:05Z07:00'', ''2006-01-02 15:04:05.999999-07:00'',
      ''2006-01-02 15:04:05-07:00'', ''2006-01-02 15:04:05 -0700'', ''Mon Jan 2 15:04:05 2006'']"

fun first_layout ::
  "(string \<Rightarrow> string \<Rightarrow> gotime option) \<Rightarrow> string list \<Rightarrow> string \<Rightarrow> gotime option" where
  "first_layout parse_time [] value = None"
| "first_layout parse_time (layout # layouts) value =
     (case parse_time layout value of Some t \<Rightarrow> Some (time_utc t)
      | None \<Rightarrow> first_layout parse_time layouts value)"

definition parse_barman_time ::
  "(string \<Rightarrow> string \<Rightarrow> gotime option) \<Rightarrow> string \<Rightarrow> gotime option" where
  "parse_barman_time parse_time value =
     (if value = [] then Some zero_time else first_layout parse_time barman_time_layouts value)"

section \<open>Tablespace lists\<close>

text \<open>
  The expression of \<open>tablespaceTuplePattern\<close>, an open bracket, a quoted name, a comma, a
  number that may be quoted, a comma, a quoted path and a close bracket. Every repetition in
  it is followed by a character it cannot contain, so a match needs no backtracking: each
  step below consumes the longest run, as the expression does.
\<close>

definition re_space :: "char \<Rightarrow> bool" where
  "re_space c \<longleftrightarrow> byte c \<in> {9, 10, 12, 13, 32}"

definition is_quote :: "char \<Rightarrow> bool" where
  "is_quote c \<longleftrightarrow> byte c = 39 \<or> byte c = 34"

definition skip_spaces :: "string \<Rightarrow> string" where
  "skip_spaces s = dropWhile re_space s"

definition eat_char :: "char \<Rightarrow> string \<Rightarrow> string option" where
  "eat_char c s = (case s of [] \<Rightarrow> None | x # xs \<Rightarrow> if x = c then Some xs else None)"

definition eat_quoted :: "string \<Rightarrow> string option" where
  "eat_quoted s = (case s of [] \<Rightarrow> None
     | q # xs \<Rightarrow> if \<not> is_quote q then None
         else (case dropWhile (\<lambda>c. \<not> is_quote c) xs of [] \<Rightarrow> None | _ # ys \<Rightarrow> Some ys))"

definition eat_optional_quote :: "string \<Rightarrow> string" where
  "eat_optional_quote s = (case s of [] \<Rightarrow> [] | q # xs \<Rightarrow> if is_quote q then xs else s)"

text \<open>The digits of the second component and what follows the match.\<close>

definition match_tuple :: "string \<Rightarrow> (string \<times> string) option" where
  "match_tuple s0 =
     (case eat_char (CHR ''('') s0 of None \<Rightarrow> None | Some s1 \<Rightarrow>
      (case eat_quoted (skip_spaces s1) of None \<Rightarrow> None | Some s2 \<Rightarrow>
      (case eat_char (CHR '','') (skip_spaces s2) of None \<Rightarrow> None | Some s3 \<Rightarrow>
      (let s4 = eat_optional_quote (skip_spaces s3);
           digits = takeWhile is_digit s4;
           s5 = eat_optional_quote (dropWhile is_digit s4)
       in if digits = [] then None
          else case eat_char (CHR '','') (skip_spaces s5) of None \<Rightarrow> None | Some s6 \<Rightarrow>
            (case eat_quoted (skip_spaces s6) of None \<Rightarrow> None | Some s7 \<Rightarrow>
             (case eat_char (CHR '')'') (skip_spaces s7) of None \<Rightarrow> None | Some s8 \<Rightarrow>
                Some (digits, s8)))))))"

lemma skip_spaces_length: "length (skip_spaces s) \<le> length s"
  by (simp add: skip_spaces_def length_dropWhile_le)

lemma eat_char_length: "eat_char c s = Some t \<Longrightarrow> length t < length s"
  by (auto simp: eat_char_def split: list.splits if_splits)

lemma eat_quoted_length: "eat_quoted s = Some t \<Longrightarrow> length t < length s"
proof -
  have "length (dropWhile P xs) \<le> length xs" for P and xs :: string
    by (rule length_dropWhile_le)
  then show "eat_quoted s = Some t \<Longrightarrow> length t < length s"
    by (auto simp: eat_quoted_def split: list.splits if_splits)
      (metis Suc_le_eq le_SucI length_Cons)
qed

lemma eat_optional_quote_length: "length (eat_optional_quote s) \<le> length s"
  by (auto simp: eat_optional_quote_def split: list.splits)

lemma match_tuple_length: "match_tuple s = Some (d, t) \<Longrightarrow> length t < length s"
proof -
  assume "match_tuple s = Some (d, t)"
  then obtain s1 s2 s3 s6 s7 where
    e: "eat_char (CHR ''('') s = Some s1" "eat_quoted (skip_spaces s1) = Some s2"
      "eat_char (CHR '','') (skip_spaces s2) = Some s3"
      "eat_char (CHR '','') (skip_spaces (eat_optional_quote (dropWhile is_digit
         (eat_optional_quote (skip_spaces s3))))) = Some s6"
      "eat_quoted (skip_spaces s6) = Some s7" "eat_char (CHR '')'') (skip_spaces s7) = Some t"
    by (auto simp: match_tuple_def Let_def split: option.splits if_splits)
  have "length t < length s7" using eat_char_length [OF e(6)] skip_spaces_length [of s7] by simp
  also have "\<dots> < length s6" using eat_quoted_length [OF e(5)] skip_spaces_length [of s6] by simp
  also have "\<dots> < length s3"
    using eat_char_length [OF e(4)] skip_spaces_length eat_optional_quote_length length_dropWhile_le
    by (meson order_less_le_trans order_trans)
  also have "\<dots> < length s2" using eat_char_length [OF e(3)] skip_spaces_length [of s2] by simp
  also have "\<dots> < length s1" using eat_quoted_length [OF e(2)] skip_spaces_length [of s1] by simp
  also have "\<dots> < length s" using eat_char_length [OF e(1)] .
  finally show ?thesis .
qed

text \<open>\<open>FindAllStringSubmatch\<close> and \<open>ReplaceAllString\<close> in one pass: the numbers and the residue.\<close>

function scan_tuples :: "string \<Rightarrow> string list \<times> string" where
  "scan_tuples [] = ([], [])"
| "scan_tuples (c # cs) =
     (case match_tuple (c # cs) of
        Some (digits, rest) \<Rightarrow> (let (ds, res) = scan_tuples rest in (digits # ds, res))
      | None \<Rightarrow> (let (ds, res) = scan_tuples cs in (ds, c # res)))"
  by pat_completeness auto
termination
  by (relation "measure length") (auto dest: match_tuple_length)

function list_residue_ok :: "string \<Rightarrow> bool" where
  "list_residue_ok s =
     (if s = [] then True
      else if hd s \<in> {CHR ''['', CHR '']'', CHR '',''} then list_residue_ok (tl s)
      else if leading_space s \<noteq> 0 then list_residue_ok (drop (leading_space s) s)
      else False)"
  by pat_completeness auto
termination
proof (relation "measure length")
  fix s :: string
  assume "s \<noteq> []"
  then show "(tl s, s) \<in> measure length" by simp
next
  fix s :: string
  assume "s \<noteq> []" "leading_space s \<noteq> 0"
  then show "(drop (leading_space s) s, s) \<in> measure length" by simp
qed simp

declare list_residue_ok.simps [simp del]

fun collect_oids :: "string list \<Rightarrow> string list \<Rightarrow> string list result" where
  "collect_oids oids [] = Inr oids"
| "collect_oids oids (d # ds) =
     (if d \<in> set oids then Inl ''duplicate tablespace OID'' else collect_oids (oids @ [d]) ds)"

definition parse_tablespace_oids :: "string \<Rightarrow> string list result" where
  "parse_tablespace_oids raw =
     (let value = trim_space raw in
      if value = [] \<or> value = ''None'' \<or> value = ''[]'' then Inr []
      else if \<not> has_prefix value ''['' \<or> \<not> has_suffix value '']''
      then Inl ''invalid tablespace list''
      else let (matches, residual) = scan_tuples value in
        if matches = [] then Inl ''invalid tablespace list''
        else if \<not> list_residue_ok residual then Inl ''invalid tablespace list''
        else case collect_oids [] matches of Inl e \<Rightarrow> Inl e | Inr oids \<Rightarrow> Inr (sort oids))"

lemma collect_oids_Inr: "collect_oids oids ds = Inr r \<Longrightarrow> distinct oids \<Longrightarrow> r = oids @ ds \<and> distinct r"
  by (induction oids ds rule: collect_oids.induct) (auto split: if_splits)

lemma parse_tablespace_oids_sorted:
  assumes "parse_tablespace_oids raw = Inr oids"
  shows "sorted oids" and "distinct oids"
  using assms by (auto simp: parse_tablespace_oids_def Let_def split: if_splits prod.splits sum.splits
      dest: collect_oids_Inr)

section \<open>ParseBackupInfo\<close>

text \<open>
  The part of \<open>ParseBackupInfo\<close> after the field list is read. The source returns the
  partly filled backup beside an error and its only caller drops it then; here an error is
  only its message.
\<close>

definition number_field :: "string \<Rightarrow> string \<Rightarrow> int result" where
  "number_field value msg =
     and_then (or_error (parse_optional_int value) msg) (\<lambda>n. if n < 0 then Inl msg else Inr n)"

definition timeline_field :: "string \<Rightarrow> u32 result" where
  "timeline_field timeline =
     (if timeline = [] then Inr 0
      else case parse_uint 32 timeline of
        None \<Rightarrow> Inl ''Barman backup metadata has malformed timeline''
      | Some parsed \<Rightarrow> if parsed = 0 then Inl ''Barman backup metadata has malformed timeline''
          else Inr (of_nat parsed))"

definition system_id_field :: "string \<Rightarrow> string result" where
  "system_id_field systemid =
     (if 64 < length systemid \<or> \<not> list_all is_digit systemid
      then Inl ''Barman backup metadata has malformed system ID'' else Inr systemid)"

definition dedup_field :: "string \<Rightarrow> int option result" where
  "dedup_field dedup =
     (if dedup = [] then Inr None
      else and_then (number_field dedup ''Barman backup metadata has malformed deduplicated size'')
        (\<lambda>n. Inr (Some n)))"

definition encryption_field :: "metadata \<Rightarrow> string" where
  "encryption_field values =
     (if equal_fold (first_including_none values [''encryption'', ''encryption_mode'']) ''none''
      then ''none'' else first_value values [''encryption'', ''encryption_mode''])"

definition tablespaces_field :: "string \<Rightarrow> string list result" where
  "tablespaces_field raw =
     (case parse_tablespace_oids raw of
        Inl e \<Rightarrow> Inl ''Barman backup metadata has malformed tablespaces''
      | Inr oids \<Rightarrow> Inr oids)"

definition backup_of_values ::
  "(string \<Rightarrow> string \<Rightarrow> gotime option) \<Rightarrow> metadata \<Rightarrow> string \<Rightarrow> string \<Rightarrow> backup result" where
  "backup_of_values parse_time values server i =
     (let b = empty_backup\<lparr>bk_server := server, bk_id := i,
            bk_status := to_upper (first_value values [''status'']),
            bk_type := to_lower (first_value values [''backup_type'', ''backup_method'', ''mode'']),
            bk_state := Unknown, bk_reason := ''metadata status is unknown''\<rparr> in
      if bk_status b = [] then Inl ''Barman backup metadata has no status''
      else and_then (or_error (parse_barman_time parse_time
                (first_value values [''begin_time'', ''begin_time_iso'']))
              ''Barman backup metadata has malformed begin time'') (\<lambda>begin_at.
      and_then (or_error (parse_barman_time parse_time
                (first_value values [''end_time'', ''end_time_iso'']))
              ''Barman backup metadata has malformed end time'') (\<lambda>end_at.
      let begin_x = assign_legacy_xlog (first_value values [''begin_wal''])
            (first_value values [''begin_lsn'']) (first_value values [''begin_xlog'']);
          end_x = assign_legacy_xlog (first_value values [''end_wal''])
            (first_value values [''end_lsn'']) (first_value values [''end_xlog'']) in
      and_then (number_field (first_value values [''xlog_segment_size'', ''wal_segment_size''])
              ''Barman backup metadata has malformed WAL segment size'') (\<lambda>segment_size.
      and_then (number_field (first_value values [''version'', ''postgresql_version''])
              ''Barman backup metadata has malformed PostgreSQL version'') (\<lambda>version.
      and_then (timeline_field (first_value values [''timeline''])) (\<lambda>timeline.
      and_then (system_id_field (first_value values [''systemid'', ''system_id''])) (\<lambda>systemid.
      and_then (number_field (first_value values [''size'', ''backup_size''])
              ''Barman backup metadata has malformed logical size'') (\<lambda>logical.
      and_then (dedup_field (first_value values [''deduplicated_size''])) (\<lambda>dedup.
      and_then (tablespaces_field (values ''tablespaces'')) (\<lambda>oids.
      Inr (b\<lparr>bk_begin_at := begin_at, bk_end_at := end_at,
            bk_begin_wal := fst begin_x, bk_end_wal := fst end_x,
            bk_begin_lsn := snd begin_x, bk_end_lsn := snd end_x,
            bk_segment_size := segment_size, bk_version := version,
            bk_timeline := timeline, bk_system_id := systemid,
            bk_logical_bytes := logical, bk_dedup_bytes := dedup,
            bk_compression := first_value values [''compression'', ''compression_type''],
            bk_encryption := encryption_field values,
            bk_tablespaces := oids\<rparr>)))))))))))"

definition parse_backup_info ::
  "(string \<Rightarrow> string \<Rightarrow> gotime option) \<Rightarrow> string \<Rightarrow> string \<Rightarrow> string \<Rightarrow> backup result" where
  "parse_backup_info parse_time data server i =
     (if data = [] \<or> MaxBackupInfoBytes < length data \<or> server = [] \<or> i = []
      then Inl ''invalid bounded Barman backup metadata''
      else let (lines, too_long) = scan_lines MaxBackupInfoBytes data in
        case info_values lines (\<lambda>_. []) of
          Inl e \<Rightarrow> Inl e
        | Inr values \<Rightarrow>
            if too_long then Inl ''malformed Barman backup metadata''
            else backup_of_values parse_time values server i)"

section \<open>Artifacts\<close>

definition unsupported_type :: "string \<Rightarrow> bool" where
  "unsupported_type value \<longleftrightarrow> contains_str value ''snapshot'' \<or> contains_str value ''increment''
     \<or> (value \<noteq> [] \<and> value \<noteq> ''full'' \<and> value \<noteq> ''postgres'' \<and> value \<noteq> ''rsync'' \<and> value \<noteq> ''tar'')"

definition supported_compression :: "string \<Rightarrow> bool" where
  "supported_compression value \<longleftrightarrow>
     to_lower value \<in> {[], ''none'', ''gzip'', ''gz'', ''bzip2'', ''bz2'', ''snappy'', ''lz4''}"

definition compression_extensions :: "string \<Rightarrow> string list" where
  "compression_extensions compression =
     (let c = to_lower compression in
      if c = ''none'' then [[]]
      else if c = ''gzip'' \<or> c = ''gz'' then [''.gz'']
      else if c = ''bzip2'' \<or> c = ''bz2'' then [''.bz2'']
      else if c = ''snappy'' then [''.snappy'']
      else if c = ''lz4'' then [''.lz4'']
      else [[], ''.gz'', ''.bz2'', ''.snappy'', ''.lz4''])"

text \<open>The numbered form \<open>root_NNNN.tar\<close> is reduced to \<open>root.tar\<close> first.\<close>

definition strip_part_number :: "string \<Rightarrow> string option" where
  "strip_part_number remainder =
     (if has_prefix remainder ''_'' then
        (case cut_at ''.tar'' (drop 1 remainder) of
           None \<Rightarrow> None
         | Some (part, rest) \<Rightarrow>
             if length part \<noteq> 4 \<or> \<not> list_all is_digit part then None else Some (''.tar'' @ rest))
      else Some remainder)"

definition artifact_name :: "string \<Rightarrow> string \<Rightarrow> string \<Rightarrow> bool" where
  "artifact_name name root compression \<longleftrightarrow>
     (if name = [] \<or> root = [] then False
      else let remainder = trim_prefix name root in
        if remainder = name then False
        else case strip_part_number remainder of
          None \<Rightarrow> False
        | Some r \<Rightarrow> has_prefix r ''.tar''
            \<and> trim_prefix r ''.tar'' \<in> set (compression_extensions compression))"

definition contains_artifact_root :: "string list \<Rightarrow> string \<Rightarrow> string \<Rightarrow> bool" where
  "contains_artifact_root keys root compression \<longleftrightarrow>
     list_ex (\<lambda>key. has_prefix (path_base key) (root @ ''.tar'')
        \<and> artifact_name (path_base key) root compression) keys"

definition expected_roots :: "backup \<Rightarrow> string list" where
  "expected_roots b = ''data'' # bk_tablespaces b"

definition artifacts :: "object list \<Rightarrow> string \<Rightarrow> backup \<Rightarrow> string list" where
  "artifacts objects info_key b =
     sort (map ob_key (filter (\<lambda>ob. ob_key ob \<noteq> info_key
        \<and> list_ex (\<lambda>root. artifact_name (path_base (ob_key ob)) root (bk_compression b))
            (expected_roots b)) objects))"

fun artifact_bytes_from :: "object list \<Rightarrow> int \<Rightarrow> string list \<Rightarrow> int" where
  "artifact_bytes_from objects acc [] = acc"
| "artifact_bytes_from objects acc (key # keys) =
     (case find (\<lambda>ob. ob_key ob = key) objects of
        None \<Rightarrow> artifact_bytes_from objects acc keys
      | Some ob \<Rightarrow> artifact_bytes_from objects (i64 (acc + ob_size ob)) keys)"

definition artifact_bytes :: "object list \<Rightarrow> string list \<Rightarrow> int" where
  "artifact_bytes objects keys = artifact_bytes_from objects 0 keys"

definition contains_key :: "object list \<Rightarrow> string \<Rightarrow> bool" where
  "contains_key objects key \<longleftrightarrow> list_ex (\<lambda>ob. ob_key ob = key) objects"

definition backup_object_key :: "string \<Rightarrow> (string \<times> string) option" where
  "backup_object_key key =
     (let parts = split_on (CHR ''/'') key in
      if length parts < 4 \<or> parts ! 1 \<noteq> ''base'' \<or> parts ! 0 = [] \<or> parts ! 2 = [] then None
      else Some (parts ! 0, parts ! 2))"

definition backup_info_key :: "string \<Rightarrow> (string \<times> string) option" where
  "backup_info_key key =
     (case backup_object_key key of None \<Rightarrow> None
      | Some r \<Rightarrow> if path_base key = ''backup.info'' then Some r else None)"

section \<open>One backup against the store\<close>

definition read_backup ::
  "(string \<Rightarrow> string \<Rightarrow> gotime option) \<Rightarrow> reader \<Rightarrow> string \<Rightarrow> string \<Rightarrow> string \<Rightarrow> backup" where
  "read_backup parse_time rd key server i =
     (case rd_open rd \<lparr>or_key = key, or_max_bytes = int MaxBackupInfoBytes\<rparr> of
        OpenFailed \<Rightarrow> bare_backup server i ''backup metadata could not be read''
      | ReadFailed \<Rightarrow> bare_backup server i ''backup metadata is unreadable''
      | Content bytes \<Rightarrow>
          (let data = take (MaxBackupInfoBytes + 1) bytes in
           if MaxBackupInfoBytes < length data
           then bare_backup server i ''backup metadata is unreadable''
           else case parse_backup_info parse_time data server i of
             Inl e \<Rightarrow> bare_backup server i ''backup metadata is malformed''
           | Inr b \<Rightarrow>
               (let b1 = (if bk_status b = ''DONE''
                   then b\<lparr>bk_state := Warning, bk_reason := ''awaiting structural artifact validation''\<rparr>
                   else if bk_status b = ''STARTED''
                   then b\<lparr>bk_state := Warning, bk_reason := ''backup is in progress''\<rparr>
                   else if bk_status b = ''FAILED''
                   then b\<lparr>bk_state := Unhealthy, bk_reason := ''backup failed''\<rparr>
                   else b\<lparr>bk_state := Unknown, bk_reason := ''backup status is unsupported''\<rparr>);
                    b2 = (if unsupported_type (bk_type b1)
                   then b1\<lparr>bk_state := Unknown, bk_reason := ''backup type is unsupported''\<rparr> else b1)
                in if \<not> supported_compression (bk_compression b2)
                   then b2\<lparr>bk_state := Unknown, bk_reason := ''backup compression is unsupported''\<rparr>
                   else b2)))"

fun stat_artifacts :: "reader \<Rightarrow> string list \<Rightarrow> string list \<Rightarrow> state \<times> string" where
  "stat_artifacts rd seen [] = (Healthy, ''all discovered backup data artifacts are stat-able'')"
| "stat_artifacts rd seen (key # keys) =
     (if key \<in> set seen then (Unknown, ''duplicate backup artifact listing'')
      else case rd_stat rd \<lparr>sr_key = key\<rparr> of
        Inl e \<Rightarrow> (Unknown, ''backup artifact could not be confirmed'')
      | Inr ob \<Rightarrow>
          if ob_key ob \<noteq> key \<or> ob_size ob < 0
          then (Unknown, ''backup artifact could not be confirmed'')
          else stat_artifacts rd (key # seen) keys)"

definition structural_state :: "reader \<Rightarrow> backup \<Rightarrow> state \<times> string" where
  "structural_state rd b =
     (if bk_artifacts b = [] then (Unhealthy, ''expected main-data artifact is missing'')
      else if \<not> list_all (\<lambda>root. contains_artifact_root (bk_artifacts b) root (bk_compression b))
         (expected_roots b)
      then (Unhealthy, ''expected main-data or tablespace artifact is missing'')
      else stat_artifacts rd [] (bk_artifacts b))"

section \<open>The whole listing\<close>

definition composite_key :: "string \<times> string \<Rightarrow> string" where
  "composite_key r = fst r @ CHR 0x00 # snd r"

definition group_object :: "(string \<times> object list) list \<Rightarrow> object \<Rightarrow> (string \<times> object list) list" where
  "group_object groups ob =
     (case backup_info_key (ob_key ob) of
        Some r \<Rightarrow> group_add (composite_key r) ob groups
      | None \<Rightarrow>
          (case backup_object_key (ob_key ob) of
             Some r \<Rightarrow> group_add (composite_key r) ob groups
           | None \<Rightarrow> groups))"

definition group_objects :: "object list \<Rightarrow> (string \<times> object list) list" where
  "group_objects objects = foldl group_object [] objects"

definition backup_info_path :: "string \<Rightarrow> string \<Rightarrow> string" where
  "backup_info_path server i = server @ ''/base/'' @ i @ ''/backup.info''"

definition analyze_listed ::
  "(string \<Rightarrow> string \<Rightarrow> gotime option) \<Rightarrow> reader \<Rightarrow> string \<Rightarrow> string \<Rightarrow> object list \<Rightarrow> backup" where
  "analyze_listed parse_time rd server i listed =
     (let info_key = backup_info_path server i in
      if \<not> contains_key listed info_key
      then bare_backup server i ''required backup metadata is missing''
      else let b = read_backup parse_time rd info_key server i;
               keys = artifacts listed info_key b;
               b = b\<lparr>bk_artifacts := keys, bk_stored_bytes := artifact_bytes listed keys\<rparr> in
        if bk_state b = Warning \<and> bk_reason b = ''awaiting structural artifact validation''
        then let verdict = structural_state rd b
             in b\<lparr>bk_state := fst verdict, bk_reason := snd verdict\<rparr>
        else b)"

definition group_identity :: "string \<Rightarrow> string \<times> string" where
  "group_identity composite =
     (case cut_at [CHR 0x00] composite of Some r \<Rightarrow> r | None \<Rightarrow> (composite, []))"

definition analyze_group ::
  "(string \<Rightarrow> string \<Rightarrow> gotime option) \<Rightarrow> reader \<Rightarrow> string \<times> object list \<Rightarrow> backup" where
  "analyze_group parse_time rd grp =
     analyze_listed parse_time rd (fst (group_identity (fst grp))) (snd (group_identity (fst grp)))
       (snd grp)"

definition analyze ::
  "(string \<Rightarrow> string \<Rightarrow> gotime option) \<Rightarrow> reader \<Rightarrow> object list \<Rightarrow> backup list" where
  "analyze parse_time rd objects =
     sort_key (\<lambda>b. (bk_server b, bk_id b)) (map (analyze_group parse_time rd) (group_objects objects))"

section \<open>Lemmas\<close>

lemma artifacts_set:
  "set (artifacts objects info_key b) =
     {ob_key ob | ob. ob \<in> set objects \<and> ob_key ob \<noteq> info_key
        \<and> (\<exists>root\<in>set (expected_roots b). artifact_name (path_base (ob_key ob)) root (bk_compression b))}"
  by (auto simp: artifacts_def list_ex_iff)

lemma stat_artifacts_Healthy:
  "fst (stat_artifacts rd seen keys) = Healthy \<longleftrightarrow>
     distinct keys \<and> set keys \<inter> set seen = {}
     \<and> (\<forall>k\<in>set keys. \<exists>ob. rd_stat rd \<lparr>sr_key = k\<rparr> = Inr ob \<and> ob_key ob = k \<and> 0 \<le> ob_size ob)"
  by (induction rd seen keys rule: stat_artifacts.induct) (auto split: sum.splits)

lemma stat_artifacts_state: "fst (stat_artifacts rd seen keys) \<in> {Healthy, Unknown}"
  by (induction rd seen keys rule: stat_artifacts.induct) (auto split: sum.splits)

text \<open>What a healthy structural verdict promises about the store.\<close>

definition structurally_complete :: "reader \<Rightarrow> backup \<Rightarrow> bool" where
  "structurally_complete rd b \<longleftrightarrow>
     (\<forall>root\<in>set (expected_roots b). \<exists>key\<in>set (bk_artifacts b).
        has_prefix (path_base key) (root @ ''.tar'')
        \<and> artifact_name (path_base key) root (bk_compression b))
     \<and> distinct (bk_artifacts b)
     \<and> (\<forall>key\<in>set (bk_artifacts b). \<exists>ob. rd_stat rd \<lparr>sr_key = key\<rparr> = Inr ob
          \<and> ob_key ob = key \<and> 0 \<le> ob_size ob)"

lemma structural_state_Healthy_iff:
  "fst (structural_state rd b) = Healthy \<longleftrightarrow> structurally_complete rd b"
proof (cases "bk_artifacts b = []")
  case True
  then show ?thesis
    by (auto simp: structural_state_def structurally_complete_def expected_roots_def)
next
  case False
  then show ?thesis
    by (simp add: structural_state_def structurally_complete_def stat_artifacts_Healthy
        contains_artifact_root_def list_all_iff list_ex_iff)
qed

lemma structural_state_valid: "fst (structural_state rd b) \<in> {Healthy, Unhealthy, Unknown}"
  using stat_artifacts_state by (simp add: structural_state_def) blast

lemma bare_backup_simps [simp]:
  "bk_server (bare_backup s i r) = s" "bk_id (bare_backup s i r) = i"
  "bk_state (bare_backup s i r) = Unknown" "bk_reason (bare_backup s i r) = r"
  by (simp_all add: bare_backup_def)

text \<open>The numbers of a parsed backup are in range, its identity is the one asked for.\<close>

definition backup_numbers_ok :: "backup \<Rightarrow> bool" where
  "backup_numbers_ok b \<longleftrightarrow> 0 \<le> bk_segment_size b \<and> 0 \<le> bk_version b \<and> 0 \<le> bk_logical_bytes b
     \<and> (\<forall>n. bk_dedup_bytes b = Some n \<longrightarrow> 0 \<le> n)"

lemma number_field_nonneg: "number_field v msg = Inr n \<Longrightarrow> 0 \<le> n"
  by (auto simp: number_field_def result_iffs split: if_splits)

lemma dedup_field_nonneg: "dedup_field v = Inr (Some n) \<Longrightarrow> 0 \<le> n"
  by (auto simp: dedup_field_def result_iffs dest: number_field_nonneg split: if_splits)

lemma backup_of_values_ok:
  assumes "backup_of_values pt values server i = Inr b"
  shows "bk_server b = server \<and> bk_id b = i \<and> backup_numbers_ok b \<and> bk_state b = Unknown"
  using assms
  apply (simp only: backup_of_values_def Let_def result_iffs split: if_split_asm)
  apply (simp only: sum.distinct)
  apply (elim exE conjE)
  apply (drule number_field_nonneg)+
  apply (simp only: sum.inject)
  apply (erule subst)
  apply (simp add: backup_numbers_ok_def)
  apply (auto dest: dedup_field_nonneg)
  done

lemma parse_backup_info_ok:
  assumes "parse_backup_info pt data server i = Inr b"
  shows "bk_server b = server \<and> bk_id b = i \<and> backup_numbers_ok b"
  using assms
  by (auto simp: parse_backup_info_def Let_def split: if_splits sum.splits prod.splits
      dest: backup_of_values_ok)

lemma read_backup_id [simp]:
  "bk_server (read_backup pt rd key server i) = server" "bk_id (read_backup pt rd key server i) = i"
  by (auto simp: read_backup_def Let_def split: opened.splits sum.splits dest!: parse_backup_info_ok)

lemma read_backup_numbers: "backup_numbers_ok (read_backup pt rd key server i)"
proof -
  have bare: "backup_numbers_ok (bare_backup s i r)" for s i r
    by (simp add: backup_numbers_ok_def bare_backup_def empty_backup_def)
  have upd: "backup_numbers_ok (b\<lparr>bk_state := s, bk_reason := r\<rparr>) = backup_numbers_ok b" for b s r
    by (simp add: backup_numbers_ok_def)
  show ?thesis
    by (auto simp: read_backup_def Let_def bare upd split: opened.splits sum.splits
        dest: parse_backup_info_ok)
qed

lemma read_backup_state: "bk_state (read_backup pt rd key server i) \<in> {Warning, Unhealthy, Unknown}"
  by (auto simp: read_backup_def Let_def split: opened.splits sum.splits)

lemma read_backup_awaiting:
  assumes "bk_state (read_backup pt rd key server i) = Warning"
    and "bk_reason (read_backup pt rd key server i) = ''awaiting structural artifact validation''"
  shows "bk_status (read_backup pt rd key server i) = ''DONE''
     \<and> \<not> unsupported_type (bk_type (read_backup pt rd key server i))
     \<and> supported_compression (bk_compression (read_backup pt rd key server i))"
  using assms by (auto simp: read_backup_def Let_def split: opened.splits sum.splits if_splits)


section \<open>Groups of a listing\<close>

definition group_key :: "object \<Rightarrow> string option" where
  "group_key ob = map_option composite_key (backup_object_key (ob_key ob))"

lemma group_object_key:
  "group_object groups ob =
     (case group_key ob of None \<Rightarrow> groups | Some k \<Rightarrow> group_add k ob groups)"
  by (auto simp: group_object_def group_key_def backup_info_key_def split: option.splits)

lemma distinct_foldl_group_object:
  "distinct (map fst groups) \<Longrightarrow> distinct (map fst (foldl group_object groups objects))"
proof (induction objects arbitrary: groups)
  case (Cons ob objects)
  have "distinct (map fst (group_object groups ob))"
    using Cons.prems by (simp add: group_object_key distinct_group_add split: option.splits)
  then show ?case using Cons.IH by simp
qed simp

lemma map_of_group_object:
  "map_of (group_object groups ob) k =
     (if group_key ob = Some k
      then Some (case map_of groups k of None \<Rightarrow> [ob] | Some vs \<Rightarrow> vs @ [ob])
      else map_of groups k)"
  by (simp add: group_object_key map_of_group_add split: option.splits)

lemma map_of_group_objects:
  "map_of (group_objects objects) k =
     (let l = filter (\<lambda>ob. group_key ob = Some k) objects in if l = [] then None else Some l)"
proof (induction objects rule: rev_induct)
  case Nil
  then show ?case by (simp add: group_objects_def)
next
  case (snoc ob objects)
  have step: "group_objects (objects @ [ob]) = group_object (group_objects objects) ob"
    by (simp add: group_objects_def)
  show ?case
    unfolding step map_of_group_object snoc.IH Let_def by simp
qed

lemma distinct_group_objects: "distinct (map fst (group_objects objects))"
  by (simp add: group_objects_def distinct_foldl_group_object)

lemma set_group_objects:
  "(k, l) \<in> set (group_objects objects) \<longleftrightarrow>
     l = filter (\<lambda>ob. group_key ob = Some k) objects \<and> l \<noteq> []"
  unfolding map_of_eq_Some_iff [OF distinct_group_objects, symmetric] map_of_group_objects
  by (auto simp: Let_def)

lemma keys_group_objects:
  "fst ` set (group_objects objects) = {k. \<exists>ob\<in>set objects. group_key ob = Some k}"
  unfolding dom_map_of_conv_image_fst [symmetric] dom_def map_of_group_objects Let_def
  by (auto simp: filter_empty_conv)

text \<open>The composite key is cut at its first NUL; cutting never merges two keys.\<close>

abbreviation NUL :: char where "NUL \<equiv> CHR 0x00"

lemma cut_char: "cut_at [c] s = Some (a, b) \<Longrightarrow> s = a @ c # b \<and> c \<notin> set a"
  by (induction s arbitrary: a) (auto simp: has_prefix_def split: if_splits)

lemma cut_char_append: "c \<notin> set a \<Longrightarrow> cut_at [c] (a @ c # b) = Some (a, b)"
  by (induction a) (auto simp: has_prefix_def)

lemma cut_char_None_iff: "cut_at [c] s = None \<longleftrightarrow> c \<notin> set s"
  by (induction s) (auto simp: has_prefix_def)

lemma group_identity_inj: "inj_on group_identity {k. NUL \<in> set k}"
proof (rule inj_onI)
  fix x y assume "x \<in> {k. NUL \<in> set k}" "y \<in> {k. NUL \<in> set k}"
    and eq: "group_identity x = group_identity y"
  then obtain r q where "cut_at [NUL] x = Some r" "cut_at [NUL] y = Some q"
    by (metis cut_char_None_iff mem_Collect_eq not_None_eq)
  then show "x = y"
    using eq cut_char by (cases r; cases q) (fastforce simp: group_identity_def)
qed

lemma group_identity_composite:
  "NUL \<notin> set (fst r) \<Longrightarrow> group_identity (composite_key r) = r"
  by (simp add: group_identity_def composite_key_def cut_char_append)

lemma group_key_NUL: "group_key ob = Some k \<Longrightarrow> NUL \<in> set k"
  by (auto simp: group_key_def composite_key_def)

lemma analyze_listed_identity [simp]:
  "bk_server (analyze_listed pt rd server i l) = server" "bk_id (analyze_listed pt rd server i l) = i"
  by (simp_all add: analyze_listed_def Let_def)

lemma analyze_group_identity:
  "(bk_server (analyze_group pt rd g), bk_id (analyze_group pt rd g)) = group_identity (fst g)"
  by (simp add: analyze_group_def)

lemma analyze_identities:
  "map (\<lambda>b. (bk_server b, bk_id b)) (map (analyze_group pt rd) groups)
     = map group_identity (map fst groups)"
  by (simp add: analyze_group_identity)

lemma distinct_analyze_identities:
  "distinct (map (\<lambda>b. (bk_server b, bk_id b)) (map (analyze_group pt rd) (group_objects objects)))"
proof -
  have "set (map fst (group_objects objects)) \<subseteq> {k. NUL \<in> set k}"
    unfolding set_map keys_group_objects by (auto dest: group_key_NUL)
  then have "inj_on group_identity (set (map fst (group_objects objects)))"
    by (rule inj_on_subset [OF group_identity_inj])
  then show ?thesis
    unfolding analyze_identities distinct_map [of group_identity] using distinct_group_objects by blast
qed


lemma set_analyze:
  "set (analyze pt rd objects) = analyze_group pt rd ` set (group_objects objects)"
  by (simp add: analyze_def)

lemma inj_analyze:
  "inj_on (\<lambda>b. (bk_server b, bk_id b)) (set (map (analyze_group pt rd) (group_objects objects)))"
  "distinct (map (analyze_group pt rd) (group_objects objects))"
  using distinct_map_inj [OF distinct_analyze_identities] by blast+

text \<open>One group does not depend on the order of its objects, when their keys are distinct.\<close>

lemma sort_mset_cong: "mset xs = mset ys \<Longrightarrow> sort xs = (sort ys :: 'a::linorder list)"
  by (metis mset_sort properties_for_sort sorted_sort)

lemma artifacts_mset: "mset xs = mset ys \<Longrightarrow> artifacts xs k b = artifacts ys k b"
  unfolding artifacts_def by (rule sort_mset_cong) (simp add: mset_map mset_filter)

lemma find_key_mset:
  assumes "mset xs = mset ys" and "distinct (map ob_key xs)"
  shows "find (\<lambda>ob. ob_key ob = k) xs = find (\<lambda>ob. ob_key ob = k) ys"
proof -
  have char: "find (\<lambda>ob. ob_key ob = k) zs = Some ob \<longleftrightarrow> ob \<in> set zs \<and> ob_key ob = k"
    if "distinct (map ob_key zs)" for zs ob
    using that by (induction zs) auto
  have "mset (map ob_key xs) = mset (map ob_key ys)" using assms(1) by (simp add: mset_map)
  then have "distinct (map ob_key ys)" using assms(2) mset_eq_imp_distinct_iff by blast
  moreover have "set xs = set ys" using assms(1) by (rule mset_eq_setD)
  ultimately show ?thesis
    using char [OF assms(2)] char by (metis not_Some_eq)
qed

lemma artifact_bytes_mset:
  assumes "mset xs = mset ys" and "distinct (map ob_key xs)"
  shows "artifact_bytes xs keys = artifact_bytes ys keys"
proof -
  have "artifact_bytes_from xs acc keys = artifact_bytes_from ys acc keys" for acc
    by (induction keys arbitrary: acc) (simp_all add: find_key_mset [OF assms] split: option.splits)
  then show ?thesis by (simp add: artifact_bytes_def)
qed

lemma analyze_group_mset:
  assumes "mset xs = mset ys" and "distinct (map ob_key xs)"
  shows "analyze_group pt rd (k, xs) = analyze_group pt rd (k, ys)"
proof -
  have "contains_key xs q = contains_key ys q" for q
    using mset_eq_setD [OF assms(1)] by (simp add: contains_key_def list_ex_iff)
  then show ?thesis
    by (simp only: analyze_group_def analyze_listed_def artifacts_mset [OF assms(1)]
        artifact_bytes_mset [OF assms] fst_conv snd_conv)
qed

lemma analyze_groups_mset:
  assumes "mset xs = mset ys" and "distinct (map ob_key xs)"
  shows "analyze_group pt rd ` set (group_objects xs) \<subseteq> analyze_group pt rd ` set (group_objects ys)"
proof
  fix b assume "b \<in> analyze_group pt rd ` set (group_objects xs)"
  then obtain k l where b: "b = analyze_group pt rd (k, l)" and "(k, l) \<in> set (group_objects xs)"
    by auto
  then have l: "l = filter (\<lambda>ob. group_key ob = Some k) xs" "l \<noteq> []"
    by (auto simp only: set_group_objects)
  let ?l = "filter (\<lambda>ob. group_key ob = Some k) ys"
  have "mset l = mset ?l" using l(1) assms(1) by (simp add: mset_filter)
  moreover from this have "?l \<noteq> []" using l(2) by (metis mset_zero_iff)
  moreover have "distinct (map ob_key l)" using l(1) assms(2) by (simp add: distinct_map_filter)
  ultimately have "b = analyze_group pt rd (k, ?l)" "(k, ?l) \<in> set (group_objects ys)"
    using b analyze_group_mset by (simp_all add: set_group_objects)
  then show "b \<in> analyze_group pt rd ` set (group_objects ys)" by blast
qed

lemma analyze_listed_healthy:
  assumes "bk_state (analyze_listed pt rd server i l) = Healthy"
  defines "b \<equiv> analyze_listed pt rd server i l"
  shows "bk_status b = ''DONE'' \<and> \<not> unsupported_type (bk_type b)
     \<and> supported_compression (bk_compression b) \<and> structurally_complete rd b
     \<and> backup_info_path server i \<in> ob_key ` set l
     \<and> set (bk_artifacts b) \<subseteq> ob_key ` set l"
proof -
  let ?info = "backup_info_path server i"
  define r where "r = read_backup pt rd ?info server i"
  define a where "a = r\<lparr>bk_artifacts := artifacts l ?info r,
              bk_stored_bytes := artifact_bytes l (artifacts l ?info r)\<rparr>"
  have eq: "b = (if \<not> contains_key l ?info
       then bare_backup server i ''required backup metadata is missing''
       else if bk_state r = Warning \<and> bk_reason r = ''awaiting structural artifact validation''
       then a\<lparr>bk_state := fst (structural_state rd a), bk_reason := snd (structural_state rd a)\<rparr>
       else a)"
    unfolding b_def analyze_listed_def Let_def r_def a_def by simp
  have healthy: "bk_state b = Healthy" using assms(1) b_def by simp
  have present: "contains_key l ?info"
    using healthy eq by (metis bare_backup_simps(3) state.distinct(5))
  have "bk_state a = bk_state r" by (simp add: a_def)
  then have waiting: "bk_state r = Warning" "bk_reason r = ''awaiting structural artifact validation''"
    using healthy eq present read_backup_state [of pt rd ?info server i]
    unfolding r_def [symmetric] by (auto split: if_splits)
  have b: "b = a\<lparr>bk_state := fst (structural_state rd a), bk_reason := snd (structural_state rd a)\<rparr>"
    using eq present waiting by simp
  have "fst (structural_state rd a) = Healthy" using healthy b by simp
  then have "structurally_complete rd a" by (simp add: structural_state_Healthy_iff)
  then have "structurally_complete rd b"
    by (simp add: b structurally_complete_def expected_roots_def)
  moreover have "set (bk_artifacts b) \<subseteq> ob_key ` set l"
    by (auto simp: b a_def artifacts_set)
  moreover have "bk_status b = bk_status r" "bk_type b = bk_type r"
    "bk_compression b = bk_compression r" by (simp_all add: b a_def)
  ultimately show ?thesis
    using read_backup_awaiting [OF waiting [unfolded r_def]] present
    unfolding r_def [symmetric] by (auto simp: contains_key_def list_ex_iff intro: rev_image_eqI)
qed

section \<open>A concrete repository\<close>

text \<open>A one-backup repository: the metadata object and the main-data archive.\<close>

definition ex_object :: "string \<Rightarrow> object" where
  "ex_object key = \<lparr>ob_key = key, ob_size = 10, ob_last_modified = zero_time, ob_etag = []\<rparr>"

definition ex_listing :: "object list" where
  "ex_listing = [ex_object ''s/base/b/backup.info'', ex_object ''s/base/b/data.tar'']"

definition ex_reader :: reader where
  "ex_reader = \<lparr>rd_list = \<lambda>n q. Inl (plain_error),
     rd_open = \<lambda>q. Content ''status=DONE'', rd_stat = \<lambda>q. Inr (ex_object (sr_key q))\<rparr>"

lemma ex_lines: "scan_lines MaxBackupInfoBytes ''status=DONE'' = ([''status=DONE''], False)"
  by (simp add: scan_lines_def raw_lines_def MaxBackupInfoBytes_def drop_cr_def Let_def)

lemma ex_values:
  "info_values [''status=DONE''] (\<lambda>_. []) = Inr ((\<lambda>_. [])(''status'' := ''DONE''))"
proof -
  have "trim_space ''status=DONE'' = ''status=DONE''" "to_lower (trim_space ''status'') = ''status''"
    "cut_at ''='' ''status=DONE'' = Some (''status'', ''DONE'')" "trim_space ''DONE'' = ''DONE''"
    by code_simp+
  then show ?thesis by (simp add: Let_def has_prefix_def)
qed

definition ex_backup :: backup where
  "ex_backup = empty_backup\<lparr>bk_server := ''s'', bk_id := ''b'', bk_status := ''DONE'',
     bk_state := Unknown, bk_reason := ''metadata status is unknown''\<rparr>"

lemma ex_parse: "parse_backup_info (\<lambda>l t. None) ''status=DONE'' ''s'' ''b'' = Inr ex_backup"
proof -
  have "backup_of_values (\<lambda>l t. None) ((\<lambda>_. [])(''status'' := ''DONE'')) ''s'' ''b'' = Inr ex_backup"
    by code_simp
  then show ?thesis
    using ex_lines ex_values by (simp add: parse_backup_info_def MaxBackupInfoBytes_def)
qed

lemma ex_read:
  "read_backup (\<lambda>l t. None) ex_reader k ''s'' ''b'' =
     ex_backup\<lparr>bk_state := Warning, bk_reason := ''awaiting structural artifact validation''\<rparr>"
proof -
  have "bk_status ex_backup = ''DONE''" "\<not> unsupported_type (bk_type ex_backup)"
    "supported_compression (bk_compression ex_backup)" by code_simp+
  then show ?thesis
    using ex_parse by (simp add: read_backup_def ex_reader_def MaxBackupInfoBytes_def)
qed

lemma ex_listed: "bk_state (analyze_listed (\<lambda>l t. None) ex_reader ''s'' ''b'' ex_listing) = Healthy"
proof -
  let ?w = "ex_backup\<lparr>bk_state := Warning, bk_reason := ''awaiting structural artifact validation''\<rparr>"
  let ?b = "?w\<lparr>bk_artifacts := [''s/base/b/data.tar''],
      bk_stored_bytes := artifact_bytes ex_listing [''s/base/b/data.tar'']\<rparr>"
  have present: "contains_key ex_listing (backup_info_path ''s'' ''b'')" by code_simp
  have keys: "artifacts ex_listing (backup_info_path ''s'' ''b'') ?w = [''s/base/b/data.tar'']"
    by code_simp
  have healthy: "fst (structural_state ex_reader ?b) = Healthy" by code_simp
  show ?thesis
    unfolding analyze_listed_def Let_def ex_read keys using present healthy by simp
qed

lemma ex_healthy: "map bk_state (analyze (\<lambda>l t. None) ex_reader ex_listing) = [Healthy]"
proof -
  have "group_objects ex_listing = [(''s'' @ NUL # ''b'', ex_listing)]"
    "group_identity (''s'' @ NUL # ''b'') = (''s'', ''b'')"
    by code_simp+
  then show ?thesis
    using ex_listed by (simp add: analyze_def analyze_group_def)
qed

section \<open>Properties\<close>

text \<open>
  C17. A backup the analysis calls healthy was reported DONE by Barman, has a supported type
  and compression, its \<open>backup.info\<close> and all its artifacts are objects of the listing, and
  the main-data archive and the archive of every tablespace are there and stat-able.
\<close>

theorem analyze_healthy:
  assumes "b \<in> set (analyze parse_time rd objects)" and "bk_state b = Healthy"
  shows "bk_status b = ''DONE'' \<and> \<not> unsupported_type (bk_type b)
     \<and> supported_compression (bk_compression b) \<and> structurally_complete rd b
     \<and> backup_info_path (bk_server b) (bk_id b) \<in> ob_key ` set objects
     \<and> set (bk_artifacts b) \<subseteq> ob_key ` set objects"
proof -
  obtain k l where b: "b = analyze_group parse_time rd (k, l)"
    and kl: "(k, l) \<in> set (group_objects objects)"
    using assms(1) by (auto simp: set_analyze)
  obtain server i where bl: "b = analyze_listed parse_time rd server i l"
    by (simp add: b analyze_group_def)
  have "set l \<subseteq> set objects" using kl by (auto simp: set_group_objects)
  moreover note analyze_listed_healthy [of parse_time rd server i l]
  ultimately show ?thesis using assms(2) unfolding bl by fastforce
qed

lemma analyze_healthy_witness:
  "bk_status (hd (analyze (\<lambda>l t. None) ex_reader ex_listing)) = ''DONE''"
proof -
  let ?a = "analyze (\<lambda>l t. None) ex_reader ex_listing"
  have "?a \<noteq> []" "bk_state (hd ?a) = Healthy"
    using ex_healthy by (cases ?a; simp)+
  then show ?thesis using analyze_healthy [of "hd ?a"] hd_in_set by blast
qed

text \<open>
  The catalog lists each backup once, in strictly increasing order of server and then id,
  and it has exactly one entry for every (server, id) directory that the listing names.
\<close>

theorem analyze_sorted_complete:
  "sorted_wrt (\<lambda>a b. (bk_server a, bk_id a) < (bk_server b, bk_id b)) (analyze parse_time rd objects)
   \<and> (\<lambda>b. (bk_server b, bk_id b)) ` set (analyze parse_time rd objects)
       = {r. \<exists>ob q. ob \<in> set objects \<and> backup_object_key (ob_key ob) = Some q
            \<and> r = group_identity (composite_key q)}"
proof
  show "sorted_wrt (\<lambda>a b. (bk_server a, bk_id a) < (bk_server b, bk_id b)) (analyze parse_time rd objects)"
    unfolding analyze_def by (rule strict_sorted_sort_key) (rule inj_analyze)+
  have "(\<lambda>b. (bk_server b, bk_id b)) ` set (analyze parse_time rd objects)
      = group_identity ` fst ` set (group_objects objects)"
    by (simp add: set_analyze image_image analyze_group_identity)
  then show "(\<lambda>b. (bk_server b, bk_id b)) ` set (analyze parse_time rd objects)
       = {r. \<exists>ob q. ob \<in> set objects \<and> backup_object_key (ob_key ob) = Some q
            \<and> r = group_identity (composite_key q)}"
    unfolding keys_group_objects group_key_def by auto
qed

text \<open>
  C28. The catalog does not depend on the order in which the provider lists the objects (nor on
  the iteration order of the Go map of directories), as long as no key is listed twice.
\<close>

theorem analyze_order_independent:
  assumes "mset xs = mset ys" and "distinct (map ob_key xs)"
  shows "analyze parse_time rd xs = analyze parse_time rd ys"
proof -
  have "distinct (map ob_key ys)"
    using assms by (metis mset_eq_imp_distinct_iff mset_map)
  then have "analyze_group parse_time rd ` set (group_objects xs)
      = analyze_group parse_time rd ` set (group_objects ys)"
    using analyze_groups_mset [OF assms] analyze_groups_mset [of ys xs] assms(1) by fastforce
  then have "mset (map (analyze_group parse_time rd) (group_objects xs))
      = mset (map (analyze_group parse_time rd) (group_objects ys))"
    using inj_analyze(2) by (simp only: set_eq_iff_mset_eq_distinct [symmetric] set_map)
  then show ?thesis
    unfolding analyze_def by (rule sort_key_order_independent) (rule inj_analyze)
qed


lemma analyze_order_independent_witness:
  "analyze (\<lambda>l t. None) ex_reader ex_listing = analyze (\<lambda>l t. None) ex_reader (rev ex_listing)"
  by (rule analyze_order_independent) (simp_all add: ex_listing_def ex_object_def)

end
