(* ===== verification/Wal_Collector.thy ===== *)
theory Wal_Collector
  imports Catalog
begin

text \<open>
  The WAL archive catalog (\<open>internal/formats/barmancloud/wal.go\<close>): the collector that compacts
  a listing into ranges, one builder per server, the conversion of the ranges to segment
  positions once the metadata gives the segment size, the gaps between them with their life
  cycle over the refreshes, and the validation of the published catalog.

  The map of builders is an association list; a counter of the source (\<open>int64\<close>) counts
  listed objects one by one, so it cannot reach its bound and is an \<open>int\<close>.
\<close>

section \<open>Data\<close>

definition MaxWALRanges :: nat where "MaxWALRanges = 10000"
definition MaxWALDiagnostics :: nat where "MaxWALDiagnostics = 200"
definition MaxHistoryFiles :: nat where "MaxHistoryFiles = 1000"

record wal_counts =
  ct_segments :: int
  ct_partials :: int
  ct_history :: int
  ct_backup_history :: int
  ct_unknown :: int
  ct_duplicates :: int

record wal_range =
  wr_timeline :: u32
  wr_start :: u64
  wr_end :: u64
  wr_count :: u64
  wr_first :: string
  wr_last :: string
  wr_latest_receipt :: gotime
  wr_end_receipt :: gotime

record history_object =
  ho_key :: string
  ho_server :: string
  ho_name :: string
  ho_compression :: string
  ho_timeline :: u32

datatype gap_status = GapCandidate | GapConfirmed | OtherGap string

record wal_gap =
  wg_timeline :: u32
  wg_start :: u64
  wg_end :: u64
  wg_count :: u64
  wg_first :: string
  wg_last :: string
  wg_status :: gap_status
  wg_first_generation :: u64
  wg_last_generation :: u64

record wal_diagnostic =
  wd_key :: string
  wd_name :: string
  wd_reason :: string
  wd_class :: wal_class
  wd_timeline :: u32
  wd_last_modified :: gotime

record server_wal =
  sw_server :: string
  sw_state :: state
  sw_reason :: string
  sw_version :: int
  sw_segment_size :: int
  sw_counts :: wal_counts
  sw_ranges :: "wal_range list"
  sw_gaps :: "wal_gap list"
  sw_diagnostics :: "wal_diagnostic list"
  sw_diagnostics_truncated :: bool
  sw_ranges_truncated :: bool
  sw_latest_receipt :: gotime

text \<open>\<open>WALCatalog\<close> has one field, its servers.\<close>

type_synonym wal_catalog = "server_wal list"

record raw_range =
  rr_timeline :: u32
  rr_log :: u32
  rr_start :: u32
  rr_end :: u32
  rr_latest_receipt :: gotime
  rr_end_receipt :: gotime

record wal_builder =
  wb_counts :: wal_counts
  wb_ranges :: "raw_range list"
  wb_diagnostics :: "wal_diagnostic list"
  wb_diagnostics_truncated :: bool
  wb_ranges_truncated :: bool
  wb_out_of_order :: bool

record wal_collector =
  wc_servers :: "(string \<times> wal_builder) list"
  wc_history :: "history_object list"
  wc_history_truncated :: bool

definition zero_counts :: wal_counts where
  "zero_counts = \<lparr>ct_segments = 0, ct_partials = 0, ct_history = 0, ct_backup_history = 0,
     ct_unknown = 0, ct_duplicates = 0\<rparr>"

definition empty_builder :: wal_builder where
  "empty_builder = \<lparr>wb_counts = zero_counts, wb_ranges = [], wb_diagnostics = [],
     wb_diagnostics_truncated = False, wb_ranges_truncated = False, wb_out_of_order = False\<rparr>"

definition new_wal_collector :: wal_collector where
  "new_wal_collector = \<lparr>wc_servers = [], wc_history = [], wc_history_truncated = False\<rparr>"

section \<open>The builder of one server\<close>

definition add_diagnostic :: "wal_builder \<Rightarrow> classified_wal \<Rightarrow> wal_builder" where
  "add_diagnostic b ob =
     (if MaxWALDiagnostics \<le> length (wb_diagnostics b) then b\<lparr>wb_diagnostics_truncated := True\<rparr>
      else b\<lparr>wb_diagnostics := wb_diagnostics b @
             [\<lparr>wd_key = cw_key ob, wd_name = cw_name ob, wd_reason = cw_reason ob,
               wd_class = cw_class ob, wd_timeline = cw_timeline ob,
               wd_last_modified = time_utc (cw_last_modified ob)\<rparr>]\<rparr>)"

definition append_range :: "wal_builder \<Rightarrow> classified_wal \<Rightarrow> wal_builder" where
  "append_range b ob =
     (if MaxWALRanges \<le> length (wb_ranges b) then b\<lparr>wb_ranges_truncated := True\<rparr>
      else b\<lparr>wb_ranges := wb_ranges b @
             [\<lparr>rr_timeline = cw_timeline ob, rr_log = cw_log ob, rr_start = cw_segment ob,
               rr_end = cw_segment ob, rr_latest_receipt = cw_last_modified ob,
               rr_end_receipt = cw_last_modified ob\<rparr>]\<rparr>)"

text \<open>The source writes through a pointer to the last range.\<close>

definition set_last_range :: "raw_range \<Rightarrow> wal_builder \<Rightarrow> wal_builder" where
  "set_last_range r b = b\<lparr>wb_ranges := butlast (wb_ranges b) @ [r]\<rparr>"

definition later_receipt :: "gotime \<Rightarrow> raw_range \<Rightarrow> raw_range" where
  "later_receipt t r = (if time_after t (rr_latest_receipt r) then r\<lparr>rr_latest_receipt := t\<rparr> else r)"

definition add_segment :: "wal_builder \<Rightarrow> classified_wal \<Rightarrow> wal_builder" where
  "add_segment b ob =
     (if wb_ranges b = [] then append_range b ob
      else let l = last (wb_ranges b); cs = wb_counts b in
        if rr_timeline l = cw_timeline ob \<and> rr_log l = cw_log ob \<and> rr_end l = cw_segment ob
        then set_last_range (later_receipt (cw_last_modified ob) l)
          (add_diagnostic
            (b\<lparr>wb_counts := cs\<lparr>ct_segments := ct_segments cs - 1,
                              ct_duplicates := ct_duplicates cs + 1\<rparr>\<rparr>)
            (ob\<lparr>cw_class := WALDuplicate,
                cw_reason := ''duplicate representation of one WAL position''\<rparr>))
        else if rr_timeline l = cw_timeline ob \<and> rr_log l = cw_log ob \<and> rr_end l \<noteq> max_u32
            \<and> rr_end l + 1 = cw_segment ob
        then set_last_range (later_receipt (cw_last_modified ob)
               (l\<lparr>rr_end := cw_segment ob, rr_end_receipt := cw_last_modified ob\<rparr>)) b
        else if cw_timeline ob < rr_timeline l
            \<or> cw_timeline ob = rr_timeline l
               \<and> (cw_log ob < rr_log l \<or> cw_log ob = rr_log l \<and> cw_segment ob < rr_end l)
        then add_diagnostic (b\<lparr>wb_out_of_order := True\<rparr>)
               (ob\<lparr>cw_class := WALUnknown,
                   cw_reason := ''provider listing returned WAL positions out of order''\<rparr>)
        else append_range b ob)"

text \<open>The part of \<open>Add\<close> that changes the builder, by the class of the object.\<close>

definition builder_add :: "wal_builder \<Rightarrow> classified_wal \<Rightarrow> wal_builder" where
  "builder_add b c =
     (let cs = wb_counts b in
      case cw_class c of
        WALSegment \<Rightarrow> add_segment (b\<lparr>wb_counts := cs\<lparr>ct_segments := ct_segments cs + 1\<rparr>\<rparr>) c
      | WALPartial \<Rightarrow> add_diagnostic (b\<lparr>wb_counts := cs\<lparr>ct_partials := ct_partials cs + 1\<rparr>\<rparr>) c
      | WALHistory \<Rightarrow> add_diagnostic (b\<lparr>wb_counts := cs\<lparr>ct_history := ct_history cs + 1\<rparr>\<rparr>) c
      | WALBackupHistory \<Rightarrow>
          add_diagnostic (b\<lparr>wb_counts := cs\<lparr>ct_backup_history := ct_backup_history cs + 1\<rparr>\<rparr>) c
      | _ \<Rightarrow> add_diagnostic (b\<lparr>wb_counts := cs\<lparr>ct_unknown := ct_unknown cs + 1\<rparr>\<rparr>) c)"

definition collector_add :: "wal_collector \<Rightarrow> object \<Rightarrow> wal_collector" where
  "collector_add c ob =
     (case classify_wal_object ob of None \<Rightarrow> c
      | Some cl \<Rightarrow>
          let b = (case map_of (wc_servers c) (cw_server cl) of None \<Rightarrow> empty_builder | Some b \<Rightarrow> b);
              c' = c\<lparr>wc_servers := assoc_set (cw_server cl) (builder_add b cl) (wc_servers c)\<rparr>
          in if cw_class cl \<noteq> WALHistory then c'
             else if length (wc_history c) < MaxHistoryFiles
             then c'\<lparr>wc_history := wc_history c @
                     [\<lparr>ho_key = cw_key cl, ho_server = cw_server cl, ho_name = cw_name cl,
                       ho_compression = cw_compression cl, ho_timeline = cw_timeline cl\<rparr>]\<rparr>
             else c'\<lparr>wc_history_truncated := True\<rparr>)"

definition collect :: "object list \<Rightarrow> wal_collector" where
  "collect objects = foldl collector_add new_wal_collector objects"

definition history_objects :: "wal_collector \<Rightarrow> history_object list \<times> bool" where
  "history_objects c = (wc_history c, wc_history_truncated c)"

section \<open>Context, ranges and gaps\<close>

text \<open>An empty reason means that the context is known.\<close>

fun wal_context_from :: "int \<Rightarrow> int \<Rightarrow> backup list \<Rightarrow> string \<Rightarrow> int \<times> int \<times> string" where
  "wal_context_from version segment_size [] server =
     (if version = 0
      then (0, 0, ''WAL continuity requires PostgreSQL version and segment size metadata'')
      else (version, segment_size, []))"
| "wal_context_from version segment_size (b # rest) server =
     (if bk_server b \<noteq> server \<or> bk_version b = 0 \<or> bk_segment_size b = 0
      then wal_context_from version segment_size rest server
      else if bk_version b < 90300 \<or> \<not> valid_wal_segment_size (bk_segment_size b)
      then (0, 0, ''backup metadata has unsupported WAL arithmetic context'')
      else if version = 0 then wal_context_from (bk_version b) (bk_segment_size b) rest server
      else if version \<noteq> bk_version b \<or> segment_size \<noteq> bk_segment_size b
      then (0, 0, ''backup metadata has conflicting WAL arithmetic context'')
      else wal_context_from version segment_size rest server)"

definition wal_context :: "backup list \<Rightarrow> string \<Rightarrow> int \<times> int \<times> string" where
  "wal_context backups server = wal_context_from 0 0 backups server"

text \<open>\<open>name, _ := WALName(...)\<close>: the error is dropped, the name is empty then.\<close>

definition wal_name_or_empty :: "u32 \<Rightarrow> u64 \<Rightarrow> int \<Rightarrow> string" where
  "wal_name_or_empty tli pos sz = (case wal_name tli pos sz of Inl e \<Rightarrow> [] | Inr n \<Rightarrow> n)"

definition merge_range :: "wal_range list \<Rightarrow> wal_range \<Rightarrow> wal_range list" where
  "merge_range ranges r =
     (if ranges \<noteq> [] \<and> wr_timeline (last ranges) = wr_timeline r
         \<and> wr_end (last ranges) \<noteq> max_u64 \<and> wr_end (last ranges) + 1 = wr_start r
      then let p = last ranges;
               p = p\<lparr>wr_end := wr_end r, wr_last := wr_last r,
                     wr_count := wr_end r - wr_start p + 1, wr_end_receipt := wr_end_receipt r\<rparr>
           in butlast ranges @
              [if time_after (wr_latest_receipt r) (wr_latest_receipt p)
               then p\<lparr>wr_latest_receipt := wr_latest_receipt r\<rparr> else p]
      else ranges @ [r])"

text \<open>The loop over the raw ranges: the ranges so far and whether a position was invalid.\<close>

definition convert_range :: "int \<Rightarrow> wal_range list \<times> bool \<Rightarrow> raw_range \<Rightarrow> wal_range list \<times> bool" where
  "convert_range sz acc raw =
     (case wal_position (rr_timeline raw) (rr_log raw) (rr_start raw) sz of
        Inl e \<Rightarrow> (fst acc, True)
      | Inr s \<Rightarrow>
          (case wal_position (rr_timeline raw) (rr_log raw) (rr_end raw) sz of
             Inl e \<Rightarrow> (fst acc, True)
           | Inr e \<Rightarrow>
               (merge_range (fst acc)
                 \<lparr>wr_timeline = rr_timeline raw, wr_start = s, wr_end = e, wr_count = e - s + 1,
                  wr_first = wal_name_or_empty (rr_timeline raw) s sz,
                  wr_last = wal_name_or_empty (rr_timeline raw) e sz,
                  wr_latest_receipt = time_utc (rr_latest_receipt raw),
                  wr_end_receipt = time_utc (rr_end_receipt raw)\<rparr>, snd acc)))"

definition convert_ranges :: "int \<Rightarrow> raw_range list \<Rightarrow> wal_range list \<times> bool" where
  "convert_ranges sz raws = foldl (convert_range sz) ([], False) raws"

definition latest_receipt :: "wal_range list \<Rightarrow> gotime" where
  "latest_receipt ranges =
     foldl (\<lambda>t r. if time_after (wr_latest_receipt r) t then wr_latest_receipt r else t)
       zero_time ranges"

definition gap_identity :: "u32 \<Rightarrow> u64 \<Rightarrow> u64 \<Rightarrow> string" where
  "gap_identity tli s e =
     hex_fixed 8 (unat tli) @ '':'' @ hex_fixed 16 (unat s) @ '':'' @ hex_fixed 16 (unat e)"

definition prior_gaps :: "server_wal \<Rightarrow> (string \<times> wal_gap) list" where
  "prior_gaps previous =
     foldl (\<lambda>m g. assoc_set (gap_identity (wg_timeline g) (wg_start g) (wg_end g)) g m)
       [] (sw_gaps previous)"

definition gap_between :: "wal_range \<Rightarrow> wal_range \<Rightarrow> (string \<times> wal_gap) list \<Rightarrow> int \<Rightarrow> u64 \<Rightarrow> wal_gap option" where
  "gap_between left right prior sz generation =
     (if wr_timeline left \<noteq> wr_timeline right \<or> wr_end left = max_u64
         \<or> wr_start right \<le> wr_end left + 1
      then None
      else let s = wr_end left + 1; e = wr_start right - 1;
               g = \<lparr>wg_timeline = wr_timeline left, wg_start = s, wg_end = e, wg_count = e - s + 1,
                    wg_first = wal_name_or_empty (wr_timeline left) s sz,
                    wg_last = wal_name_or_empty (wr_timeline left) e sz,
                    wg_status = GapCandidate, wg_first_generation = generation,
                    wg_last_generation = generation\<rparr>
        in Some (case map_of prior (gap_identity (wg_timeline g) s e) of
             None \<Rightarrow> g
           | Some old \<Rightarrow> g\<lparr>wg_first_generation := wg_first_generation old,
                           wg_status := GapConfirmed\<rparr>))"

fun gaps_from :: "wal_range list \<Rightarrow> (string \<times> wal_gap) list \<Rightarrow> int \<Rightarrow> u64 \<Rightarrow> wal_gap list" where
  "gaps_from (left # right # rest) prior sz generation =
     (case gap_between left right prior sz generation of
        None \<Rightarrow> gaps_from (right # rest) prior sz generation
      | Some g \<Rightarrow> g # gaps_from (right # rest) prior sz generation)"
| "gaps_from _ prior sz generation = []"

definition gaps_for_ranges :: "wal_range list \<Rightarrow> server_wal \<Rightarrow> int \<Rightarrow> u64 \<Rightarrow> wal_gap list" where
  "gaps_for_ranges ranges previous sz generation =
     gaps_from ranges (prior_gaps previous) sz generation"

definition has_gap_status :: "wal_gap list \<Rightarrow> gap_status \<Rightarrow> bool" where
  "has_gap_status gaps status \<longleftrightarrow> list_ex (\<lambda>g. wg_status g = status) gaps"

section \<open>Finish\<close>

definition empty_server_wal :: server_wal where
  "empty_server_wal = \<lparr>sw_server = [], sw_state = OtherState [], sw_reason = [], sw_version = 0,
     sw_segment_size = 0, sw_counts = zero_counts, sw_ranges = [], sw_gaps = [],
     sw_diagnostics = [], sw_diagnostics_truncated = False, sw_ranges_truncated = False,
     sw_latest_receipt = zero_time\<rparr>"

definition previous_server :: "wal_catalog \<Rightarrow> string \<Rightarrow> server_wal" where
  "previous_server catalog server =
     (case find (\<lambda>v. sw_server v = server) catalog of None \<Rightarrow> empty_server_wal | Some v \<Rightarrow> v)"

text \<open>The switch over the builder's flags and the gaps.\<close>

definition server_verdict :: "wal_builder \<Rightarrow> bool \<Rightarrow> wal_range list \<Rightarrow> wal_gap list \<Rightarrow> state \<times> string" where
  "server_verdict b invalid ranges gaps =
     (if wb_ranges_truncated b then (Unknown, ''WAL range safety limit reached'')
      else if wb_diagnostics_truncated b then (Unknown, ''WAL diagnostic safety limit reached'')
      else if wb_out_of_order b then (Unknown, ''WAL listing order is incompatible'')
      else if invalid then (Unknown, ''WAL name is invalid for metadata segment size'')
      else if 0 < ct_duplicates (wb_counts b)
      then (Unknown, ''duplicate WAL representations require operator review'')
      else if 0 < ct_unknown (wb_counts b)
      then (Unknown, ''unrecognized WAL objects require operator review'')
      else if ranges = [] then (Unknown, ''no complete WAL segments observed'')
      else if has_gap_status gaps GapConfirmed
      then (Unhealthy, ''confirmed segment-name gaps observed'')
      else if has_gap_status gaps GapCandidate
      then (Warning, ''candidate segment-name gaps observed'')
      else (Healthy, ''no segment-name gaps observed within compact ranges''))"

definition finish_server ::
  "backup list \<Rightarrow> wal_catalog \<Rightarrow> u64 \<Rightarrow> string \<times> wal_builder \<Rightarrow> server_wal" where
  "finish_server backups previous generation entry =
     (let server = fst entry; b = snd entry;
          (version, sz, context_reason) = wal_context backups server;
          value = empty_server_wal\<lparr>sw_server := server, sw_version := version,
            sw_segment_size := sz, sw_counts := wb_counts b, sw_diagnostics := wb_diagnostics b,
            sw_diagnostics_truncated := wb_diagnostics_truncated b,
            sw_ranges_truncated := wb_ranges_truncated b\<rparr> in
      if context_reason \<noteq> []
      then value\<lparr>sw_state := Unknown, sw_reason := context_reason\<rparr>
      else let (ranges, invalid) = convert_ranges sz (wb_ranges b);
               gaps = gaps_for_ranges ranges (previous_server previous server) sz generation;
               verdict = server_verdict b invalid ranges gaps
           in value\<lparr>sw_ranges := ranges, sw_latest_receipt := latest_receipt ranges,
                    sw_gaps := gaps, sw_state := fst verdict, sw_reason := snd verdict\<rparr>)"

definition add_backup_server ::
  "(string \<times> wal_builder) list \<Rightarrow> backup \<Rightarrow> (string \<times> wal_builder) list" where
  "add_backup_server servers b =
     (if bk_server b \<noteq> [] \<and> map_of servers (bk_server b) = None
      then assoc_set (bk_server b) empty_builder servers else servers)"

definition collector_finish :: "wal_collector \<Rightarrow> backup list \<Rightarrow> wal_catalog \<Rightarrow> u64 \<Rightarrow> wal_catalog" where
  "collector_finish c backups previous generation =
     sort_key sw_server
       (map (finish_server backups previous generation)
         (foldl add_backup_server (wc_servers c) backups))"


section \<open>Validation\<close>

definition invalid_wal_counts :: "wal_counts \<Rightarrow> bool" where
  "invalid_wal_counts c \<longleftrightarrow> ct_segments c < 0 \<or> ct_partials c < 0 \<or> ct_history c < 0
     \<or> ct_backup_history c < 0 \<or> ct_unknown c < 0 \<or> ct_duplicates c < 0"

definition bounded_wal_text :: "string \<Rightarrow> nat \<Rightarrow> bool" where
  "bounded_wal_text value maximum \<longleftrightarrow> value \<noteq> [] \<and> length value \<le> maximum \<and> \<not> has_control value"

definition valid_wal_class :: "wal_class \<Rightarrow> bool" where
  "valid_wal_class c \<longleftrightarrow>
     c \<in> {WALSegment, WALPartial, WALHistory, WALBackupHistory, WALUnknown, WALDuplicate}"

definition utc_or_zero :: "gotime \<Rightarrow> bool" where
  "utc_or_zero t \<longleftrightarrow> time_is_zero t \<or> t_loc t = UTC"

definition wal_range_ok :: "int \<Rightarrow> wal_range \<Rightarrow> bool" where
  "wal_range_ok sz v \<longleftrightarrow> wr_timeline v \<noteq> 0 \<and> wr_end v \<noteq> max_u64 \<and> wr_start v \<le> wr_end v
     \<and> wr_count v = wr_end v - wr_start v + 1
     \<and> wal_name (wr_timeline v) (wr_start v) sz = Inr (wr_first v)
     \<and> wal_name (wr_timeline v) (wr_end v) sz = Inr (wr_last v)
     \<and> utc_or_zero (wr_latest_receipt v) \<and> utc_or_zero (wr_end_receipt v)"

definition wal_range_before :: "wal_range \<Rightarrow> wal_range \<Rightarrow> bool" where
  "wal_range_before p v \<longleftrightarrow> wr_timeline p < wr_timeline v
     \<or> wr_timeline p = wr_timeline v \<and> wr_end p < wr_start v"

fun check_wal_ranges :: "int \<Rightarrow> wal_range option \<Rightarrow> wal_range list \<Rightarrow> string option" where
  "check_wal_ranges sz prior [] = None"
| "check_wal_ranges sz prior (v # rest) =
     (if \<not> wal_range_ok sz v then Some ''invalid Barman WAL range''
      else if (\<exists>p\<in>set_option prior. \<not> wal_range_before p v)
      then Some ''Barman WAL ranges are not sorted and disjoint''
      else check_wal_ranges sz (Some v) rest)"

definition wal_gap_ok :: "int \<Rightarrow> wal_gap \<Rightarrow> bool" where
  "wal_gap_ok sz g \<longleftrightarrow> wg_timeline g \<noteq> 0 \<and> wg_end g \<noteq> max_u64 \<and> wg_start g \<le> wg_end g
     \<and> wg_count g = wg_end g - wg_start g + 1
     \<and> wal_name (wg_timeline g) (wg_start g) sz = Inr (wg_first g)
     \<and> wal_name (wg_timeline g) (wg_end g) sz = Inr (wg_last g)
     \<and> wg_status g \<in> {GapCandidate, GapConfirmed}
     \<and> wg_first_generation g \<noteq> 0 \<and> wg_first_generation g \<le> wg_last_generation g
     \<and> (wg_status g = GapCandidate \<longrightarrow> wg_last_generation g = wg_first_generation g)
     \<and> (wg_status g = GapConfirmed \<longrightarrow> wg_last_generation g \<noteq> wg_first_generation g)"

definition wal_diagnostic_ok :: "wal_diagnostic \<Rightarrow> bool" where
  "wal_diagnostic_ok d \<longleftrightarrow> wd_key d \<noteq> [] \<and> length (wd_key d) \<le> MaxKeyBytes
     \<and> \<not> has_control (wd_key d) \<and> length (wd_name d) \<le> MaxKeyBytes
     \<and> bounded_wal_text (wd_reason d) 256 \<and> valid_wal_class (wd_class d)
     \<and> utc_or_zero (wd_last_modified d)"

definition wal_context_ok :: "server_wal \<Rightarrow> bool" where
  "wal_context_ok s \<longleftrightarrow> 90300 \<le> sw_version s \<and> valid_wal_segment_size (sw_segment_size s)"

definition check_wal_server :: "server_wal option \<Rightarrow> server_wal \<Rightarrow> string option" where
  "check_wal_server prior s =
     (if \<not> valid_discovered_name (sw_server s) \<or> (\<exists>p\<in>set_option prior. sw_server s \<le> sw_server p)
         \<or> \<not> valid_state (sw_state s) \<or> \<not> bounded_wal_text (sw_reason s) 256
      then Some ''invalid Barman WAL server evidence''
      else if sw_version s < 0 \<or> sw_segment_size s < 0
         \<or> (sw_version s = 0) \<noteq> (sw_segment_size s = 0) \<or> (sw_version s \<noteq> 0 \<and> \<not> wal_context_ok s)
      then Some ''invalid Barman WAL arithmetic context''
      else if MaxWALRanges < length (sw_ranges s) \<or> MaxWALRanges < length (sw_gaps s)
         \<or> MaxWALDiagnostics < length (sw_diagnostics s) \<or> invalid_wal_counts (sw_counts s)
      then Some ''Barman WAL catalog exceeds compact limits''
      else if (sw_ranges s \<noteq> [] \<or> sw_gaps s \<noteq> [] \<or> sw_state s \<noteq> Unknown) \<and> \<not> wal_context_ok s
      then Some ''Barman WAL evidence lacks valid arithmetic context''
      else if (sw_ranges_truncated s \<or> sw_diagnostics_truncated s \<or> 0 < ct_duplicates (sw_counts s)
          \<or> 0 < ct_unknown (sw_counts s)) \<and> sw_state s \<noteq> Unknown
      then Some ''uncertain Barman WAL evidence must remain unknown''
      else case check_wal_ranges (sw_segment_size s) None (sw_ranges s) of
        Some e \<Rightarrow> Some e
      | None \<Rightarrow>
          if \<not> list_all (wal_gap_ok (sw_segment_size s)) (sw_gaps s)
          then Some ''invalid Barman WAL gap''
          else if \<not> list_all wal_diagnostic_ok (sw_diagnostics s)
          then Some ''invalid Barman WAL diagnostic''
          else if \<not> utc_or_zero (sw_latest_receipt s)
          then Some ''invalid Barman WAL archive receipt time''
          else None)"

fun check_wal_servers :: "server_wal option \<Rightarrow> server_wal list \<Rightarrow> string option" where
  "check_wal_servers prior [] = None"
| "check_wal_servers prior (s # rest) =
     (case check_wal_server prior s of Some e \<Rightarrow> Some e
      | None \<Rightarrow> check_wal_servers (Some s) rest)"

definition validate_wal_catalog :: "wal_catalog \<Rightarrow> string option" where
  "validate_wal_catalog c =
     (if 1000 < length c then Some ''Barman WAL catalog exceeds server limit''
      else check_wal_servers None c)"

section \<open>The builder's invariant\<close>

text \<open>The segments a builder was given, as triples, and those its ranges cover.\<close>

type_synonym segment = "u32 \<times> u32 \<times> u32"

definition segments_of :: "classified_wal list \<Rightarrow> segment set" where
  "segments_of cs = {(cw_timeline c, cw_log c, cw_segment c) | c. c \<in> set cs \<and> cw_class c = WALSegment}"

definition raw_cover :: "raw_range \<Rightarrow> segment set" where
  "raw_cover r = {(rr_timeline r, rr_log r, x) | x. rr_start r \<le> x \<and> x \<le> rr_end r}"

definition raw_covers :: "raw_range list \<Rightarrow> segment set" where
  "raw_covers rs = (\<Union>r\<in>set rs. raw_cover r)"

text \<open>
  One raw range ends before another begins, and the two do not touch within one log: this is
  how the ranges of a builder follow each other.
\<close>

definition raw_before :: "raw_range \<Rightarrow> raw_range \<Rightarrow> bool" where
  "raw_before a b \<longleftrightarrow> rr_timeline a < rr_timeline b
     \<or> rr_timeline a = rr_timeline b \<and>
        (rr_log a < rr_log b
         \<or> rr_log a = rr_log b \<and> unat (rr_end a) + 1 < unat (rr_start b))"

definition raw_ok :: "raw_range \<Rightarrow> bool" where
  "raw_ok r \<longleftrightarrow> rr_timeline r \<noteq> 0 \<and> rr_start r \<le> rr_end r"

definition builder_ok :: "wal_builder \<Rightarrow> bool" where
  "builder_ok b \<longleftrightarrow> length (wb_ranges b) \<le> MaxWALRanges
     \<and> length (wb_diagnostics b) \<le> MaxWALDiagnostics
     \<and> list_all raw_ok (wb_ranges b) \<and> sorted_wrt raw_before (wb_ranges b)"

definition build :: "classified_wal list \<Rightarrow> wal_builder" where
  "build cs = foldl builder_add empty_builder cs"

lemma raw_before_trans:
  "raw_before a b \<Longrightarrow> raw_ok b \<Longrightarrow> raw_before b c \<Longrightarrow> raw_before a c"
  by (auto simp: raw_before_def raw_ok_def word_le_nat_alt)

lemma add_diagnostic_simps [simp]:
  "wb_ranges (add_diagnostic b c) = wb_ranges b"
  "wb_counts (add_diagnostic b c) = wb_counts b"
  "wb_ranges_truncated (add_diagnostic b c) = wb_ranges_truncated b"
  "wb_out_of_order (add_diagnostic b c) = wb_out_of_order b"
  by (simp_all add: add_diagnostic_def)

lemma later_receipt_simps [simp]:
  "rr_timeline (later_receipt t r) = rr_timeline r" "rr_log (later_receipt t r) = rr_log r"
  "rr_start (later_receipt t r) = rr_start r" "rr_end (later_receipt t r) = rr_end r"
  "rr_end_receipt (later_receipt t r) = rr_end_receipt r"
  by (simp_all add: later_receipt_def)

lemma set_last_range_simps [simp]:
  "wb_ranges (set_last_range r b) = butlast (wb_ranges b) @ [r]"
  "wb_counts (set_last_range r b) = wb_counts b"
  "wb_diagnostics (set_last_range r b) = wb_diagnostics b"
  "wb_diagnostics_truncated (set_last_range r b) = wb_diagnostics_truncated b"
  "wb_ranges_truncated (set_last_range r b) = wb_ranges_truncated b"
  "wb_out_of_order (set_last_range r b) = wb_out_of_order b"
  by (simp_all add: set_last_range_def)

lemma add_diagnostic_length:
  "length (wb_diagnostics b) \<le> MaxWALDiagnostics
     \<Longrightarrow> length (wb_diagnostics (add_diagnostic b c)) \<le> MaxWALDiagnostics"
  by (simp add: add_diagnostic_def)


lemma raw_before_cong:
  "rr_timeline r = rr_timeline l \<Longrightarrow> rr_log r = rr_log l \<Longrightarrow> rr_start r = rr_start l
     \<Longrightarrow> raw_before x r = raw_before x l"
  by (simp add: raw_before_def)

lemma raw_covers_snoc: "raw_covers (rs @ [r]) = raw_covers rs \<union> raw_cover r"
  by (auto simp: raw_covers_def)

text \<open>Replacing the last range by one with the same start keeps the invariant.\<close>

lemma builder_ok_set_last:
  assumes "builder_ok b" "wb_ranges b \<noteq> []" "raw_ok r"
    and "rr_timeline r = rr_timeline (last (wb_ranges b))" "rr_log r = rr_log (last (wb_ranges b))"
      "rr_start r = rr_start (last (wb_ranges b))"
  shows "builder_ok (set_last_range r b)"
proof -
  obtain rs l where "wb_ranges b = rs @ [l]" using assms(2) by (metis append_butlast_last_id)
  with assms show ?thesis
    by (auto simp: builder_ok_def sorted_wrt_append raw_before_cong [of r l])
qed

lemma builder_ok_add_diagnostic: "builder_ok b \<Longrightarrow> builder_ok (add_diagnostic b c)"
  by (simp add: builder_ok_def add_diagnostic_length)

lemma builder_ok_counts [simp]: "builder_ok (b\<lparr>wb_counts := c\<rparr>) = builder_ok b"
  "builder_ok (b\<lparr>wb_out_of_order := f\<rparr>) = builder_ok b"
  by (simp_all add: builder_ok_def)

definition raw_of :: "classified_wal \<Rightarrow> raw_range" where
  "raw_of ob = \<lparr>rr_timeline = cw_timeline ob, rr_log = cw_log ob, rr_start = cw_segment ob,
     rr_end = cw_segment ob, rr_latest_receipt = cw_last_modified ob,
     rr_end_receipt = cw_last_modified ob\<rparr>"

lemma raw_of_cover: "raw_cover (raw_of ob) = {(cw_timeline ob, cw_log ob, cw_segment ob)}"
  by (auto simp: raw_cover_def raw_of_def)

lemma append_range_eq:
  "append_range b ob =
     (if MaxWALRanges \<le> length (wb_ranges b) then b\<lparr>wb_ranges_truncated := True\<rparr>
      else b\<lparr>wb_ranges := wb_ranges b @ [raw_of ob]\<rparr>)"
  by (simp add: append_range_def raw_of_def)

lemma builder_ok_append:
  assumes "builder_ok b" "cw_timeline ob \<noteq> 0"
    and "wb_ranges b = [] \<or> raw_before (last (wb_ranges b)) (raw_of ob)"
  shows "builder_ok (append_range b ob)"
proof -
  have "raw_before r (raw_of ob)" if mem: "r \<in> set (wb_ranges b)" for r
  proof -
    obtain rs l where rs: "wb_ranges b = rs @ [l]"
      using mem by (cases "wb_ranges b" rule: rev_cases) auto
    then have "raw_before l (raw_of ob)" "raw_ok l" and "r \<in> set rs \<Longrightarrow> raw_before r l"
      using assms by (auto simp: builder_ok_def sorted_wrt_append)
    then show ?thesis using mem rs raw_before_trans [of r l "raw_of ob"] by auto
  qed
  then show ?thesis
    using assms(1,2)
    by (simp add: append_range_eq builder_ok_def sorted_wrt_append raw_ok_def raw_of_def)
qed

lemma raw_cover_extend:
  assumes "rr_end l \<noteq> max_u32" "rr_end l + 1 = seg" "raw_ok l"
    and "rr_timeline r = rr_timeline l" "rr_log r = rr_log l" "rr_start r = rr_start l" "rr_end r = seg"
  shows "raw_cover r = insert (rr_timeline l, rr_log l, seg) (raw_cover l)" and "raw_ok r"
proof -
  have s: "unat seg = unat (rr_end l) + 1" using assms(1,2) unat_suc_u32 by metis
  have "x \<le> seg \<longleftrightarrow> x \<le> rr_end l \<or> x = seg" for x
    using s by (auto simp: word_le_nat_alt word_unat_eq_iff)
  moreover have le: "rr_start l \<le> seg"
    using s assms(3) by (simp add: raw_ok_def word_le_nat_alt)
  ultimately show "raw_cover r = insert (rr_timeline l, rr_log l, seg) (raw_cover l)"
    using assms(4-7) by (auto simp: raw_cover_def)
  show "raw_ok r" using assms le by (simp add: raw_ok_def)
qed

text \<open>The branches of \<open>add_segment\<close>.\<close>

lemma add_segment_cases [consumes 2, case_names empty duplicate extend disorder append]:
  assumes "builder_ok b" "cw_timeline ob \<noteq> 0"
    and "wb_ranges b = [] \<Longrightarrow> add_segment b ob = append_range b ob \<Longrightarrow> P"
    and "\<And>rs l d. wb_ranges b = rs @ [l] \<Longrightarrow>
      (cw_timeline ob, cw_log ob, cw_segment ob) = (rr_timeline l, rr_log l, rr_end l) \<Longrightarrow>
      add_segment b ob = set_last_range (later_receipt (cw_last_modified ob) l)
        (add_diagnostic (b\<lparr>wb_counts := (wb_counts b)\<lparr>ct_segments := ct_segments (wb_counts b) - 1,
            ct_duplicates := ct_duplicates (wb_counts b) + 1\<rparr>\<rparr>) d) \<Longrightarrow> P"
    and "\<And>rs l. wb_ranges b = rs @ [l] \<Longrightarrow> cw_timeline ob = rr_timeline l \<Longrightarrow>
      cw_log ob = rr_log l \<Longrightarrow> rr_end l \<noteq> max_u32 \<Longrightarrow> rr_end l + 1 = cw_segment ob \<Longrightarrow>
      add_segment b ob = set_last_range (later_receipt (cw_last_modified ob)
        (l\<lparr>rr_end := cw_segment ob, rr_end_receipt := cw_last_modified ob\<rparr>)) b \<Longrightarrow> P"
    and "\<And>d. wb_ranges b \<noteq> [] \<Longrightarrow>
      add_segment b ob = add_diagnostic (b\<lparr>wb_out_of_order := True\<rparr>) d \<Longrightarrow> P"
    and "\<And>rs l. wb_ranges b = rs @ [l] \<Longrightarrow> raw_before l (raw_of ob) \<Longrightarrow>
      add_segment b ob = append_range b ob \<Longrightarrow> P"
  shows P
proof (cases "wb_ranges b" rule: rev_cases)
  case Nil
  then show ?thesis using assms(3) by (simp add: add_segment_def)
next
  case (snoc rs l)
  let ?same = "rr_timeline l = cw_timeline ob \<and> rr_log l = cw_log ob"
  let ?dup = "rr_timeline l = cw_timeline ob \<and> rr_log l = cw_log ob \<and> rr_end l = cw_segment ob"
  let ?ext = "rr_timeline l = cw_timeline ob \<and> rr_log l = cw_log ob \<and> rr_end l \<noteq> max_u32
     \<and> rr_end l + 1 = cw_segment ob"
  let ?dis = "cw_timeline ob < rr_timeline l \<or> cw_timeline ob = rr_timeline l
     \<and> (cw_log ob < rr_log l \<or> cw_log ob = rr_log l \<and> cw_segment ob < rr_end l)"
  consider "?dup" | "\<not> ?dup" "?ext" | "\<not> ?dup" "\<not> ?ext" "?dis" | "\<not> ?dup" "\<not> ?ext" "\<not> ?dis" by blast
  then show ?thesis
  proof cases
    case 1
    then show ?thesis using assms(4) [OF snoc] snoc by (simp add: add_segment_def Let_def)
  next
    case 2
    then show ?thesis using assms(5) [OF snoc] snoc by (simp add: add_segment_def)
  next
    case 3
    have "add_segment b ob = add_diagnostic (b\<lparr>wb_out_of_order := True\<rparr>)
       (ob\<lparr>cw_class := WALUnknown,
           cw_reason := ''provider listing returned WAL positions out of order''\<rparr>)"
      unfolding add_segment_def Let_def snoc last_snoc if_not_P [OF 3(1)] if_not_P [OF 3(2)] if_P [OF 3(3)]
      by simp
    then show ?thesis using assms(6) snoc by simp
  next
    case 4
    have "unat (rr_end l) + 1 < unat (cw_segment ob)" if same: "?same"
    proof (cases "rr_end l = max_u32")
      case True
      then show ?thesis
        using 4 same unat_lt_u32 [of "cw_segment ob"] by (auto simp: word_less_nat_alt word_unat_eq_iff)
    next
      case False
      then have "unat (rr_end l + 1) = unat (rr_end l) + 1" by (rule unat_suc_u32)
      then show ?thesis
        using 4 same False by (auto simp: word_less_nat_alt word_unat_eq_iff)
    qed
    then have "raw_before l (raw_of ob)"
      using 4 by (auto simp: raw_before_def raw_of_def not_less_iff_gr_or_eq)
    moreover have "add_segment b ob = append_range b ob"
      unfolding add_segment_def Let_def snoc last_snoc
        if_not_P [OF 4(1)] if_not_P [OF 4(2)] if_not_P [OF 4(3)]
      by simp
    ultimately show ?thesis using assms(7) snoc by blast
  qed
qed

lemma builder_ok_add_segment:
  assumes "builder_ok b" "cw_timeline ob \<noteq> 0"
  shows "builder_ok (add_segment b ob)"
  using assms
proof (cases rule: add_segment_cases)
  case empty
  then show ?thesis using assms builder_ok_append by simp
next
  case (duplicate rs l d)
  have "raw_ok l" using assms(1) duplicate(1) by (simp add: builder_ok_def)
  then show ?thesis
    unfolding duplicate(3) using assms(1) duplicate(1)
    by (intro builder_ok_set_last builder_ok_add_diagnostic) (simp_all add: raw_ok_def)
next
  case (extend rs l)
  let ?r = "later_receipt (cw_last_modified ob)
      (l\<lparr>rr_end := cw_segment ob, rr_end_receipt := cw_last_modified ob\<rparr>)"
  have "raw_ok l" using assms(1) extend(1) by (simp add: builder_ok_def)
  from raw_cover_extend(2) [OF extend(4,5) this, of ?r] have "raw_ok ?r" by simp
  then show ?thesis
    unfolding extend(6) using builder_ok_set_last [of b ?r] assms(1) extend(1) by simp
next
  case (disorder d)
  then show ?thesis using assms(1) by (simp add: builder_ok_add_diagnostic)
next
  case (append rs l)
  then show ?thesis using assms builder_ok_append by simp
qed

lemma add_segment_flags:
  assumes "builder_ok b" "cw_timeline ob \<noteq> 0"
  shows "wb_ranges_truncated b \<longrightarrow> wb_ranges_truncated (add_segment b ob)"
    and "wb_out_of_order b \<longrightarrow> wb_out_of_order (add_segment b ob)"
  using assms by (cases rule: add_segment_cases; simp add: append_range_eq)+

text \<open>What a segment adds to the covered positions: itself, or nothing and then a flag is set.\<close>

lemma add_segment_covers:
  assumes "builder_ok b" "cw_timeline ob \<noteq> 0"
  shows "raw_covers (wb_ranges (add_segment b ob)) =
       insert (cw_timeline ob, cw_log ob, cw_segment ob) (raw_covers (wb_ranges b))
     \<or> raw_covers (wb_ranges (add_segment b ob)) = raw_covers (wb_ranges b)
       \<and> (wb_ranges_truncated (add_segment b ob) \<or> wb_out_of_order (add_segment b ob))"
  using assms
proof (cases rule: add_segment_cases)
  case empty
  then show ?thesis by (auto simp: append_range_eq raw_covers_snoc raw_of_cover raw_covers_def)
next
  case (duplicate rs l d)
  have "raw_ok l" using assms(1) duplicate(1) by (simp add: builder_ok_def)
  then have "(rr_timeline l, rr_log l, rr_end l) \<in> raw_cover l"
    by (auto simp: raw_cover_def raw_ok_def)
  moreover have "raw_cover (later_receipt t l) = raw_cover l" for t by (simp add: raw_cover_def)
  ultimately show ?thesis using duplicate by (auto simp: raw_covers_snoc)
next
  case (extend rs l)
  have "raw_ok l" using assms(1) extend(1) by (simp add: builder_ok_def)
  from raw_cover_extend(1) [OF extend(4,5) this, of "later_receipt (cw_last_modified ob)
      (l\<lparr>rr_end := cw_segment ob, rr_end_receipt := cw_last_modified ob\<rparr>)"]
  show ?thesis using extend by (simp add: raw_covers_snoc)
next
  case (disorder d)
  then show ?thesis by simp
next
  case (append rs l)
  then show ?thesis by (auto simp: append_range_eq raw_covers_def raw_of_cover)
qed

lemma builder_add_other:
  assumes "cw_class c \<noteq> WALSegment"
  obtains b' where "builder_add b c = add_diagnostic (b\<lparr>wb_counts := b'\<rparr>) c"
  using assms by (cases "cw_class c") (auto simp: builder_add_def Let_def)

lemma builder_add_segment:
  assumes "cw_class c = WALSegment"
  obtains b' where "builder_add b c = add_segment (b\<lparr>wb_counts := b'\<rparr>) c"
  using assms by (auto simp: builder_add_def Let_def)

definition classified_ok :: "classified_wal \<Rightarrow> bool" where
  "classified_ok c \<longleftrightarrow> (cw_class c = WALSegment \<longrightarrow> cw_timeline c \<noteq> 0)"

lemma builder_add_ok:
  assumes "builder_ok b" "classified_ok c"
  shows "builder_ok (builder_add b c)"
proof (cases "cw_class c = WALSegment")
  case True
  with builder_add_segment [OF True, of b] assms show ?thesis
    by (metis builder_ok_add_segment builder_ok_counts(1) classified_ok_def)
next
  case False
  with builder_add_other [OF False, of b] assms show ?thesis
    by (metis builder_ok_add_diagnostic builder_ok_counts(1))
qed

lemma builder_ok_empty [simp]: "builder_ok empty_builder"
  by (simp add: builder_ok_def empty_builder_def)

lemma build_snoc: "build (cs @ [c]) = builder_add (build cs) c"
  by (simp add: build_def)

lemma build_ok: "list_all classified_ok cs \<Longrightarrow> builder_ok (build cs)"
proof (induction cs rule: rev_induct)
  case Nil
  then show ?case by (simp add: build_def)
next
  case (snoc c cs)
  then show ?case by (simp add: build_snoc builder_add_ok)
qed

lemma segments_of_snoc:
  "segments_of (cs @ [c]) =
     (if cw_class c = WALSegment
      then insert (cw_timeline c, cw_log c, cw_segment c) (segments_of cs) else segments_of cs)"
  by (auto simp: segments_of_def)

text \<open>The ranges never cover a segment that is not there, and all of them unless a flag is set.\<close>

lemma build_covers:
  assumes "list_all classified_ok cs"
  shows "raw_covers (wb_ranges (build cs)) \<subseteq> segments_of cs
    \<and> (wb_ranges_truncated (build cs) \<or> wb_out_of_order (build cs)
       \<or> raw_covers (wb_ranges (build cs)) = segments_of cs)"
  using assms
proof (induction cs rule: rev_induct)
  case Nil
  then show ?case by (simp add: build_def empty_builder_def raw_covers_def segments_of_def)
next
  case (snoc c cs)
  then have ok: "builder_ok (build cs)" and IH: "raw_covers (wb_ranges (build cs)) \<subseteq> segments_of cs
    \<and> (wb_ranges_truncated (build cs) \<or> wb_out_of_order (build cs)
       \<or> raw_covers (wb_ranges (build cs)) = segments_of cs)"
    by (simp_all add: build_ok)
  show ?case
  proof (cases "cw_class c = WALSegment")
    case True
    obtain ct where ct: "builder_add (build cs) c = add_segment ((build cs)\<lparr>wb_counts := ct\<rparr>) c"
      by (rule builder_add_segment [OF True])
    let ?b = "(build cs)\<lparr>wb_counts := ct\<rparr>"
    have "builder_ok ?b" "cw_timeline c \<noteq> 0"
      using ok snoc.prems True by (simp_all add: classified_ok_def)
    from add_segment_covers [OF this] add_segment_flags [OF this] IH show ?thesis
      by (auto simp: build_snoc ct segments_of_snoc True)
  next
    case False
    obtain ct where "builder_add (build cs) c = add_diagnostic ((build cs)\<lparr>wb_counts := ct\<rparr>) c"
      by (rule builder_add_other [OF False])
    then show ?thesis using IH False by (simp add: build_snoc segments_of_snoc)
  qed
qed


section \<open>Ranges of positions\<close>

lemma wal_position_downward:
  assumes "wal_position tli log seg sz = Inr q" and "p \<le> q"
  obtains log' seg' where "wal_position tli log' seg' sz = Inr p"
proof -
  let ?n = "unat (segments_per_id sz)"
  have q: "tli \<noteq> 0" "valid_wal_segment_size sz" "unat seg < ?n" "unat q = unat log * ?n + unat seg"
    using assms(1) by (simp_all add: wal_position_Inr_iff)
  then have n: "4 \<le> ?n" "?n \<le> 4096" using segments_per_id_bounds by auto
  have "unat p div ?n \<le> unat q div ?n"
    using assms(2) by (simp add: word_le_nat_alt div_le_mono)
  also have "\<dots> = unat log" using q n by simp
  finally have "unat p div ?n < 2 ^ 32" using unat_lt_u32 [of log] by linarith
  then have log: "unat (of_nat (unat p div ?n) :: u32) = unat p div ?n"
    by (simp add: unsigned_of_nat take_bit_nat_eq_self)
  have mod: "unat p mod ?n < ?n" using n by simp
  moreover have "?n \<le> 2 ^ 32" using n(2) by simp
  ultimately have "unat p mod ?n < 2 ^ 32" by (rule order_less_le_trans)
  then have seg: "unat (of_nat (unat p mod ?n) :: u32) = unat p mod ?n"
    by (simp add: unsigned_of_nat take_bit_nat_eq_self)
  have "wal_position tli (of_nat (unat p div ?n)) (of_nat (unat p mod ?n)) sz = Inr p"
    using q(1,2) mod by (simp add: wal_position_Inr_iff log seg)
  then show ?thesis by (rule that)
qed

lemma wal_position_valid:
  "wal_position tli log seg sz = Inr p \<Longrightarrow> tli \<noteq> 0 \<and> valid_wal_segment_size sz"
  by (simp add: wal_position_Inr_iff)

lemma wal_name_downward:
  assumes "wal_position tli log seg sz = Inr q" and "p \<le> q"
  shows "wal_name tli p sz = Inr (wal_name_or_empty tli p sz)"
proof -
  obtain l s where "wal_position tli l s sz = Inr p" by (rule wal_position_downward [OF assms])
  then show ?thesis by (simp add: wal_name_or_empty_def wal_name_of_position)
qed

text \<open>The positions of a segment size: the timeline and the place in its sequence of segments.\<close>

definition range_cover :: "wal_range \<Rightarrow> (u32 \<times> u64) set" where
  "range_cover r = {(wr_timeline r, p) | p. wr_start r \<le> p \<and> p \<le> wr_end r}"

definition ranges_cover :: "wal_range list \<Rightarrow> (u32 \<times> u64) set" where
  "ranges_cover rs = (\<Union>r\<in>set rs. range_cover r)"

definition positions_of :: "int \<Rightarrow> segment set \<Rightarrow> (u32 \<times> u64) set" where
  "positions_of sz S = {(tli, p). \<exists>log seg. (tli, log, seg) \<in> S \<and> wal_position tli log seg sz = Inr p}"

text \<open>Two ranges with at least one missing position between them, or on different timelines.\<close>

definition range_apart :: "wal_range \<Rightarrow> wal_range \<Rightarrow> bool" where
  "range_apart a b \<longleftrightarrow> wr_timeline a < wr_timeline b
     \<or> wr_timeline a = wr_timeline b \<and> unat (wr_end a) + 1 < unat (wr_start b)"

definition ends_in :: "int \<Rightarrow> raw_range \<Rightarrow> wal_range \<Rightarrow> bool" where
  "ends_in sz raw r \<longleftrightarrow> wr_timeline r = rr_timeline raw
     \<and> wal_position (rr_timeline raw) (rr_log raw) (rr_end raw) sz = Inr (wr_end r)"

definition ranges_ok :: "int \<Rightarrow> wal_range list \<Rightarrow> bool" where
  "ranges_ok sz rs \<longleftrightarrow> list_all (wal_range_ok sz) rs \<and> sorted_wrt range_apart rs"

definition utc_receipts :: "wal_range \<Rightarrow> bool" where
  "utc_receipts r \<longleftrightarrow> t_loc (wr_latest_receipt r) = UTC \<and> t_loc (wr_end_receipt r) = UTC"

lemma range_apart_trans:
  "range_apart a b \<Longrightarrow> wr_start b \<le> wr_end b \<Longrightarrow> range_apart b c \<Longrightarrow> range_apart a c"
  by (auto simp: range_apart_def word_le_nat_alt)

lemma ranges_cover_snoc: "ranges_cover (rs @ [r]) = ranges_cover rs \<union> range_cover r"
  by (auto simp: ranges_cover_def)

text \<open>The range of one raw range.\<close>

definition range_of :: "int \<Rightarrow> raw_range \<Rightarrow> u64 \<Rightarrow> u64 \<Rightarrow> wal_range" where
  "range_of sz raw s e =
     \<lparr>wr_timeline = rr_timeline raw, wr_start = s, wr_end = e, wr_count = e - s + 1,
      wr_first = wal_name_or_empty (rr_timeline raw) s sz,
      wr_last = wal_name_or_empty (rr_timeline raw) e sz,
      wr_latest_receipt = time_utc (rr_latest_receipt raw),
      wr_end_receipt = time_utc (rr_end_receipt raw)\<rparr>"

lemma convert_range_eq:
  "convert_range sz acc raw =
     (case (wal_position (rr_timeline raw) (rr_log raw) (rr_start raw) sz,
            wal_position (rr_timeline raw) (rr_log raw) (rr_end raw) sz) of
        (Inr s, Inr e) \<Rightarrow> (merge_range (fst acc) (range_of sz raw s e), snd acc)
      | _ \<Rightarrow> (fst acc, True))"
  by (simp add: convert_range_def range_of_def split: sum.splits)

lemma range_of_ok:
  assumes "raw_ok raw" "wal_position (rr_timeline raw) (rr_log raw) (rr_start raw) sz = Inr s"
    "wal_position (rr_timeline raw) (rr_log raw) (rr_end raw) sz = Inr e"
  shows "wal_range_ok sz (range_of sz raw s e)" and "utc_receipts (range_of sz raw s e)"
    and "ends_in sz raw (range_of sz raw s e)" and "s \<le> e"
proof -
  show le: "s \<le> e"
    using wal_position_less_iff [OF assms(3,2)] assms(1) by (auto simp: raw_ok_def not_less [symmetric])
  show "wal_range_ok sz (range_of sz raw s e)"
    using le assms wal_position_bound(2) [OF assms(3)] wal_name_downward [OF assms(3) le]
      wal_name_downward [OF assms(3) order_refl]
    by (simp add: wal_range_ok_def range_of_def raw_ok_def utc_or_zero_def)
  show "utc_receipts (range_of sz raw s e)" by (simp add: utc_receipts_def range_of_def)
  show "ends_in sz raw (range_of sz raw s e)"
    using assms(3) by (simp add: ends_in_def range_of_def)
qed

text \<open>A later raw range starts after every range made so far.\<close>

lemma raw_before_position:
  assumes "raw_before a b" "ends_in sz a r"
    "wal_position (rr_timeline b) (rr_log b) (rr_start b) sz = Inr s"
  shows "wr_timeline r < rr_timeline b \<or> wr_timeline r = rr_timeline b \<and> wr_end r < s"
proof (cases "rr_timeline a = rr_timeline b")
  case True
  then have "rr_log a < rr_log b \<or> rr_log a = rr_log b \<and> rr_end a < rr_start b"
    using assms(1) by (auto simp: raw_before_def word_less_nat_alt)
  then have "wr_end r < s"
    using wal_position_less_iff assms(2,3) True by (auto simp: ends_in_def)
  then show ?thesis using assms(2) True by (simp add: ends_in_def)
next
  case False
  then show ?thesis using assms(1,2) by (auto simp: raw_before_def ends_in_def)
qed

definition merged :: "wal_range \<Rightarrow> wal_range \<Rightarrow> wal_range" where
  "merged p r =
     (let q = p\<lparr>wr_end := wr_end r, wr_last := wr_last r, wr_count := wr_end r - wr_start p + 1,
                wr_end_receipt := wr_end_receipt r\<rparr>
      in if time_after (wr_latest_receipt r) (wr_latest_receipt q)
         then q\<lparr>wr_latest_receipt := wr_latest_receipt r\<rparr> else q)"

lemma merge_range_cases:
  "merge_range (rs @ [p]) r =
     (if wr_timeline p = wr_timeline r \<and> wr_end p \<noteq> max_u64 \<and> wr_end p + 1 = wr_start r
      then rs @ [merged p r] else rs @ [p, r])"
  "merge_range [] r = [r]"
  by (simp_all add: merge_range_def merged_def Let_def)

lemma merged_simps [simp]:
  "wr_timeline (merged p r) = wr_timeline p" "wr_start (merged p r) = wr_start p"
  "wr_end (merged p r) = wr_end r" "wr_first (merged p r) = wr_first p"
  "wr_last (merged p r) = wr_last r" "wr_count (merged p r) = wr_end r - wr_start p + 1"
  "wr_end_receipt (merged p r) = wr_end_receipt r"
  by (simp_all add: merged_def Let_def)

lemma merged_ok:
  assumes "wal_range_ok sz p" "wal_range_ok sz r" "utc_receipts p" "utc_receipts r"
    and "wr_timeline p = wr_timeline r" "wr_end p + 1 = wr_start r"
  shows "wal_range_ok sz (merged p r)" and "utc_receipts (merged p r)"
    and "range_cover (merged p r) = range_cover p \<union> range_cover r"
proof -
  have ne: "wr_end p \<noteq> max_u64" using assms(1) by (simp add: wal_range_ok_def)
  have s: "unat (wr_start r) = unat (wr_end p) + 1"
    using unat_suc_u64 [OF ne] assms(6) by simp
  have le: "wr_start p \<le> wr_end p" "wr_start r \<le> wr_end r"
    using assms by (simp_all add: wal_range_ok_def)
  then have "wr_start p \<le> wr_end r" using s by (simp add: word_le_nat_alt)
  moreover show u: "utc_receipts (merged p r)"
    using assms(3,4) by (simp add: utc_receipts_def merged_def Let_def)
  ultimately show "wal_range_ok sz (merged p r)"
    using assms by (simp add: wal_range_ok_def utc_receipts_def utc_or_zero_def)
  have "wr_start p \<le> x \<and> x \<le> wr_end r \<longleftrightarrow>
      wr_start p \<le> x \<and> x \<le> wr_end p \<or> wr_start r \<le> x \<and> x \<le> wr_end r" for x
    using s le by (auto simp: word_le_nat_alt)
  then show "range_cover (merged p r) = range_cover p \<union> range_cover r"
    using assms(5) by (auto simp: range_cover_def)
qed


text \<open>The invariant of the conversion loop after the raw ranges \<open>raws\<close>.\<close>

definition conversion_inv :: "int \<Rightarrow> raw_range list \<Rightarrow> wal_range list \<times> bool \<Rightarrow> bool" where
  "conversion_inv sz raws acc \<longleftrightarrow>
     ranges_ok sz (fst acc) \<and> list_all utc_receipts (fst acc)
     \<and> (\<forall>r\<in>set (fst acc). \<exists>raw\<in>set raws. ends_in sz raw r)
     \<and> length (fst acc) \<le> length raws
     \<and> (\<not> snd acc \<longrightarrow> (\<forall>raw\<in>set raws. \<forall>x. rr_start raw \<le> x \<and> x \<le> rr_end raw \<longrightarrow>
          (\<exists>p. wal_position (rr_timeline raw) (rr_log raw) x sz = Inr p))
        \<and> ranges_cover (fst acc) = positions_of sz (raw_covers raws))"

lemma positions_of_Un: "positions_of sz (A \<union> B) = positions_of sz A \<union> positions_of sz B"
  by (auto simp: positions_of_def)

lemma segment_position_ex:
  assumes "wal_position tli log e sz = Inr q" and "x \<le> e"
  shows "\<exists>p. wal_position tli log x sz = Inr p"
proof -
  have e: "unat e < unat (segments_per_id sz)" "tli \<noteq> 0" "valid_wal_segment_size sz"
    using assms(1) by (simp_all add: wal_position_Inr_iff)
  then have "unat x < unat (segments_per_id sz)" using assms(2) by (simp add: word_le_nat_alt)
  then have "\<not> segments_per_id sz \<le> ucast x"
    using unat_lt_u32 [of x] by (simp add: word_le_nat_alt unsigned_ucast_eq take_bit_nat_eq_self)
  then show ?thesis using e by (simp add: wal_position_def Let_def)
qed

lemma range_of_cover:
  assumes "raw_ok raw" "wal_position (rr_timeline raw) (rr_log raw) (rr_start raw) sz = Inr s"
    "wal_position (rr_timeline raw) (rr_log raw) (rr_end raw) sz = Inr e"
  shows "range_cover (range_of sz raw s e) = positions_of sz (raw_cover raw)"
proof (rule set_eqI, rule iffI)
  fix y assume "y \<in> range_cover (range_of sz raw s e)"
  then obtain p where y: "y = (rr_timeline raw, p)" and p: "s \<le> p" "p \<le> e"
    by (auto simp: range_cover_def range_of_def)
  let ?n = "unat (segments_per_id sz)"
  obtain l x where lx: "wal_position (rr_timeline raw) l x sz = Inr p"
    using wal_position_downward [OF assms(3) p(2)] .
  have "l = rr_log raw \<and> rr_start raw \<le> x \<and> x \<le> rr_end raw"
    using wal_position_less_iff [OF lx assms(2)] wal_position_less_iff [OF assms(3) lx] p
    by (auto simp: not_less [symmetric] dest: antisym_conv3)
  then show "y \<in> positions_of sz (raw_cover raw)"
    using y lx by (auto simp: positions_of_def raw_cover_def)
next
  fix y assume "y \<in> positions_of sz (raw_cover raw)"
  then obtain x p where y: "y = (rr_timeline raw, p)" "rr_start raw \<le> x" "x \<le> rr_end raw"
    and p: "wal_position (rr_timeline raw) (rr_log raw) x sz = Inr p"
    by (auto simp: positions_of_def raw_cover_def)
  have "s \<le> p" "p \<le> e"
    using wal_position_less_iff [OF p assms(2)] wal_position_less_iff [OF assms(3) p] y(2,3)
    by (auto simp: not_less [symmetric])
  then show "y \<in> range_cover (range_of sz raw s e)" by (simp add: y range_cover_def range_of_def)
qed

lemma raw_covers_Un: "raw_covers (rs @ [r]) = raw_covers rs \<union> raw_cover r"
  by (rule raw_covers_snoc)

text \<open>Merging a later range into correct ranges.\<close>

lemma merge_range_ok:
  assumes "ranges_ok sz rs" "list_all utc_receipts rs" "wal_range_ok sz r" "utc_receipts r"
    and later: "\<And>p. p \<in> set rs \<Longrightarrow>
      wr_timeline p < wr_timeline r \<or> wr_timeline p = wr_timeline r \<and> wr_end p < wr_start r"
  shows "ranges_ok sz (merge_range rs r)" and "list_all utc_receipts (merge_range rs r)"
    and "ranges_cover (merge_range rs r) = ranges_cover rs \<union> range_cover r"
    and "length (merge_range rs r) \<le> length rs + 1"
    and "\<forall>q\<in>set (merge_range rs r). q \<in> set rs \<or> (wr_timeline q = wr_timeline r \<and> wr_end q = wr_end r)"
proof -
  have "ranges_ok sz (merge_range rs r) \<and> list_all utc_receipts (merge_range rs r)
    \<and> ranges_cover (merge_range rs r) = ranges_cover rs \<union> range_cover r
    \<and> length (merge_range rs r) \<le> length rs + 1
    \<and> (\<forall>q\<in>set (merge_range rs r). q \<in> set rs \<or> (wr_timeline q = wr_timeline r \<and> wr_end q = wr_end r))"
  proof (cases rs rule: rev_cases)
    case Nil
    then show ?thesis
      using assms(3,4) by (simp add: merge_range_cases ranges_ok_def ranges_cover_def)
  next
    case (snoc ps p)
    have p: "wal_range_ok sz p" "utc_receipts p" "list_all (wal_range_ok sz) ps"
      "list_all utc_receipts ps" "sorted_wrt range_apart ps" "\<forall>x\<in>set ps. range_apart x p"
      using assms(1,2) snoc by (auto simp: ranges_ok_def sorted_wrt_append)
    show ?thesis
    proof (cases "wr_timeline p = wr_timeline r \<and> wr_end p \<noteq> max_u64 \<and> wr_end p + 1 = wr_start r")
      case True
      then have m: "wal_range_ok sz (merged p r)" "utc_receipts (merged p r)"
        "range_cover (merged p r) = range_cover p \<union> range_cover r"
        using merged_ok [OF p(1) assms(3) p(2) assms(4)] by simp_all
      have "\<forall>x\<in>set ps. range_apart x (merged p r)"
        using p(6) by (simp add: range_apart_def)
      then show ?thesis
        using True m p by (auto simp: snoc merge_range_cases ranges_ok_def sorted_wrt_append ranges_cover_snoc)
    next
      case False
      have ne: "wr_end p \<noteq> max_u64" using p(1) by (simp add: wal_range_ok_def)
      have "range_apart p r"
        using later [of p] False ne unat_suc_u64 [OF ne] snoc
        by (auto simp: range_apart_def word_less_nat_alt word_unat_eq_iff)
      moreover have "\<forall>x\<in>set ps. range_apart x r"
        using p(6) calculation range_apart_trans [of _ p r] p(1) by (auto simp: wal_range_ok_def)
      ultimately show ?thesis
        using False p assms(3,4)
        by (auto simp: snoc merge_range_cases ranges_ok_def sorted_wrt_append ranges_cover_def)
    qed
  qed
  then show "ranges_ok sz (merge_range rs r)" "list_all utc_receipts (merge_range rs r)"
    "ranges_cover (merge_range rs r) = ranges_cover rs \<union> range_cover r"
    "length (merge_range rs r) \<le> length rs + 1"
    "\<forall>q\<in>set (merge_range rs r). q \<in> set rs \<or> (wr_timeline q = wr_timeline r \<and> wr_end q = wr_end r)"
    by blast+
qed

lemma conversion_step:
  assumes inv: "conversion_inv sz raws acc" and "raw_ok raw" and "\<forall>a\<in>set raws. raw_before a raw"
  shows "conversion_inv sz (raws @ [raw]) (convert_range sz acc raw)"
proof (cases "\<exists>s e. wal_position (rr_timeline raw) (rr_log raw) (rr_start raw) sz = Inr s
    \<and> wal_position (rr_timeline raw) (rr_log raw) (rr_end raw) sz = Inr e")
  case False
  then have "convert_range sz acc raw = (fst acc, True)"
    by (auto simp: convert_range_eq split: sum.splits)
  then show ?thesis using inv by (auto simp: conversion_inv_def)
next
  case True
  then obtain s e where s: "wal_position (rr_timeline raw) (rr_log raw) (rr_start raw) sz = Inr s"
    and e: "wal_position (rr_timeline raw) (rr_log raw) (rr_end raw) sz = Inr e" by blast
  let ?r = "range_of sz raw s e"
  have eq: "convert_range sz acc raw = (merge_range (fst acc) ?r, snd acc)"
    by (simp add: convert_range_eq s e)
  note r = range_of_ok [OF assms(2) s e]
  have tr: "wr_timeline ?r = rr_timeline raw" "wr_start ?r = s" "wr_end ?r = e"
    by (simp_all add: range_of_def)
  have later: "wr_timeline p < wr_timeline ?r \<or> wr_timeline p = wr_timeline ?r \<and> wr_end p < wr_start ?r"
    if mem: "p \<in> set (fst acc)" for p
  proof -
    obtain a where "a \<in> set raws" "ends_in sz a p"
      using inv mem by (auto simp: conversion_inv_def)
    then show ?thesis using raw_before_position [of a raw sz p s] s assms(3) by (simp add: tr)
  qed
  have m: "ranges_ok sz (fst acc)" "list_all utc_receipts (fst acc)"
    using inv by (simp_all add: conversion_inv_def)
  note merge = merge_range_ok [OF m r(1,2) later]
  have ends: "\<forall>q\<in>set (merge_range (fst acc) ?r). \<exists>a\<in>set (raws @ [raw]). ends_in sz a q"
  proof
    fix q assume "q \<in> set (merge_range (fst acc) ?r)"
    then consider "q \<in> set (fst acc)" | "wr_timeline q = wr_timeline ?r" "wr_end q = wr_end ?r"
      using merge(5) by blast
    then show "\<exists>a\<in>set (raws @ [raw]). ends_in sz a q"
      using inv e by cases (auto simp: conversion_inv_def ends_in_def tr)
  qed
  have ex: "\<forall>x. rr_start raw \<le> x \<and> x \<le> rr_end raw \<longrightarrow>
          (\<exists>p. wal_position (rr_timeline raw) (rr_log raw) x sz = Inr p)"
    using segment_position_ex [OF e] by blast
  have cover: "\<not> snd acc \<longrightarrow>
      ranges_cover (merge_range (fst acc) ?r) = positions_of sz (raw_covers (raws @ [raw]))"
    using inv merge(3) range_of_cover [OF assms(2) s e]
    by (simp add: conversion_inv_def raw_covers_Un positions_of_Un)
  have len: "length (merge_range (fst acc) ?r) \<le> length (raws @ [raw])"
    using merge(4) inv by (simp add: conversion_inv_def)
  have old: "\<not> snd acc \<longrightarrow> (\<forall>raw\<in>set raws. \<forall>x. rr_start raw \<le> x \<and> x \<le> rr_end raw \<longrightarrow>
          (\<exists>p. wal_position (rr_timeline raw) (rr_log raw) x sz = Inr p))"
    using inv by (simp add: conversion_inv_def)
  show ?thesis
    unfolding conversion_inv_def eq fst_conv snd_conv
    using merge(1,2) ends len cover ex old by auto
qed

lemma convert_ranges_inv:
  assumes "list_all raw_ok raws" "sorted_wrt raw_before raws"
  shows "conversion_inv sz raws (convert_ranges sz raws)"
  using assms
proof (induction raws rule: rev_induct)
  case Nil
  then show ?case
    by (simp add: conversion_inv_def convert_ranges_def ranges_ok_def ranges_cover_def
        positions_of_def raw_covers_def)
next
  case (snoc raw raws)
  then have "conversion_inv sz raws (convert_ranges sz raws)"
    by (simp add: sorted_wrt_append)
  from conversion_step [OF this, of raw] snoc.prems show ?case
    by (simp add: convert_ranges_def sorted_wrt_append)
qed


section \<open>Gaps\<close>

definition gap_cover :: "wal_gap \<Rightarrow> (u32 \<times> u64) set" where
  "gap_cover g = {(wg_timeline g, p) | p. wg_start g \<le> p \<and> p \<le> wg_end g}"

definition gaps_cover :: "wal_gap list \<Rightarrow> (u32 \<times> u64) set" where
  "gaps_cover gs = (\<Union>g\<in>set gs. gap_cover g)"

text \<open>The positions that are not observed between two observed ones of the same timeline.\<close>

definition missing_between :: "(u32 \<times> u64) set \<Rightarrow> (u32 \<times> u64) set" where
  "missing_between S = {(t, p). (t, p) \<notin> S \<and> (\<exists>a b. (t, a) \<in> S \<and> (t, b) \<in> S \<and> a < p \<and> p < b)}"

text \<open>The gap identity names the timeline and both ends.\<close>

lemma gap_identity_inj:
  "gap_identity t s e = gap_identity t' s' e' \<longleftrightarrow> t = t' \<and> s = s' \<and> e = e'"
proof
  assume eq: "gap_identity t s e = gap_identity t' s' e'"
  have h: "hex_fixed 8 (unat t) = hex_fixed 8 (unat t')" "hex_fixed 16 (unat s) = hex_fixed 16 (unat s')"
    "hex_fixed 16 (unat e) = hex_fixed 16 (unat e')"
    using eq by (simp_all add: gap_identity_def)
  have inj: "a = b" if "hex_fixed n a = hex_fixed n b" "a < 16 ^ n" "b < 16 ^ n" for n a b
    using that hex_value_fixed by metis
  have "unat t = unat t'" "unat s = unat s'" "unat e = unat e'"
    using h [THEN inj] unat_lt_u32 [of t] unat_lt_u32 [of t'] unat_lt_u64 [of s] unat_lt_u64 [of s']
      unat_lt_u64 [of e] unat_lt_u64 [of e'] by simp_all
  then show "t = t' \<and> s = s' \<and> e = e'" by (simp add: word_unat_eq_iff)
qed simp

lemma map_of_foldl_assoc_set:
  "map_of (foldl (\<lambda>m g. assoc_set (f g) g m) m0 gs) k =
     (case find (\<lambda>g. f g = k) (rev gs) of Some g \<Rightarrow> Some g | None \<Rightarrow> map_of m0 k)"
  by (induction gs rule: rev_induct) (auto simp: map_of_assoc_set split: option.splits)

abbreviation identity_of :: "wal_gap \<Rightarrow> string" where
  "identity_of g \<equiv> gap_identity (wg_timeline g) (wg_start g) (wg_end g)"

lemma map_of_prior_gaps:
  "map_of (prior_gaps s) k = find (\<lambda>g. identity_of g = k) (rev (sw_gaps s))"
  by (simp add: prior_gaps_def map_of_foldl_assoc_set split: option.splits)

lemma prior_gaps_Some:
  "map_of (prior_gaps s) k = Some old \<Longrightarrow> old \<in> set (sw_gaps s) \<and> identity_of old = k"
  by (auto simp: map_of_prior_gaps find_Some_iff) (metis length_rev nth_mem set_rev)

lemma prior_gaps_None:
  "map_of (prior_gaps s) k = None \<longleftrightarrow> (\<forall>g\<in>set (sw_gaps s). identity_of g \<noteq> k)"
  by (auto simp: map_of_prior_gaps find_None_iff)

text \<open>The gap between two ranges that are apart.\<close>

lemma gap_between_None:
  "gap_between l r prior sz gen = None \<longleftrightarrow>
     wr_timeline l \<noteq> wr_timeline r \<or> wr_end l = max_u64 \<or> wr_start r \<le> wr_end l + 1"
  by (simp add: gap_between_def Let_def)

lemma gap_between_Some:
  assumes "gap_between l r prior sz gen = Some g"
  shows "wg_timeline g = wr_timeline l" "wg_start g = wr_end l + 1" "wg_end g = wr_start r - 1"
    "wg_count g = wg_end g - wg_start g + 1"
    "wg_first g = wal_name_or_empty (wg_timeline g) (wg_start g) sz"
    "wg_last g = wal_name_or_empty (wg_timeline g) (wg_end g) sz"
    "wg_last_generation g = gen"
    "(wg_status g, wg_first_generation g) = (case map_of prior (identity_of g) of
        None \<Rightarrow> (GapCandidate, gen) | Some old \<Rightarrow> (GapConfirmed, wg_first_generation old))"
    "wr_timeline r = wr_timeline l" "wr_end l \<noteq> max_u64" "wr_end l + 1 < wr_start r"
  using assms by (auto simp: gap_between_def Let_def split: if_splits option.splits)

lemma gap_between_apart:
  assumes "range_apart l r" "wal_range_ok sz l"
  shows "gap_between l r prior sz gen = None \<longleftrightarrow> wr_timeline l \<noteq> wr_timeline r"
proof -
  have "wr_end l \<noteq> max_u64" using assms(2) by (simp add: wal_range_ok_def)
  with unat_suc_u64 [OF this] assms(1) show ?thesis
    by (auto simp: gap_between_None range_apart_def word_le_nat_alt)
qed

lemma gap_between_cover:
  assumes "gap_between l r prior sz gen = Some g"
  shows "gap_cover g = {(wr_timeline l, p) | p. wr_end l < p \<and> p < wr_start r}"
proof -
  note g = gap_between_Some [OF assms]
  have "unat (wr_end l + 1) = unat (wr_end l) + 1" using g(10) by (rule unat_suc_u64)
  moreover have lt: "unat (wr_end l + 1) < unat (wr_start r)" using g(11) by (simp only: word_less_nat_alt)
  moreover have "unat (wr_start r - 1) = unat (wr_start r) - 1"
    using lt by (intro unat_pred_u64) auto
  ultimately have "wr_end l + 1 \<le> p \<longleftrightarrow> wr_end l < p" "p \<le> wr_start r - 1 \<longleftrightarrow> p < wr_start r" for p
    by (auto simp: word_le_nat_alt word_less_nat_alt)
  then show ?thesis by (simp add: gap_cover_def g(1-3))
qed

text \<open>The gaps of ranges that are apart cover exactly the missing positions.\<close>

lemma missing_between_step:
  assumes "ranges_ok sz (l # r # rest)"
  shows "missing_between (ranges_cover (l # r # rest)) =
    (if wr_timeline l = wr_timeline r then {(wr_timeline l, p) | p. wr_end l < p \<and> p < wr_start r} else {})
    \<union> missing_between (ranges_cover (r # rest))" (is "?L = ?G \<union> ?R")
proof -
  let ?rs = "r # rest"
  have le: "wr_start q \<le> wr_end q" if "q \<in> set (l # ?rs)" for q
    using assms that by (auto simp: ranges_ok_def wal_range_ok_def list_all_iff)
  have apart: "range_apart l q" if "q \<in> set ?rs" for q
    using assms that by (auto simp: ranges_ok_def)
  have apart_r: "q = r \<or> range_apart r q" if "q \<in> set ?rs" for q
    using assms that by (auto simp: ranges_ok_def)
  have cover: "(t, p) \<in> ranges_cover qs \<longleftrightarrow>
      (\<exists>q\<in>set qs. t = wr_timeline q \<and> wr_start q \<le> p \<and> p \<le> wr_end q)" for t p qs
    by (auto simp: ranges_cover_def range_cover_def)
  have after: "wr_end l < p" if c: "(wr_timeline l, p) \<in> ranges_cover ?rs" for p
  proof -
    obtain q where "q \<in> set ?rs" "wr_timeline l = wr_timeline q" "wr_start q \<le> p"
      using c unfolding cover by blast
    then show ?thesis using apart [of q] by (auto simp: range_apart_def word_less_nat_alt word_le_nat_alt)
  qed
  have first_r: "wr_timeline r = wr_timeline l \<and> wr_start r \<le> p"
    if c: "(wr_timeline l, p) \<in> ranges_cover ?rs" for p
  proof -
    obtain q where q: "q \<in> set ?rs" "wr_timeline l = wr_timeline q" "wr_start q \<le> p"
      using c unfolding cover by blast
    show ?thesis
    proof (cases "q = r")
      case True
      then show ?thesis using q by simp
    next
      case False
      then have rq: "range_apart r q" using apart_r q(1) by blast
      have "wr_timeline l \<le> wr_timeline r" "wr_timeline r \<le> wr_timeline q"
        using apart [of r] rq by (auto simp: range_apart_def)
      then have t: "wr_timeline r = wr_timeline l" "wr_timeline q = wr_timeline r" using q(2) by auto
      then have "unat (wr_end r) + 1 < unat (wr_start q)" using rq by (simp add: range_apart_def)
      moreover have "unat (wr_start r) \<le> unat (wr_end r)" "unat (wr_start q) \<le> unat p"
        using le [of r] q(3) by (simp_all add: word_le_nat_alt)
      ultimately show ?thesis using t by (simp add: word_le_nat_alt)
    qed
  qed
  have sub: "ranges_cover ?rs \<subseteq> ranges_cover (l # ?rs)" by (auto simp: ranges_cover_def)
  have split: "(t, p) \<in> ranges_cover (l # ?rs) \<longleftrightarrow> t = wr_timeline l \<and> wr_start l \<le> p \<and> p \<le> wr_end l
      \<or> (t, p) \<in> ranges_cover ?rs" for t p
    by (auto simp: ranges_cover_def range_cover_def)
  show ?thesis
  proof (rule set_eqI, clarify)
    fix t p
    show "(t, p) \<in> ?L \<longleftrightarrow> (t, p) \<in> ?G \<union> ?R"
    proof
      assume "(t, p) \<in> ?L"
      then obtain a b where n: "(t, p) \<notin> ranges_cover (l # ?rs)" and ab: "a < p" "p < b"
        and a: "(t, a) \<in> ranges_cover (l # ?rs)" and b: "(t, b) \<in> ranges_cover (l # ?rs)"
        by (auto simp: missing_between_def)
      show "(t, p) \<in> ?G \<union> ?R"
      proof (cases "(t, a) \<in> ranges_cover ?rs")
        case True
        have "\<not> (t = wr_timeline l \<and> b \<le> wr_end l)"
        proof
          assume l: "t = wr_timeline l \<and> b \<le> wr_end l"
          then have "wr_end l < a" using after True by simp
          then show False using l ab by (meson leD less_trans)
        qed
        then have "(t, b) \<in> ranges_cover ?rs" using b unfolding split by blast
        with True n ab sub show ?thesis by (auto simp: missing_between_def)
      next
        case False
        then have t: "t = wr_timeline l" "wr_start l \<le> a" "a \<le> wr_end l" using a split by auto
        then have "wr_start l \<le> p" using ab(1) by (meson less_imp_le order_trans)
        then have p: "wr_end l < p" using n t(1) unfolding split by (meson not_le)
        then have "\<not> b \<le> wr_end l" using ab(2) by (meson leD less_trans)
        then have br: "(wr_timeline l, b) \<in> ranges_cover ?rs"
          using b t(1) unfolding split by blast
        then have r: "wr_timeline r = wr_timeline l" using first_r by blast
        show ?thesis
        proof (cases "p < wr_start r")
          case True
          then show ?thesis using p r t by simp
        next
          case False
          have start: "(t, wr_start r) \<in> ranges_cover ?rs" using le [of r] r t by (auto simp: cover)
          then have "wr_start r \<noteq> p" using n sub by auto
          with False have "wr_start r < p" by simp
          with start br n ab t sub show ?thesis by (auto simp: missing_between_def)
        qed
      qed
    next
      assume "(t, p) \<in> ?G \<union> ?R"
      then show "(t, p) \<in> ?L"
      proof
        assume "(t, p) \<in> ?G"
        then have g: "t = wr_timeline l" "wr_timeline l = wr_timeline r" "wr_end l < p" "p < wr_start r"
          by (auto split: if_splits)
        have "(t, wr_end l) \<in> ranges_cover (l # ?rs)" "(t, wr_start r) \<in> ranges_cover (l # ?rs)"
          using le g(1,2) by (auto simp: cover)
        moreover have "(t, p) \<notin> ranges_cover (l # ?rs)"
          using g first_r [of p] unfolding split by (meson leD)
        ultimately show ?thesis using g by (auto simp: missing_between_def)
      next
        assume "(t, p) \<in> ?R"
        then obtain a b where n: "(t, p) \<notin> ranges_cover ?rs" and ab: "a < p" "p < b"
          and c: "(t, a) \<in> ranges_cover ?rs" "(t, b) \<in> ranges_cover ?rs"
          by (auto simp: missing_between_def)
        have "\<not> (t = wr_timeline l \<and> p \<le> wr_end l)"
          using c(1) after [of a] ab(1) by (meson leD less_trans)
        then have "(t, p) \<notin> ranges_cover (l # ?rs)" using n unfolding split by blast
        then show ?thesis using ab c sub by (auto simp: missing_between_def)
      qed
    qed
  qed
qed


lemma ranges_ok_Cons: "ranges_ok sz (l # rs) \<Longrightarrow> ranges_ok sz rs"
  by (simp add: ranges_ok_def)

lemma gaps_from_cover:
  "ranges_ok sz rs \<Longrightarrow> gaps_cover (gaps_from rs prior sz gen) = missing_between (ranges_cover rs)"
proof (induction rs prior sz gen rule: gaps_from.induct)
  case (1 l r rest prior sz gen)
  have IH: "gaps_cover (gaps_from (r # rest) prior sz gen) = missing_between (ranges_cover (r # rest))"
    using 1 ranges_ok_Cons by (cases "gap_between l r prior sz gen") blast+
  have "range_apart l r" "wal_range_ok sz l" using 1(3) by (simp_all add: ranges_ok_def)
  note none = gap_between_apart [OF this, of prior gen]
  show ?case
  proof (cases "gap_between l r prior sz gen")
    case None
    then show ?thesis using IH none missing_between_step [OF 1(3)] by simp
  next
    case (Some g)
    then have "wr_timeline l = wr_timeline r" using none by simp
    moreover have "gaps_cover (g # gs) = gap_cover g \<union> gaps_cover gs" for gs
      by (auto simp: gaps_cover_def)
    ultimately show ?thesis
      using IH Some gap_between_cover [OF Some] missing_between_step [OF 1(3)] by simp
  qed
qed (auto simp: gaps_cover_def missing_between_def ranges_cover_def range_cover_def)

lemma gaps_from_mem:
  assumes "g \<in> set (gaps_from rs prior sz gen)"
  obtains l r where "l \<in> set rs" "r \<in> set rs" "gap_between l r prior sz gen = Some g"
  using assms
proof (induction rs prior sz gen rule: gaps_from.induct)
  case (1 l r rest prior sz gen)
  then show ?case by (cases "gap_between l r prior sz gen") auto
qed simp_all

lemma gaps_from_length: "length (gaps_from rs prior sz gen) \<le> length rs"
  by (induction rs prior sz gen rule: gaps_from.induct) (auto split: option.splits)

lemma gap_between_names:
  assumes "gap_between l r prior sz gen = Some g" "wal_range_ok sz l" "wal_range_ok sz r"
  shows "wg_timeline g \<noteq> 0 \<and> wg_end g \<noteq> max_u64 \<and> wg_start g \<le> wg_end g
     \<and> wal_name (wg_timeline g) (wg_start g) sz = Inr (wg_first g)
     \<and> wal_name (wg_timeline g) (wg_end g) sz = Inr (wg_last g)"
proof -
  note g = gap_between_Some [OF assms(1)]
  have lt: "unat (wr_end l + 1) < unat (wr_start r)" using g(11) by (simp only: word_less_nat_alt)
  have pred: "unat (wr_start r - 1) = unat (wr_start r) - 1"
    using lt by (intro unat_pred_u64) auto
  have le: "wg_start g \<le> wg_end g" using lt pred by (simp add: g(2,3) word_le_nat_alt)
  have "wg_end g \<le> wr_start r" using pred by (simp add: g(3) word_le_nat_alt)
  moreover obtain lg sg where pos: "wal_position (wg_timeline g) lg sg sz = Inr (wr_start r)"
    using assms(3) g(1,9) by (auto simp: wal_range_ok_def wal_name_Inr_iff)
  moreover have "wg_start g \<le> wr_start r" using le calculation(1) by simp
  moreover have "wg_end g \<noteq> max_u64"
    using wal_position_bound(1) [OF pos] pred by (auto simp: g(3) u64_eq_max_iff)
  moreover have "wg_timeline g \<noteq> 0" using wal_position_valid [OF pos] by simp
  ultimately show ?thesis
    using le wal_name_downward [OF pos] by (simp add: g(5,6))
qed

lemma gaps_for_ranges_ok:
  assumes "ranges_ok sz ranges" "0 < gen"
    and prior: "\<forall>g\<in>set (sw_gaps previous). 0 < wg_first_generation g \<and> wg_first_generation g < gen"
  shows "list_all (wal_gap_ok sz) (gaps_for_ranges ranges previous sz gen)"
proof (unfold list_all_iff, rule ballI)
  fix g assume "g \<in> set (gaps_for_ranges ranges previous sz gen)"
  then obtain l r where lr: "l \<in> set ranges" "r \<in> set ranges"
    and g: "gap_between l r (prior_gaps previous) sz gen = Some g"
    unfolding gaps_for_ranges_def by (rule gaps_from_mem)
  have "wal_range_ok sz l" "wal_range_ok sz r"
    using lr assms(1) by (simp_all add: ranges_ok_def list_all_iff)
  note names = gap_between_names [OF g this]
  have "wg_status g \<in> {GapCandidate, GapConfirmed} \<and> wg_first_generation g \<noteq> 0
     \<and> wg_first_generation g \<le> wg_last_generation g
     \<and> (wg_status g = GapCandidate \<longrightarrow> wg_last_generation g = wg_first_generation g)
     \<and> (wg_status g = GapConfirmed \<longrightarrow> wg_last_generation g \<noteq> wg_first_generation g)"
  proof (cases "map_of (prior_gaps previous) (identity_of g)")
    case None
    then show ?thesis using gap_between_Some(7,8) [OF g] assms(2) by auto
  next
    case (Some old)
    then have "old \<in> set (sw_gaps previous)" using prior_gaps_Some by blast
    then have "0 < wg_first_generation old" "wg_first_generation old < gen" using prior by blast+
    then show ?thesis using gap_between_Some(7,8) [OF g] Some by auto
  qed
  then show "wal_gap_ok sz g"
    using names gap_between_Some(4) [OF g] by (simp add: wal_gap_ok_def)
qed

section \<open>The collector\<close>

definition classified :: "object list \<Rightarrow> classified_wal list" where
  "classified objects = List.map_filter classify_wal_object objects"

definition server_wals :: "string \<Rightarrow> object list \<Rightarrow> classified_wal list" where
  "server_wals server objects = filter (\<lambda>c. cw_server c = server) (classified objects)"

lemma classified_snoc:
  "classified (objects @ [ob]) =
     classified objects @ (case classify_wal_object ob of None \<Rightarrow> [] | Some c \<Rightarrow> [c])"
  by (simp add: classified_def List.map_filter_def split: option.splits)

lemma server_wals_ok: "list_all classified_ok (server_wals server objects)"
proof -
  have "classified_ok c" if "classify_wal_object ob = Some c" for ob c
    using classify_wf(1) [OF that] by (simp add: classified_wf_def classified_ok_def)
  then show ?thesis
    by (auto simp: server_wals_def classified_def List.map_filter_def list_all_iff)
qed

lemma collect_snoc: "collect (objects @ [ob]) = collector_add (collect objects) ob"
  by (simp add: collect_def)

lemma collector_add_servers:
  "wc_servers (collector_add c ob) =
     (case classify_wal_object ob of None \<Rightarrow> wc_servers c
      | Some cl \<Rightarrow> assoc_set (cw_server cl)
          (builder_add (case map_of (wc_servers c) (cw_server cl) of
             None \<Rightarrow> empty_builder | Some b \<Rightarrow> b) cl) (wc_servers c))"
  by (simp add: collector_add_def Let_def split: option.splits)

lemma map_of_collect:
  "map_of (wc_servers (collect objects)) server =
     (if server_wals server objects = [] then None else Some (build (server_wals server objects)))"
proof (induction objects rule: rev_induct)
  case Nil
  then show ?case
    by (simp add: collect_def new_wal_collector_def server_wals_def classified_def List.map_filter_def)
next
  case (snoc ob objects)
  show ?case
  proof (cases "classify_wal_object ob")
    case None
    then show ?thesis
      using snoc by (simp add: collect_snoc collector_add_servers server_wals_def classified_snoc)
  next
    case (Some cl)
    show ?thesis
    proof (cases "cw_server cl = server")
      case True
      have "server_wals server (objects @ [ob]) = server_wals server objects @ [cl]"
        using True Some by (simp add: server_wals_def classified_snoc)
      then show ?thesis
        using snoc True Some
        by (auto simp: collect_snoc collector_add_servers map_of_assoc_set build_snoc)
          (simp add: build_def)
    next
      case False
      have "server_wals server (objects @ [ob]) = server_wals server objects"
        using False Some by (simp add: server_wals_def classified_snoc)
      then show ?thesis
        using snoc False Some by (simp add: collect_snoc collector_add_servers map_of_assoc_set)
    qed
  qed
qed

lemma distinct_collect: "distinct (map fst (wc_servers (collect objects)))"
proof (induction objects rule: rev_induct)
  case Nil
  then show ?case by (simp add: collect_def new_wal_collector_def)
next
  case (snoc ob objects)
  then show ?case
    by (simp add: collect_snoc collector_add_servers distinct_assoc_set split: option.splits)
qed


section \<open>The finished catalog\<close>

lemma distinct_add_backup_servers:
  "distinct (map fst servers) \<Longrightarrow> distinct (map fst (foldl add_backup_server servers backups))"
proof (induction backups arbitrary: servers)
  case (Cons b backups)
  then show ?case by (simp add: add_backup_server_def distinct_assoc_set)
qed simp

lemma map_of_add_backup_servers:
  "map_of (foldl add_backup_server servers backups) s =
     (case map_of servers s of Some b \<Rightarrow> Some b
      | None \<Rightarrow> if s \<noteq> [] \<and> s \<in> bk_server ` set backups then Some empty_builder else None)"
proof (induction backups rule: rev_induct)
  case (snoc b backups)
  then show ?case
    by (auto simp: add_backup_server_def map_of_assoc_set split: option.splits)
qed (simp split: option.splits)

lemma finish_server_name [simp]: "sw_server (finish_server backups previous gen e) = fst e"
  by (simp add: finish_server_def Let_def empty_server_wal_def split: prod.splits)

lemma finish_names:
  "map sw_server (map (finish_server backups previous gen) es) = map fst es"
  by simp

lemma finish_mem:
  "v \<in> set (collector_finish (collect objects) backups previous gen) \<longleftrightarrow>
     v = finish_server backups previous gen (sw_server v, build (server_wals (sw_server v) objects))
     \<and> (server_wals (sw_server v) objects \<noteq> [] \<or> sw_server v \<noteq> [] \<and> sw_server v \<in> bk_server ` set backups)"
proof -
  let ?es = "foldl add_backup_server (wc_servers (collect objects)) backups"
  have d: "distinct (map fst ?es)" by (rule distinct_add_backup_servers [OF distinct_collect])
  have m: "(s, b) \<in> set ?es \<longleftrightarrow> b = build (server_wals s objects)
      \<and> (server_wals s objects \<noteq> [] \<or> s \<noteq> [] \<and> s \<in> bk_server ` set backups)" for s b
    unfolding map_of_eq_Some_iff [OF d, symmetric] map_of_add_backup_servers map_of_collect
    by (auto simp: build_def)
  show ?thesis
  proof
    assume "v \<in> set (collector_finish (collect objects) backups previous gen)"
    then obtain s b where "(s, b) \<in> set ?es" "v = finish_server backups previous gen (s, b)"
      by (auto simp: collector_finish_def)
    then show "v = finish_server backups previous gen (sw_server v, build (server_wals (sw_server v) objects))
     \<and> (server_wals (sw_server v) objects \<noteq> [] \<or> sw_server v \<noteq> [] \<and> sw_server v \<in> bk_server ` set backups)"
      using m by simp
  next
    assume a: "v = finish_server backups previous gen (sw_server v, build (server_wals (sw_server v) objects))
     \<and> (server_wals (sw_server v) objects \<noteq> [] \<or> sw_server v \<noteq> [] \<and> sw_server v \<in> bk_server ` set backups)"
    then have "(sw_server v, build (server_wals (sw_server v) objects)) \<in> set ?es" using m by blast
    with a show "v \<in> set (collector_finish (collect objects) backups previous gen)"
      unfolding collector_finish_def set_sort set_map by blast
  qed
qed

lemma finish_sorted:
  "sorted_wrt (\<lambda>a b. sw_server a < sw_server b) (collector_finish (collect objects) backups previous gen)"
proof -
  let ?es = "foldl add_backup_server (wc_servers (collect objects)) backups"
  have "distinct (map sw_server (map (finish_server backups previous gen) ?es))"
    unfolding finish_names by (rule distinct_add_backup_servers [OF distinct_collect])
  then show ?thesis
    unfolding collector_finish_def using distinct_map_inj by (intro strict_sorted_sort_key) blast+
qed

text \<open>The two forms of a finished server.\<close>

lemma wal_context_from_cases:
  assumes "version = 0 \<or> 90300 \<le> version \<and> valid_wal_segment_size sz"
  shows "\<exists>v z r. wal_context_from version sz backups server = (v, z, r)
     \<and> (r = [] \<and> 90300 \<le> v \<and> valid_wal_segment_size z
        \<or> v = 0 \<and> z = 0 \<and> bounded_wal_text r 256)"
  using assms
proof (induction version sz backups server rule: wal_context_from.induct)
  case (1 version sz server)
  then show ?case by (auto simp: bounded_wal_text_def ascii_control_def)
next
  case (2 version sz b rest server)
  then show ?case by (auto simp: bounded_wal_text_def ascii_control_def)
qed

lemma wal_context_cases:
  obtains v z where "wal_context backups server = (v, z, [])" "90300 \<le> v" "valid_wal_segment_size z"
  | r where "wal_context backups server = (0, 0, r)" "bounded_wal_text r 256"
  using wal_context_from_cases [of 0 0 backups server] by (auto simp: wal_context_def)

lemma finish_server_no_context:
  assumes "wal_context backups s = (0, 0, r)" "r \<noteq> []"
  shows "finish_server backups previous gen (s, b) =
    empty_server_wal\<lparr>sw_server := s, sw_counts := wb_counts b, sw_diagnostics := wb_diagnostics b,
      sw_diagnostics_truncated := wb_diagnostics_truncated b,
      sw_ranges_truncated := wb_ranges_truncated b, sw_state := Unknown, sw_reason := r\<rparr>"
  using assms by (simp add: finish_server_def empty_server_wal_def)

lemma finish_server_context:
  fixes b :: wal_builder and previous :: wal_catalog and gen :: u64
  assumes "wal_context backups s = (v, z, [])"
  defines "ranges \<equiv> fst (convert_ranges z (wb_ranges b))"
  defines "gaps \<equiv> gaps_for_ranges ranges (previous_server previous s) z gen"
  shows "finish_server backups previous gen (s, b) =
    empty_server_wal\<lparr>sw_server := s, sw_version := v, sw_segment_size := z,
      sw_counts := wb_counts b, sw_diagnostics := wb_diagnostics b,
      sw_diagnostics_truncated := wb_diagnostics_truncated b,
      sw_ranges_truncated := wb_ranges_truncated b,
      sw_ranges := ranges, sw_latest_receipt := latest_receipt ranges, sw_gaps := gaps,
      sw_state := fst (server_verdict b (snd (convert_ranges z (wb_ranges b))) ranges gaps),
      sw_reason := snd (server_verdict b (snd (convert_ranges z (wb_ranges b))) ranges gaps)\<rparr>"
  using assms(1) unfolding ranges_def gaps_def
  by (simp add: finish_server_def Let_def split_beta)

text \<open>What is observed below a server.\<close>

definition observed :: "int \<Rightarrow> string \<Rightarrow> object list \<Rightarrow> (u32 \<times> u64) set" where
  "observed sz server objects = positions_of sz (segments_of (server_wals server objects))"

lemma verdict_known:
  assumes "fst (server_verdict b invalid ranges gaps) \<noteq> Unknown"
  shows "\<not> wb_ranges_truncated b \<and> \<not> wb_diagnostics_truncated b \<and> \<not> wb_out_of_order b \<and> \<not> invalid
     \<and> ct_duplicates (wb_counts b) \<le> 0 \<and> ct_unknown (wb_counts b) \<le> 0 \<and> ranges \<noteq> []"
  using assms by (auto simp: server_verdict_def split: if_splits)

lemma verdict_healthy:
  assumes "fst (server_verdict b invalid ranges gaps) = Healthy" "list_all (wal_gap_ok sz) gaps"
  shows "gaps = []"
  using assms by (cases gaps) (auto simp: server_verdict_def has_gap_status_def wal_gap_ok_def split: if_splits)

lemma build_ranges_inv:
  "conversion_inv z (wb_ranges (build (server_wals s objects)))
     (convert_ranges z (wb_ranges (build (server_wals s objects))))"
  using build_ok [OF server_wals_ok] by (intro convert_ranges_inv) (simp_all add: builder_ok_def)

text \<open>A verdict other than unknown rests on exact ranges and gaps.\<close>

lemma finish_server_known:
  assumes v: "v = finish_server backups previous gen (s, build (server_wals s objects))"
    and known: "sw_state v \<noteq> Unknown"
  shows "ranges_ok (sw_segment_size v) (sw_ranges v)" "sw_ranges v \<noteq> []"
    and "ranges_cover (sw_ranges v) = observed (sw_segment_size v) s objects"
    and "gaps_cover (sw_gaps v) = missing_between (observed (sw_segment_size v) s objects)"
    and "ct_duplicates (sw_counts v) \<le> 0 \<and> ct_unknown (sw_counts v) \<le> 0"
    and "valid_wal_segment_size (sw_segment_size v)"
proof -
  let ?b = "build (server_wals s objects)"
  have "ranges_ok (sw_segment_size v) (sw_ranges v) \<and> sw_ranges v \<noteq> []
    \<and> ranges_cover (sw_ranges v) = observed (sw_segment_size v) s objects
    \<and> gaps_cover (sw_gaps v) = missing_between (observed (sw_segment_size v) s objects)
    \<and> (ct_duplicates (sw_counts v) \<le> 0 \<and> ct_unknown (sw_counts v) \<le> 0)
    \<and> valid_wal_segment_size (sw_segment_size v)"
  proof (cases rule: wal_context_cases [of backups s])
    case (2 r)
    have "r \<noteq> []" using 2(2) by (simp add: bounded_wal_text_def)
    then show ?thesis using known 2(1) by (simp add: v finish_server_no_context)
  next
    case (1 ver z)
    let ?conv = "convert_ranges z (wb_ranges ?b)"
    let ?gaps = "gaps_for_ranges (fst ?conv) (previous_server previous s) z gen"
    note eq = finish_server_context [OF 1(1), of previous gen ?b]
    have "fst (server_verdict ?b (snd ?conv) (fst ?conv) ?gaps) \<noteq> Unknown"
      using known by (simp add: v eq)
    note k = verdict_known [OF this]
    have cov: "raw_covers (wb_ranges ?b) = segments_of (server_wals s objects)"
      using build_covers [OF server_wals_ok [of s objects]] k by blast
    have inv: "conversion_inv z (wb_ranges ?b) ?conv" by (rule build_ranges_inv)
    then have ok: "ranges_ok z (fst ?conv)" and rc: "ranges_cover (fst ?conv) = observed z s objects"
      using k cov by (simp_all add: conversion_inv_def observed_def)
    have "gaps_cover ?gaps = missing_between (observed z s objects)"
      unfolding gaps_for_ranges_def using gaps_from_cover [OF ok] rc by simp
    then show ?thesis using ok rc k 1(3) by (simp add: v eq)
  qed
  then show "ranges_ok (sw_segment_size v) (sw_ranges v)" "sw_ranges v \<noteq> []"
    "ranges_cover (sw_ranges v) = observed (sw_segment_size v) s objects"
    "gaps_cover (sw_gaps v) = missing_between (observed (sw_segment_size v) s objects)"
    "ct_duplicates (sw_counts v) \<le> 0 \<and> ct_unknown (sw_counts v) \<le> 0"
    "valid_wal_segment_size (sw_segment_size v)"
    by blast+
qed


section \<open>Counters\<close>

definition count_class :: "wal_class set \<Rightarrow> classified_wal list \<Rightarrow> int" where
  "count_class K cs = int (length (filter (\<lambda>c. cw_class c \<in> K) cs))"

lemma add_segment_counts:
  assumes "builder_ok b" "cw_timeline ob \<noteq> 0"
  shows "wb_counts (add_segment b ob) = wb_counts b
    \<or> wb_counts (add_segment b ob) = (wb_counts b)\<lparr>ct_segments := ct_segments (wb_counts b) - 1,
         ct_duplicates := ct_duplicates (wb_counts b) + 1\<rparr>"
  using assms by (cases rule: add_segment_cases; simp add: append_range_eq)

definition counts_ok :: "classified_wal list \<Rightarrow> wal_counts \<Rightarrow> bool" where
  "counts_ok cs n \<longleftrightarrow> 0 \<le> ct_segments n \<and> 0 \<le> ct_duplicates n
     \<and> ct_segments n + ct_duplicates n = count_class {WALSegment} cs
     \<and> ct_partials n = count_class {WALPartial} cs \<and> ct_history n = count_class {WALHistory} cs
     \<and> ct_backup_history n = count_class {WALBackupHistory} cs
     \<and> ct_unknown n = count_class (- {WALSegment, WALPartial, WALHistory, WALBackupHistory}) cs"

lemma count_class_snoc:
  "count_class K (cs @ [c]) = (if cw_class c \<in> K then count_class K cs + 1 else count_class K cs)"
  by (simp add: count_class_def)

lemma builder_add_counts:
  assumes "builder_ok b" "classified_ok c" "counts_ok cs (wb_counts b)"
  shows "counts_ok (cs @ [c]) (wb_counts (builder_add b c))"
proof (cases "cw_class c = WALSegment")
  case True
  let ?b = "b\<lparr>wb_counts := (wb_counts b)\<lparr>ct_segments := ct_segments (wb_counts b) + 1\<rparr>\<rparr>"
  have "builder_ok ?b" "cw_timeline c \<noteq> 0" using assms True by (simp_all add: classified_ok_def)
  from add_segment_counts [OF this] show ?thesis
    using assms(3) True by (auto simp: builder_add_def Let_def counts_ok_def count_class_snoc)
next
  case False
  then show ?thesis
    using assms(3)
    by (cases "cw_class c") (simp_all add: builder_add_def Let_def counts_ok_def count_class_snoc)
qed

lemma build_counts: "list_all classified_ok cs \<Longrightarrow> counts_ok cs (wb_counts (build cs))"
proof (induction cs rule: rev_induct)
  case Nil
  then show ?case
    by (simp add: build_def empty_builder_def zero_counts_def counts_ok_def count_class_def)
next
  case (snoc c cs)
  then show ?case by (simp add: build_snoc builder_add_counts build_ok)
qed

section \<open>Diagnostics\<close>

definition key_ok :: "string \<Rightarrow> bool" where
  "key_ok k \<longleftrightarrow> k \<noteq> [] \<and> length k \<le> MaxKeyBytes \<and> \<not> has_control k"

definition diagnosable :: "classified_wal \<Rightarrow> bool" where
  "diagnosable c \<longleftrightarrow> key_ok (cw_key c) \<and> length (cw_name c) \<le> MaxKeyBytes
     \<and> bounded_wal_text (cw_reason c) 256 \<and> valid_wal_class (cw_class c)"

lemma add_diagnostic_ok:
  assumes "list_all wal_diagnostic_ok (wb_diagnostics b)" "diagnosable c"
  shows "list_all wal_diagnostic_ok (wb_diagnostics (add_diagnostic b c))"
  using assms
  by (simp add: add_diagnostic_def wal_diagnostic_ok_def diagnosable_def key_ok_def utc_or_zero_def)

lemma append_range_diagnostics [simp]: "wb_diagnostics (append_range b c) = wb_diagnostics b"
  by (simp add: append_range_def)

lemma add_segment_diagnostics_ok:
  assumes "list_all wal_diagnostic_ok (wb_diagnostics b)" "diagnosable c"
  shows "list_all wal_diagnostic_ok (wb_diagnostics (add_segment b c))"
proof -
  have dup: "diagnosable (c\<lparr>cw_class := WALDuplicate,
      cw_reason := ''duplicate representation of one WAL position''\<rparr>)"
    and dis: "diagnosable (c\<lparr>cw_class := WALUnknown,
      cw_reason := ''provider listing returned WAL positions out of order''\<rparr>)"
    using assms(2)
    by (simp_all add: diagnosable_def bounded_wal_text_def valid_wal_class_def ascii_control_def)
  show ?thesis
    using assms(1) add_diagnostic_ok [OF _ dup] add_diagnostic_ok [OF _ dis]
    unfolding add_segment_def Let_def by simp
qed

lemma builder_add_diagnostics_ok:
  assumes "list_all wal_diagnostic_ok (wb_diagnostics b)" "diagnosable c"
  shows "list_all wal_diagnostic_ok (wb_diagnostics (builder_add b c))"
  using assms
  by (cases "cw_class c")
    (simp_all add: builder_add_def Let_def add_diagnostic_ok add_segment_diagnostics_ok)

lemma build_diagnostics_ok:
  "list_all diagnosable cs \<Longrightarrow> list_all wal_diagnostic_ok (wb_diagnostics (build cs))"
proof (induction cs rule: rev_induct)
  case Nil
  then show ?case by (simp add: build_def empty_builder_def)
next
  case (snoc c cs)
  then show ?case by (simp add: build_snoc builder_add_diagnostics_ok)
qed

lemma strip_name_length: "length (fst (strip_wal_compression n)) \<le> length n"
  by (simp add: strip_wal_compression_def trim_suffix_def split: option.splits prod.splits)

lemma classify_name_length:
  assumes "classify_wal_object ob = Some c"
  shows "length (cw_name c) \<le> length (ob_key ob)"
proof -
  let ?parts = "split_on (CHR ''/'') (ob_key ob)"
  have "length (last ?parts) \<le> length (ob_key ob)"
    using split_on_length_parts last_in_set [OF split_on_nonempty] by blast
  then have "length (fst (strip_wal_compression (last ?parts))) \<le> length (ob_key ob)"
    using strip_name_length le_trans by blast
  then show ?thesis
    using assms by (auto simp: classify_wal_object_def Let_def split_beta split: if_splits)
qed

lemma classify_key_nonempty:
  assumes "classify_wal_object ob = Some c" shows "ob_key ob \<noteq> []"
  using assms by (auto simp: classify_wal_object_def)

lemma classified_diagnosable:
  assumes "\<forall>ob\<in>set objects. length (ob_key ob) \<le> MaxKeyBytes \<and> \<not> has_control (ob_key ob)"
  shows "list_all diagnosable (server_wals s objects)"
proof -
  have "diagnosable c" if "ob \<in> set objects" "classify_wal_object ob = Some c" for ob c
  proof -
    have "cw_class c \<in> {WALSegment, WALPartial, WALHistory, WALBackupHistory, WALUnknown}"
      "cw_reason c \<in> set wal_reasons"
      using classify_wf(1) [OF that(2)] by (simp_all add: classified_wf_def)
    moreover have "length (cw_name c) \<le> MaxKeyBytes"
      using classify_name_length [OF that(2)] assms that(1) le_trans by blast
    ultimately show ?thesis
      using assms that(1) classify_wf(2) [OF that(2)] classify_key_nonempty [OF that(2)]
        wal_reasons_bounded
      by (auto simp: diagnosable_def key_ok_def bounded_wal_text_def valid_wal_class_def)
  qed
  then show ?thesis
    by (auto simp: server_wals_def classified_def List.map_filter_def list_all_iff)
qed

section \<open>What the collector publishes is valid\<close>

lemma check_wal_server_prior:
  "check_wal_server prior s = None \<longleftrightarrow>
     check_wal_server None s = None \<and> (\<forall>p. prior = Some p \<longrightarrow> sw_server p < sw_server s)"
proof (cases prior)
  case None
  then show ?thesis by simp
next
  case (Some p)
  have "check_wal_server (Some p) s =
      (if sw_server s \<le> sw_server p then Some ''invalid Barman WAL server evidence''
       else check_wal_server None s)"
    unfolding check_wal_server_def by simp
  then show ?thesis by (auto simp: Some not_le)
qed

lemma check_wal_servers_iff:
  "check_wal_servers prior c = None \<longleftrightarrow>
     (\<forall>s\<in>set c. check_wal_server None s = None)
     \<and> sorted_wrt (\<lambda>a b. sw_server a < sw_server b) (case prior of None \<Rightarrow> c | Some p \<Rightarrow> p # c)"
proof (induction c arbitrary: prior)
  case Nil
  then show ?case by (simp split: option.splits)
next
  case (Cons s c)
  have "check_wal_servers prior (s # c) = None \<longleftrightarrow>
      check_wal_server prior s = None \<and> check_wal_servers (Some s) c = None"
    by (simp split: option.splits)
  also have "\<dots> \<longleftrightarrow> (\<forall>x\<in>set (s # c). check_wal_server None x = None)
      \<and> (\<forall>p. prior = Some p \<longrightarrow> sw_server p < sw_server s)
      \<and> sorted_wrt (\<lambda>a b. sw_server a < sw_server b) (s # c)"
    unfolding check_wal_server_prior [of prior] Cons.IH by auto
  finally show ?case by (cases prior) (auto intro: less_trans)
qed

lemma check_wal_ranges_ok:
  assumes "ranges_ok sz rs" shows "check_wal_ranges sz None rs = None"
proof -
  have before: "wal_range_before a b" if "range_apart a b" for a b
    using that by (auto simp: range_apart_def wal_range_before_def word_less_nat_alt)
  have "check_wal_ranges sz prior rs = None"
    if "ranges_ok sz rs" "\<forall>p. prior = Some p \<longrightarrow> (\<forall>r\<in>set rs. range_apart p r)" for prior
    using that
  proof (induction rs arbitrary: prior)
    case (Cons r rs)
    have "check_wal_ranges sz (Some r) rs = None"
      using Cons.prems(1) by (intro Cons.IH) (auto simp: ranges_ok_def)
    then show ?case
      using Cons.prems before by (cases prior) (auto simp: ranges_ok_def)
  qed simp
  then show ?thesis using assms by simp
qed

lemma latest_receipt_utc:
  assumes "list_all utc_receipts rs" shows "utc_or_zero (latest_receipt rs)"
proof -
  let ?f = "\<lambda>t r. if time_after (wr_latest_receipt r) t then wr_latest_receipt r else t"
  have "utc_or_zero (foldl ?f t rs)" if "utc_or_zero t" for t
    using assms that
  proof (induction rs arbitrary: t)
    case (Cons r rs)
    have "utc_or_zero (?f t r)" using Cons.prems by (simp add: utc_receipts_def utc_or_zero_def)
    then show ?case using Cons by simp
  qed simp
  moreover have "utc_or_zero zero_time" by (simp add: utc_or_zero_def time_defs)
  ultimately show ?thesis by (simp add: latest_receipt_def)
qed


lemma gaps_status:
  "g \<in> set (gaps_for_ranges ranges prev sz gen) \<Longrightarrow> wg_status g \<in> {GapCandidate, GapConfirmed}"
  unfolding gaps_for_ranges_def
  by (erule gaps_from_mem, drule gap_between_Some(8)) (auto split: option.splits)

lemma verdict_reason: "bounded_wal_text (snd (server_verdict b bad ranges gaps)) 256"
  by (simp add: server_verdict_def bounded_wal_text_def ascii_control_def)

lemma verdict_state: "valid_state (fst (server_verdict b bad ranges gaps))"
  by (simp add: server_verdict_def valid_state_def)

lemma previous_server_gaps:
  "\<forall>s\<in>set previous. \<forall>g\<in>set (sw_gaps s). P g \<Longrightarrow> \<forall>g\<in>set (sw_gaps (previous_server previous s)). P g"
  by (auto simp: previous_server_def empty_server_wal_def find_Some_iff split: option.splits)

lemma valid_size_pos: "valid_wal_segment_size z \<Longrightarrow> 0 < z"
  by (simp add: valid_wal_segment_size_def MinWALSegmentSize_def)

lemma finish_server_valid:
  assumes name: "valid_discovered_name s"
    and keys: "\<forall>ob\<in>set objects. length (ob_key ob) \<le> MaxKeyBytes \<and> \<not> has_control (ob_key ob)"
    and gen: "0 < gen"
    and prior: "\<forall>s\<in>set previous. \<forall>g\<in>set (sw_gaps s). 0 < wg_first_generation g \<and> wg_first_generation g < gen"
  shows "check_wal_server None (finish_server backups previous gen (s, build (server_wals s objects))) = None"
proof -
  let ?b = "build (server_wals s objects)"
  have counts: "counts_ok (server_wals s objects) (wb_counts ?b)"
    by (rule build_counts [OF server_wals_ok])
  then have nonneg: "\<not> invalid_wal_counts (wb_counts ?b)"
    by (simp add: counts_ok_def invalid_wal_counts_def count_class_def)
  have bok: "builder_ok ?b" by (rule build_ok [OF server_wals_ok])
  have diag: "list_all wal_diagnostic_ok (wb_diagnostics ?b)"
    by (rule build_diagnostics_ok [OF classified_diagnosable [OF keys]])
  show ?thesis
  proof (cases rule: wal_context_cases [of backups s])
    case (2 r)
    have "r \<noteq> []" using 2(2) by (simp add: bounded_wal_text_def)
    then show ?thesis
      using 2 name nonneg bok diag
      by (simp add: finish_server_no_context check_wal_server_def empty_server_wal_def valid_state_def
          builder_ok_def utc_or_zero_def time_defs)
  next
    case (1 v z)
    let ?conv = "convert_ranges z (wb_ranges ?b)"
    let ?gaps = "gaps_for_ranges (fst ?conv) (previous_server previous s) z gen"
    let ?verdict = "server_verdict ?b (snd ?conv) (fst ?conv) ?gaps"
    have inv: "conversion_inv z (wb_ranges ?b) ?conv" by (rule build_ranges_inv)
    then have ok: "ranges_ok z (fst ?conv)" and len: "length (fst ?conv) \<le> MaxWALRanges"
      and utc: "list_all utc_receipts (fst ?conv)"
      using bok by (simp_all add: conversion_inv_def builder_ok_def)
    have glen: "length ?gaps \<le> MaxWALRanges"
      using gaps_from_length [of "fst ?conv"] len le_trans unfolding gaps_for_ranges_def by blast
    have gok: "list_all (wal_gap_ok z) ?gaps"
      by (rule gaps_for_ranges_ok [OF ok gen previous_server_gaps [OF prior]])
    have unknown: "(wb_ranges_truncated ?b \<or> wb_diagnostics_truncated ?b
        \<or> 0 < ct_duplicates (wb_counts ?b) \<or> 0 < ct_unknown (wb_counts ?b)) \<longrightarrow> fst ?verdict = Unknown"
      using verdict_known [of ?b "snd ?conv" "fst ?conv" ?gaps] by fastforce
    have cr: "check_wal_ranges z None (fst ?conv) = None" by (rule check_wal_ranges_ok [OF ok])
    show ?thesis
      unfolding finish_server_context [OF 1(1)]
      using name nonneg bok diag 1(2,3) len glen gok unknown cr verdict_state verdict_reason
        latest_receipt_utc [OF utc] valid_size_pos [OF 1(3)]
      by (simp add: check_wal_server_def empty_server_wal_def builder_ok_def wal_context_ok_def) blast
  qed
qed


section \<open>A concrete archive\<close>

text \<open>Segments of timeline 1 at 16 MiB, below the server \<open>s\<close>, and its one backup.\<close>

definition ex_wals :: "u32 list \<Rightarrow> object list" where
  "ex_wals ns = map (\<lambda>n. ex_object (segment_key ''s'' (wal_text 1 0 n) [])) ns"

definition ex_backups :: "backup list" where
  "ex_backups = [empty_backup\<lparr>bk_server := ''s'', bk_version := 150000, bk_segment_size := 16777216\<rparr>]"

definition ex_cw :: "u32 \<Rightarrow> classified_wal" where
  "ex_cw n = \<lparr>cw_key = segment_key ''s'' (wal_text 1 0 n) [], cw_server = ''s'', cw_name = wal_text 1 0 n,
      cw_compression = ''none'', cw_class = WALSegment, cw_timeline = 1, cw_log = 0, cw_segment = n,
      cw_last_modified = zero_time, cw_reason = ''complete WAL segment name''\<rparr>"

lemma ex_classify: "classify_wal_object (ex_object (segment_key ''s'' (wal_text 1 0 n) [])) = Some (ex_cw n)"
proof -
  have "stored_suffix [] ''none''" by (simp add: stored_suffix_def)
  then show ?thesis
    by (subst classify_stored_segment) (auto simp: ex_object_def ex_cw_def time_defs)
qed

lemma ex_server_wals: "server_wals ''s'' (ex_wals ns) = map ex_cw ns"
  by (induction ns)
    (simp_all add: server_wals_def classified_def ex_wals_def ex_classify List.map_filter_def ex_cw_def)

lemma ex_size: "valid_wal_segment_size 16777216" "segments_per_id 16777216 = 256"
  by (simp_all add: valid_wal_segment_size_def MinWALSegmentSize_def MaxWALSegmentSize_def segments_per_id_def)

lemma ex_position: "n < 256 \<Longrightarrow> wal_position 1 0 n 16777216 = Inr (ucast n)"
  by (simp add: wal_position_def ex_size word_less_nat_alt word_le_nat_alt unsigned_ucast_eq
      take_bit_nat_eq_self)

lemma ex_context: "wal_context ex_backups ''s'' = (150000, 16777216, [])"
  by (simp add: wal_context_def ex_backups_def ex_size)

lemma ex_finish:
  "finish_server ex_backups [] 7 (''s'', build (server_wals ''s'' (ex_wals ns)))
     \<in> set (collector_finish (collect (ex_wals ns)) ex_backups [] 7)"
  by (simp add: finish_mem ex_backups_def)

definition ex_range :: "u64 \<Rightarrow> u64 \<Rightarrow> wal_range" where
  "ex_range a b = \<lparr>wr_timeline = 1, wr_start = a, wr_end = b, wr_count = b - a + 1,
      wr_first = wal_name_or_empty 1 a 16777216, wr_last = wal_name_or_empty 1 b 16777216,
      wr_latest_receipt = zero_time, wr_end_receipt = zero_time\<rparr>"

lemmas ex_build_simps =
  build_def ex_server_wals builder_add_def ex_cw_def empty_builder_def zero_counts_def add_segment_def
  append_range_def MaxWALRanges_def set_last_range_def later_receipt_def Let_def

lemma ex_ranges_gap:
  "convert_ranges 16777216 (wb_ranges (build (server_wals ''s'' (ex_wals [1, 3]))))
     = ([ex_range 1 1, ex_range 3 3], False)"
  by (simp add: ex_build_simps convert_ranges_def convert_range_def ex_position merge_range_def
      ex_range_def time_defs)

lemma ex_ranges_full:
  "convert_ranges 16777216 (wb_ranges (build (server_wals ''s'' (ex_wals [1, 2, 3]))))
     = ([ex_range 1 3], False)"
  by (simp add: ex_build_simps convert_ranges_def convert_range_def ex_position merge_range_def
      ex_range_def time_defs)

lemma ex_verdict_full:
  "fst (server_verdict (build (server_wals ''s'' (ex_wals [1, 2, 3]))) False [r] []) = Healthy"
  by (simp add: ex_build_simps server_verdict_def has_gap_status_def time_defs)

lemma ex_verdict_gap:
  "has_gap_status gs GapCandidate \<Longrightarrow> \<not> has_gap_status gs GapConfirmed \<Longrightarrow>
   fst (server_verdict (build (server_wals ''s'' (ex_wals [1, 3]))) False (r # rs) gs) = Warning"
  by (simp add: ex_build_simps server_verdict_def time_defs)

lemma ex_full_healthy:
  "sw_state (finish_server ex_backups [] 7 (''s'', build (server_wals ''s'' (ex_wals [1, 2, 3])))) = Healthy"
  unfolding finish_server_context [OF ex_context] ex_ranges_full
  by (simp add: gaps_for_ranges_def ex_verdict_full)

definition ex_gap :: wal_gap where
  "ex_gap = \<lparr>wg_timeline = 1, wg_start = 2, wg_end = 2, wg_count = 1,
     wg_first = wal_name_or_empty 1 2 16777216, wg_last = wal_name_or_empty 1 2 16777216,
     wg_status = GapCandidate, wg_first_generation = 7, wg_last_generation = 7\<rparr>"

lemma ex_gaps: "sw_gaps (finish_server ex_backups [] 7 (''s'', build (server_wals ''s'' (ex_wals [1, 3])))) = [ex_gap]"
  unfolding finish_server_context [OF ex_context] ex_ranges_gap
  by (simp add: gaps_for_ranges_def gap_between_def ex_range_def prior_gaps_def previous_server_def
      empty_server_wal_def Let_def ex_gap_def)

lemma ex_gap_warning:
  "sw_state (finish_server ex_backups [] 7 (''s'', build (server_wals ''s'' (ex_wals [1, 3])))) = Warning"
proof -
  have "gaps_for_ranges [ex_range 1 1, ex_range 3 3] (previous_server [] ''s'') 16777216 7 = [ex_gap]"
    using ex_gaps unfolding finish_server_context [OF ex_context] ex_ranges_gap by simp
  then show ?thesis
    unfolding finish_server_context [OF ex_context] ex_ranges_gap
    by (simp add: ex_verdict_gap has_gap_status_def ex_gap_def)
qed

lemma finish_server_healthy:
  assumes v: "v = finish_server backups previous gen (s, b)" and "sw_state v = Healthy"
  shows "sw_gaps v = []"
proof (cases rule: wal_context_cases [of backups s])
  case (2 r)
  then show ?thesis
    by (simp add: v finish_server_no_context empty_server_wal_def bounded_wal_text_def)
next
  case (1 ver z)
  let ?gs = "gaps_for_ranges (fst (convert_ranges z (wb_ranges b))) (previous_server previous s) z gen"
  have "\<not> has_gap_status ?gs GapConfirmed" "\<not> has_gap_status ?gs GapCandidate"
    using assms(2) by (auto simp: v finish_server_context [OF 1(1)] server_verdict_def split: if_splits)
  then have "?gs = []"
    using gaps_status [of _ "fst (convert_ranges z (wb_ranges b))" "previous_server previous s" z gen]
    by (cases ?gs) (auto simp: has_gap_status_def)
  then show ?thesis by (simp add: v finish_server_context [OF 1(1)])
qed

lemma finish_server_gaps:
  assumes v: "v = finish_server backups previous gen (s, b)" and "g \<in> set (sw_gaps v)"
  shows "\<exists>sz ranges. g \<in> set (gaps_for_ranges ranges (previous_server previous s) sz gen)"
proof (cases rule: wal_context_cases [of backups s])
  case (2 r)
  then show ?thesis
    using assms(2) by (simp add: v finish_server_no_context empty_server_wal_def bounded_wal_text_def)
next
  case (1 ver z)
  then show ?thesis using assms(2) by (auto simp: v finish_server_context)
qed


section \<open>Properties\<close>

text \<open>
  C19. The compact raw ranges of a server represent the listing faithfully: they are in order,
  within the limits, and never cover a segment that was not listed; unless the builder
  reports truncation or an out-of-order listing they cover every listed segment.
\<close>

theorem collector_covers:
  assumes "(server, b) \<in> set (wc_servers (collect objects))"
  shows "sorted_wrt raw_before (wb_ranges b) \<and> length (wb_ranges b) \<le> MaxWALRanges
     \<and> length (wb_diagnostics b) \<le> MaxWALDiagnostics
     \<and> raw_covers (wb_ranges b) \<subseteq> segments_of (server_wals server objects)
     \<and> (\<not> wb_ranges_truncated b \<and> \<not> wb_out_of_order b
          \<longrightarrow> raw_covers (wb_ranges b) = segments_of (server_wals server objects))
     \<and> counts_ok (server_wals server objects) (wb_counts b)"
proof -
  have "map_of (wc_servers (collect objects)) server = Some b"
    using assms distinct_collect by (simp add: map_of_eq_Some_iff)
  then have b: "b = build (server_wals server objects)"
    by (simp add: map_of_collect split: if_splits)
  have "builder_ok b" unfolding b by (rule build_ok [OF server_wals_ok])
  then show ?thesis
    using build_covers [OF server_wals_ok [of server objects]]
      build_counts [OF server_wals_ok [of server objects]]
    by (auto simp: b builder_ok_def)
qed

lemma collector_covers_witness:
  "segments_of (server_wals ''s'' (ex_wals [1, 3])) =
     raw_covers (wb_ranges (build (server_wals ''s'' (ex_wals [1, 3]))))"
proof -
  let ?b = "build (server_wals ''s'' (ex_wals [1, 3]))"
  have "map_of (wc_servers (collect (ex_wals [1, 3]))) ''s'' = Some ?b"
    by (simp add: map_of_collect ex_server_wals)
  then have "(''s'', ?b) \<in> set (wc_servers (collect (ex_wals [1, 3])))" by (rule map_of_SomeD)
  from collector_covers [OF this] show ?thesis by (simp add: ex_build_simps time_defs)
qed

text \<open>
  C6. A server with a definite state reports the archive exactly: its ranges are the observed
  segment positions, and its gaps are exactly the positions that are missing between two
  observed positions of the same timeline.
\<close>

theorem finish_exact:
  assumes "v \<in> set (collector_finish (collect objects) backups previous generation)"
    and "sw_state v \<noteq> Unknown"
  shows "ranges_cover (sw_ranges v) = observed (sw_segment_size v) (sw_server v) objects
     \<and> gaps_cover (sw_gaps v)
         = missing_between (observed (sw_segment_size v) (sw_server v) objects)
     \<and> sorted_wrt range_apart (sw_ranges v)"
proof -
  have "v = finish_server backups previous generation
      (sw_server v, build (server_wals (sw_server v) objects))"
    using assms(1) by (simp only: finish_mem)
  from finish_server_known [OF this assms(2)] show ?thesis by (simp add: ranges_ok_def)
qed

lemma finish_exact_witness:
  "\<exists>v \<in> set (collector_finish (collect (ex_wals [1, 3])) ex_backups [] 7).
     sw_state v = Warning \<and> sorted_wrt range_apart (sw_ranges v)"
proof -
  let ?v = "finish_server ex_backups [] 7 (''s'', build (server_wals ''s'' (ex_wals [1, 3])))"
  have "sw_state ?v \<noteq> Unknown" by (simp add: ex_gap_warning)
  from finish_exact [OF ex_finish this] show ?thesis
    using ex_finish [of "[1, 3]"] ex_gap_warning by blast
qed

text \<open>An observed position is the position of a listed object.\<close>

lemma observed_listed:
  assumes "(t, p) \<in> observed sz server objects"
  obtains ob c name where "ob \<in> set objects" "classify_wal_object ob = Some c" "cw_server c = server"
    "cw_class c = WALSegment" "wal_name t p sz = Inr name" "map upper_char (cw_name c) = name"
proof -
  obtain c where c: "c \<in> set (server_wals server objects)" "cw_class c = WALSegment"
    "cw_timeline c = t" "wal_position t (cw_log c) (cw_segment c) sz = Inr p"
    using assms by (auto simp: observed_def positions_of_def segments_of_def)
  then obtain ob where ob: "ob \<in> set objects" "classify_wal_object ob = Some c" "cw_server c = server"
    by (auto simp: server_wals_def classified_def List.map_filter_def)
  moreover have "map upper_char (cw_name c) = wal_text t (cw_log c) (cw_segment c)"
    using classify_wf(1) [OF ob(2)] c by (simp add: classified_wf_def)
  moreover have "wal_name t p sz = Inr (wal_text t (cw_log c) (cw_segment c))"
    by (rule wal_name_of_position [OF c(4)])
  ultimately show ?thesis using c(2) that by blast
qed

text \<open>
  C7. When a server's archive is healthy, no segment is missing in it: between any two
  archived segments of a timeline, every segment name is the name of a listed object.
\<close>

theorem healthy_archive_complete:
  assumes "v \<in> set (collector_finish (collect objects) backups previous generation)"
    and "sw_state v = Healthy"
    and "(tli, a) \<in> observed (sw_segment_size v) (sw_server v) objects"
    and "(tli, b) \<in> observed (sw_segment_size v) (sw_server v) objects"
    and "a \<le> p" "p \<le> b"
  shows "\<exists>ob c name. ob \<in> set objects \<and> classify_wal_object ob = Some c
     \<and> cw_server c = sw_server v \<and> cw_class c = WALSegment
     \<and> wal_name tli p (sw_segment_size v) = Inr name \<and> map upper_char (cw_name c) = name"
proof -
  let ?P = "observed (sw_segment_size v) (sw_server v) objects"
  have v: "v = finish_server backups previous generation
      (sw_server v, build (server_wals (sw_server v) objects))"
    using assms(1) by (simp only: finish_mem)
  have known: "sw_state v \<noteq> Unknown" using assms(2) by simp
  have "sw_gaps v = []" by (rule finish_server_healthy [OF v assms(2)])
  then have "missing_between ?P = {}"
    using finish_server_known(4) [OF v known] by (simp add: gaps_cover_def)
  then have "(tli, p) \<in> ?P"
    using assms(3-6) unfolding missing_between_def
    by (cases "p = a"; cases "p = b") (auto simp: order.order_iff_strict)
  then show ?thesis by (rule observed_listed) blast
qed

lemma ex_observed:
  assumes "n \<in> set ns" "n < 256"
  shows "(1, ucast n) \<in> observed 16777216 ''s'' (ex_wals ns)"
proof -
  have "(1, 0, n) \<in> segments_of (map ex_cw ns)"
    unfolding segments_of_def using assms(1) by (intro CollectI exI [of _ "ex_cw n"]) (simp add: ex_cw_def)
  then show ?thesis
    using ex_position [OF assms(2)] by (auto simp: observed_def positions_of_def ex_server_wals)
qed

lemma healthy_archive_complete_witness:
  "\<exists>ob c. ob \<in> set (ex_wals [1, 2, 3]) \<and> classify_wal_object ob = Some c \<and> cw_class c = WALSegment"
proof -
  let ?v = "finish_server ex_backups [] 7 (''s'', build (server_wals ''s'' (ex_wals [1, 2, 3])))"
  have size: "sw_segment_size ?v = 16777216" "sw_server ?v = ''s''"
    by (simp_all add: finish_server_context [OF ex_context])
  have "(1, 1) \<in> observed (sw_segment_size ?v) (sw_server ?v) (ex_wals [1, 2, 3])"
    "(1, 3) \<in> observed (sw_segment_size ?v) (sw_server ?v) (ex_wals [1, 2, 3])"
    using ex_observed [of 1 "[1, 2, 3]"] ex_observed [of 3 "[1, 2, 3]"] by (simp_all add: size)
  from healthy_archive_complete [OF ex_finish ex_full_healthy this, of 2] show ?thesis by auto
qed

text \<open>
  C18. The life cycle of a gap: it is a candidate when it is first seen and confirmed exactly if
  the previous catalog had the same gap on that server; a confirmed gap keeps the generation
  in which it was first observed.
\<close>

theorem gap_lifecycle:
  assumes "v \<in> set (collector_finish (collect objects) backups previous generation)"
    and "g \<in> set (sw_gaps v)"
  defines "old \<equiv> {o' \<in> set (sw_gaps (previous_server previous (sw_server v))).
      wg_timeline o' = wg_timeline g \<and> wg_start o' = wg_start g \<and> wg_end o' = wg_end g}"
  shows "(wg_status g = GapConfirmed \<longleftrightarrow> old \<noteq> {})
     \<and> (wg_status g = GapCandidate \<longleftrightarrow> old = {})
     \<and> (old \<noteq> {} \<longrightarrow> wg_first_generation g \<in> wg_first_generation ` old)
     \<and> (old = {} \<longrightarrow> wg_first_generation g = generation) \<and> wg_last_generation g = generation"
proof -
  let ?prev = "previous_server previous (sw_server v)"
  obtain sz ranges where "g \<in> set (gaps_for_ranges ranges ?prev sz generation)"
    using finish_server_gaps assms(1,2) by (metis finish_mem)
  then obtain l r where g: "gap_between l r (prior_gaps ?prev) sz generation = Some g"
    unfolding gaps_for_ranges_def by (rule gaps_from_mem)
  note s = gap_between_Some(7,8) [OF g]
  show ?thesis
  proof (cases "map_of (prior_gaps ?prev) (identity_of g)")
    case None
    then have "old = {}" by (auto simp: prior_gaps_None old_def gap_identity_inj)
    then show ?thesis using s None by simp
  next
    case (Some o')
    then have "o' \<in> old" using prior_gaps_Some [OF Some] by (simp add: old_def gap_identity_inj)
    then show ?thesis using s Some by auto
  qed
qed

lemma gap_lifecycle_witness: "wg_status ex_gap = GapCandidate \<and> wg_last_generation ex_gap = 7"
proof -
  have "ex_gap \<in> set (sw_gaps (finish_server ex_backups [] 7
      (''s'', build (server_wals ''s'' (ex_wals [1, 3])))))"
    by (simp add: ex_gaps)
  from gap_lifecycle [OF ex_finish this]
  show ?thesis by (simp add: previous_server_def empty_server_wal_def)
qed

text \<open>
  What the collector finishes passes the catalog's own validation, so a scan can publish it:
  for object keys as the provider must report them, valid server names, at most 1,000 servers
  and a generation later than those of the previous catalog's gaps.
\<close>

lemma finish_valid:
  assumes "\<forall>ob\<in>set objects. length (ob_key ob) \<le> MaxKeyBytes \<and> \<not> has_control (ob_key ob)"
    and "\<forall>ob\<in>set objects. \<forall>c. classify_wal_object ob = Some c \<longrightarrow> valid_discovered_name (cw_server c)"
    and "\<forall>b\<in>set backups. bk_server b = [] \<or> valid_discovered_name (bk_server b)"
    and "length (collector_finish (collect objects) backups previous generation) \<le> 1000"
    and "0 < generation"
    and "\<forall>s\<in>set previous. \<forall>g\<in>set (sw_gaps s).
           0 < wg_first_generation g \<and> wg_first_generation g < generation"
  shows "validate_wal_catalog (collector_finish (collect objects) backups previous generation) = None"
proof -
  let ?c = "collector_finish (collect objects) backups previous generation"
  have "check_wal_server None v = None" if "v \<in> set ?c" for v
  proof -
    have eq: "v = finish_server backups previous generation
        (sw_server v, build (server_wals (sw_server v) objects))"
      and src: "server_wals (sw_server v) objects \<noteq> []
        \<or> sw_server v \<noteq> [] \<and> sw_server v \<in> bk_server ` set backups"
      using that by (simp_all only: finish_mem)
    from src have "valid_discovered_name (sw_server v)"
    proof
      assume "server_wals (sw_server v) objects \<noteq> []"
      then obtain c where "c \<in> set (server_wals (sw_server v) objects)"
        by (cases "server_wals (sw_server v) objects") auto
      then obtain ob where "ob \<in> set objects" "classify_wal_object ob = Some c" "cw_server c = sw_server v"
        by (auto simp: server_wals_def classified_def List.map_filter_def)
      then show ?thesis using assms(2) by metis
    next
      assume "sw_server v \<noteq> [] \<and> sw_server v \<in> bk_server ` set backups"
      then show ?thesis using assms(3) by auto
    qed
    from finish_server_valid [OF this assms(1,5,6), of backups] show ?thesis by (simp only: eq [symmetric])
  qed
  then show ?thesis
    using assms(4) finish_sorted [of objects backups previous generation]
    by (simp add: validate_wal_catalog_def check_wal_servers_iff)
qed

lemma printable_no_control:
  "list_all (\<lambda>c. 32 \<le> byte c \<and> byte c < 127) s \<Longrightarrow> \<not> has_control s"
  by (induction s rule: has_control.induct) (auto simp: ascii_control_def)

lemma ex_key_ok: "length (segment_key ''s'' (wal_text 1 0 n) []) \<le> MaxKeyBytes
    \<and> \<not> has_control (segment_key ''s'' (wal_text 1 0 n) [])"
proof -
  have "list_all hex_char (wal_text 1 0 n)" using wal_text_hex by (simp add: is_hex_def)
  then have "list_all (\<lambda>c. 32 \<le> byte c \<and> byte c < 127) (wal_text 1 0 n)"
    by (auto simp: list_all_iff hex_char_def is_digit_def is_upper_hex_def is_lower_hex_def)
  then have "list_all (\<lambda>c. 32 \<le> byte c \<and> byte c < 127) (segment_key ''s'' (wal_text 1 0 n) [])"
    by (auto simp: segment_key_def list_all_iff dest: in_set_takeD)
  then show ?thesis using printable_no_control by (simp add: segment_key_def MaxKeyBytes_def ascii_control_def)
qed

lemma finish_valid_witness:
  "validate_wal_catalog (collector_finish (collect (ex_wals [1, 3])) ex_backups [] 7) = None"
proof (rule finish_valid)
  let ?f = "collector_finish (collect (ex_wals [1, 3])) ex_backups [] 7"
  have name: "valid_discovered_name ''s''"
    by (simp add: valid_discovered_name_def ascii_control_def)
  have "cw_server c = ''s''" if "ob \<in> set (ex_wals [1, 3])" "classify_wal_object ob = Some c" for ob c
    using that by (auto simp: ex_wals_def ex_classify ex_cw_def)
  then show "\<forall>ob\<in>set (ex_wals [1, 3]). \<forall>c. classify_wal_object ob = Some c
      \<longrightarrow> valid_discovered_name (cw_server c)"
    using name by metis
  show "\<forall>ob\<in>set (ex_wals [1, 3]). length (ob_key ob) \<le> MaxKeyBytes \<and> \<not> has_control (ob_key ob)"
    using ex_key_ok by (auto simp: ex_wals_def ex_object_def)
  show "\<forall>b\<in>set ex_backups. bk_server b = [] \<or> valid_discovered_name (bk_server b)"
    using name by (simp add: ex_backups_def)
  have empty: "server_wals s (ex_wals [1, 3]) = []" if "s \<noteq> ''s''" for s
    using that
    by (simp add: server_wals_def classified_def ex_wals_def ex_classify List.map_filter_def ex_cw_def)
  have "sw_server ` set ?f \<subseteq> {''s''}"
  proof (clarify, rule ccontr)
    fix v assume "v \<in> set ?f" and ne: "sw_server v \<noteq> ''s''"
    then have "server_wals (sw_server v) (ex_wals [1, 3]) \<noteq> [] \<or> sw_server v \<in> bk_server ` set ex_backups"
      unfolding finish_mem by blast
    then show False using empty [OF ne] ne by (simp add: ex_backups_def)
  qed
  moreover have "distinct (map sw_server ?f)"
    using finish_sorted [of "ex_wals [1, 3]" ex_backups "[]" 7]
    by (simp add: strict_sorted_iff flip: sorted_wrt_map)
  ultimately have "length (map sw_server ?f) \<le> card {''s''}"
    by (metis card_mono distinct_card finite.emptyI finite.insertI set_map)
  then show "length ?f \<le> 1000" by simp
qed simp_all

text \<open>
  The finished catalog lists each server once, in increasing order, and does not depend on
  the iteration order of the collector's map.
\<close>

theorem finish_order_independent:
  assumes "mset (wc_servers c) = mset (wc_servers c')" and "distinct (map fst (wc_servers c))"
  shows "collector_finish c backups previous generation = collector_finish c' backups previous generation
     \<and> sorted_wrt (\<lambda>a b. sw_server a < sw_server b) (collector_finish c backups previous generation)"
proof -
  let ?es = "\<lambda>c. foldl add_backup_server (wc_servers c) backups"
  have d': "distinct (map fst (wc_servers c'))"
    using assms by (metis mset_eq_imp_distinct_iff mset_map)
  have "set (wc_servers c) = set (wc_servers c')" using assms(1) by (rule mset_eq_setD)
  then have "map_of (wc_servers c) = map_of (wc_servers c')"
    using map_of_inject_set [OF assms(2) d'] by blast
  then have m: "map_of (?es c) = map_of (?es c')"
    by (simp add: fun_eq_iff map_of_add_backup_servers)
  have ms: "mset (?es c) = mset (?es c')"
    by (rule map_of_eq_mset [OF distinct_add_backup_servers [OF assms(2)]
          distinct_add_backup_servers [OF d'] m])
  have inj: "distinct (map sw_server (map (finish_server backups previous generation) (?es c)))"
    unfolding finish_names by (rule distinct_add_backup_servers [OF assms(2)])
  have "collector_finish c backups previous generation = collector_finish c' backups previous generation"
    unfolding collector_finish_def using ms distinct_map_inj [OF inj]
    by (intro sort_key_order_independent) (simp_all add: mset_map)
  moreover have "sorted_wrt (\<lambda>a b. sw_server a < sw_server b)
      (collector_finish c backups previous generation)"
    unfolding collector_finish_def using distinct_map_inj [OF inj] by (intro strict_sorted_sort_key) blast+
  ultimately show ?thesis by blast
qed

lemma finish_order_independent_witness:
  "collector_finish (new_wal_collector\<lparr>wc_servers := [(''a'', empty_builder), (''b'', empty_builder)]\<rparr>) [] [] 1
   = collector_finish (new_wal_collector\<lparr>wc_servers := [(''b'', empty_builder), (''a'', empty_builder)]\<rparr>) [] [] 1"
  by (rule finish_order_independent [THEN conjunct1]) (simp_all add: new_wal_collector_def)

end
