(* ===== verification/Recovery.thy ===== *)
theory Recovery
  imports Wal_Collector
begin

text \<open>
  Recovery coverage (\<open>internal/formats/barmancloud/recovery.go\<close>): LSNs and timeline history
  files, the analysis of the histories of a server, the recovery paths of its usable backups
  along the timelines with their stop states, the retention summary, the roll-up and the
  validation of the published catalog.

  Parameters: the \<open>reader\<close>, and \<open>decompress\<close>, which stands for the decompression packages
  (gzip, bzip2, snappy, lz4, xz, zstd): the bytes of a compressed history, or a failure.
\<close>

section \<open>Data\<close>

definition MaxHistoryObjectBytes :: nat where "MaxHistoryObjectBytes = 262144"
definition MaxHistoryDecompressedBytes :: nat where "MaxHistoryDecompressedBytes = 262144"
definition MaxHistoryEntries :: nat where "MaxHistoryEntries = 128"
definition MaxRecoveryPaths :: nat where "MaxRecoveryPaths = 10000"

datatype coverage_stop =
  CoverageFrontier | CoverageCandidateLimited | CoverageGapLimited | CoverageUnknownLimited
  | OtherStop string

record history_edge =
  he_parent :: u32
  he_child :: u32
  he_switch_lsn :: u64
  he_switch_position :: u64
  he_switch_wal :: string

record timeline_history =
  th_server :: string
  th_key :: string
  th_timeline :: u32
  th_state :: state
  th_reason :: string
  th_edges :: "history_edge list"

record recovery_path =
  rp_server :: string
  rp_backup_id :: string
  rp_target :: u32
  rp_state :: state
  rp_reason :: string
  rp_stop :: coverage_stop
  rp_lower_bound :: gotime
  rp_start_timeline :: u32
  rp_frontier_timeline :: u32
  rp_start_position :: u64
  rp_frontier_position :: u64
  rp_start_wal :: string
  rp_frontier_wal :: string
  rp_frontier_receipt :: gotime
  rp_assumptions :: "string list"

record retention =
  rs_visible :: int
  rs_usable :: int
  rs_oldest :: gotime
  rs_newest :: gotime
  rs_minimum_configured :: bool
  rs_minimum_redundancy :: int
  rs_policy_configured :: bool
  rs_state :: state
  rs_reason :: string

record server_recovery =
  sr_server :: string
  sr_timeline_state :: state
  sr_timeline_reason :: string
  sr_coverage_state :: state
  sr_coverage_reason :: string
  sr_histories :: "timeline_history list"
  sr_paths :: "recovery_path list"
  sr_retention :: retention

type_synonym recovery_catalog = "server_recovery list"

record recovery_options =
  ro_retention_policy :: string
  ro_minimum_redundancy :: "int option"

section \<open>LSNs and history files\<close>

definition parse_lsn :: "string \<Rightarrow> u64 result" where
  "parse_lsn value =
     (case cut_at ''/'' value of
        None \<Rightarrow> Inl ''invalid LSN''
      | Some (high, low) \<Rightarrow>
          if high = [] \<or> low = [] \<or> 8 < length high \<or> 8 < length low \<or> \<not> is_hex high \<or> \<not> is_hex low
          then Inl ''invalid LSN''
          else Inr (push_bit 32 (of_nat (hex_value high)) OR of_nat (hex_value low)))"

definition TAB :: char where "TAB = CHR 0x09"

text \<open>One record of a history file: the parent timeline and the switch LSN.\<close>

definition history_entry :: "string \<Rightarrow> (u32 \<times> u64) result" where
  "history_entry line =
     (let fields = split_n 3 TAB line in
      if length fields \<noteq> 3 \<or> trim_space (fields ! 2) = [] \<or> 1024 < length (fields ! 2)
         \<or> has_control (fields ! 2)
      then Inl ''malformed timeline history record''
      else case parse_uint 32 (trim_space (fields ! 0)) of
        None \<Rightarrow> Inl ''malformed timeline parent''
      | Some parent \<Rightarrow>
          if parent = 0 then Inl ''malformed timeline parent''
          else case parse_lsn (trim_space (fields ! 1)) of
            Inl e \<Rightarrow> Inl ''malformed timeline switchpoint''
          | Inr lsn \<Rightarrow> if lsn = 0 then Inl ''malformed timeline switchpoint''
              else Inr (of_nat parent, lsn))"

fun history_entries :: "(u32 \<times> u64) list \<Rightarrow> string list \<Rightarrow> (u32 \<times> u64) list result" where
  "history_entries entries [] = Inr entries"
| "history_entries entries (raw # rest) =
     (let line = trim_space raw in
      if line = [] \<or> has_prefix line ''#'' then history_entries entries rest
      else case history_entry line of
        Inl e \<Rightarrow> Inl e
      | Inr en \<Rightarrow>
          if MaxHistoryEntries < length entries + 1 then Inl ''timeline history entry limit reached''
          else history_entries (entries @ [en]) rest)"

fun history_edges ::
  "u32 \<Rightarrow> int \<Rightarrow> (u32 \<times> u64) option \<Rightarrow> (u32 \<times> u64) list \<Rightarrow> history_edge list result" where
  "history_edges target sz prior [] = Inr []"
| "history_edges target sz prior ((parent, lsn) # rest) =
     (if target \<le> parent
         \<or> (case prior of None \<Rightarrow> False | Some (p, l) \<Rightarrow> parent \<le> p \<or> lsn \<le> l)
      then Inl ''impossible timeline ancestry''
      else let child = (case rest of [] \<Rightarrow> target | (p, l) # _ \<Rightarrow> p);
               position = lsn div word_of_int sz
        in case wal_name child position sz of
          Inl e \<Rightarrow> Inl ''timeline switchpoint exceeds WAL range''
        | Inr name \<Rightarrow>
            (case history_edges target sz (Some (parent, lsn)) rest of
               Inl e \<Rightarrow> Inl e
             | Inr edges \<Rightarrow>
                 Inr (\<lparr>he_parent = parent, he_child = child, he_switch_lsn = lsn,
                       he_switch_position = position, he_switch_wal = name\<rparr> # edges)))"

definition parse_history :: "string \<Rightarrow> u32 \<Rightarrow> int \<Rightarrow> history_edge list result" where
  "parse_history data target sz =
     (if data = [] \<or> MaxHistoryDecompressedBytes < length data \<or> target \<le> 1
         \<or> \<not> valid_wal_segment_size sz
      then Inl ''invalid bounded timeline history''
      else let (lines, too_long) = scan_lines 4096 data in
        case history_entries [] lines of
          Inl e \<Rightarrow> Inl e
        | Inr entries \<Rightarrow>
            if too_long \<or> entries = [] then Inl ''malformed timeline history''
            else history_edges target sz None entries)"

section \<open>Reading a history\<close>

definition history_reader :: "(string \<Rightarrow> string \<Rightarrow> opened) \<Rightarrow> string \<Rightarrow> string \<Rightarrow> opened" where
  "history_reader decompress source compression =
     (if compression = ''none'' then Content source
      else if compression \<in> {''gzip'', ''bzip2'', ''snappy'', ''lz4'', ''xz'', ''zstd''}
      then decompress compression source
      else OpenFailed)"

text \<open>\<open>None\<close> is an error; its only caller does not look at it.\<close>

definition read_history :: "(string \<Rightarrow> string \<Rightarrow> opened) \<Rightarrow> reader \<Rightarrow> history_object \<Rightarrow> string option" where
  "read_history decompress rd ob =
     (case rd_open rd \<lparr>or_key = ho_key ob, or_max_bytes = int MaxHistoryObjectBytes\<rparr> of
        OpenFailed \<Rightarrow> None
      | ReadFailed \<Rightarrow> None
      | Content compressed \<Rightarrow>
          if MaxHistoryObjectBytes < length (take (MaxHistoryObjectBytes + 1) compressed) then None
          else case history_reader decompress compressed (ho_compression ob) of
            OpenFailed \<Rightarrow> None
          | ReadFailed \<Rightarrow> None
          | Content bytes \<Rightarrow>
              (let data = take (MaxHistoryDecompressedBytes + 1) bytes in
               if MaxHistoryDecompressedBytes < length data then None else Some data))"

section \<open>Histories of one server\<close>

definition observed_timelines :: "server_wal \<Rightarrow> u32 list" where
  "observed_timelines wal = remdups (map wr_timeline (sw_ranges wal))"

definition ranges_for_timeline :: "wal_range list \<Rightarrow> u32 \<Rightarrow> wal_range list" where
  "ranges_for_timeline values timeline = filter (\<lambda>v. wr_timeline v = timeline) values"

definition range_contains :: "wal_range list \<Rightarrow> u32 \<Rightarrow> u64 \<Rightarrow> bool" where
  "range_contains values timeline position \<longleftrightarrow>
     list_ex (\<lambda>v. wr_timeline v = timeline \<and> wr_start v \<le> position \<and> position \<le> wr_end v) values"

text \<open>The map of known edges by child, \<open>None\<close> when the new edges disagree with it.\<close>

definition history_edges_agree ::
  "history_edge list \<Rightarrow> (u32 \<times> history_edge) list \<Rightarrow> (u32 \<times> history_edge) list option" where
  "history_edges_agree edges known =
     (if list_ex (\<lambda>e. case map_of known (he_child e) of None \<Rightarrow> False | Some prior \<Rightarrow> prior \<noteq> e) edges
      then None
      else Some (foldl (\<lambda>k e. assoc_set (he_child e) e k) known edges))"

function follow_cycle :: "(u32 \<times> history_edge) list \<Rightarrow> u32 list \<Rightarrow> u32 \<Rightarrow> bool" where
  "follow_cycle edges seen current =
     (if current = 0 then False
      else if current \<in> set seen then True
      else case map_of edges current of
        None \<Rightarrow> False
      | Some e \<Rightarrow> follow_cycle edges (current # seen) (he_parent e))"
  by pat_completeness auto
termination
proof (relation "measure (\<lambda>(edges, seen, _). card (fst ` set edges - set seen))", simp)
  fix edges :: "(u32 \<times> history_edge) list" and seen current e
  assume a: "current \<notin> set seen" "map_of edges current = Some e"
  then have "current \<in> fst ` set edges - set seen" by (force dest: map_of_SomeD)
  then have "fst ` set edges - set (current # seen) \<subset> fst ` set edges - set seen" by auto
  then show "((edges, current # seen, he_parent e), edges, seen, current)
      \<in> measure (\<lambda>(edges, seen, _). card (fst ` set edges - set seen))"
    by (simp add: psubset_card_mono)
qed

declare follow_cycle.simps [simp del]

definition cycle_in_edges :: "(u32 \<times> history_edge) list \<Rightarrow> bool" where
  "cycle_in_edges edges \<longleftrightarrow> list_ex (\<lambda>(child, e). follow_cycle edges [] child) edges"

definition child_ranges_agree :: "history_edge list \<Rightarrow> wal_range list \<Rightarrow> bool" where
  "child_ranges_agree edges ranges \<longleftrightarrow>
     list_all (\<lambda>e. let child = ranges_for_timeline ranges (he_child e) in
        \<not> (child \<noteq> [] \<and> (wr_start (hd child) < he_switch_position e
             \<or> \<not> range_contains ranges (he_child e) (he_switch_position e)))) edges"

text \<open>
  One timeline: its history and the new map of edges. The source keeps the parsed edges in
  the history also when a later check rejects them.
\<close>

definition timeline_entry ::
  "(string \<Rightarrow> string \<Rightarrow> opened) \<Rightarrow> reader \<Rightarrow> server_wal \<Rightarrow> (u32 \<times> history_edge) list
     \<Rightarrow> u32 \<times> history_object list \<Rightarrow> timeline_history \<times> (u32 \<times> history_edge) list" where
  "timeline_entry decompress rd wal known entry =
     (let listed = snd entry;
          h = \<lparr>th_server = sw_server wal, th_key = [], th_timeline = fst entry, th_state = Unknown,
               th_reason = [], th_edges = []\<rparr> in
      if length listed \<noteq> 1 then (h\<lparr>th_reason := ''duplicate timeline history objects''\<rparr>, known)
      else let h = h\<lparr>th_key := ho_key (hd listed)\<rparr> in
        case read_history decompress rd (hd listed) of
          None \<Rightarrow> (h\<lparr>th_reason := ''timeline history could not be read''\<rparr>, known)
        | Some data \<Rightarrow>
            (case parse_history data (fst entry) (sw_segment_size wal) of
               Inl e \<Rightarrow> (h\<lparr>th_reason := ''timeline history is malformed''\<rparr>, known)
             | Inr edges \<Rightarrow>
                 let h = h\<lparr>th_edges := edges\<rparr> in
                 (case history_edges_agree edges known of
                    None \<Rightarrow> (h\<lparr>th_reason := ''timeline histories contradict one another''\<rparr>, known)
                  | Some known' \<Rightarrow>
                      (if cycle_in_edges known'
                       then (h\<lparr>th_reason := ''timeline ancestry is cyclic''\<rparr>, known')
                       else if \<not> child_ranges_agree edges (sw_ranges wal)
                       then (h\<lparr>th_reason := ''child WAL range disagrees with timeline switchpoint''\<rparr>, known')
                       else (h\<lparr>th_state := Healthy, th_reason := ''timeline ancestry parsed''\<rparr>, known')))))"

fun timeline_entries ::
  "(string \<Rightarrow> string \<Rightarrow> opened) \<Rightarrow> reader \<Rightarrow> server_wal \<Rightarrow> (u32 \<times> history_edge) list
     \<Rightarrow> (u32 \<times> history_object list) list \<Rightarrow> timeline_history list" where
  "timeline_entries decompress rd wal known [] = []"
| "timeline_entries decompress rd wal known (entry # rest) =
     (let (h, known') = timeline_entry decompress rd wal known entry
      in h # timeline_entries decompress rd wal known' rest)"

definition group_histories :: "history_object list \<Rightarrow> (u32 \<times> history_object list) list" where
  "group_histories objects = foldl (\<lambda>g ob. group_add (ho_timeline ob) ob g) [] objects"

definition missing_history :: "server_wal \<Rightarrow> u32 \<Rightarrow> timeline_history" where
  "missing_history wal timeline =
     \<lparr>th_server = sw_server wal, th_key = [], th_timeline = timeline, th_state = Unknown,
      th_reason = ''required timeline history is missing'', th_edges = []\<rparr>"

definition analyze_histories ::
  "(string \<Rightarrow> string \<Rightarrow> opened) \<Rightarrow> reader \<Rightarrow> server_wal \<Rightarrow> history_object list \<Rightarrow> bool
     \<Rightarrow> timeline_history list \<times> state \<times> string" where
  "analyze_histories decompress rd wal objects truncated =
     (if truncated then ([], Unknown, ''timeline history file limit reached'')
      else let by_timeline = group_histories objects;
               observed = remdups (observed_timelines wal @ map ho_timeline objects);
               listed = timeline_entries decompress rd wal [] (sort_key fst by_timeline);
               known_children = concat (map (map he_child \<circ> th_edges)
                 (filter (\<lambda>h. th_state h = Healthy) listed));
               missing = map (missing_history wal)
                 (filter (\<lambda>t. 1 < t \<and> map_of by_timeline t = None \<and> t \<notin> set known_children) observed);
               result = listed @ missing;
               (state, reason) =
                 (if list_ex (\<lambda>h. th_state h \<noteq> Healthy) result
                  then (Unknown, ''timeline ancestry contains missing or invalid evidence'')
                  else (Healthy, ''all required timeline histories parsed''));
               (state, reason) =
                 (if observed = [] then (Unknown, ''no WAL timelines observed'')
                  else if result = [] then (state, ''timeline 1 requires no history file'')
                  else (state, reason))
        in (sort_key th_timeline result, state, reason))"


section \<open>Paths\<close>

definition recovery_assumptions :: "backup \<Rightarrow> string list" where
  "recovery_assumptions b =
     [''segment-name presence only'', ''timeline history metadata only'',
      ''WAL bytes and restore execution not verified''] @
     (if bk_system_id b = [] then [''backup system identifier unavailable'']
      else [''backup system identifier retained; WAL objects do not carry it''])"

definition unknown_path :: "backup \<Rightarrow> string \<Rightarrow> recovery_path" where
  "unknown_path b reason =
     \<lparr>rp_server = bk_server b, rp_backup_id = bk_id b, rp_target = 0, rp_state = Unknown,
      rp_reason = reason, rp_stop = CoverageUnknownLimited, rp_lower_bound = time_utc (bk_end_at b),
      rp_start_timeline = 0, rp_frontier_timeline = 0, rp_start_position = 0,
      rp_frontier_position = 0, rp_start_wal = [], rp_frontier_wal = [],
      rp_frontier_receipt = zero_time, rp_assumptions = recovery_assumptions b\<rparr>"

definition gap_after :: "wal_gap list \<Rightarrow> u32 \<Rightarrow> u64 \<Rightarrow> wal_gap option" where
  "gap_after values timeline position =
     find (\<lambda>g. wg_timeline g = timeline \<and> wg_start g = position + 1) values"

text \<open>
  The answer of \<open>reachPosition\<close> and \<open>contiguousFrontier\<close>: how far the archive reaches, the
  receipt there, the state, the stop and the reason. A missing gap is the zero \<open>WALGap\<close> of the
  source, whose status is neither candidate nor confirmed.
\<close>

type_synonym reach = "u64 \<times> gotime \<times> state \<times> coverage_stop \<times> string"

definition stop_at_gap :: "server_wal \<Rightarrow> u32 \<Rightarrow> wal_range \<Rightarrow> reach" where
  "stop_at_gap wal timeline v =
     (let status = map_option wg_status (gap_after (sw_gaps wal) timeline (wr_end v)) in
      if status = Some GapConfirmed
      then (wr_end v, wr_end_receipt v, Unhealthy, CoverageGapLimited,
            ''confirmed required WAL gap stops coverage'')
      else if status = Some GapCandidate
      then (wr_end v, wr_end_receipt v, Warning, CoverageCandidateLimited,
            ''candidate required WAL gap stops coverage'')
      else (wr_end v, wr_end_receipt v, Unknown, CoverageUnknownLimited,
            ''unclassified WAL discontinuity stops coverage''))"

definition not_observed :: "u64 \<Rightarrow> reach" where
  "not_observed start = (start, zero_time, Unknown, CoverageUnknownLimited,
     ''required starting WAL segment was not observed'')"

fun reach_from :: "server_wal \<Rightarrow> u32 \<Rightarrow> u64 \<Rightarrow> u64 \<Rightarrow> wal_range list \<Rightarrow> reach" where
  "reach_from wal timeline start required [] = not_observed start"
| "reach_from wal timeline start required (v # rest) =
     (if start < wr_start v then not_observed start
      else if wr_end v < start then reach_from wal timeline start required rest
      else if required \<le> wr_end v
      then (required, if wr_end v = required then wr_end_receipt v else zero_time,
            Healthy, CoverageFrontier, [])
      else if rest \<noteq> [] then stop_at_gap wal timeline v
      else (wr_end v, wr_end_receipt v, Unknown, CoverageUnknownLimited,
            ''required backup consistency WAL was not observed''))"

definition reach_position :: "server_wal \<Rightarrow> u32 \<Rightarrow> u64 \<Rightarrow> u64 \<Rightarrow> reach" where
  "reach_position wal timeline start required =
     reach_from wal timeline start required (ranges_for_timeline (sw_ranges wal) timeline)"

fun frontier_from :: "server_wal \<Rightarrow> u32 \<Rightarrow> u64 \<Rightarrow> wal_range list \<Rightarrow> reach" where
  "frontier_from wal timeline start [] = not_observed start"
| "frontier_from wal timeline start (v # rest) =
     (if start < wr_start v then not_observed start
      else if wr_end v < start then frontier_from wal timeline start rest
      else if rest \<noteq> [] then stop_at_gap wal timeline v
      else (wr_end v, wr_end_receipt v, Healthy, CoverageFrontier,
            ''observed contiguous segment-name coverage reaches the current archive frontier''))"

definition contiguous_frontier :: "server_wal \<Rightarrow> u32 \<Rightarrow> u64 \<Rightarrow> reach" where
  "contiguous_frontier wal timeline start =
     frontier_from wal timeline start (ranges_for_timeline (sw_ranges wal) timeline)"

definition backup_range :: "backup \<Rightarrow> (u32 \<times> u64 \<times> u64) result" where
  "backup_range b =
     (case parse_wal_name (bk_begin_wal b) (bk_segment_size b) of
        Inl e \<Rightarrow> Inl e
      | Inr (begin_timeline, begin) \<Rightarrow>
          (case parse_wal_name (bk_end_wal b) (bk_segment_size b) of
             Inl e \<Rightarrow> Inl ''invalid backup WAL range''
           | Inr (end_timeline, end') \<Rightarrow>
               if begin_timeline \<noteq> end_timeline \<or> end' < begin
                  \<or> (bk_timeline b \<noteq> 0 \<and> bk_timeline b \<noteq> begin_timeline)
               then Inl ''invalid backup WAL range''
               else Inr (begin_timeline, begin, end')))"

definition branch_before_backup :: "history_edge \<Rightarrow> backup \<Rightarrow> u64 \<Rightarrow> bool" where
  "branch_before_backup e b end' \<longleftrightarrow>
     (if bk_end_lsn b \<noteq> [] then
        (case parse_lsn (bk_end_lsn b) of Inl err \<Rightarrow> True | Inr end_lsn \<Rightarrow> he_switch_lsn e \<le> end_lsn)
      else he_switch_position e \<le> end')"

text \<open>The edges from the first one whose parent is \<open>start\<close> on; no edge is the false of the source.\<close>

definition descendant_edges :: "history_edge list \<Rightarrow> u32 \<Rightarrow> history_edge list" where
  "descendant_edges edges start = dropWhile (\<lambda>e. he_parent e \<noteq> start) edges"

definition set_reach :: "server_wal \<Rightarrow> u32 \<Rightarrow> reach \<Rightarrow> recovery_path \<Rightarrow> recovery_path" where
  "set_reach wal current r p =
     (case r of (frontier, receipt, _) \<Rightarrow>
        p\<lparr>rp_frontier_timeline := current, rp_frontier_position := frontier,
          rp_frontier_receipt := receipt,
          rp_frontier_wal := wal_name_or_empty current frontier (sw_segment_size wal)\<rparr>)"

definition set_verdict :: "reach \<Rightarrow> recovery_path \<Rightarrow> recovery_path" where
  "set_verdict r p =
     (case r of (_, _, state, stop, reason) \<Rightarrow>
        p\<lparr>rp_state := state, rp_stop := stop, rp_reason := reason\<rparr>)"

definition reach_state :: "reach \<Rightarrow> state" where
  "reach_state r = fst (snd (snd r))"

text \<open>The loop over the edges of \<open>evaluatePath\<close> and its last step.\<close>

fun walk_edges ::
  "server_wal \<Rightarrow> recovery_path \<Rightarrow> u32 \<Rightarrow> u64 \<Rightarrow> history_edge list \<Rightarrow> recovery_path" where
  "walk_edges wal p current position [] =
     (let r = contiguous_frontier wal current position in set_verdict r (set_reach wal current r p))"
| "walk_edges wal p current position (e # es) =
     (let r = reach_position wal current position (he_switch_position e);
          p = set_reach wal current r p in
      if reach_state r \<noteq> Healthy then set_verdict r p
      else if fst r < he_switch_position e
         \<or> \<not> range_contains (sw_ranges wal) (he_child e) (he_switch_position e)
      then p\<lparr>rp_state := Unknown, rp_stop := CoverageUnknownLimited,
             rp_reason := ''timeline switch segment is not observed on both timelines''\<rparr>
      else walk_edges wal p (he_child e) (he_switch_position e) es)"

definition evaluate_path ::
  "backup \<Rightarrow> server_wal \<Rightarrow> u32 \<Rightarrow> u64 \<Rightarrow> u64 \<Rightarrow> u32 \<Rightarrow> history_edge list \<Rightarrow> recovery_path" where
  "evaluate_path b wal timeline start required_end target edges =
     (let p = \<lparr>rp_server = bk_server b, rp_backup_id = bk_id b, rp_target = target,
            rp_state = OtherState [], rp_reason = [], rp_stop = OtherStop [],
            rp_lower_bound = time_utc (bk_end_at b), rp_start_timeline = timeline,
            rp_frontier_timeline = 0, rp_start_position = start, rp_frontier_position = 0,
            rp_start_wal = bk_begin_wal b, rp_frontier_wal = [], rp_frontier_receipt = zero_time,
            rp_assumptions = recovery_assumptions b\<rparr> in
      if sw_state wal = Unknown
      then p\<lparr>rp_state := Unknown, rp_stop := CoverageUnknownLimited,
             rp_reason := ''WAL continuity contains unknown evidence''\<rparr>
      else let r = reach_position wal timeline start required_end;
               p = set_reach wal timeline r p
        in if reach_state r \<noteq> Healthy then set_verdict r p
           else walk_edges wal p timeline required_end edges)"

definition conflicting_system_ids :: "backup list \<Rightarrow> bool" where
  "conflicting_system_ids backups =
     (let ids = map bk_system_id (filter (\<lambda>b. bk_state b = Healthy \<and> bk_system_id b \<noteq> []) backups)
      in list_ex (\<lambda>i. i \<noteq> hd ids) ids)"

definition sort_recovery_paths :: "recovery_path list \<Rightarrow> recovery_path list" where
  "sort_recovery_paths = sort_key (\<lambda>p. (rp_backup_id p, rp_target p))"

text \<open>
  The loops of \<open>recoveryPaths\<close>. The state of a loop is the result so far, whether the function
  has returned early, and the targets already seen or not applicable.
\<close>

definition limit_paths :: "backup \<Rightarrow> recovery_path list \<Rightarrow> recovery_path list \<times> bool" where
  "limit_paths b result =
     (if MaxRecoveryPaths \<le> length result
      then (butlast result @ [unknown_path b ''recovery path safety limit reached''], True)
      else (result, False))"

fun edge_paths ::
  "backup \<Rightarrow> server_wal \<Rightarrow> u32 \<Rightarrow> u64 \<Rightarrow> u64 \<Rightarrow> history_edge list \<Rightarrow> history_edge list
     \<Rightarrow> recovery_path list \<Rightarrow> u32 list \<Rightarrow> recovery_path list \<times> u32 list \<times> bool" where
  "edge_paths b wal timeline start end' walked [] result seen = (result, seen, False)"
| "edge_paths b wal timeline start end' walked (e # es) result seen =
     (if he_child e \<in> set seen
      then edge_paths b wal timeline start end' (walked @ [e]) es result seen
      else let (result, stop) = limit_paths b
             (result @ [evaluate_path b wal timeline start end' (he_child e) (walked @ [e])])
        in if stop then (result, he_child e # seen, True)
           else edge_paths b wal timeline start end' (walked @ [e]) es result (he_child e # seen))"

fun history_paths ::
  "backup \<Rightarrow> server_wal \<Rightarrow> u32 \<Rightarrow> u64 \<Rightarrow> u64 \<Rightarrow> timeline_history list
     \<Rightarrow> recovery_path list \<Rightarrow> u32 list \<Rightarrow> u32 list
     \<Rightarrow> recovery_path list \<times> u32 list \<times> u32 list \<times> bool" where
  "history_paths b wal timeline start end' [] result seen excluded = (result, seen, excluded, False)"
| "history_paths b wal timeline start end' (h # hs) result seen excluded =
     (let edges = descendant_edges (th_edges h) timeline in
      if th_state h \<noteq> Healthy \<or> th_timeline h = timeline \<or> edges = []
      then history_paths b wal timeline start end' hs result seen excluded
      else if branch_before_backup (hd edges) b end'
      then history_paths b wal timeline start end' hs result seen (map he_child edges @ excluded)
      else case edge_paths b wal timeline start end' [] edges result seen of
        (result, seen, True) \<Rightarrow> (result, seen, excluded, True)
      | (result, seen, False) \<Rightarrow> history_paths b wal timeline start end' hs result seen excluded)"

fun target_paths :: "backup \<Rightarrow> u32 list \<Rightarrow> recovery_path list \<Rightarrow> recovery_path list \<times> bool" where
  "target_paths b [] result = (result, False)"
| "target_paths b (t # ts) result =
     (let (result, stop) = limit_paths b (result @
            [(unknown_path b ''observed target timeline is not connected by valid history evidence'')
               \<lparr>rp_target := t\<rparr>])
      in if stop then (result, True) else target_paths b ts result)"

definition backup_paths ::
  "backup \<Rightarrow> server_wal \<Rightarrow> timeline_history list \<Rightarrow> recovery_path list \<Rightarrow> recovery_path list \<times> bool" where
  "backup_paths b wal histories result =
     (if bk_state b \<noteq> Healthy then (result, False)
      else case backup_range b of
        Inl e \<Rightarrow> (result @ [unknown_path b ''backup WAL anchors or arithmetic context are invalid''], False)
      | Inr (timeline, start, end') \<Rightarrow>
          if sw_segment_size wal \<noteq> bk_segment_size b
          then (result @ [unknown_path b ''backup WAL anchors or arithmetic context are invalid''], False)
          else let result = result @ [evaluate_path b wal timeline start end' timeline []] in
            case history_paths b wal timeline start end' histories result [timeline] [] of
              (result, seen, excluded, True) \<Rightarrow> (result, True)
            | (result, seen, excluded, False) \<Rightarrow>
                target_paths b
                  (sort (filter (\<lambda>t. timeline < t \<and> t \<notin> set seen \<and> t \<notin> set excluded)
                    (observed_timelines wal))) result)"

fun all_backup_paths ::
  "server_wal \<Rightarrow> timeline_history list \<Rightarrow> backup list \<Rightarrow> recovery_path list \<Rightarrow> recovery_path list" where
  "all_backup_paths wal histories [] result = result"
| "all_backup_paths wal histories (b # bs) result =
     (let (result, stop) = backup_paths b wal histories result
      in if stop then result else all_backup_paths wal histories bs result)"

definition recovery_paths ::
  "backup list \<Rightarrow> server_wal \<Rightarrow> timeline_history list \<Rightarrow> recovery_path list" where
  "recovery_paths backups wal histories =
     sort_recovery_paths
       (if conflicting_system_ids backups
        then map (\<lambda>b. (unknown_path b ''backup metadata has conflicting PostgreSQL system identifiers'')
                        \<lparr>rp_target := bk_timeline b\<rparr>)
               (filter (\<lambda>b. bk_state b = Healthy) backups)
        else all_backup_paths wal histories backups [])"

section \<open>Retention and the roll-up\<close>

definition count_backup :: "retention \<Rightarrow> backup \<Rightarrow> retention" where
  "count_backup v b =
     (let v = (if bk_state b = Healthy then v\<lparr>rs_usable := rs_usable v + 1\<rparr> else v);
          v = (if \<not> time_is_zero (bk_end_at b)
                 \<and> (time_is_zero (rs_oldest v) \<or> time_before (bk_end_at b) (rs_oldest v))
               then v\<lparr>rs_oldest := time_utc (bk_end_at b)\<rparr> else v)
      in if time_after (bk_end_at b) (rs_newest v)
         then v\<lparr>rs_newest := time_utc (bk_end_at b)\<rparr> else v)"

definition retention_summary :: "backup list \<Rightarrow> recovery_options \<Rightarrow> retention" where
  "retention_summary backups options =
     (let v = foldl count_backup
            \<lparr>rs_visible = int (length backups), rs_usable = 0, rs_oldest = zero_time,
             rs_newest = zero_time, rs_minimum_configured = False, rs_minimum_redundancy = 0,
             rs_policy_configured = ro_retention_policy options \<noteq> [], rs_state = Healthy,
             rs_reason = ''descriptive backup inventory; no retention expectation configured''\<rparr>
            backups;
          v = (case ro_minimum_redundancy options of
                 None \<Rightarrow> v
               | Some n \<Rightarrow>
                   let v = v\<lparr>rs_minimum_configured := True, rs_minimum_redundancy := n\<rparr> in
                   if rs_usable v < n
                   then v\<lparr>rs_state := Unhealthy,
                          rs_reason := ''structurally usable backup count is below configured minimum''\<rparr>
                   else v\<lparr>rs_reason := ''structurally usable backup count meets configured minimum''\<rparr>)
      in if rs_policy_configured v
         then v\<lparr>rs_state := Unknown,
                rs_reason := ''retention policy syntax is not interpreted in this slice''\<rparr>
         else v)"

definition conservative_recovery_state :: "state \<Rightarrow> state \<Rightarrow> state" where
  "conservative_recovery_state l r =
     (if l = Unknown \<or> r = Unknown then Unknown
      else if l = Unhealthy \<or> r = Unhealthy then Unhealthy
      else if l = Warning \<or> r = Warning then Warning
      else Healthy)"

definition coverage_rollup :: "recovery_path list \<Rightarrow> state \<times> string" where
  "coverage_rollup paths =
     (if paths = [] then (Unknown, ''no structurally usable backup recovery anchors'')
      else let state = foldl conservative_recovery_state Healthy (map rp_state paths) in
        case state of
          Unknown \<Rightarrow> (state, ''one or more recovery paths contain unknown evidence'')
        | Unhealthy \<Rightarrow> (state, ''one or more recovery paths cross a confirmed required gap'')
        | Warning \<Rightarrow> (state, ''one or more recovery paths stop at a candidate required gap'')
        | _ \<Rightarrow> (state, ''all evaluated recovery paths reach an observed archive frontier''))"

section \<open>AnalyzeRecovery\<close>

definition histories_for_server :: "history_object list \<Rightarrow> string \<Rightarrow> history_object list" where
  "histories_for_server values server = filter (\<lambda>v. ho_server v = server) values"

definition backups_for_server :: "backup list \<Rightarrow> string \<Rightarrow> backup list" where
  "backups_for_server values server = filter (\<lambda>v. bk_server v = server) values"

definition recovery_server_names ::
  "backup list \<Rightarrow> wal_catalog \<Rightarrow> history_object list \<Rightarrow> string list" where
  "recovery_server_names backups wal objects =
     remdups (map sw_server wal @ map bk_server backups @ map ho_server objects)"

definition wal_for_server :: "wal_catalog \<Rightarrow> string \<Rightarrow> server_wal" where
  "wal_for_server wal server =
     (let w = previous_server wal server
      in if sw_server w = [] then w\<lparr>sw_server := server\<rparr> else w)"

definition analyze_server ::
  "(string \<Rightarrow> string \<Rightarrow> opened) \<Rightarrow> reader \<Rightarrow> backup list \<Rightarrow> wal_catalog \<Rightarrow> history_object list \<Rightarrow> bool
     \<Rightarrow> recovery_options \<Rightarrow> string \<Rightarrow> server_recovery" where
  "analyze_server decompress rd backups wal objects truncated options server =
     (let w = wal_for_server wal server;
          bs = backups_for_server backups server;
          h = analyze_histories decompress rd w (histories_for_server objects server) truncated;
          paths = recovery_paths bs w (fst h);
          rollup = coverage_rollup paths
      in \<lparr>sr_server = server, sr_timeline_state = fst (snd h),
          sr_timeline_reason = snd (snd h), sr_coverage_state = fst rollup,
          sr_coverage_reason = snd rollup, sr_histories = fst h, sr_paths = paths,
          sr_retention = retention_summary bs options\<rparr>)"

definition analyze_recovery ::
  "(string \<Rightarrow> string \<Rightarrow> opened) \<Rightarrow> reader \<Rightarrow> backup list \<Rightarrow> wal_catalog \<Rightarrow> history_object list \<Rightarrow> bool
     \<Rightarrow> recovery_options \<Rightarrow> recovery_catalog" where
  "analyze_recovery decompress rd backups wal objects truncated options =
     sort_key sr_server
       (map (analyze_server decompress rd backups wal objects truncated options)
         (recovery_server_names backups wal objects))"


section \<open>Validation\<close>

definition optional_wal_name :: "string \<Rightarrow> bool" where
  "optional_wal_name value \<longleftrightarrow> value = [] \<or> (length value = 24 \<and> is_hex value)"

definition history_edge_ok :: "history_edge \<Rightarrow> bool" where
  "history_edge_ok e \<longleftrightarrow> he_parent e \<noteq> 0 \<and> he_parent e < he_child e \<and> he_switch_lsn e \<noteq> 0
     \<and> length (he_switch_wal e) = 24 \<and> is_hex (he_switch_wal e)"

fun check_histories :: "string \<Rightarrow> timeline_history option \<Rightarrow> timeline_history list \<Rightarrow> string option" where
  "check_histories server prior [] = None"
| "check_histories server prior (h # rest) =
     (if th_server h \<noteq> server \<or> th_timeline h < 2 \<or> \<not> valid_state (th_state h)
         \<or> \<not> bounded_wal_text (th_reason h) 256 \<or> MaxHistoryEntries < length (th_edges h)
      then Some ''invalid Barman timeline history''
      else if (\<exists>p\<in>set_option prior. th_timeline h \<le> th_timeline p)
      then Some ''Barman timeline histories are not uniquely sorted''
      else if th_key h \<noteq> [] \<and> (MaxKeyBytes < length (th_key h) \<or> has_control (th_key h))
      then Some ''invalid Barman timeline history key''
      else if \<not> list_all history_edge_ok (th_edges h)
      then Some ''invalid Barman timeline history edge''
      else check_histories server (Some h) rest)"

definition recovery_path_ok :: "string \<Rightarrow> recovery_path \<Rightarrow> bool" where
  "recovery_path_ok server p \<longleftrightarrow> rp_server p = server \<and> rp_backup_id p \<noteq> []
     \<and> length (rp_backup_id p) \<le> 256 \<and> \<not> has_control (rp_backup_id p)
     \<and> valid_state (rp_state p) \<and> bounded_wal_text (rp_reason p) 256
     \<and> rp_stop p \<in> {CoverageFrontier, CoverageCandidateLimited, CoverageGapLimited,
                      CoverageUnknownLimited}
     \<and> utc_or_zero (rp_lower_bound p) \<and> utc_or_zero (rp_frontier_receipt p)
     \<and> length (rp_assumptions p) \<le> 8
     \<and> optional_wal_name (rp_start_wal p) \<and> optional_wal_name (rp_frontier_wal p)"

fun check_paths :: "string \<Rightarrow> recovery_path option \<Rightarrow> recovery_path list \<Rightarrow> string option" where
  "check_paths server prior [] = None"
| "check_paths server prior (p # rest) =
     (if \<not> recovery_path_ok server p then Some ''invalid Barman recovery path''
      else if (\<exists>q\<in>set_option prior. rp_backup_id p < rp_backup_id q
           \<or> rp_backup_id q = rp_backup_id p \<and> rp_target p \<le> rp_target q)
      then Some ''Barman recovery paths are not uniquely sorted''
      else if \<not> list_all (\<lambda>a. bounded_wal_text a 256) (rp_assumptions p)
      then Some ''invalid Barman recovery assumption''
      else check_paths server (Some p) rest)"

definition retention_ok :: "retention \<Rightarrow> bool" where
  "retention_ok r \<longleftrightarrow> 0 \<le> rs_visible r \<and> 0 \<le> rs_usable r \<and> rs_usable r \<le> rs_visible r
     \<and> 0 \<le> rs_minimum_redundancy r
     \<and> (rs_minimum_configured r \<or> rs_minimum_redundancy r = 0)
     \<and> valid_state (rs_state r) \<and> bounded_wal_text (rs_reason r) 256
     \<and> utc_or_zero (rs_oldest r) \<and> utc_or_zero (rs_newest r)
     \<and> \<not> (\<not> time_is_zero (rs_oldest r) \<and> \<not> time_is_zero (rs_newest r)
          \<and> time_before (rs_newest r) (rs_oldest r))"

definition check_recovery_server :: "server_recovery option \<Rightarrow> server_recovery \<Rightarrow> string option" where
  "check_recovery_server prior s =
     (if \<not> valid_discovered_name (sr_server s) \<or> (\<exists>p\<in>set_option prior. sr_server s \<le> sr_server p)
         \<or> \<not> valid_state (sr_timeline_state s) \<or> \<not> valid_state (sr_coverage_state s)
         \<or> \<not> bounded_wal_text (sr_timeline_reason s) 256 \<or> \<not> bounded_wal_text (sr_coverage_reason s) 256
         \<or> MaxRecoveryPaths < length (sr_paths s) \<or> MaxHistoryFiles < length (sr_histories s)
      then Some ''invalid Barman recovery server''
      else case check_histories (sr_server s) None (sr_histories s) of
        Some e \<Rightarrow> Some e
      | None \<Rightarrow>
          (case check_paths (sr_server s) None (sr_paths s) of
             Some e \<Rightarrow> Some e
           | None \<Rightarrow> if \<not> retention_ok (sr_retention s) then Some ''invalid Barman retention summary''
               else None))"

fun check_recovery_servers :: "server_recovery option \<Rightarrow> server_recovery list \<Rightarrow> string option" where
  "check_recovery_servers prior [] = None"
| "check_recovery_servers prior (s # rest) =
     (case check_recovery_server prior s of Some e \<Rightarrow> Some e
      | None \<Rightarrow> check_recovery_servers (Some s) rest)"

definition validate_recovery_catalog :: "recovery_catalog \<Rightarrow> string option" where
  "validate_recovery_catalog c =
     (if 1000 < length c then Some ''Barman recovery catalog exceeds server limit''
      else check_recovery_servers None c)"

section \<open>History files\<close>

text \<open>A parsed history is a chain of ancestors that ends in its own timeline.\<close>

fun edge_chain :: "u32 \<Rightarrow> history_edge list \<Rightarrow> bool" where
  "edge_chain target [] \<longleftrightarrow> True"
| "edge_chain target [e] \<longleftrightarrow> he_child e = target"
| "edge_chain target (e # f # es) \<longleftrightarrow> he_child e = he_parent f \<and> he_switch_lsn e < he_switch_lsn f
     \<and> edge_chain target (f # es)"

definition edge_exact :: "int \<Rightarrow> history_edge \<Rightarrow> bool" where
  "edge_exact sz e \<longleftrightarrow> he_parent e < he_child e \<and> he_switch_lsn e \<noteq> 0 \<and> he_parent e \<noteq> 0
     \<and> he_switch_position e = he_switch_lsn e div word_of_int sz
     \<and> wal_name (he_child e) (he_switch_position e) sz = Inr (he_switch_wal e)"

lemma history_entry_ok: "history_entry line = Inr (p, l) \<Longrightarrow> p \<noteq> 0 \<and> l \<noteq> 0"
proof -
  assume h: "history_entry line = Inr (p, l)"
  then obtain n where n: "parse_uint 32 (trim_space (split_n 3 TAB line ! 0)) = Some n" "n \<noteq> 0"
    and p: "p = of_nat n" and l: "l \<noteq> 0"
    by (auto simp: history_entry_def Let_def split: if_splits option.splits sum.splits)
  have "n < 2 ^ 32" using n(1) by (auto simp: parse_uint_def Let_def split: if_splits)
  then have "unat p = n" by (simp add: p unsigned_of_nat take_bit_nat_eq_self)
  then show ?thesis using n(2) l by auto
qed

lemma history_entries_ok:
  assumes "history_entries acc lines = Inr entries"
    and "\<forall>(p, l)\<in>set acc. p \<noteq> 0 \<and> l \<noteq> 0" and "length acc \<le> MaxHistoryEntries"
  shows "(\<forall>(p, l)\<in>set entries. p \<noteq> 0 \<and> l \<noteq> 0) \<and> length entries \<le> MaxHistoryEntries"
  using assms
proof (induction acc lines rule: history_entries.induct)
  case (2 acc raw rest)
  let ?line = "trim_space raw"
  show ?case
  proof (cases "?line = [] \<or> has_prefix ?line ''#''")
    case True
    then show ?thesis using 2 by (simp add: Let_def)
  next
    case False
    then obtain p l where e: "history_entry ?line = Inr (p, l)" and len: "length acc + 1 \<le> MaxHistoryEntries"
      and r: "history_entries (acc @ [(p, l)]) rest = Inr entries"
      using 2(3) by (auto simp: Let_def not_less split: sum.splits if_splits)
    have "\<forall>(p, l)\<in>set (acc @ [(p, l)]). p \<noteq> 0 \<and> l \<noteq> 0"
      using 2(4) history_entry_ok [OF e] by auto
    moreover have "\<not> MaxHistoryEntries < length acc + 1" "length (acc @ [(p, l)]) \<le> MaxHistoryEntries"
      using len by simp_all
    ultimately show ?thesis using 2(2) [OF refl False e _ r] by blast
  qed
qed simp

lemma history_edges_ok:
  assumes "history_edges target sz prior entries = Inr edges"
    and "\<forall>(p, l)\<in>set entries. p \<noteq> 0 \<and> l \<noteq> 0"
  shows "list_all (edge_exact sz) edges \<and> edge_chain target edges \<and> length edges = length entries
    \<and> (entries \<noteq> [] \<longrightarrow> he_parent (hd edges) = fst (hd entries) \<and> he_switch_lsn (hd edges) = snd (hd entries))"
  using assms
proof (induction target sz prior entries arbitrary: edges rule: history_edges.induct)
  case (2 target sz prior parent lsn rest)
  define child where "child = (case rest of [] \<Rightarrow> target | (p, l) # _ \<Rightarrow> p)"
  define pos where "pos = lsn div word_of_int sz"
  have ok: "\<not> target \<le> parent" using 2(2) by (auto split: if_splits)
  from 2(2) obtain name es where n: "wal_name child pos sz = Inr name"
    and es: "history_edges target sz (Some (parent, lsn)) rest = Inr es"
    and edges: "edges = \<lparr>he_parent = parent, he_child = child, he_switch_lsn = lsn,
        he_switch_position = pos, he_switch_wal = name\<rparr> # es"
    unfolding child_def pos_def
    by (auto simp: Let_def split: if_splits sum.splits)
  have cond: "\<not> (target \<le> parent \<or> (case prior of None \<Rightarrow> False | Some (p, l) \<Rightarrow> parent \<le> p \<or> lsn \<le> l))"
    using 2(2) by (auto split: if_splits)
  have IH: "list_all (edge_exact sz) es \<and> edge_chain target es \<and> length es = length rest
    \<and> (rest \<noteq> [] \<longrightarrow> he_parent (hd es) = fst (hd rest) \<and> he_switch_lsn (hd es) = snd (hd rest))"
    using 2(1) [OF cond child_def pos_def n es] 2(3) by simp
  show ?case
  proof (cases rest)
    case Nil
    then show ?thesis using 2(3) IH n ok by (simp add: edges edge_exact_def child_def pos_def)
  next
    case (Cons q rest')
    obtain p l where q: "q = (p, l)" by (cases q)
    have "parent < p \<and> lsn < l"
      using es unfolding Cons q by (auto simp: not_le split: if_splits)
    moreover obtain f fs where "es = f # fs" using IH Cons by (cases es) auto
    moreover have "edge_exact sz (hd edges)"
      using 2(3) n calculation(1) Cons q by (simp add: edges edge_exact_def child_def pos_def)
    ultimately show ?thesis
      using 2(3) IH Cons q by (simp add: edges child_def)
  qed
qed simp

lemma parse_history_ok:
  assumes "parse_history data target sz = Inr edges"
  shows "edges \<noteq> [] \<and> length edges \<le> MaxHistoryEntries \<and> edge_chain target edges
     \<and> list_all (edge_exact sz) edges \<and> 1 < target \<and> valid_wal_segment_size sz"
proof -
  obtain lines entries where e: "history_entries [] lines = Inr entries" "entries \<noteq> []"
    and h: "history_edges target sz None entries = Inr edges"
    and t: "1 < target" "valid_wal_segment_size sz"
    using assms by (auto simp: parse_history_def Let_def not_le split: if_splits prod.splits sum.splits)
  have "(\<forall>(p, l)\<in>set entries. p \<noteq> 0 \<and> l \<noteq> 0) \<and> length entries \<le> MaxHistoryEntries"
    by (rule history_entries_ok [OF e(1)]) (simp_all add: MaxHistoryEntries_def)
  moreover from this have "list_all (edge_exact sz) edges \<and> edge_chain target edges
      \<and> length edges = length entries"
    using history_edges_ok [OF h] by blast
  ultimately show ?thesis using e(2) t by auto
qed


section \<open>Reaching along the ranges\<close>

definition covered :: "server_wal \<Rightarrow> u32 \<Rightarrow> u64 \<Rightarrow> u64 \<Rightarrow> bool" where
  "covered wal t a b \<longleftrightarrow> (\<forall>q. a \<le> q \<and> q \<le> b \<longrightarrow> (t, q) \<in> ranges_cover (sw_ranges wal))"

text \<open>
  What a healthy path has observed: from \<open>pos\<close> on timeline \<open>t\<close> every position up to the next
  switchpoint, the switch segment on the child as well, and on the last timeline every
  position up to \<open>f\<close>, which is the last one observed there.
\<close>

fun path_covered :: "server_wal \<Rightarrow> u32 \<Rightarrow> u64 \<Rightarrow> history_edge list \<Rightarrow> u64 \<Rightarrow> bool" where
  "path_covered wal t pos [] f \<longleftrightarrow> pos \<le> f \<and> covered wal t pos f
     \<and> (\<forall>q. (t, q) \<in> ranges_cover (sw_ranges wal) \<longrightarrow> q \<le> f)"
| "path_covered wal t pos (e # es) f \<longleftrightarrow> covered wal t pos (he_switch_position e)
     \<and> (he_child e, he_switch_position e) \<in> ranges_cover (sw_ranges wal)
     \<and> path_covered wal (he_child e) (he_switch_position e) es f"

lemma stop_at_gap_state: "reach_state (stop_at_gap wal t v) \<in> {Unhealthy, Warning, Unknown}"
  by (simp add: stop_at_gap_def reach_state_def Let_def)

lemma not_observed_state: "reach_state (not_observed s) = Unknown"
  by (simp add: not_observed_def reach_state_def)

lemma reach_from_Healthy:
  assumes "reach_state (reach_from wal t s r vs) = Healthy"
  shows "fst (reach_from wal t s r vs) = r \<and> (\<exists>v\<in>set vs. wr_start v \<le> s \<and> s \<le> wr_end v \<and> r \<le> wr_end v)"
  using assms
proof (induction vs)
  case Nil
  then show ?case by (simp add: not_observed_state)
next
  case (Cons v vs)
  consider "s < wr_start v" | "\<not> s < wr_start v" "wr_end v < s"
    | "\<not> s < wr_start v" "\<not> wr_end v < s" "r \<le> wr_end v"
    | "\<not> s < wr_start v" "\<not> wr_end v < s" "\<not> r \<le> wr_end v" by blast
  then show ?case
  proof cases
    case 1
    then show ?thesis using Cons.prems by (simp add: not_observed_state)
  next
    case 2
    then show ?thesis using Cons by simp
  next
    case 3
    then show ?thesis by (auto simp: not_less)
  next
    case 4
    then show ?thesis
      using Cons.prems stop_at_gap_state [of wal t v] by (cases "vs = []") (auto simp: reach_state_def)
  qed
qed

lemma frontier_from_Healthy:
  assumes "reach_state (frontier_from wal t s vs) = Healthy"
  shows "vs \<noteq> [] \<and> fst (frontier_from wal t s vs) = wr_end (last vs)
     \<and> wr_start (last vs) \<le> s \<and> s \<le> wr_end (last vs)"
  using assms
proof (induction vs)
  case Nil
  then show ?case by (simp add: not_observed_state)
next
  case (Cons v vs)
  consider "s < wr_start v" | "\<not> s < wr_start v" "wr_end v < s"
    | "\<not> s < wr_start v" "\<not> wr_end v < s" "vs = []"
    | "\<not> s < wr_start v" "\<not> wr_end v < s" "vs \<noteq> []" by blast
  then show ?case
  proof cases
    case 1
    then show ?thesis using Cons.prems by (simp add: not_observed_state)
  next
    case 2
    then show ?thesis using Cons by auto
  next
    case 3
    then show ?thesis by (auto simp: not_less)
  next
    case 4
    then show ?thesis
      using Cons.prems stop_at_gap_state [of wal t v] by auto
  qed
qed

lemma ranges_cover_iff:
  "(t, q) \<in> ranges_cover vs \<longleftrightarrow> (\<exists>v\<in>set vs. wr_timeline v = t \<and> wr_start v \<le> q \<and> q \<le> wr_end v)"
  by (auto simp: ranges_cover_def range_cover_def)

lemma coveredI:
  assumes "v \<in> set (sw_ranges wal)" "wr_timeline v = t" "wr_start v \<le> s" "r \<le> wr_end v"
  shows "covered wal t s r"
  unfolding covered_def
proof (intro allI impI)
  fix q assume q: "s \<le> q \<and> q \<le> r"
  have "wr_start v \<le> q" "q \<le> wr_end v"
    using order_trans [OF assms(3) conjunct1 [OF q]] order_trans [OF conjunct2 [OF q] assms(4)]
    by simp_all
  then show "(t, q) \<in> ranges_cover (sw_ranges wal)" using assms(1,2) ranges_cover_iff by blast
qed

lemma reach_position_Healthy:
  assumes "reach_state (reach_position wal t s r) = Healthy"
  shows "fst (reach_position wal t s r) = r" and "covered wal t s r"
proof -
  obtain v where v: "v \<in> set (sw_ranges wal)" "wr_timeline v = t" "wr_start v \<le> s" "r \<le> wr_end v"
    using reach_from_Healthy assms unfolding reach_position_def ranges_for_timeline_def by fastforce
  show "fst (reach_position wal t s r) = r"
    using reach_from_Healthy assms unfolding reach_position_def by blast
  show "covered wal t s r"
    using coveredI [OF v] .
qed

lemma contiguous_frontier_Healthy:
  assumes "reach_state (contiguous_frontier wal t s) = Healthy" and "ranges_ok sz (sw_ranges wal)"
  shows "path_covered wal t s [] (fst (contiguous_frontier wal t s))"
proof -
  let ?vs = "ranges_for_timeline (sw_ranges wal) t"
  define l where "l = last ?vs"
  have h: "?vs \<noteq> []" "fst (contiguous_frontier wal t s) = wr_end l" "wr_start l \<le> s" "s \<le> wr_end l"
    using frontier_from_Healthy assms(1) unfolding contiguous_frontier_def l_def by blast+
  have l: "l \<in> set (sw_ranges wal)" "wr_timeline l = t"
    using last_in_set [OF h(1)] unfolding l_def ranges_for_timeline_def by simp_all
  have sorted: "sorted_wrt range_apart ?vs"
    using assms(2) unfolding ranges_ok_def ranges_for_timeline_def by (simp add: sorted_wrt_filter)
  have le: "wr_start v \<le> wr_end v" if "v \<in> set (sw_ranges wal)" for v
    using assms(2) that by (simp add: ranges_ok_def list_all_iff wal_range_ok_def)
  have "wr_end v \<le> wr_end l" if v: "v \<in> set ?vs" for v
  proof -
    have "?vs = butlast ?vs @ [l]" using h(1) by (simp add: l_def)
    then have "v = l \<or> range_apart v l"
      using sorted v by (metis in_set_conv_decomp append_is_Nil_conv list.distinct(1) rotate1.simps(2)
          set_ConsD set_rotate1 sorted_wrt_append list.set_intros(1))
    then show ?thesis
      using v l(2) le [OF l(1)]
      by (auto simp: range_apart_def ranges_for_timeline_def word_le_nat_alt)
  qed
  then have "q \<le> wr_end l" if "(t, q) \<in> ranges_cover (sw_ranges wal)" for q
    using that unfolding ranges_cover_iff ranges_for_timeline_def by (force intro: order_trans)
  moreover have "covered wal t s (wr_end l)"
    using coveredI [OF l h(3) order_refl] .
  ultimately show ?thesis using h by simp
qed

lemma set_reach_simps [simp]:
  "rp_state (set_reach wal c r p) = rp_state p" "rp_target (set_reach wal c r p) = rp_target p"
  "rp_backup_id (set_reach wal c r p) = rp_backup_id p" "rp_server (set_reach wal c r p) = rp_server p"
  "rp_frontier_position (set_reach wal c r p) = fst r"
  "rp_frontier_timeline (set_reach wal c r p) = c"
  "rp_assumptions (set_reach wal c r p) = rp_assumptions p"
  "rp_lower_bound (set_reach wal c r p) = rp_lower_bound p"
  "rp_start_wal (set_reach wal c r p) = rp_start_wal p"
  by (simp_all add: set_reach_def split: prod.splits)

lemma set_verdict_simps [simp]:
  "rp_state (set_verdict r p) = reach_state r" "rp_target (set_verdict r p) = rp_target p"
  "rp_backup_id (set_verdict r p) = rp_backup_id p" "rp_server (set_verdict r p) = rp_server p"
  "rp_frontier_position (set_verdict r p) = rp_frontier_position p"
  "rp_frontier_timeline (set_verdict r p) = rp_frontier_timeline p"
  "rp_assumptions (set_verdict r p) = rp_assumptions p"
  "rp_lower_bound (set_verdict r p) = rp_lower_bound p"
  "rp_start_wal (set_verdict r p) = rp_start_wal p"
  by (simp_all add: set_verdict_def reach_state_def split: prod.splits)

lemma range_contains_iff: "range_contains vs t q \<longleftrightarrow> (t, q) \<in> ranges_cover vs"
  by (auto simp: range_contains_def ranges_cover_iff list_ex_iff)

lemma walk_edges_Healthy:
  assumes "rp_state (walk_edges wal p t pos es) = Healthy" and "ranges_ok sz (sw_ranges wal)"
  shows "path_covered wal t pos es (rp_frontier_position (walk_edges wal p t pos es))
     \<and> rp_frontier_timeline (walk_edges wal p t pos es) = (if es = [] then t else he_child (last es))"
  using assms(1)
proof (induction es arbitrary: p t pos)
  case Nil
  then show ?case
    using contiguous_frontier_Healthy [OF _ assms(2), of t pos] by (simp add: Let_def)
next
  case (Cons e es)
  let ?r = "reach_position wal t pos (he_switch_position e)"
  have r: "reach_state ?r = Healthy"
    using Cons.prems by (auto simp: Let_def split: if_splits)
  note reach = reach_position_Healthy [OF r]
  have c: "range_contains (sw_ranges wal) (he_child e) (he_switch_position e)"
    using Cons.prems r by (auto simp: Let_def split: if_splits)
  have eq: "walk_edges wal p t pos (e # es)
      = walk_edges wal (set_reach wal t ?r p) (he_child e) (he_switch_position e) es"
    using r reach(1) c by (simp add: Let_def)
  show ?case
    using Cons.IH [of "set_reach wal t ?r p" "he_child e" "he_switch_position e"] Cons.prems reach(2) c
    unfolding eq range_contains_iff by simp
qed

lemma evaluate_path_Healthy:
  assumes "rp_state (evaluate_path b wal t s e target edges) = Healthy" and "ranges_ok sz (sw_ranges wal)"
  shows "sw_state wal \<noteq> Unknown" and "covered wal t s e"
    and "path_covered wal t e edges (rp_frontier_position (evaluate_path b wal t s e target edges))"
    and "rp_frontier_timeline (evaluate_path b wal t s e target edges)
       = (if edges = [] then t else he_child (last edges))"
proof -
  show known: "sw_state wal \<noteq> Unknown"
    using assms(1) by (auto simp: evaluate_path_def)
  have r: "reach_state (reach_position wal t s e) = Healthy"
    using assms(1) known by (auto simp: evaluate_path_def Let_def split: if_splits)
  obtain p where eq: "evaluate_path b wal t s e target edges = walk_edges wal p t e edges"
    using known r by (simp add: evaluate_path_def Let_def)
  show "covered wal t s e" by (rule reach_position_Healthy(2) [OF r])
  show "path_covered wal t e edges (rp_frontier_position (evaluate_path b wal t s e target edges))"
    "rp_frontier_timeline (evaluate_path b wal t s e target edges)
       = (if edges = [] then t else he_child (last edges))"
    using walk_edges_Healthy [OF _ assms(2)] assms(1) unfolding eq by blast+
qed

text \<open>The fields of an evaluated path that do not depend on the archive, and its states.\<close>

lemma reach_state_tuple: "reach_state (f, t, s, r) = s"
  by (simp add: reach_state_def)

lemma reach_state_valid:
  "valid_state (reach_state (reach_from wal t s r vs))"
  "valid_state (reach_state (frontier_from wal t s vs))"
proof -
  have gap: "valid_state (reach_state (stop_at_gap wal t v))" for v
    using stop_at_gap_state [of wal t v] by auto
  show "valid_state (reach_state (reach_from wal t s r vs))"
    by (induction vs) (simp_all add: gap not_observed_state reach_state_tuple)
  show "valid_state (reach_state (frontier_from wal t s vs))"
    by (induction vs) (simp_all add: gap not_observed_state reach_state_tuple)
qed

lemma walk_edges_fields:
  "rp_backup_id (walk_edges wal p t pos es) = rp_backup_id p
   \<and> rp_target (walk_edges wal p t pos es) = rp_target p
   \<and> rp_server (walk_edges wal p t pos es) = rp_server p
   \<and> valid_state (rp_state (walk_edges wal p t pos es))"
proof (induction es arbitrary: p t pos)
  case Nil
  then show ?case by (simp add: Let_def contiguous_frontier_def reach_state_valid)
next
  case (Cons e es)
  then show ?case by (simp add: Let_def reach_position_def reach_state_valid)
qed

lemma evaluate_path_fields:
  "rp_backup_id (evaluate_path b wal t s e target edges) = bk_id b"
  "rp_target (evaluate_path b wal t s e target edges) = target"
  "rp_server (evaluate_path b wal t s e target edges) = bk_server b"
  "valid_state (rp_state (evaluate_path b wal t s e target edges))"
  by (simp_all add: evaluate_path_def Let_def walk_edges_fields reach_position_def reach_state_valid)

lemma unknown_path_simps [simp]:
  "rp_backup_id (unknown_path b r) = bk_id b" "rp_target (unknown_path b r) = 0"
  "rp_state (unknown_path b r) = Unknown" "rp_server (unknown_path b r) = bk_server b"
  by (simp_all add: unknown_path_def)


section \<open>Where a path comes from\<close>

definition path_of :: "server_wal \<Rightarrow> timeline_history list \<Rightarrow> backup \<Rightarrow> recovery_path \<Rightarrow> bool" where
  "path_of wal hs b p \<longleftrightarrow>
     (\<exists>r t. p = (unknown_path b r)\<lparr>rp_target := t\<rparr>)
     \<or> (\<exists>t s e edges. backup_range b = Inr (t, s, e) \<and> sw_segment_size wal = bk_segment_size b
          \<and> p = evaluate_path b wal t s e (if edges = [] then t else he_child (last edges)) edges
          \<and> (edges \<noteq> [] \<longrightarrow> (\<exists>h\<in>set hs. \<exists>rest. th_state h = Healthy
                \<and> descendant_edges (th_edges h) t = edges @ rest
                \<and> \<not> branch_before_backup (hd edges) b e)))"

lemma path_of_unknown: "path_of wal hs b (unknown_path b r)"
proof -
  have "unknown_path b r = (unknown_path b r)\<lparr>rp_target := 0\<rparr>" by (simp add: unknown_path_def)
  then show ?thesis unfolding path_of_def by blast
qed

lemma path_of_id: "path_of wal hs b p \<Longrightarrow> rp_backup_id p = bk_id b \<and> rp_server p = bk_server b
    \<and> valid_state (rp_state p)"
  by (auto simp: path_of_def evaluate_path_fields)

definition path_key :: "recovery_path \<Rightarrow> string \<times> u32" where
  "path_key p = (rp_backup_id p, rp_target p)"

text \<open>
  The invariant of the loops for one backup: no two paths with one key, and the paths of this
  backup have the targets that were seen.
\<close>

definition paths_inv :: "backup \<Rightarrow> u32 list \<Rightarrow> recovery_path list \<Rightarrow> bool" where
  "paths_inv b seen result \<longleftrightarrow> distinct (map path_key result)
     \<and> (\<forall>p\<in>set result. rp_backup_id p = bk_id b \<longrightarrow> rp_target p \<in> set seen \<and> rp_target p \<noteq> 0)"

lemma limit_paths_all:
  "list_all P result \<Longrightarrow> P (unknown_path b ''recovery path safety limit reached'')
     \<Longrightarrow> list_all P (fst (limit_paths b result))"
  by (auto simp: limit_paths_def list_all_iff dest: in_set_butlastD)

lemma limit_paths_stop: "snd (limit_paths b result) \<longleftrightarrow> MaxRecoveryPaths \<le> length result"
  by (simp add: limit_paths_def)

lemma limit_paths_distinct:
  assumes "paths_inv b seen (result)" "rp_backup_id p = bk_id b" "rp_target p \<notin> set seen" "rp_target p \<noteq> 0"
  shows "distinct (map path_key (fst (limit_paths b (result @ [p]))))"
    and "\<not> snd (limit_paths b (result @ [p])) \<Longrightarrow>
      paths_inv b (rp_target p # seen) (fst (limit_paths b (result @ [p])))"
proof -
  have d: "distinct (map path_key result)" "path_key p \<notin> path_key ` set result"
    "(bk_id b, 0) \<notin> path_key ` set result"
    using assms by (auto simp: paths_inv_def path_key_def)
  then show "distinct (map path_key (fst (limit_paths b (result @ [p]))))"
    by (simp add: limit_paths_def path_key_def)
  show "paths_inv b (rp_target p # seen) (fst (limit_paths b (result @ [p])))"
    if "\<not> snd (limit_paths b (result @ [p]))"
    using that d assms by (auto simp: limit_paths_def paths_inv_def path_key_def)
qed

lemma edge_paths_all:
  assumes "list_all P result" "P (unknown_path b ''recovery path safety limit reached'')"
    and "\<And>xs e ys. before @ es = xs @ e # ys \<Longrightarrow> P (evaluate_path b wal t s n (he_child e) (xs @ [e]))"
  shows "list_all P (fst (edge_paths b wal t s n before es result seen))"
  using assms
proof (induction es arbitrary: before result seen)
  case (Cons e es)
  have IH: "list_all P (fst (edge_paths b wal t s n (before @ [e]) es r sn))" if "list_all P r" for r sn
    using that Cons.prems(2,3) by (intro Cons.IH) simp_all
  have new: "list_all P (fst (limit_paths b
      (result @ [evaluate_path b wal t s n (he_child e) (before @ [e])])))"
    using Cons.prems(1,2) Cons.prems(3) [of before e es] by (intro limit_paths_all) simp_all
  show ?case using IH Cons.prems(1) new by (auto simp: split_beta Let_def)
qed simp

lemma edge_paths_inv:
  assumes "paths_inv b seen result" "\<forall>e\<in>set es. he_child e \<noteq> 0"
  shows "distinct (map path_key (fst (edge_paths b wal t s n before es result seen)))
     \<and> (\<not> snd (snd (edge_paths b wal t s n before es result seen)) \<longrightarrow>
          paths_inv b (fst (snd (edge_paths b wal t s n before es result seen)))
            (fst (edge_paths b wal t s n before es result seen)))"
  using assms
proof (induction es arbitrary: before result seen)
  case Nil
  then show ?case by (simp add: paths_inv_def)
next
  case (Cons e es)
  show ?case
  proof (cases "he_child e \<in> set seen")
    case True
    then show ?thesis using Cons by simp
  next
    case False
    let ?p = "evaluate_path b wal t s n (he_child e) (before @ [e])"
    let ?l = "limit_paths b (result @ [?p])"
    have p: "rp_backup_id ?p = bk_id b" "rp_target ?p \<notin> set seen" "rp_target ?p \<noteq> 0"
      using False Cons.prems(2) by (simp_all add: evaluate_path_fields)
    note lim = limit_paths_distinct [OF Cons.prems(1) p]
    show ?thesis
    proof (cases "snd ?l")
      case True
      then show ?thesis using False lim(1) by (simp add: split_beta Let_def)
    next
      case cont: False
      have "paths_inv b (he_child e # seen) (fst ?l)"
        using lim(2) [OF cont] by (simp add: evaluate_path_fields)
      then show ?thesis
        using Cons.IH Cons.prems(2) False cont by (simp add: split_beta Let_def)
    qed
  qed
qed

definition edges_nonzero :: "timeline_history list \<Rightarrow> bool" where
  "edges_nonzero hs \<longleftrightarrow> (\<forall>h\<in>set hs. th_state h = Healthy \<longrightarrow> (\<forall>e\<in>set (th_edges h). he_child e \<noteq> 0))"

lemma set_descendant: "set (descendant_edges edges t) \<subseteq> set edges"
  by (auto simp: descendant_edges_def dest: set_dropWhileD)

lemma history_paths_inv:
  assumes "paths_inv b seen result" "edges_nonzero hs"
  shows "distinct (map path_key (fst (history_paths b wal t s n hs result seen excl)))
     \<and> (\<not> snd (snd (snd (history_paths b wal t s n hs result seen excl))) \<longrightarrow>
          paths_inv b (fst (snd (history_paths b wal t s n hs result seen excl)))
            (fst (history_paths b wal t s n hs result seen excl)))"
  using assms
proof (induction hs arbitrary: result seen excl)
  case Nil
  then show ?case by (simp add: paths_inv_def)
next
  case (Cons h hs)
  let ?edges = "descendant_edges (th_edges h) t"
  let ?ep = "edge_paths b wal t s n [] ?edges result seen"
  have nz: "edges_nonzero hs" using Cons.prems(2) by (simp add: edges_nonzero_def)
  consider "th_state h \<noteq> Healthy \<or> th_timeline h = t \<or> ?edges = []"
    | "\<not> (th_state h \<noteq> Healthy \<or> th_timeline h = t \<or> ?edges = [])" "branch_before_backup (hd ?edges) b n"
    | "\<not> (th_state h \<noteq> Healthy \<or> th_timeline h = t \<or> ?edges = [])" "\<not> branch_before_backup (hd ?edges) b n"
    by blast
  then show ?case
  proof cases
    case 1
    then show ?thesis using Cons.IH [OF Cons.prems(1) nz] by (simp add: Let_def)
  next
    case 2
    then show ?thesis using Cons.IH [OF Cons.prems(1) nz] by (simp add: Let_def)
  next
    case 3
    have "\<forall>e\<in>set ?edges. he_child e \<noteq> 0"
      using Cons.prems(2) 3(1) set_descendant [of "th_edges h" t] by (auto simp: edges_nonzero_def)
    note ep = edge_paths_inv [OF Cons.prems(1) this, of wal t s n "[]"]
    obtain r sn stop where e: "?ep = (r, sn, stop)" by (cases ?ep)
    show ?thesis
      using 3 ep Cons.IH [of sn r excl] nz by (cases stop) (simp_all add: Let_def e)
  qed
qed

lemma history_paths_all:
  assumes "list_all P result" "P (unknown_path b ''recovery path safety limit reached'')"
    and "\<And>h xs e ys. h \<in> set hs \<Longrightarrow> th_state h = Healthy \<Longrightarrow>
      descendant_edges (th_edges h) t = xs @ e # ys \<Longrightarrow>
      \<not> branch_before_backup (hd (xs @ [e])) b n \<Longrightarrow>
      P (evaluate_path b wal t s n (he_child e) (xs @ [e]))"
  shows "list_all P (fst (history_paths b wal t s n hs result seen excl))"
  using assms
proof (induction hs arbitrary: result seen excl)
  case (Cons h hs)
  let ?edges = "descendant_edges (th_edges h) t"
  let ?ep = "edge_paths b wal t s n [] ?edges result seen"
  have IH: "list_all P (fst (history_paths b wal t s n hs r sn ex))" if "list_all P r" for r sn ex
    using that Cons.prems(2) by (intro Cons.IH Cons.prems(3) [OF list.set_intros(2)])
  consider "th_state h \<noteq> Healthy \<or> th_timeline h = t \<or> ?edges = []"
    | "\<not> (th_state h \<noteq> Healthy \<or> th_timeline h = t \<or> ?edges = [])" "branch_before_backup (hd ?edges) b n"
    | "\<not> (th_state h \<noteq> Healthy \<or> th_timeline h = t \<or> ?edges = [])" "\<not> branch_before_backup (hd ?edges) b n"
    by blast
  then show ?case
  proof cases
    case 1
    then show ?thesis using IH Cons.prems(1) by (simp add: Let_def)
  next
    case 2
    then show ?thesis using IH Cons.prems(1) by (simp add: Let_def)
  next
    case 3
    have "list_all P (fst ?ep)"
    proof (rule edge_paths_all [OF Cons.prems(1,2)])
      fix xs e ys assume eq: "[] @ ?edges = xs @ e # ys"
      then have "hd ?edges = hd (xs @ [e])" by (cases xs) simp_all
      then show "P (evaluate_path b wal t s n (he_child e) (xs @ [e]))"
        using Cons.prems(3) [of h xs e ys] 3 eq by simp
    qed
    moreover obtain r sn stop where e: "?ep = (r, sn, stop)" by (cases ?ep)
    ultimately show ?thesis using 3 IH by (cases stop) (simp_all add: Let_def)
  qed
qed simp

lemma target_paths_all:
  assumes "list_all P result" "P (unknown_path b ''recovery path safety limit reached'')"
    and "\<And>t. P ((unknown_path b ''observed target timeline is not connected by valid history evidence'')
                 \<lparr>rp_target := t\<rparr>)"
  shows "list_all P (fst (target_paths b ts result))"
  using assms(1)
proof (induction ts arbitrary: result)
  case (Cons t ts)
  have "list_all P (fst (limit_paths b (result @ [(unknown_path b
      ''observed target timeline is not connected by valid history evidence'')\<lparr>rp_target := t\<rparr>])))"
    using Cons.prems assms(2,3) by (intro limit_paths_all) simp_all
  then show ?case using Cons.IH by (simp add: split_beta Let_def)
qed simp

lemma target_paths_inv:
  assumes "paths_inv b seen result" "distinct ts" "set ts \<inter> set seen = {}" "0 \<notin> set ts"
  shows "distinct (map path_key (fst (target_paths b ts result)))"
  using assms
proof (induction ts arbitrary: result seen)
  case Nil
  then show ?case by (simp add: paths_inv_def)
next
  case (Cons t ts)
  let ?p = "(unknown_path b ''observed target timeline is not connected by valid history evidence'')
      \<lparr>rp_target := t\<rparr>"
  have "rp_backup_id ?p = bk_id b" "rp_target ?p \<notin> set seen" "rp_target ?p \<noteq> 0"
    using Cons.prems by auto
  note lim = limit_paths_distinct [OF Cons.prems(1) this]
  show ?case
  proof (cases "snd (limit_paths b (result @ [?p]))")
    case True
    then show ?thesis using lim(1) by (simp add: split_beta Let_def)
  next
    case False
    from lim(2) [OF this] have "paths_inv b (t # seen) (fst (limit_paths b (result @ [?p])))" by simp
    then show ?thesis using Cons.IH Cons.prems False by (simp add: split_beta Let_def)
  qed
qed


text \<open>One backup, then all of them.\<close>

lemma backup_range_timeline: "backup_range b = Inr (t, s, e) \<Longrightarrow> t \<noteq> 0"
proof -
  assume "backup_range b = Inr (t, s, e)"
  then obtain p where "parse_wal_name (bk_begin_wal b) (bk_segment_size b) = Inr (t, p)"
    by (auto simp: backup_range_def split: sum.splits if_splits)
  then obtain n where "wal_name t p (bk_segment_size b) = Inr n"
    by (auto simp: parse_wal_name_Inr_iff)
  then show "t \<noteq> 0" by (auto simp: wal_name_def)
qed

lemma backup_paths_all:
  assumes "list_all P result" and new: "\<And>p. path_of wal hs b p \<Longrightarrow> bk_state b = Healthy \<Longrightarrow> P p"
  shows "list_all P (fst (backup_paths b wal hs result))"
proof (cases "bk_state b = Healthy")
  case False
  then show ?thesis using assms(1) by (simp add: backup_paths_def)
next
  case True
  have unknown: "P (unknown_path b r)" for r using new [OF path_of_unknown True] .
  show ?thesis
  proof (cases "backup_range b")
    case (Inl e)
    then show ?thesis using True assms(1) unknown by (simp add: backup_paths_def)
  next
    case (Inr r)
    then obtain t s n where r: "backup_range b = Inr (t, s, n)" by (cases r) auto
    show ?thesis
    proof (cases "sw_segment_size wal = bk_segment_size b")
      case False
      then show ?thesis using True assms(1) unknown r by (simp add: backup_paths_def)
    next
      case sz: True
      let ?res = "result @ [evaluate_path b wal t s n t []]"
      let ?hp = "history_paths b wal t s n hs ?res [t] []"
      have "path_of wal hs b (evaluate_path b wal t s n t [])"
        unfolding path_of_def using r sz
        by (intro disjI2 exI [of _ t] exI [of _ s] exI [of _ n] exI [of _ "[]"]) simp
      then have "list_all P ?res" using assms(1) new True by simp
      then have "list_all P (fst ?hp)"
      proof (rule history_paths_all)
        show "P (unknown_path b ''recovery path safety limit reached'')" by (rule unknown)
        fix h xs e ys
        assume h: "h \<in> set hs" "th_state h = Healthy" "descendant_edges (th_edges h) t = xs @ e # ys"
          "\<not> branch_before_backup (hd (xs @ [e])) b n"
        have "path_of wal hs b (evaluate_path b wal t s n (he_child e) (xs @ [e]))"
          unfolding path_of_def
        proof (intro disjI2 exI conjI impI bexI)
          show "evaluate_path b wal t s n (he_child e) (xs @ [e]) = evaluate_path b wal t s n
              (if xs @ [e] = [] then t else he_child (last (xs @ [e]))) (xs @ [e])" by simp
          show "descendant_edges (th_edges h) t = (xs @ [e]) @ ys" using h(3) by simp
        qed (use r sz h in auto)
        then show "P (evaluate_path b wal t s n (he_child e) (xs @ [e]))" using new True by blast
      qed
      moreover have "P ((unknown_path b rs)\<lparr>rp_target := tt\<rparr>)" for rs tt
        using new True unfolding path_of_def by blast
      ultimately have "list_all P (fst (target_paths b ts (fst ?hp)))" for ts
        using unknown by (intro target_paths_all)
      moreover obtain a sn ex stop where "?hp = (a, sn, ex, stop)" by (cases ?hp)
      ultimately show ?thesis
        using True r sz \<open>list_all P (fst ?hp)\<close>
        by (cases stop) (simp_all add: backup_paths_def Let_def)
    qed
  qed
qed

lemma backup_paths_distinct:
  assumes "distinct (map path_key result)" "\<forall>p\<in>set result. rp_backup_id p \<noteq> bk_id b" "edges_nonzero hs"
  shows "distinct (map path_key (fst (backup_paths b wal hs result)))"
proof (cases "bk_state b = Healthy")
  case False
  then show ?thesis using assms(1) by (simp add: backup_paths_def)
next
  case True
  have new: "distinct (map path_key (result @ [p]))" if "rp_backup_id p = bk_id b" for p
    using that assms(1,2) by (auto simp: path_key_def)
  show ?thesis
  proof (cases "backup_range b")
    case (Inl e)
    then show ?thesis using True new [of "unknown_path b _"] by (simp add: backup_paths_def)
  next
    case (Inr r)
    then obtain t s n where r: "backup_range b = Inr (t, s, n)" by (cases r) auto
    show ?thesis
    proof (cases "sw_segment_size wal = bk_segment_size b")
      case False
      then show ?thesis using True r new [of "unknown_path b _"] by (simp add: backup_paths_def)
    next
      case sz: True
      let ?res = "result @ [evaluate_path b wal t s n t []]"
      have "paths_inv b [t] ?res"
        using new [of "evaluate_path b wal t s n t []"] assms(2) backup_range_timeline [OF r]
        by (auto simp: paths_inv_def evaluate_path_fields)
      note hp = history_paths_inv [OF this assms(3), of wal t s n "[]"]
      obtain a sn ex stop where e: "history_paths b wal t s n hs ?res [t] [] = (a, sn, ex, stop)"
        by (cases "history_paths b wal t s n hs ?res [t] []")
      let ?ts = "sort (filter (\<lambda>x. t < x \<and> x \<notin> set sn \<and> x \<notin> set ex) (observed_timelines wal))"
      have "distinct (map path_key (fst (target_paths b ?ts a)))" if "\<not> stop"
        using hp that e by (intro target_paths_inv [of b sn]) (auto simp: observed_timelines_def)
      then show ?thesis
        using True r sz hp by (cases stop) (simp_all add: backup_paths_def Let_def e)
    qed
  qed
qed

lemma all_backup_paths_all:
  assumes "list_all P result"
    and "\<And>b p. b \<in> set bs \<Longrightarrow> bk_state b = Healthy \<Longrightarrow> path_of wal hs b p \<Longrightarrow> P p"
  shows "list_all P (all_backup_paths wal hs bs result)"
  using assms
proof (induction bs arbitrary: result)
  case (Cons b bs)
  have "list_all P (fst (backup_paths b wal hs result))"
    by (rule backup_paths_all [OF Cons.prems(1)]) (rule Cons.prems(2) [OF list.set_intros(1)])
  moreover have "list_all P (all_backup_paths wal hs bs r)" if "list_all P r" for r
    using that Cons.prems(2) [OF list.set_intros(2)] by (intro Cons.IH)
  ultimately show ?case by (simp add: split_beta Let_def)
qed simp

lemma all_backup_paths_distinct:
  assumes "distinct (map path_key result)" "edges_nonzero hs"
    and "distinct (map bk_id (filter (\<lambda>b. bk_state b = Healthy) bs))"
    and "\<forall>p\<in>set result. rp_backup_id p \<notin> bk_id ` {b \<in> set bs. bk_state b = Healthy}"
  shows "distinct (map path_key (all_backup_paths wal hs bs result))"
  using assms
proof (induction bs arbitrary: result)
  case (Cons b bs)
  let ?r = "fst (backup_paths b wal hs result)"
  show ?case
  proof (cases "bk_state b = Healthy")
    case False
    then show ?thesis using Cons by (auto simp: backup_paths_def)
  next
    case True
    have d: "distinct (map path_key ?r)"
      using Cons.prems True by (intro backup_paths_distinct) auto
    have "list_all (\<lambda>p. rp_backup_id p \<notin> bk_id ` {b \<in> set bs. bk_state b = Healthy}) ?r"
    proof (rule backup_paths_all)
      show "list_all (\<lambda>p. rp_backup_id p \<notin> bk_id ` {b \<in> set bs. bk_state b = Healthy}) result"
        using Cons.prems(4) by (auto simp: list_all_iff)
      show "rp_backup_id p \<notin> bk_id ` {b \<in> set bs. bk_state b = Healthy}" if "path_of wal hs b p" for p
        using path_of_id [OF that] Cons.prems(3) True by auto
    qed
    then show ?thesis
      using Cons.IH [OF d Cons.prems(2)] Cons.prems(3) True d
      by (auto simp: split_beta Let_def list_all_iff)
  qed
qed simp


section \<open>The histories of a server\<close>

lemma edge_chain_sorted:
  "edge_chain t es \<Longrightarrow> list_all (edge_exact sz) es \<Longrightarrow> sorted_wrt (\<lambda>a b. he_child a < he_child b) es"
proof (induction t es rule: edge_chain.induct)
  case (3 t e f es)
  have "edge_chain t (f # es)" "list_all (edge_exact sz) (f # es)" using 3(2,3) by simp_all
  then have IH: "sorted_wrt (\<lambda>a b. he_child a < he_child b) (f # es)" by (rule 3(1))
  have "edge_exact sz f" "he_child e = he_parent f" using 3(2,3) by simp_all
  then have "he_child e < he_child f" by (simp add: edge_exact_def)
  then show ?case using IH by (auto intro: less_trans)
qed simp_all

definition known_ok :: "(u32 \<times> history_edge) list \<Rightarrow> bool" where
  "known_ok known \<longleftrightarrow> (\<forall>(c, e)\<in>set known. he_child e = c \<and> he_parent e < c)"

definition known_le :: "(u32 \<times> history_edge) list \<Rightarrow> (u32 \<times> history_edge) list \<Rightarrow> bool" where
  "known_le k k' \<longleftrightarrow> (\<forall>c e. map_of k c = Some e \<longrightarrow> map_of k' c = Some e)"

definition edges_in :: "(u32 \<times> history_edge) list \<Rightarrow> history_edge list \<Rightarrow> bool" where
  "edges_in k es \<longleftrightarrow> (\<forall>e\<in>set es. map_of k (he_child e) = Some e)"

lemma follow_cycle_False:
  assumes "known_ok edges" "\<forall>x\<in>set seen. current < x"
  shows "\<not> follow_cycle edges seen current"
  using assms
proof (induction edges seen current rule: follow_cycle.induct)
  case (1 edges seen current)
  have notin: "current \<notin> set seen" using 1(3) by auto
  show ?case
  proof (cases "map_of edges current")
    case None
    then show ?thesis using notin by (simp add: follow_cycle.simps [of edges seen])
  next
    case (Some e)
    then have "he_parent e < current" using 1(2) by (auto simp: known_ok_def dest!: map_of_SomeD)
    then have "\<forall>x\<in>set (current # seen). he_parent e < x" using 1(3) by auto
    then have "current \<noteq> 0 \<Longrightarrow> \<not> follow_cycle edges (current # seen) (he_parent e)"
      using 1(1) [OF _ notin Some 1(2)] by blast
    then show ?thesis using notin Some by (simp add: follow_cycle.simps [of edges seen])
  qed
qed

lemma cycle_in_edges_False: "known_ok edges \<Longrightarrow> \<not> cycle_in_edges edges"
  by (auto simp: cycle_in_edges_def list_ex_iff follow_cycle_False)

lemma find_rev_unique:
  assumes "sorted_wrt (\<lambda>a b. f a < (f b :: 'b :: linorder)) es" "e \<in> set es"
  shows "find (\<lambda>x. f x = f e) (rev es) = Some e"
proof -
  have d: "distinct (map f es)" using assms(1) by (simp add: strict_sorted_iff flip: sorted_wrt_map)
  have "\<exists>x\<in>set (rev es). f x = f e" using assms(2) by auto
  then obtain x where x: "find (\<lambda>x. f x = f e) (rev es) = Some x"
    by (cases "find (\<lambda>x. f x = f e) (rev es)") (auto simp: find_None_iff)
  then have "x \<in> set es" "f x = f e" by (auto simp: find_Some_iff) (metis length_rev nth_mem set_rev)
  then have "x = e" using d assms(2) by (auto simp: distinct_map inj_on_def)
  then show ?thesis using x by simp
qed

lemma history_edges_agree_ok:
  assumes "history_edges_agree edges known = Some known'" "known_ok known"
    and "edge_chain t edges" "list_all (edge_exact sz) edges"
  shows "known_ok known' \<and> known_le known known' \<and> edges_in known' edges"
proof -
  have k': "known' = foldl (\<lambda>k e. assoc_set (he_child e) e k) known edges"
    and agree: "\<And>e prior. e \<in> set edges \<Longrightarrow> map_of known (he_child e) = Some prior \<Longrightarrow> prior = e"
    using assms(1) by (auto simp: history_edges_agree_def list_ex_iff split: if_splits)
  have m: "map_of known' c = (case find (\<lambda>g. he_child g = c) (rev edges) of Some g \<Rightarrow> Some g
      | None \<Rightarrow> map_of known c)" for c
    unfolding k' by (rule map_of_foldl_assoc_set)
  have "known_ok (foldl (\<lambda>k e. assoc_set (he_child e) e k) k0 es)"
    if "known_ok k0" "list_all (edge_exact sz) es" for k0 es
    using that
  proof (induction es arbitrary: k0)
    case (Cons e es)
    have "known_ok (assoc_set (he_child e) e k0)"
      using Cons.prems set_assoc_set [of "he_child e" e k0] by (auto simp: known_ok_def edge_exact_def)
    then show ?case using Cons by simp
  qed simp
  then have "known_ok known'" using assms(2,4) k' by simp
  moreover have "known_le known known'"
    unfolding known_le_def m
  proof (intro allI impI)
    fix c e assume e: "map_of known c = Some e"
    show "(case find (\<lambda>g. he_child g = c) (rev edges) of Some g \<Rightarrow> Some g | None \<Rightarrow> map_of known c) = Some e"
    proof (cases "find (\<lambda>g. he_child g = c) (rev edges)")
      case (Some g)
      then have "g \<in> set edges" "he_child g = c"
        by (auto simp: find_Some_iff) (metis length_rev nth_mem set_rev)
      then show ?thesis using agree [of g e] e Some by simp
    qed (use e in simp)
  qed
  moreover have "edges_in known' edges"
    unfolding edges_in_def m using find_rev_unique [OF edge_chain_sorted [OF assms(3,4)]] by simp
  ultimately show ?thesis by blast
qed

definition history_sound :: "server_wal \<Rightarrow> timeline_history \<Rightarrow> bool" where
  "history_sound wal h \<longleftrightarrow> edge_chain (th_timeline h) (th_edges h)
     \<and> list_all (edge_exact (sw_segment_size wal)) (th_edges h)
     \<and> child_ranges_agree (th_edges h) (sw_ranges wal)"

text \<open>What one step of the loop over the timelines gives.\<close>

lemma timeline_entry_ok:
  assumes "timeline_entry dec rd wal known entry = (h, known')" "known_ok known"
  shows "known_ok known' \<and> known_le known known' \<and> th_timeline h = fst entry
     \<and> th_state h \<in> {Healthy, Unknown} \<and> th_reason h \<noteq> ''timeline ancestry is cyclic''
     \<and> (th_state h = Healthy \<longrightarrow> history_sound wal h \<and> edges_in known' (th_edges h))"
proof -
  have refl: "known_le known known" by (simp add: known_le_def)
  consider (early) "known' = known" "th_timeline h = fst entry" "th_state h = Unknown"
        "th_reason h \<noteq> ''timeline ancestry is cyclic''"
    | (agreed) edges data where "parse_history data (fst entry) (sw_segment_size wal) = Inr edges"
        "history_edges_agree edges known = Some known'" "th_timeline h = fst entry" "th_edges h = edges"
        "th_state h = Unknown \<and> th_reason h \<noteq> ''timeline ancestry is cyclic''
         \<or> th_state h = Unknown \<and> cycle_in_edges known'
         \<or> th_state h = Healthy \<and> child_ranges_agree edges (sw_ranges wal)
           \<and> th_reason h \<noteq> ''timeline ancestry is cyclic''"
    using assms(1) unfolding timeline_entry_def Let_def
    by (auto split: if_splits option.splits sum.splits)
  then show ?thesis
  proof cases
    case early
    then show ?thesis using refl assms(2) by simp
  next
    case agreed
    have p: "edge_chain (fst entry) edges" "list_all (edge_exact (sw_segment_size wal)) edges"
      using parse_history_ok [OF agreed(1)] by simp_all
    note k = history_edges_agree_ok [OF agreed(2) assms(2) p]
    then have "\<not> cycle_in_edges known'" using cycle_in_edges_False by blast
    then show ?thesis using k p agreed(3-5) by (auto simp: history_sound_def)
  qed
qed

lemma timeline_entries_ok:
  assumes "known_ok known"
  shows "map th_timeline (timeline_entries dec rd wal known entries) = map fst entries
    \<and> (\<exists>K. known_le known K \<and> (\<forall>h\<in>set (timeline_entries dec rd wal known entries).
        th_state h \<in> {Healthy, Unknown} \<and> th_reason h \<noteq> ''timeline ancestry is cyclic''
        \<and> (th_state h = Healthy \<longrightarrow> history_sound wal h \<and> edges_in K (th_edges h))))"
  using assms
proof (induction entries arbitrary: known)
  case Nil
  then show ?case by (auto simp: known_le_def)
next
  case (Cons entry rest)
  obtain h known' where e: "timeline_entry dec rd wal known entry = (h, known')"
    by (cases "timeline_entry dec rd wal known entry")
  note s = timeline_entry_ok [OF e Cons.prems]
  obtain K where K: "known_le known' K" and rest: "map th_timeline (timeline_entries dec rd wal known' rest)
      = map fst rest" "\<forall>h\<in>set (timeline_entries dec rd wal known' rest).
        th_state h \<in> {Healthy, Unknown} \<and> th_reason h \<noteq> ''timeline ancestry is cyclic''
        \<and> (th_state h = Healthy \<longrightarrow> history_sound wal h \<and> edges_in K (th_edges h))"
    using Cons.IH s by blast
  have "known_le known K" using s K by (auto simp: known_le_def)
  moreover have "th_state h = Healthy \<longrightarrow> edges_in K (th_edges h)"
    using s K by (auto simp: edges_in_def known_le_def)
  ultimately show ?case using rest s by (simp add: e) blast
qed

lemma map_of_group_foldl:
  "map_of (foldl (\<lambda>g ob. group_add (f ob) ob g) [] obs) k =
     (let l = filter (\<lambda>ob. f ob = k) obs in if l = [] then None else Some l)"
  by (induction obs rule: rev_induct) (auto simp: map_of_group_add Let_def)

lemma distinct_group_histories: "distinct (map fst (group_histories obs))"
proof (induction obs rule: rev_induct)
  case (snoc ob obs)
  then show ?case by (simp add: group_histories_def distinct_group_add)
qed (simp add: group_histories_def)


lemma map_of_group_histories:
  "map_of (group_histories obs) t = None \<longleftrightarrow> t \<notin> ho_timeline ` set obs"
  unfolding group_histories_def map_of_group_foldl by (auto simp: Let_def filter_empty_conv)

lemma missing_history_simps [simp]:
  "th_timeline (missing_history wal t) = t" "th_state (missing_history wal t) = Unknown"
  "th_reason (missing_history wal t) \<noteq> ''timeline ancestry is cyclic''"
  by (simp_all add: missing_history_def)

text \<open>The two parts of the result of \<open>analyzeHistories\<close>.\<close>

lemma analyze_histories_cases:
  assumes "analyze_histories dec rd wal objects truncated = (hs, state, reason)"
  obtains "truncated" "hs = []" "state = Unknown"
  | listed ts where "\<not> truncated"
    "listed = timeline_entries dec rd wal [] (sort_key fst (group_histories objects))"
    "hs = sort_key th_timeline (listed @ map (missing_history wal) ts)"
    "distinct ts" "\<forall>t\<in>set ts. map_of (group_histories objects) t = None"
    "\<forall>r\<in>set (sw_ranges wal). 1 < wr_timeline r \<longrightarrow> wr_timeline r \<in> set ts
       \<or> wr_timeline r \<in> ho_timeline ` set objects
       \<or> (\<exists>h\<in>set listed. th_state h = Healthy \<and> wr_timeline r \<in> he_child ` set (th_edges h))"
    "state = Healthy \<longrightarrow> (\<forall>h\<in>set hs. th_state h = Healthy) \<and> (sw_ranges wal \<noteq> [] \<or> objects \<noteq> [])"
    "state \<in> {Healthy, Unknown}"
proof (cases truncated)
  case True
  then show ?thesis using assms that(1) by (simp add: analyze_histories_def)
next
  case False
  let ?g = "group_histories objects"
  define listed where "listed = timeline_entries dec rd wal [] (sort_key fst ?g)"
  let ?obs = "remdups (observed_timelines wal @ map ho_timeline objects)"
  let ?known = "concat (map (map he_child \<circ> th_edges) (filter (\<lambda>h. th_state h = Healthy) listed))"
  define ts where "ts = filter (\<lambda>t. 1 < t \<and> map_of ?g t = None \<and> t \<notin> set ?known) ?obs"
  have hs: "hs = sort_key th_timeline (listed @ map (missing_history wal) ts)"
    using assms False unfolding analyze_histories_def listed_def ts_def
    by (simp add: Let_def split: if_splits)
  have st: "state = (if ?obs = [] then Unknown
      else if list_ex (\<lambda>h. th_state h \<noteq> Healthy) (listed @ map (missing_history wal) ts)
      then Unknown else Healthy)"
    using assms False unfolding analyze_histories_def listed_def ts_def
    by (auto simp: Let_def split: if_splits)
  show ?thesis
  proof (rule that(2) [OF False listed_def hs])
    show "distinct ts" by (simp add: ts_def)
    show "\<forall>t\<in>set ts. map_of ?g t = None" by (simp add: ts_def)
    show "\<forall>r\<in>set (sw_ranges wal). 1 < wr_timeline r \<longrightarrow> wr_timeline r \<in> set ts
       \<or> wr_timeline r \<in> ho_timeline ` set objects
       \<or> (\<exists>h\<in>set listed. th_state h = Healthy \<and> wr_timeline r \<in> he_child ` set (th_edges h))"
      by (auto simp: ts_def observed_timelines_def map_of_group_histories)
    show "state = Healthy \<longrightarrow> (\<forall>h\<in>set hs. th_state h = Healthy) \<and> (sw_ranges wal \<noteq> [] \<or> objects \<noteq> [])"
      by (auto simp: st hs list_ex_iff observed_timelines_def split: if_splits)
    show "state \<in> {Healthy, Unknown}" by (simp add: st)
  qed
qed

lemma group_timelines: "fst ` set (group_histories objects) = ho_timeline ` set objects"
  using map_of_group_histories [of objects] by (force simp: map_of_eq_None_iff)

lemma listed_timelines:
  "map th_timeline (timeline_entries dec rd wal [] (sort_key fst (group_histories objects)))
     = map fst (sort_key fst (group_histories objects))"
  using timeline_entries_ok [of "[]"] by (simp add: known_ok_def)

lemma analyze_histories_sorted:
  assumes "analyze_histories dec rd wal objects truncated = (hs, state, reason)"
  shows "sorted_wrt (\<lambda>a b. th_timeline a < th_timeline b) hs"
  using assms
proof (cases rule: analyze_histories_cases)
  case 1
  then show ?thesis by simp
next
  case (2 listed ts)
  have "map th_timeline listed = map fst (sort_key fst (group_histories objects))"
    unfolding 2(2) by (rule listed_timelines)
  moreover have "distinct (map fst (sort_key fst (group_histories objects)))"
    using distinct_group_histories by (simp add: distinct_map)
  moreover have "set ts \<inter> fst ` set (group_histories objects) = {}"
    using 2(5) by (auto simp: map_of_eq_None_iff)
  moreover have "map th_timeline (map (missing_history wal) ts) = ts"
    by (simp add: comp_def)
  ultimately have "distinct (map th_timeline (listed @ map (missing_history wal) ts))"
    using 2(4) by (simp only: map_append distinct_append set_map set_sort) (simp add: Int_commute)
  then show ?thesis
    unfolding 2(3) using distinct_map_inj by (intro strict_sorted_sort_key) blast+
qed

lemma analyze_histories_mem:
  assumes "analyze_histories dec rd wal objects truncated = (hs, state, reason)"
  shows "\<exists>K. \<forall>h\<in>set hs. th_state h \<in> {Healthy, Unknown} \<and> th_reason h \<noteq> ''timeline ancestry is cyclic''
        \<and> (th_state h = Healthy \<longrightarrow> history_sound wal h \<and> edges_in K (th_edges h))"
  using assms
proof (cases rule: analyze_histories_cases)
  case 1
  then show ?thesis by simp
next
  case (2 listed ts)
  have "known_ok []" by (simp add: known_ok_def)
  from timeline_entries_ok [OF this, of dec rd wal "sort_key fst (group_histories objects)"]
  obtain K where "\<forall>h\<in>set listed. th_state h \<in> {Healthy, Unknown}
      \<and> th_reason h \<noteq> ''timeline ancestry is cyclic''
      \<and> (th_state h = Healthy \<longrightarrow> history_sound wal h \<and> edges_in K (th_edges h))"
    unfolding 2(2) by blast
  then show ?thesis unfolding 2(3) by (intro exI [of _ K]) auto
qed

text \<open>
  A healthy history was read: its timeline has exactly one history object, and its edges are
  those that the content of this object parses to.
\<close>

definition history_read ::
  "(string \<Rightarrow> string \<Rightarrow> opened) \<Rightarrow> reader \<Rightarrow> int \<Rightarrow> history_object list \<Rightarrow> timeline_history \<Rightarrow> bool" where
  "history_read decompress rd sz objects h \<longleftrightarrow>
     (\<exists>ob data. filter (\<lambda>ob. ho_timeline ob = th_timeline h) objects = [ob] \<and> th_key h = ho_key ob
        \<and> read_history decompress rd ob = Some data
        \<and> parse_history data (th_timeline h) sz = Inr (th_edges h))"

lemma timeline_entry_read:
  assumes "timeline_entry dec rd wal known (t, l) = (h, known')" "th_state h = Healthy"
  shows "th_timeline h = t \<and> (\<exists>ob data. l = [ob] \<and> th_key h = ho_key ob
    \<and> read_history dec rd ob = Some data \<and> parse_history data t (sw_segment_size wal) = Inr (th_edges h))"
  using assms unfolding timeline_entry_def Let_def
  by (cases l) (auto split: if_splits option.splits sum.splits)

lemma timeline_entries_read:
  assumes "h \<in> set (timeline_entries dec rd wal known entries)" "th_state h = Healthy"
  shows "\<exists>l ob data. (th_timeline h, l) \<in> set entries \<and> l = [ob] \<and> th_key h = ho_key ob
    \<and> read_history dec rd ob = Some data
    \<and> parse_history data (th_timeline h) (sw_segment_size wal) = Inr (th_edges h)"
  using assms
proof (induction entries arbitrary: known)
  case (Cons entry rest)
  obtain g known' where e: "timeline_entry dec rd wal known entry = (g, known')"
    by (cases "timeline_entry dec rd wal known entry")
  then consider "h = g" | "h \<in> set (timeline_entries dec rd wal known' rest)"
    using Cons.prems(1) by auto
  then show ?case
  proof cases
    case 1
    obtain t l where "entry = (t, l)" by (cases entry)
    then show ?thesis using timeline_entry_read [of dec rd wal known t l g known'] e 1 Cons.prems(2) by auto
  next
    case 2
    then show ?thesis using Cons.IH [OF _ Cons.prems(2)] by fastforce
  qed
qed simp

lemma group_histories_mem:
  assumes "(t, l) \<in> set (group_histories objects)"
  shows "filter (\<lambda>ob. ho_timeline ob = t) objects = l"
proof -
  have "map_of (group_histories objects) t = Some l"
    using assms distinct_group_histories by simp
  then show ?thesis unfolding group_histories_def map_of_group_foldl by (auto simp: Let_def split: if_splits)
qed

lemma healthy_history_read:
  assumes "analyze_histories dec rd wal objects truncated = (hs, state, reason)"
    and "h \<in> set hs" "th_state h = Healthy"
  shows "history_read dec rd (sw_segment_size wal) objects h"
  using assms(1)
proof (cases rule: analyze_histories_cases)
  case 1
  then show ?thesis using assms(2) by simp
next
  case (2 listed ts)
  then have "h \<in> set (timeline_entries dec rd wal [] (sort_key fst (group_histories objects)))"
    using assms(2,3) by auto
  from timeline_entries_read [OF this assms(3)] show ?thesis
    by (auto simp: history_read_def dest!: group_histories_mem)
qed

lemma history_sound_nonzero:
  "(\<And>h. h \<in> set hs \<Longrightarrow> th_state h = Healthy \<Longrightarrow> history_sound wal h) \<Longrightarrow> edges_nonzero hs"
  by (fastforce simp: edges_nonzero_def history_sound_def list_all_iff edge_exact_def)

section \<open>The roll-up\<close>

interpretation cr: state_rollup conservative_recovery_state
proof unfold_locales
  fix a b assume "valid_state a" "valid_state b"
  then show "conservative_recovery_state a b = max a b"
    by (cases a; cases b) (simp_all add: conservative_recovery_state_def max_def valid_state_def
        less_eq_state_def)
qed

lemma coverage_rollup_state:
  "paths \<noteq> [] \<Longrightarrow> fst (coverage_rollup paths) = cr.rollup Healthy (map rp_state paths)"
  by (simp add: coverage_rollup_def cr.rollup_def Let_def split: state.splits)

lemma recovery_paths_mem:
  assumes "p \<in> set (recovery_paths backups wal hs)"
  shows "\<exists>b\<in>set backups. bk_state b = Healthy \<and> path_of wal hs b p"
proof (cases "conflicting_system_ids backups")
  case True
  then show ?thesis
    using assms by (auto simp: recovery_paths_def sort_recovery_paths_def path_of_def)
next
  case False
  have "list_all (\<lambda>p. \<exists>b\<in>set backups. bk_state b = Healthy \<and> path_of wal hs b p)
      (all_backup_paths wal hs backups [])"
    by (rule all_backup_paths_all) auto
  then show ?thesis
    using assms False by (auto simp: recovery_paths_def sort_recovery_paths_def list_all_iff)
qed

lemma healthy_path_sound:
  assumes "p \<in> set (recovery_paths backups wal histories)" and "rp_state p = Healthy"
    and "ranges_ok sz (sw_ranges wal)"
  shows "\<exists>b t s e edges. b \<in> set backups \<and> bk_state b = Healthy \<and> rp_backup_id p = bk_id b
     \<and> sw_state wal \<noteq> Unknown \<and> sw_segment_size wal = bk_segment_size b
     \<and> backup_range b = Inr (t, s, e) \<and> covered wal t s e
     \<and> path_covered wal t e edges (rp_frontier_position p)
     \<and> rp_target p = (if edges = [] then t else he_child (last edges))
     \<and> rp_frontier_timeline p = rp_target p
     \<and> (edges \<noteq> [] \<longrightarrow> (\<exists>h\<in>set histories. \<exists>rest. th_state h = Healthy
          \<and> descendant_edges (th_edges h) t = edges @ rest
          \<and> \<not> branch_before_backup (hd edges) b e))"
proof -
  obtain b where b: "b \<in> set backups" "bk_state b = Healthy" "path_of wal histories b p"
    using recovery_paths_mem [OF assms(1)] by blast
  have "\<not> (\<exists>r t. p = (unknown_path b r)\<lparr>rp_target := t\<rparr>)" using assms(2) by auto
  then obtain t s e edges where r: "backup_range b = Inr (t, s, e)"
    and size: "sw_segment_size wal = bk_segment_size b"
    and p: "p = evaluate_path b wal t s e (if edges = [] then t else he_child (last edges)) edges"
    and src: "edges \<noteq> [] \<longrightarrow> (\<exists>h\<in>set histories. \<exists>rest. th_state h = Healthy
          \<and> descendant_edges (th_edges h) t = edges @ rest
          \<and> \<not> branch_before_backup (hd edges) b e)"
    using b(3) unfolding path_of_def by blast
  note ev = evaluate_path_Healthy [OF assms(2) [unfolded p] assms(3)]
  have "rp_target p = (if edges = [] then t else he_child (last edges))"
    "rp_frontier_timeline p = (if edges = [] then t else he_child (last edges))"
    "rp_backup_id p = bk_id b"
    using ev(4) by (simp_all only: p evaluate_path_fields)
  moreover have "path_covered wal t e edges (rp_frontier_position p)" using ev(3) by (simp only: p)
  ultimately show ?thesis using b(1,2) r size ev(1,2) src by (intro exI conjI) simp_all
qed

section \<open>Switch segments\<close>

text \<open>
  Every switch segment of a chain of edges is archived on the parent and on the child, and no
  switchpoint lies before the position that the path has reached.
\<close>

fun switches_observed :: "server_wal \<Rightarrow> u32 \<Rightarrow> u64 \<Rightarrow> history_edge list \<Rightarrow> bool" where
  "switches_observed wal t pos [] \<longleftrightarrow> True"
| "switches_observed wal t pos (e # es) \<longleftrightarrow> pos \<le> he_switch_position e
     \<and> (t, he_switch_position e) \<in> ranges_cover (sw_ranges wal)
     \<and> (he_child e, he_switch_position e) \<in> ranges_cover (sw_ranges wal)
     \<and> switches_observed wal (he_child e) (he_switch_position e) es"

text \<open>The end LSN of a backup, where it has one, does not lie before the segment it ends in.\<close>

definition end_lsn_ok :: "backup \<Rightarrow> u64 \<Rightarrow> bool" where
  "end_lsn_ok b e \<longleftrightarrow> bk_end_lsn b = []
     \<or> (\<exists>l. parse_lsn (bk_end_lsn b) = Inr l \<and> e \<le> l div word_of_int (bk_segment_size b))"

definition positions_rise :: "history_edge list \<Rightarrow> bool" where
  "positions_rise es \<longleftrightarrow> sorted (map he_switch_position es)"

lemma word_div_mono: "(a :: u64) \<le> b \<Longrightarrow> a div c \<le> b div c"
  by (simp add: word_le_nat_alt unat_div div_le_mono)

lemma edge_chain_positions:
  "edge_chain t es \<Longrightarrow> list_all (edge_exact sz) es \<Longrightarrow> positions_rise es"
proof (induction t es rule: edge_chain.induct)
  case (3 t e f es)
  have IH: "positions_rise (f # es)" using 3 by simp
  have "he_switch_lsn e \<le> he_switch_lsn f" using 3(2) by (simp add: less_imp_le)
  then have "he_switch_position e \<le> he_switch_position f"
    using 3(3) word_div_mono by (simp add: edge_exact_def)
  then show ?case using IH by (auto simp: positions_rise_def intro: order_trans)
qed (simp_all add: positions_rise_def)

lemma path_covered_switches:
  "path_covered wal t pos es f \<Longrightarrow> positions_rise es \<Longrightarrow> (es \<noteq> [] \<longrightarrow> pos \<le> he_switch_position (hd es)) \<Longrightarrow>
     switches_observed wal t pos es"
proof (induction es arbitrary: t pos)
  case (Cons e es)
  have "covered wal t pos (he_switch_position e)" "pos \<le> he_switch_position e" using Cons.prems by simp_all
  then have "(t, he_switch_position e) \<in> ranges_cover (sw_ranges wal)" by (simp add: covered_def)
  moreover have "switches_observed wal (he_child e) (he_switch_position e) es"
    using Cons.prems by (intro Cons.IH) (auto simp: positions_rise_def neq_Nil_conv)
  ultimately show ?case using Cons.prems by simp
qed simp

lemma positions_rise_part:
  "positions_rise es \<Longrightarrow> descendant_edges es t = xs @ rest \<Longrightarrow> positions_rise xs"
proof -
  assume "positions_rise es" and d: "descendant_edges es t = xs @ rest"
  moreover have "es = takeWhile (\<lambda>e. he_parent e \<noteq> t) es @ xs @ rest"
    using d unfolding descendant_edges_def by (metis takeWhile_dropWhile_id)
  ultimately show "positions_rise xs" unfolding positions_rise_def by (metis map_append sorted_append)
qed

text \<open>A history that is not before a backup switches at or after the end of the backup.\<close>

lemma branch_after_end:
  assumes "\<not> branch_before_backup e b end'" "end_lsn_ok b end'"
    and "he_switch_position e = he_switch_lsn e div word_of_int (bk_segment_size b)"
  shows "end' \<le> he_switch_position e"
proof (cases "bk_end_lsn b = []")
  case True
  then show ?thesis using assms(1) by (simp add: branch_before_backup_def)
next
  case False
  then obtain l where l: "parse_lsn (bk_end_lsn b) = Inr l" "end' \<le> l div word_of_int (bk_segment_size b)"
    using assms(2) by (auto simp: end_lsn_ok_def)
  with False assms(1) have "l \<le> he_switch_lsn e" by (simp add: branch_before_backup_def)
  then show ?thesis using word_div_mono l(2) order_trans unfolding assms(3) by blast
qed

text \<open>
  Along an accepted history a healthy path has its switch segments on both timelines, those
  after the first branch always and that of the first branch if the backup ends where its end
  LSN says.
\<close>

lemma healthy_path_switches:
  assumes "path_covered wal t e edges f0" "sw_segment_size wal = bk_segment_size b"
    and "edges \<noteq> [] \<Longrightarrow> history_sound wal h \<and> descendant_edges (th_edges h) t = edges @ rest
      \<and> \<not> branch_before_backup (hd edges) b e"
  shows "(edges \<noteq> [] \<longrightarrow> switches_observed wal (he_child (hd edges)) (he_switch_position (hd edges)) (tl edges))
     \<and> (end_lsn_ok b e \<longrightarrow> switches_observed wal t e edges)"
proof (cases edges)
  case (Cons f es)
  note h = assms(3)
  have ne: "edges \<noteq> []" using Cons by simp
  have sound: "edge_chain (th_timeline h) (th_edges h)" "list_all (edge_exact (sw_segment_size wal)) (th_edges h)"
    using h [OF ne] by (simp_all add: history_sound_def)
  have "f \<in> set (th_edges h)"
    using h [OF ne] set_descendant [of "th_edges h" t] Cons by (metis list.set_intros(1) Un_iff set_append subsetD)
  then have "he_switch_position f = he_switch_lsn f div word_of_int (bk_segment_size b)"
    using sound(2) assms(2) by (auto simp: list_all_iff edge_exact_def)
  then have first: "e \<le> he_switch_position f" if "end_lsn_ok b e"
    using branch_after_end h [OF ne] that Cons by (metis list.sel(1))
  have rise: "positions_rise edges"
    using positions_rise_part [OF edge_chain_positions [OF sound]] h [OF ne] by blast
  then have "positions_rise es" "es \<noteq> [] \<longrightarrow> he_switch_position f \<le> he_switch_position (hd es)"
    using Cons by (cases es; simp add: positions_rise_def)+
  then have "switches_observed wal (he_child f) (he_switch_position f) es"
    using assms(1) Cons by (intro path_covered_switches [of wal _ _ es f0]) simp_all
  moreover have "switches_observed wal t e edges" if "end_lsn_ok b e"
    using path_covered_switches [OF assms(1) rise] first [OF that] Cons by simp
  ultimately show ?thesis using Cons by simp
qed simp

text \<open>What a healthy path over analysed histories says of the archive.\<close>

lemma healthy_path_observed:
  assumes hs: "analyze_histories decompress rd wal objects truncated = (histories, st, reason)"
    and p: "p \<in> set (recovery_paths backups wal histories)" "rp_state p = Healthy"
      "ranges_ok sz (sw_ranges wal)"
  shows "\<exists>b t s e edges. b \<in> set backups \<and> bk_state b = Healthy \<and> rp_backup_id p = bk_id b
     \<and> sw_state wal \<noteq> Unknown \<and> sw_segment_size wal = bk_segment_size b
     \<and> backup_range b = Inr (t, s, e) \<and> covered wal t s e
     \<and> path_covered wal t e edges (rp_frontier_position p)
     \<and> rp_target p = (if edges = [] then t else he_child (last edges))
     \<and> rp_frontier_timeline p = rp_target p
     \<and> (edges \<noteq> [] \<longrightarrow> (\<exists>h\<in>set histories. \<exists>rest. th_state h = Healthy
          \<and> history_read decompress rd (sw_segment_size wal) objects h
          \<and> history_sound wal h \<and> descendant_edges (th_edges h) t = edges @ rest
          \<and> \<not> branch_before_backup (hd edges) b e))
     \<and> (edges \<noteq> [] \<longrightarrow> switches_observed wal (he_child (hd edges)) (he_switch_position (hd edges)) (tl edges))
     \<and> (end_lsn_ok b e \<longrightarrow> switches_observed wal t e edges)"
proof -
  from healthy_path_sound [OF p]
  obtain b t s e edges where b: "b \<in> set backups" "bk_state b = Healthy" "rp_backup_id p = bk_id b"
     "sw_state wal \<noteq> Unknown" "sw_segment_size wal = bk_segment_size b"
     "backup_range b = Inr (t, s, e)" "covered wal t s e"
     "path_covered wal t e edges (rp_frontier_position p)"
     "rp_target p = (if edges = [] then t else he_child (last edges))"
     "rp_frontier_timeline p = rp_target p"
    and src: "edges \<noteq> [] \<longrightarrow> (\<exists>h\<in>set histories. \<exists>rest. th_state h = Healthy
          \<and> descendant_edges (th_edges h) t = edges @ rest \<and> \<not> branch_before_backup (hd edges) b e)"
    by blast
  have sound: "history_sound wal h \<and> history_read decompress rd (sw_segment_size wal) objects h"
    if "h \<in> set histories" "th_state h = Healthy" for h
    using analyze_histories_mem [OF hs] healthy_history_read [OF hs] that by blast
  then obtain h rest where h: "edges \<noteq> [] \<Longrightarrow> h \<in> set histories \<and> th_state h = Healthy \<and> history_sound wal h
      \<and> history_read decompress rd (sw_segment_size wal) objects h
      \<and> descendant_edges (th_edges h) t = edges @ rest \<and> \<not> branch_before_backup (hd edges) b e"
    using src by blast
  have sw: "edges \<noteq> [] \<longrightarrow> switches_observed wal (he_child (hd edges)) (he_switch_position (hd edges)) (tl edges)"
    "end_lsn_ok b e \<longrightarrow> switches_observed wal t e edges"
    using h healthy_path_switches [OF b(8,5), of h rest] by blast+
  have "edges \<noteq> [] \<longrightarrow> (\<exists>h\<in>set histories. \<exists>rest. th_state h = Healthy
          \<and> history_read decompress rd (sw_segment_size wal) objects h
          \<and> history_sound wal h \<and> descendant_edges (th_edges h) t = edges @ rest
          \<and> \<not> branch_before_backup (hd edges) b e)" using h by blast
  note all = b this sw
  show ?thesis by (intro exI conjI) (rule all)+
qed

section \<open>Properties\<close>

text \<open>
  C21. A parsed history file is the ancestry it states: at most 128 records that form one chain
  of timelines ending in the file's own, with increasing switchpoints, where every switch
  segment is the segment of the child timeline that holds the switch LSN.
\<close>

theorem parse_history_chain:
  assumes "parse_history data target sz = Inr edges"
  shows "edges \<noteq> [] \<and> length edges \<le> MaxHistoryEntries \<and> edge_chain target edges
     \<and> list_all (edge_exact sz) edges"
  using parse_history_ok [OF assms] by simp

text \<open>
  C20. The histories of a server are consistent: they are listed once each in timeline order,
  an accepted history is a correct chain that agrees with every other accepted history on
  their common edges and with the archived ranges of its timelines, a cyclic ancestry is
  never reported, and when the verdict is healthy the ancestry of every archived timeline is
  known.
\<close>

theorem histories_consistent:
  assumes "analyze_histories decompress rd wal objects truncated = (hs, state, reason)"
  shows "sorted_wrt (\<lambda>a b. th_timeline a < th_timeline b) hs
    \<and> (\<forall>h\<in>set hs. th_reason h \<noteq> ''timeline ancestry is cyclic''
         \<and> (th_state h = Healthy \<longrightarrow> history_sound wal h))
    \<and> (\<forall>g\<in>set hs. \<forall>h\<in>set hs. th_state g = Healthy \<and> th_state h = Healthy \<longrightarrow>
         (\<forall>e\<in>set (th_edges g). \<forall>f\<in>set (th_edges h). he_child e = he_child f \<longrightarrow> e = f))
    \<and> (state = Healthy \<longrightarrow> (\<forall>h\<in>set hs. th_state h = Healthy)
         \<and> (\<forall>r\<in>set (sw_ranges wal). 1 < wr_timeline r \<longrightarrow>
              (\<exists>h\<in>set hs. th_timeline h = wr_timeline r \<or> wr_timeline r \<in> he_child ` set (th_edges h))))"
proof (intro conjI)
  show "sorted_wrt (\<lambda>a b. th_timeline a < th_timeline b) hs"
    by (rule analyze_histories_sorted [OF assms])
  obtain K where K: "\<forall>h\<in>set hs. th_state h \<in> {Healthy, Unknown}
      \<and> th_reason h \<noteq> ''timeline ancestry is cyclic''
      \<and> (th_state h = Healthy \<longrightarrow> history_sound wal h \<and> edges_in K (th_edges h))"
    using analyze_histories_mem [OF assms] by blast
  then show "\<forall>h\<in>set hs. th_reason h \<noteq> ''timeline ancestry is cyclic''
      \<and> (th_state h = Healthy \<longrightarrow> history_sound wal h)" by blast
  show "\<forall>g\<in>set hs. \<forall>h\<in>set hs. th_state g = Healthy \<and> th_state h = Healthy \<longrightarrow>
      (\<forall>e\<in>set (th_edges g). \<forall>f\<in>set (th_edges h). he_child e = he_child f \<longrightarrow> e = f)"
  proof (intro ballI impI)
    fix g h e f assume a: "g \<in> set hs" "h \<in> set hs" "th_state g = Healthy \<and> th_state h = Healthy"
      "e \<in> set (th_edges g)" "f \<in> set (th_edges h)" "he_child e = he_child f"
    then have "map_of K (he_child e) = Some e" "map_of K (he_child f) = Some f"
      using K unfolding edges_in_def by blast+
    then show "e = f" using a(6) by (metis option.inject)
  qed
  show "state = Healthy \<longrightarrow> (\<forall>h\<in>set hs. th_state h = Healthy)
         \<and> (\<forall>r\<in>set (sw_ranges wal). 1 < wr_timeline r \<longrightarrow>
              (\<exists>h\<in>set hs. th_timeline h = wr_timeline r \<or> wr_timeline r \<in> he_child ` set (th_edges h)))"
  proof
    assume h: "state = Healthy"
    from assms show "(\<forall>h\<in>set hs. th_state h = Healthy)
         \<and> (\<forall>r\<in>set (sw_ranges wal). 1 < wr_timeline r \<longrightarrow>
              (\<exists>h\<in>set hs. th_timeline h = wr_timeline r \<or> wr_timeline r \<in> he_child ` set (th_edges h)))"
    proof (cases rule: analyze_histories_cases)
      case 1
      then show ?thesis using h by simp
    next
      case (2 listed ts)
      have healthy: "\<forall>h\<in>set hs. th_state h = Healthy" using 2(7) h by blast
      have tls: "th_timeline ` set listed = ho_timeline ` set objects"
        using arg_cong [OF listed_timelines [of decompress rd wal objects], of set]
        by (simp add: 2(2) group_timelines)
      have sub: "set listed \<subseteq> set hs" and mis: "missing_history wal ` set ts \<subseteq> set hs"
        unfolding 2(3) by auto
      have ts: "ts = []" using healthy mis by (cases ts) auto
      show ?thesis
      proof (intro conjI healthy ballI impI)
        fix r assume "r \<in> set (sw_ranges wal)" "1 < wr_timeline r"
        then consider "wr_timeline r \<in> th_timeline ` set listed"
          | h where "h \<in> set listed" "wr_timeline r \<in> he_child ` set (th_edges h)"
          using 2(6) ts tls by (metis empty_iff list.set(1))
        then show "\<exists>h\<in>set hs. th_timeline h = wr_timeline r \<or> wr_timeline r \<in> he_child ` set (th_edges h)"
        proof cases
          case 1
          then show ?thesis using sub by (metis imageE subsetD)
        next
          case 2
          then show ?thesis using sub by blast
        qed
      qed
    qed
  qed
qed


section \<open>A concrete history\<close>

definition ex_history :: string where
  "ex_history = ''1'' @ TAB # ''0/28'' @ TAB # ''x''"

definition ex_edge :: history_edge where
  "ex_edge = \<lparr>he_parent = 1, he_child = 2, he_switch_lsn = 40, he_switch_position = 0,
     he_switch_wal = wal_text 2 0 0\<rparr>"

lemma ex_lsn: "parse_lsn ''0/28'' = Inr 40"
proof -
  have "cut_at ''/'' ''0/28'' = Some (''0'', ''28'')" "is_hex ''0''" "is_hex ''28''"
    "hex_value ''0'' = 0" "hex_value ''28'' = 40" by code_simp+
  then show ?thesis by (simp add: parse_lsn_def)
qed

lemma ex_entry: "history_entries [] [ex_history] = Inr [(1, 40)]"
proof -
  have t: "trim_space ex_history = ex_history" "ex_history \<noteq> []" "\<not> has_prefix ex_history ''#''"
    by code_simp+
  have f: "split_n 3 TAB ex_history = [''1'', ''0/28'', ''x'']" by code_simp
  have w: "trim_space ''1'' = ''1''" "trim_space ''0/28'' = ''0/28''" "trim_space ''x'' = ''x''"
    "\<not> has_control ''x''" by code_simp+
  have d: "list_all is_digit ''1''" "dec_value ''1'' = 1" by code_simp+
  have "parse_uint 32 ''1'' = Some 1" using d by (simp add: parse_uint_def)
  then have "history_entry ex_history = Inr (1, 40)"
    by (simp add: history_entry_def Let_def f w ex_lsn ascii_control_def)
  then show ?thesis using t by (simp add: Let_def MaxHistoryEntries_def)
qed

lemma ex_position2: "wal_position 2 0 0 16777216 = Inr 0"
  by (simp add: wal_position_def ex_size)

lemma ex_parse_history: "parse_history ex_history 2 16777216 = Inr [ex_edge]"
proof -
  have "scan_lines 4096 ex_history = ([ex_history], False)"
    by (simp add: scan_lines_def raw_lines_def drop_cr_def Let_def ex_history_def TAB_def)
  moreover have "ex_history \<noteq> []" "length ex_history \<le> MaxHistoryDecompressedBytes"
    by (simp_all add: ex_history_def MaxHistoryDecompressedBytes_def)
  moreover have "wal_name 2 0 16777216 = Inr (wal_text 2 0 0)"
    by (rule wal_name_of_position [OF ex_position2])
  moreover have "\<not> (2 :: u32) \<le> 1" by (simp add: word_le_nat_alt)
  ultimately show ?thesis
    using ex_entry by (simp add: parse_history_def ex_size ex_edge_def del: history_entries.simps)
qed

lemma parse_history_chain_witness: "edge_chain 2 [ex_edge] \<and> list_all (edge_exact 16777216) [ex_edge]"
  using parse_history_chain [OF ex_parse_history] by simp


definition ex_history_object :: history_object where
  "ex_history_object = \<lparr>ho_key = ''s/wals/00000002.history'', ho_server = ''s'',
     ho_name = ''00000002.history'', ho_compression = ''none'', ho_timeline = 2\<rparr>"

definition ex_history_reader :: reader where
  "ex_history_reader = ex_reader\<lparr>rd_open := \<lambda>q. Content ex_history\<rparr>"

definition ex_wal :: server_wal where
  "ex_wal = empty_server_wal\<lparr>sw_server := ''s'', sw_segment_size := 16777216, sw_state := Healthy,
     sw_ranges := [ex_range 1 3]\<rparr>"

definition ex_timeline :: timeline_history where
  "ex_timeline = \<lparr>th_server = ''s'', th_key = ''s/wals/00000002.history'', th_timeline = 2,
     th_state = Healthy, th_reason = ''timeline ancestry parsed'', th_edges = [ex_edge]\<rparr>"

lemma ex_read_history: "read_history dec ex_history_reader ex_history_object = Some ex_history"
  by (simp add: read_history_def ex_history_reader_def history_reader_def ex_history_object_def
      MaxHistoryObjectBytes_def MaxHistoryDecompressedBytes_def ex_history_def)

lemma ex_fields:
  "ho_key ex_history_object = ''s/wals/00000002.history''" "ho_timeline ex_history_object = 2"
  "sw_segment_size ex_wal = 16777216" "sw_server ex_wal = ''s''"
  by (simp_all add: ex_history_object_def ex_wal_def)

lemma ex_histories:
  "analyze_histories dec ex_history_reader ex_wal [ex_history_object] False
     = ([ex_timeline], Healthy, ''all required timeline histories parsed'')"
proof -
  have "cycle_in_edges [(2, ex_edge)] = False"
    using cycle_in_edges_False [of "[(2, ex_edge)]"] by (simp add: known_ok_def ex_edge_def)
  moreover have "child_ranges_agree [ex_edge] (sw_ranges ex_wal)"
    by (simp add: child_ranges_agree_def ex_edge_def ex_wal_def ranges_for_timeline_def ex_range_def)
  moreover have "group_histories [ex_history_object] = [(2, [ex_history_object])]"
    by (simp add: group_histories_def ex_history_object_def)
  moreover have "history_edges_agree [ex_edge] [] = Some [(2, ex_edge)]"
    by (simp add: history_edges_agree_def ex_edge_def)
  moreover have "timeline_entry dec ex_history_reader ex_wal [] (2, [ex_history_object])
      = (ex_timeline, [(2, ex_edge)])"
    using calculation(1,2,4) ex_parse_history
    by (simp add: timeline_entry_def Let_def ex_read_history ex_timeline_def ex_fields)
  ultimately show ?thesis
    by (simp add: analyze_histories_def observed_timelines_def)
      (simp add: ex_timeline_def ex_wal_def ex_range_def ex_history_object_def)
qed

lemma histories_consistent_witness:
  "history_sound ex_wal ex_timeline"
  using histories_consistent [OF ex_histories [of "\<lambda>_ _. OpenFailed"]] by (simp add: ex_timeline_def)


definition ex_anchor :: backup where
  "ex_anchor = empty_backup\<lparr>bk_server := ''s'', bk_id := ''b'', bk_state := Healthy,
     bk_segment_size := 16777216, bk_begin_wal := wal_text 1 0 1, bk_end_wal := wal_text 1 0 2\<rparr>"

lemma ex_anchor_range: "backup_range ex_anchor = Inr (1, 1, 2)"
proof -
  have "parse_wal_name (wal_text 1 0 1) 16777216 = Inr (1, 1)"
    "parse_wal_name (wal_text 1 0 2) 16777216 = Inr (1, 2)"
    using ex_position [of 1] ex_position [of 2] by (simp_all add: parse_wal_text)
  then show ?thesis by (simp add: backup_range_def ex_anchor_def empty_backup_def)
qed

lemma ex_ranges_ok: "ranges_ok 16777216 (sw_ranges ex_wal)"
  using build_ranges_inv [of 16777216 "''s''" "ex_wals [1, 2, 3]"]
  unfolding ex_ranges_full by (simp add: conversion_inv_def ex_wal_def)

lemma ex_paths: "map rp_state (recovery_paths [ex_anchor] ex_wal []) = [Healthy]"
proof -
  have "conflicting_system_ids [ex_anchor] = False"
    by (simp add: conflicting_system_ids_def ex_anchor_def empty_backup_def)
  moreover have "rp_state (evaluate_path ex_anchor ex_wal 1 1 2 1 []) = Healthy"
    by (simp add: evaluate_path_def ex_wal_def reach_position_def ranges_for_timeline_def ex_range_def
        reach_state_tuple contiguous_frontier_def Let_def)
  moreover have "observed_timelines ex_wal = [1]"
    by (simp add: observed_timelines_def ex_wal_def ex_range_def)
  ultimately show ?thesis
    using ex_anchor_range
    by (simp add: recovery_paths_def sort_recovery_paths_def backup_paths_def)
      (simp add: ex_anchor_def ex_wal_def)
qed

text \<open>Timeline 2 branches off in segment 3, after the end of the backup in segment 2.\<close>

definition ex_branch_history :: string where
  "ex_branch_history = ''1'' @ TAB # ''0/3000028'' @ TAB # ''x''"

definition ex_branch_edge :: history_edge where
  "ex_branch_edge = \<lparr>he_parent = 1, he_child = 2, he_switch_lsn = 0x3000028, he_switch_position = 3,
     he_switch_wal = wal_text 2 0 3\<rparr>"

definition ex_branch_range :: "u32 \<Rightarrow> u64 \<Rightarrow> u64 \<Rightarrow> string \<Rightarrow> string \<Rightarrow> wal_range" where
  "ex_branch_range t a b n m = \<lparr>wr_timeline = t, wr_start = a, wr_end = b, wr_count = b - a + 1, wr_first = n,
     wr_last = m, wr_latest_receipt = zero_time, wr_end_receipt = zero_time\<rparr>"

definition ex_branch_wal :: server_wal where
  "ex_branch_wal = ex_wal\<lparr>sw_ranges := [ex_branch_range 1 1 3 (wal_text 1 0 1) (wal_text 1 0 3),
     ex_branch_range 2 3 4 (wal_text 2 0 3) (wal_text 2 0 4)]\<rparr>"

definition ex_branch_reader :: reader where
  "ex_branch_reader = ex_reader\<lparr>rd_open := \<lambda>q. Content ex_branch_history\<rparr>"

lemma ex_branch_lsn: "parse_lsn ''0/3000028'' = Inr 0x3000028"
proof -
  have "cut_at ''/'' ''0/3000028'' = Some (''0'', ''3000028'')" "is_hex ''0''" "is_hex ''3000028''"
    "hex_value ''0'' = 0" by code_simp+
  moreover have "hex_value ''3000028'' = 0x3000028" by (simp add: hex_value_def hex_val_def is_digit_def is_upper_hex_def)
  ultimately show ?thesis by (simp add: parse_lsn_def)
qed

lemma ex_branch_entry: "history_entries [] [ex_branch_history] = Inr [(1, 0x3000028)]"
proof -
  have t: "trim_space ex_branch_history = ex_branch_history" "ex_branch_history \<noteq> []"
    "\<not> has_prefix ex_branch_history ''#''" by code_simp+
  have f: "split_n 3 TAB ex_branch_history = [''1'', ''0/3000028'', ''x'']" by code_simp
  have w: "trim_space ''1'' = ''1''" "trim_space ''0/3000028'' = ''0/3000028''" "trim_space ''x'' = ''x''"
    "\<not> has_control ''x''" by code_simp+
  have d: "list_all is_digit ''1''" "dec_value ''1'' = 1" by code_simp+
  have "parse_uint 32 ''1'' = Some 1" using d by (simp add: parse_uint_def)
  then have "history_entry ex_branch_history = Inr (1, 0x3000028)"
    by (simp add: history_entry_def Let_def f w ex_branch_lsn ascii_control_def)
  then show ?thesis using t by (simp add: Let_def MaxHistoryEntries_def)
qed

lemma ex_parse_branch: "parse_history ex_branch_history 2 16777216 = Inr [ex_branch_edge]"
proof -
  have "scan_lines 4096 ex_branch_history = ([ex_branch_history], False)"
    by (simp add: scan_lines_def raw_lines_def drop_cr_def Let_def ex_branch_history_def TAB_def)
  moreover have "ex_branch_history \<noteq> []" "length ex_branch_history \<le> MaxHistoryDecompressedBytes"
    by (simp_all add: ex_branch_history_def MaxHistoryDecompressedBytes_def)
  moreover have "history_edges 2 16777216 None [(1, 0x3000028)] = Inr [ex_branch_edge]" by code_simp
  moreover have "\<not> (2 :: u32) \<le> 1" by (simp add: word_le_nat_alt)
  ultimately show ?thesis
    using ex_branch_entry by (simp add: parse_history_def ex_size del: history_entries.simps history_edges.simps)
qed

definition ex_branch_timeline :: timeline_history where
  "ex_branch_timeline = ex_timeline\<lparr>th_edges := [ex_branch_edge]\<rparr>"

lemma ex_branch_histories:
  "analyze_histories dec ex_branch_reader ex_branch_wal [ex_history_object] False
     = ([ex_branch_timeline], Healthy, ''all required timeline histories parsed'')"
proof -
  have "cycle_in_edges [(2, ex_branch_edge)] = False"
    using cycle_in_edges_False [of "[(2, ex_branch_edge)]"] by (simp add: known_ok_def ex_branch_edge_def)
  moreover have "child_ranges_agree [ex_branch_edge] (sw_ranges ex_branch_wal)" by code_simp
  moreover have "group_histories [ex_history_object] = [(2, [ex_history_object])]"
    by (simp add: group_histories_def ex_history_object_def)
  moreover have "history_edges_agree [ex_branch_edge] [] = Some [(2, ex_branch_edge)]"
    by (simp add: history_edges_agree_def ex_branch_edge_def)
  moreover have "read_history dec ex_branch_reader ex_history_object = Some ex_branch_history"
    by (simp add: read_history_def ex_branch_reader_def history_reader_def ex_history_object_def
      MaxHistoryObjectBytes_def MaxHistoryDecompressedBytes_def ex_branch_history_def)
  moreover have size: "sw_segment_size ex_branch_wal = 16777216" "sw_server ex_branch_wal = ''s''"
    by (simp_all add: ex_branch_wal_def ex_wal_def)
  ultimately have "timeline_entry dec ex_branch_reader ex_branch_wal [] (2, [ex_history_object])
      = (ex_branch_timeline, [(2, ex_branch_edge)])"
    using ex_parse_branch
    by (simp add: timeline_entry_def Let_def ex_branch_timeline_def ex_timeline_def ex_fields)
  moreover have "observed_timelines ex_branch_wal = [1, 2]"
    by (simp add: observed_timelines_def ex_branch_wal_def ex_branch_range_def)
  ultimately show ?thesis
    using \<open>group_histories _ = _\<close>
    by (simp add: analyze_histories_def)
      (simp add: ex_branch_timeline_def ex_timeline_def ex_branch_edge_def ex_history_object_def)
qed

lemma ex_branch_ranges: "ranges_ok 16777216 (sw_ranges ex_branch_wal)" by code_simp

lemma ex_branch_paths:
  "map rp_state (recovery_paths [ex_anchor] ex_branch_wal [ex_branch_timeline]) = [Healthy, Healthy]
   \<and> map rp_target (recovery_paths [ex_anchor] ex_branch_wal [ex_branch_timeline]) = [1, 2]" by code_simp

text \<open>
  Without a consistent end LSN the switch segment of the parent may be missing: here the backup
  ends in segment 6 by its end WAL and in segment 0 by its end LSN, and timeline 2 branches off in
  segment 3, which timeline 1 does not have.
\<close>

definition ex_split_anchor :: backup where
  "ex_split_anchor = ex_anchor\<lparr>bk_begin_wal := wal_text 1 0 5, bk_end_wal := wal_text 1 0 6, bk_end_lsn := ''0/1''\<rparr>"

definition ex_split_wal :: server_wal where
  "ex_split_wal = ex_wal\<lparr>sw_ranges := [ex_branch_range 1 5 10 (wal_text 1 0 5) (wal_text 1 0 10),
     ex_branch_range 2 3 8 (wal_text 2 0 3) (wal_text 2 0 8)]\<rparr>"

lemma split_backup_path:
  "map rp_state (recovery_paths [ex_split_anchor] ex_split_wal [ex_branch_timeline]) = [Healthy, Healthy]
   \<and> (1, 3) \<notin> ranges_cover (sw_ranges ex_split_wal)"
proof
  show "map rp_state (recovery_paths [ex_split_anchor] ex_split_wal [ex_branch_timeline]) = [Healthy, Healthy]" by code_simp
  have "\<not> (5::u64) \<le> 3" by (simp add: word_le_nat_alt)
  then show "(1, 3) \<notin> ranges_cover (sw_ranges ex_split_wal)"
    by (auto simp: ranges_cover_iff ex_split_wal_def ex_branch_range_def)
qed

text \<open>
  C5. A healthy recovery path over the histories that the analysis accepted is one along which
  nothing is missing: the archive holds every segment of the backup's own WAL range, every
  segment from there to each switchpoint of an accepted history, which does not branch off
  before the backup, the switch segment on the timeline the branch enters, and every segment of
  the target timeline up to the frontier, which is the last one archived there. The timeline a
  branch leaves has the switch segment too, except that for the first branch this rests on a
  backup whose end LSN does not lie before the segment of its end WAL, which the code does not
  check.
\<close>

theorem healthy_path_covered:
  assumes "analyze_histories decompress rd wal objects truncated = (histories, st, reason)"
    and "p \<in> set (recovery_paths backups wal histories)" and "rp_state p = Healthy"
    and "ranges_ok sz (sw_ranges wal)"
  shows "\<exists>b t s e edges. b \<in> set backups \<and> bk_state b = Healthy \<and> rp_backup_id p = bk_id b
     \<and> sw_state wal \<noteq> Unknown \<and> sw_segment_size wal = bk_segment_size b
     \<and> backup_range b = Inr (t, s, e) \<and> covered wal t s e
     \<and> path_covered wal t e edges (rp_frontier_position p)
     \<and> rp_target p = (if edges = [] then t else he_child (last edges))
     \<and> rp_frontier_timeline p = rp_target p
     \<and> (edges \<noteq> [] \<longrightarrow> (\<exists>h\<in>set histories. \<exists>rest. th_state h = Healthy
          \<and> history_read decompress rd (sw_segment_size wal) objects h
          \<and> history_sound wal h \<and> descendant_edges (th_edges h) t = edges @ rest
          \<and> \<not> branch_before_backup (hd edges) b e))
     \<and> (edges \<noteq> [] \<longrightarrow> switches_observed wal (he_child (hd edges)) (he_switch_position (hd edges)) (tl edges))
     \<and> (end_lsn_ok b e \<longrightarrow> switches_observed wal t e edges)"
  using healthy_path_observed [OF assms] by simp

lemma healthy_path_covered_witness:
  "\<exists>p \<in> set (recovery_paths [ex_anchor] ex_branch_wal [ex_branch_timeline]).
     rp_target p = 2 \<and> switches_observed ex_branch_wal 1 2 [ex_branch_edge]"
proof -
  obtain q p where "recovery_paths [ex_anchor] ex_branch_wal [ex_branch_timeline] = [q, p]"
    "rp_state p = Healthy" "rp_target p = 2"
    using ex_branch_paths by (auto simp: map_eq_Cons_conv)
  then have p: "p \<in> set (recovery_paths [ex_anchor] ex_branch_wal [ex_branch_timeline])"
    "rp_state p = Healthy" "rp_target p = 2" by simp_all
  from healthy_path_covered [OF ex_branch_histories [of "\<lambda>_ _. OpenFailed"] p(1,2) ex_branch_ranges]
  obtain edges rest where e: "2 = (if edges = [] then 1 else he_child (last edges))"
    "edges \<noteq> [] \<longrightarrow> descendant_edges [ex_branch_edge] 1 = edges @ rest"
    "end_lsn_ok ex_anchor 2 \<longrightarrow> switches_observed ex_branch_wal 1 2 edges"
    using ex_anchor_range p(3) by (auto simp: ex_branch_timeline_def)
  have "edges \<noteq> []" using e(1) by auto
  then have "[ex_branch_edge] = edges @ rest"
    using e(2) by (simp add: descendant_edges_def ex_branch_edge_def)
  with \<open>edges \<noteq> []\<close> have "edges = [ex_branch_edge]" by (cases edges) simp_all
  moreover have "end_lsn_ok ex_anchor 2" by (simp add: end_lsn_ok_def ex_anchor_def empty_backup_def)
  ultimately show ?thesis using p(1,3) e(3) by blast
qed

text \<open>
  The recovery paths of a server are listed once per backup and target timeline, in
  strictly increasing order: no target is evaluated twice, whichever histories lead to it.
\<close>

theorem recovery_paths_sorted:
  assumes "distinct (map bk_id (filter (\<lambda>b. bk_state b = Healthy) backups))"
    and "edges_nonzero histories"
  shows "sorted_wrt (\<lambda>p q. (rp_backup_id p, rp_target p) < (rp_backup_id q, rp_target q))
     (recovery_paths backups wal histories)"
proof -
  have strict: "sorted_wrt (\<lambda>p q. (rp_backup_id p, rp_target p) < (rp_backup_id q, rp_target q))
      (sort_recovery_paths ps)" if "distinct (map path_key ps)" for ps
    unfolding sort_recovery_paths_def using distinct_map_inj [OF that]
    by (intro strict_sorted_sort_key) (simp_all add: path_key_def [abs_def])
  show ?thesis
  proof (cases "conflicting_system_ids backups")
    case True
    have "distinct (map fst (map path_key (map (\<lambda>b. (unknown_path b
        ''backup metadata has conflicting PostgreSQL system identifiers'')\<lparr>rp_target := bk_timeline b\<rparr>)
        (filter (\<lambda>b. bk_state b = Healthy) backups))))"
      using assms(1) by (simp add: comp_def path_key_def)
    then have "distinct (map path_key (map (\<lambda>b. (unknown_path b
        ''backup metadata has conflicting PostgreSQL system identifiers'')\<lparr>rp_target := bk_timeline b\<rparr>)
        (filter (\<lambda>b. bk_state b = Healthy) backups)))"
      by (simp only: distinct_map [of fst])
    then show ?thesis using True strict by (simp only: recovery_paths_def if_True)
  next
    case False
    have "distinct (map path_key (all_backup_paths wal histories backups []))"
      using assms by (intro all_backup_paths_distinct) simp_all
    then show ?thesis using False strict by (simp only: recovery_paths_def if_False)
  qed
qed

lemma recovery_paths_sorted_witness:
  "sorted_wrt (\<lambda>p q. (rp_backup_id p, rp_target p) < (rp_backup_id q, rp_target q))
     (recovery_paths [ex_anchor] ex_wal [ex_timeline])"
  by (rule recovery_paths_sorted) (simp_all add: ex_anchor_def edges_nonzero_def ex_timeline_def ex_edge_def)

text \<open>
  The coverage state of a server is the worst state of its paths: healthy exactly if there
  is a path and all are healthy, unknown exactly if there is none or one is unknown, and never
  better than any path.
\<close>

theorem coverage_state_exact:
  assumes "s \<in> set (analyze_recovery decompress rd backups wal objects truncated options)"
  shows "(sr_coverage_state s = Healthy \<longleftrightarrow> sr_paths s \<noteq> [] \<and> (\<forall>p\<in>set (sr_paths s). rp_state p = Healthy))
     \<and> (sr_coverage_state s = Unknown \<longleftrightarrow> sr_paths s = [] \<or> (\<exists>p\<in>set (sr_paths s). rp_state p = Unknown))
     \<and> (\<forall>p\<in>set (sr_paths s). rp_state p \<le> sr_coverage_state s)"
proof -
  obtain server where s: "s = analyze_server decompress rd backups wal objects truncated options server"
    using assms by (auto simp: analyze_recovery_def)
  obtain bs w hs where paths: "sr_paths s = recovery_paths bs w hs"
    and cov: "sr_coverage_state s = fst (coverage_rollup (sr_paths s))"
    unfolding s by (simp add: analyze_server_def Let_def)
  have valid: "\<forall>x\<in>set (map rp_state (sr_paths s)). valid_state x"
    unfolding paths using recovery_paths_mem path_of_id by fastforce
  show ?thesis
  proof (cases "sr_paths s = []")
    case True
    then show ?thesis by (simp add: cov coverage_rollup_def)
  next
    case False
    have eq: "sr_coverage_state s = cr.rollup Healthy (map rp_state (sr_paths s))"
      using coverage_rollup_state [OF False] cov by simp
    have "valid_state Healthy" by simp
    note roll = cr.rollup_Healthy_iff [OF this valid] cr.rollup_Unknown_iff [OF this valid]
      cr.rollup_upper [OF this valid]
    have "Unknown \<in> insert Healthy (set (map rp_state (sr_paths s)))
        \<longleftrightarrow> (\<exists>p\<in>set (sr_paths s). rp_state p = Unknown)" by force
    then show ?thesis
      unfolding eq roll(1,2) using False roll(3) by simp
  qed
qed

lemma coverage_state_exact_witness:
  "\<exists>s. s \<in> set (analyze_recovery (\<lambda>_ _. OpenFailed) ex_reader [] [ex_wal] [] False
      \<lparr>ro_retention_policy = [], ro_minimum_redundancy = None\<rparr>) \<and> sr_coverage_state s = Unknown"
proof -
  let ?s = "analyze_server (\<lambda>_ _. OpenFailed) ex_reader [] [ex_wal] [] False
      \<lparr>ro_retention_policy = [], ro_minimum_redundancy = None\<rparr> ''s''"
  have mem: "?s \<in> set (analyze_recovery (\<lambda>_ _. OpenFailed) ex_reader [] [ex_wal] [] False
      \<lparr>ro_retention_policy = [], ro_minimum_redundancy = None\<rparr>)"
    by (simp add: analyze_recovery_def recovery_server_names_def ex_fields)
  have "sr_paths ?s = []"
    by (simp add: analyze_server_def Let_def recovery_paths_def sort_recovery_paths_def
        conflicting_system_ids_def backups_for_server_def)
  then show ?thesis using coverage_state_exact [OF mem] mem by blast
qed


definition retention_inv :: "backup list \<Rightarrow> retention \<Rightarrow> retention \<Rightarrow> bool" where
  "retention_inv done v0 v \<longleftrightarrow>
     rs_usable v = int (length (filter (\<lambda>b. bk_state b = Healthy) done))
     \<and> t_loc (rs_oldest v) = UTC \<and> t_loc (rs_newest v) = UTC
     \<and> (t_ns (rs_oldest v) = 0 \<or> t_ns (rs_oldest v) \<le> t_ns (rs_newest v))
     \<and> (\<forall>b\<in>set done. t_ns (bk_end_at b) \<le> t_ns (rs_newest v))
     \<and> rs_visible v = rs_visible v0 \<and> rs_minimum_configured v = rs_minimum_configured v0
     \<and> rs_minimum_redundancy v = rs_minimum_redundancy v0
     \<and> rs_policy_configured v = rs_policy_configured v0 \<and> rs_state v = rs_state v0
     \<and> rs_reason v = rs_reason v0"

lemma count_backup_inv:
  "retention_inv done v0 v \<Longrightarrow> retention_inv (done @ [b]) v0 (count_backup v b)"
  by (auto simp: retention_inv_def count_backup_def Let_def time_defs)

lemma foldl_count_backup:
  assumes "rs_usable v0 = 0" "rs_oldest v0 = zero_time" "rs_newest v0 = zero_time"
  shows "retention_inv bs v0 (foldl count_backup v0 bs)"
proof (induction bs rule: rev_induct)
  case Nil
  then show ?case using assms by (simp add: retention_inv_def time_defs)
next
  case (snoc b bs)
  then show ?case using count_backup_inv by simp
qed

lemma retention_reasons:
  "bounded_wal_text ''descriptive backup inventory; no retention expectation configured'' 256"
  "bounded_wal_text ''structurally usable backup count is below configured minimum'' 256"
  "bounded_wal_text ''structurally usable backup count meets configured minimum'' 256"
  "bounded_wal_text ''retention policy syntax is not interpreted in this slice'' 256"
  by (simp_all add: bounded_wal_text_def ascii_control_def)

text \<open>The result, without its reason.\<close>

lemma retention_summary_fields:
  fixes backups :: "backup list" and options :: recovery_options
  defines "usable \<equiv> int (length (filter (\<lambda>b. bk_state b = Healthy) backups))"
  defines "r \<equiv> retention_summary backups options"
  shows "rs_visible r = int (length backups)" "rs_usable r = usable"
    "rs_state r = (if ro_retention_policy options \<noteq> [] then Unknown
       else case ro_minimum_redundancy options of None \<Rightarrow> Healthy
         | Some n \<Rightarrow> if usable < n then Unhealthy else Healthy)"
    "rs_minimum_configured r = (ro_minimum_redundancy options \<noteq> None)"
    "rs_minimum_redundancy r = (case ro_minimum_redundancy options of None \<Rightarrow> 0 | Some n \<Rightarrow> n)"
    "bounded_wal_text (rs_reason r) 256"
    "t_loc (rs_oldest r) = UTC" "t_loc (rs_newest r) = UTC"
    "t_ns (rs_oldest r) = 0 \<or> t_ns (rs_oldest r) \<le> t_ns (rs_newest r)"
proof -
  let ?v0 = "\<lparr>rs_visible = int (length backups), rs_usable = 0, rs_oldest = zero_time,
             rs_newest = zero_time, rs_minimum_configured = False, rs_minimum_redundancy = 0,
             rs_policy_configured = ro_retention_policy options \<noteq> [], rs_state = Healthy,
             rs_reason = ''descriptive backup inventory; no retention expectation configured''\<rparr>"
  define v where "v = foldl count_backup ?v0 backups"
  have inv: "retention_inv backups ?v0 v" unfolding v_def by (rule foldl_count_backup) simp_all
  have eq: "r = (let w = (case ro_minimum_redundancy options of
                 None \<Rightarrow> v
               | Some n \<Rightarrow>
                   let v = v\<lparr>rs_minimum_configured := True, rs_minimum_redundancy := n\<rparr> in
                   if rs_usable v < n
                   then v\<lparr>rs_state := Unhealthy,
                          rs_reason := ''structurally usable backup count is below configured minimum''\<rparr>
                   else v\<lparr>rs_reason := ''structurally usable backup count meets configured minimum''\<rparr>)
        in if rs_policy_configured w
           then w\<lparr>rs_state := Unknown,
                  rs_reason := ''retention policy syntax is not interpreted in this slice''\<rparr> else w)"
    unfolding r_def retention_summary_def v_def by (simp only: Let_def)
  note i = inv [unfolded retention_inv_def, folded usable_def]
  show "rs_visible r = int (length backups)" "rs_usable r = usable"
    "rs_state r = (if ro_retention_policy options \<noteq> [] then Unknown
       else case ro_minimum_redundancy options of None \<Rightarrow> Healthy
         | Some n \<Rightarrow> if usable < n then Unhealthy else Healthy)"
    "rs_minimum_configured r = (ro_minimum_redundancy options \<noteq> None)"
    "rs_minimum_redundancy r = (case ro_minimum_redundancy options of None \<Rightarrow> 0 | Some n \<Rightarrow> n)"
    "bounded_wal_text (rs_reason r) 256"
    "t_loc (rs_oldest r) = UTC" "t_loc (rs_newest r) = UTC"
    "t_ns (rs_oldest r) = 0 \<or> t_ns (rs_oldest r) \<le> t_ns (rs_newest r)"
    unfolding eq using i retention_reasons
    by (cases "ro_minimum_redundancy options"; cases "ro_retention_policy options = []"; simp add: Let_def)+
qed

text \<open>
  The retention summary describes the backups it was given: the counts are exact, the
  oldest and newest completion times are in order, an unhealthy verdict means that no policy
  text is configured and fewer usable backups than the minimum are visible, and the summary
  passes the validation of the catalog.
\<close>

theorem retention_summary_exact:
  fixes backups :: "backup list" and options :: recovery_options
  assumes "\<And>n. ro_minimum_redundancy options = Some n \<Longrightarrow> 0 \<le> n"
  defines "usable \<equiv> int (length (filter (\<lambda>b. bk_state b = Healthy) backups))"
  shows "rs_visible (retention_summary backups options) = int (length backups)
     \<and> rs_usable (retention_summary backups options) = usable
     \<and> (rs_state (retention_summary backups options) = Unhealthy \<longleftrightarrow>
          ro_retention_policy options = [] \<and> (\<exists>n. ro_minimum_redundancy options = Some n \<and> usable < n))
     \<and> (rs_state (retention_summary backups options) = Unknown \<longleftrightarrow> ro_retention_policy options \<noteq> [])
     \<and> retention_ok (retention_summary backups options)"
proof -
  have le: "usable \<le> int (length backups)" "0 \<le> usable" by (simp_all add: usable_def)
  let ?r = "retention_summary backups options"
  note f = retention_summary_fields [of backups options, folded usable_def]
  have "valid_state (rs_state ?r)" by (simp add: f(3) split: option.splits)
  then have "retention_ok ?r"
    using le f(7-9) assms(1)
    by (auto simp: retention_ok_def f(1,2,4-6) utc_or_zero_def time_defs split: option.splits)
  then show ?thesis by (auto simp: f(1-3) split: option.splits)
qed

lemma retention_summary_exact_witness:
  "rs_state (retention_summary [ex_anchor] \<lparr>ro_retention_policy = [], ro_minimum_redundancy = Some 2\<rparr>)
     = Unhealthy"
  using retention_summary_exact [of "\<lparr>ro_retention_policy = [], ro_minimum_redundancy = Some 2\<rparr>"
      "[ex_anchor]"]
  by (simp add: ex_anchor_def)

end
