(* ===== verification/Recent_Heap.thy ===== *)
theory Recent_Heap
  imports Prelude
begin

text \<open>
  The heap of Go's \<open>container/heap\<close> on a slice, as the scanner uses it to keep the most
  recent objects: \<open>up\<close>, \<open>down\<close>, \<open>Push\<close> and \<open>Fix\<close>, with the index arithmetic of the
  library. The order is a parameter, and what the scanner needs of it is the locale
  \<open>heap_order\<close>: every operation keeps the heap and its elements, and the root is least.
\<close>

section \<open>Operations\<close>

definition heap_swap :: "'a list \<Rightarrow> nat \<Rightarrow> nat \<Rightarrow> 'a list" where
  "heap_swap h i j = h[i := h ! j, j := h ! i]"

definition parent :: "nat \<Rightarrow> nat" where
  "parent j = (j - 1) div 2"

function heap_up :: "('a \<Rightarrow> 'a \<Rightarrow> bool) \<Rightarrow> 'a list \<Rightarrow> nat \<Rightarrow> 'a list" where
  "heap_up lt h j =
     (if parent j = j \<or> \<not> lt (h ! j) (h ! parent j) then h
      else heap_up lt (heap_swap h (parent j) j) (parent j))"
  by pat_completeness auto
termination
  by (relation "measure (\<lambda>(_, _, j). j)") (auto simp: parent_def)

definition smaller_child :: "('a \<Rightarrow> 'a \<Rightarrow> bool) \<Rightarrow> 'a list \<Rightarrow> nat \<Rightarrow> nat" where
  "smaller_child lt h i =
     (if 2 * i + 2 < length h \<and> lt (h ! (2 * i + 2)) (h ! (2 * i + 1)) then 2 * i + 2
      else 2 * i + 1)"

function heap_down :: "('a \<Rightarrow> 'a \<Rightarrow> bool) \<Rightarrow> 'a list \<Rightarrow> nat \<Rightarrow> 'a list" where
  "heap_down lt h i =
     (if length h \<le> 2 * i + 1 \<or> \<not> lt (h ! smaller_child lt h i) (h ! i) then h
      else heap_down lt (heap_swap h i (smaller_child lt h i)) (smaller_child lt h i))"
  by pat_completeness auto
termination
  by (relation "measure (\<lambda>(_, h, i). length h - i)") (auto simp: smaller_child_def heap_swap_def)

declare heap_up.simps [simp del] heap_down.simps [simp del]

definition heap_push :: "('a \<Rightarrow> 'a \<Rightarrow> bool) \<Rightarrow> 'a list \<Rightarrow> 'a \<Rightarrow> 'a list" where
  "heap_push lt h x = heap_up lt (h @ [x]) (length h)"

text \<open>
  \<open>Fix\<close> moves the changed element down and, if it did not move, up; it is used at the root,
  where there is nothing above.
\<close>

definition heap_fix_root :: "('a \<Rightarrow> 'a \<Rightarrow> bool) \<Rightarrow> 'a list \<Rightarrow> 'a list" where
  "heap_fix_root lt h = heap_down lt h 0"

section \<open>Index arithmetic and swapping\<close>

lemma parent_less: "0 < j \<Longrightarrow> parent j < j"
  by (auto simp: parent_def)

lemma parent_eq_iff: "parent j = j \<longleftrightarrow> j = 0"
  by (auto simp: parent_def)

lemma parent_child: "0 < c \<Longrightarrow> parent c = i \<longleftrightarrow> c = 2 * i + 1 \<or> c = 2 * i + 2"
  by (auto simp: parent_def)

lemma heap_swap_length [simp, go_len]: "length (heap_swap h i j) = length h"
  by (simp add: heap_swap_def)

lemma heap_swap_nth:
  "i < length h \<Longrightarrow> j < length h \<Longrightarrow> k < length h \<Longrightarrow>
   heap_swap h i j ! k = (if k = i then h ! j else if k = j then h ! i else h ! k)"
  by (auto simp: heap_swap_def nth_list_update)

lemma heap_swap_mset: "i < length h \<Longrightarrow> j < length h \<Longrightarrow> mset (heap_swap h i j) = mset h"
  by (simp add: heap_swap_def mset_swap)

lemma smaller_child_bounds:
  "2 * i + 1 < length h \<Longrightarrow> smaller_child lt h i < length h \<and> i < smaller_child lt h i
     \<and> parent (smaller_child lt h i) = i"
  by (auto simp: smaller_child_def parent_def)

lemma heap_up_mset: "j < length h \<Longrightarrow> mset (heap_up lt h j) = mset h"
proof (induction lt h j rule: heap_up.induct)
  case (1 lt h j)
  show ?case
  proof (cases "parent j = j \<or> \<not> lt (h ! j) (h ! parent j)")
    case True
    then show ?thesis by (simp add: heap_up.simps [of lt h j])
  next
    case False
    then have "parent j < j" using parent_less [of j] by (auto simp: parent_eq_iff)
    with "1.IH" [OF False] "1.prems" False show ?thesis
      by (simp add: heap_up.simps [of lt h j] heap_swap_mset)
  qed
qed

lemma heap_down_mset: "mset (heap_down lt h i) = mset h"
proof (induction lt h i rule: heap_down.induct)
  case (1 lt h i)
  show ?case
  proof (cases "length h \<le> 2 * i + 1 \<or> \<not> lt (h ! smaller_child lt h i) (h ! i)")
    case True
    then show ?thesis by (simp add: heap_down.simps [of lt h i])
  next
    case False
    with "1.IH" [OF False] smaller_child_bounds [of i h lt] show ?thesis
      by (simp add: heap_down.simps [of lt h i] heap_swap_mset)
  qed
qed

lemma heap_push_mset: "mset (heap_push lt h x) = add_mset x (mset h)"
  by (simp add: heap_push_def heap_up_mset)

lemma heap_fix_root_mset: "mset (heap_fix_root lt h) = mset h"
  by (simp add: heap_fix_root_def heap_down_mset)

section \<open>The heap invariant\<close>

definition is_heap :: "('a \<Rightarrow> 'a \<Rightarrow> bool) \<Rightarrow> 'a list \<Rightarrow> bool" where
  "is_heap lt h \<longleftrightarrow> (\<forall>c. 0 < c \<and> c < length h \<longrightarrow> \<not> lt (h ! c) (h ! parent c))"

text \<open>
  A heap but for the element at one index: going up, it may be less than its parent; going
  down, it may be above something less than it.
\<close>

definition heap_but_up :: "('a \<Rightarrow> 'a \<Rightarrow> bool) \<Rightarrow> 'a list \<Rightarrow> nat \<Rightarrow> bool" where
  "heap_but_up lt h j \<longleftrightarrow>
     (\<forall>c. 0 < c \<and> c < length h \<and> c \<noteq> j \<longrightarrow> \<not> lt (h ! c) (h ! parent c))
     \<and> (\<forall>c. 0 < c \<and> c < length h \<and> 0 < j \<and> parent c = j \<longrightarrow> \<not> lt (h ! c) (h ! parent j))"

definition heap_but_down :: "('a \<Rightarrow> 'a \<Rightarrow> bool) \<Rightarrow> 'a list \<Rightarrow> nat \<Rightarrow> bool" where
  "heap_but_down lt h i \<longleftrightarrow>
     (\<forall>c. 0 < c \<and> c < length h \<and> parent c \<noteq> i \<longrightarrow> \<not> lt (h ! c) (h ! parent c))
     \<and> (\<forall>c. 0 < c \<and> c < length h \<and> 0 < i \<and> parent c = i \<longrightarrow> \<not> lt (h ! c) (h ! parent i))"

locale heap_order =
  fixes lt :: "'a \<Rightarrow> 'a \<Rightarrow> bool"
  assumes asym: "lt a b \<Longrightarrow> \<not> lt b a"
    and neg_trans: "\<not> lt a b \<Longrightarrow> \<not> lt b c \<Longrightarrow> \<not> lt a c"
begin

lemma heap_but_up_step:
  assumes "heap_but_up lt h j" "0 < j" "j < length h" "lt (h ! j) (h ! parent j)"
  shows "heap_but_up lt (heap_swap h (parent j) j) (parent j)"
proof -
  let ?p = "parent j"
  let ?h = "heap_swap h ?p j"
  have p: "?p < j" "?p < length h" using assms parent_less [of j] by auto
  note nth = heap_swap_nth [OF p(2) assms(3)]
  have ok: "\<not> lt (h ! c) (h ! parent c)" if "0 < c" "c < length h" "c \<noteq> j" for c
    using assms(1) that by (simp add: heap_but_up_def)
  have below: "\<not> lt (h ! c) (h ! ?p)" if "0 < c" "c < length h" "parent c = j" for c
    using assms(1,2) that by (simp add: heap_but_up_def)
  have pj: "\<not> lt (h ! ?p) (h ! j)" using assms(4) asym by blast
  have up: "\<not> lt (?h ! c) (?h ! parent c)" if c: "0 < c" "c < length h" "c \<noteq> ?p" for c
  proof -
    have pc: "parent c < c" "parent c < length h" using parent_less [OF c(1)] c(2) by auto
    consider "c = j" | "c \<noteq> j" "parent c = j" | "c \<noteq> j" "parent c = ?p"
      | "c \<noteq> j" "parent c \<noteq> j" "parent c \<noteq> ?p" by blast
    then show ?thesis
    proof cases
      case 3
      then have "\<not> lt (h ! c) (h ! ?p)" using ok [OF c(1,2)] by simp
      then have "\<not> lt (h ! c) (h ! j)" using neg_trans pj by blast
      then show ?thesis using 3 c nth [OF c(2)] nth [OF pc(2)] by simp
    qed (use c p pc pj below ok nth [OF c(2)] nth [OF pc(2)] in auto)
  qed
  have "\<not> lt (?h ! c) (?h ! parent ?p)"
    if c: "0 < c" "c < length h" "0 < ?p" "parent c = ?p" for c
  proof -
    have pp: "parent ?p < ?p" "parent ?p < length h" using parent_less [OF c(3)] p by auto
    have gp: "\<not> lt (h ! ?p) (h ! parent ?p)" using ok [of ?p] c(3) p by simp
    show ?thesis
    proof (cases "c = j")
      case True
      then show ?thesis using gp pp p nth [OF c(2)] nth [OF pp(2)] by simp
    next
      case False
      then have "\<not> lt (h ! c) (h ! ?p)" using ok [OF c(1,2)] c(4) by simp
      then have "\<not> lt (h ! c) (h ! parent ?p)" using neg_trans gp by blast
      moreover have "c \<noteq> ?p" using c parent_less [OF c(1)] by auto
      ultimately show ?thesis using False pp p nth [OF c(2)] nth [OF pp(2)] by simp
    qed
  qed
  with up show ?thesis by (simp add: heap_but_up_def)
qed

lemma heap_up_heap:
  "j < length h \<Longrightarrow> heap_but_up lt h j \<Longrightarrow> is_heap lt (heap_up lt h j)"
proof (induction j arbitrary: h rule: less_induct)
  case (less j)
  show ?case
  proof (cases "parent j = j \<or> \<not> lt (h ! j) (h ! parent j)")
    case True
    with less.prems have "is_heap lt h"
      by (auto simp: is_heap_def heap_but_up_def parent_eq_iff)
    with True show ?thesis by (simp add: heap_up.simps [of lt h j])
  next
    case False
    then have "0 < j" by (auto simp: parent_eq_iff)
    then have p: "parent j < j" by (rule parent_less)
    have "heap_but_up lt (heap_swap h (parent j) j) (parent j)"
      using False \<open>0 < j\<close> less.prems by (intro heap_but_up_step) auto
    then have "is_heap lt (heap_up lt (heap_swap h (parent j) j) (parent j))"
      using less.IH [OF p, of "heap_swap h (parent j) j"] p less.prems(1) by simp
    with False show ?thesis by (simp add: heap_up.simps [of lt h j])
  qed
qed

lemma smaller_child_least:
  assumes "0 < c" "c < length h" "parent c = i"
  shows "\<not> lt (h ! c) (h ! smaller_child lt h i)"
  using assms asym [of "h ! (2 * i + 1)" "h ! (2 * i + 2)"] asym [of "h ! c" "h ! c"]
  by (auto simp: smaller_child_def parent_child [OF assms(1)])

lemma heap_but_down_step:
  assumes but: "heap_but_down lt h i" and i: "2 * i + 1 < length h"
    and m: "lt (h ! smaller_child lt h i) (h ! i)"
  shows "heap_but_down lt (heap_swap h i (smaller_child lt h i)) (smaller_child lt h i)"
proof -
  define j where "j = smaller_child lt h i"
  let ?h = "heap_swap h i j"
  have j: "j < length h" "i < j" "parent j = i" "i < length h" "0 < j"
    using smaller_child_bounds [OF i, of lt] by (auto simp: j_def)
  note nth = heap_swap_nth [OF j(4,1)]
  have ok: "\<not> lt (h ! c) (h ! parent c)" if "0 < c" "c < length h" "parent c \<noteq> i" for c
    using but that by (simp add: heap_but_down_def)
  have least: "\<not> lt (h ! c) (h ! j)" if "0 < c" "c < length h" "parent c = i" for c
    using smaller_child_least that by (simp add: j_def)
  have ij: "\<not> lt (h ! i) (h ! j)" using m asym by (simp add: j_def)
  have down: "\<not> lt (?h ! c) (?h ! parent c)" if c: "0 < c" "c < length h" "parent c \<noteq> j" for c
  proof -
    have pc: "parent c < c" "parent c < length h" using parent_less [OF c(1)] c(2) by auto
    consider "c = j" | "c = i" | "c \<noteq> i" "c \<noteq> j" "parent c = i"
      | "c \<noteq> i" "c \<noteq> j" "parent c \<noteq> i" by blast
    then show ?thesis
    proof cases
      case 2
      then have "\<not> lt (h ! j) (h ! parent i)"
        using but j c by (simp add: heap_but_down_def)
      then show ?thesis using 2 c pc j nth [OF c(2)] nth [OF pc(2)] by simp
    qed (use c pc j ij least ok nth [OF c(2)] nth [OF pc(2)] in auto)
  qed
  have "\<not> lt (?h ! c) (?h ! parent j)" if c: "0 < c" "c < length h" "parent c = j" for c
  proof -
    have "c \<noteq> i" "c \<noteq> j" using parent_less [OF c(1)] c(3) j by auto
    moreover have "\<not> lt (h ! c) (h ! j)" using ok [OF c(1,2)] c(3) j by simp
    ultimately show ?thesis using j nth [OF c(2)] nth [OF j(4)] by simp
  qed
  with down show ?thesis by (simp add: heap_but_down_def j_def)
qed

lemma heap_down_heap: "heap_but_down lt h i \<Longrightarrow> is_heap lt (heap_down lt h i)"
proof (induction "length h - i" arbitrary: h i rule: less_induct)
  case less
  show ?case
  proof (cases "length h \<le> 2 * i + 1 \<or> \<not> lt (h ! smaller_child lt h i) (h ! i)")
    case True
    have "\<not> lt (h ! c) (h ! parent c)" if c: "0 < c" "c < length h" for c
    proof (cases "parent c = i")
      case pc: True
      then have "2 * i + 1 < length h" using c parent_child [OF c(1), of i] by auto
      with True have "\<not> lt (h ! smaller_child lt h i) (h ! i)" by auto
      with smaller_child_least [OF c pc] show ?thesis using neg_trans pc by blast
    next
      case False
      with less.prems c show ?thesis by (simp add: heap_but_down_def)
    qed
    then have "is_heap lt h" by (simp add: is_heap_def)
    with True show ?thesis by (simp add: heap_down.simps [of lt h i])
  next
    case False
    let ?j = "smaller_child lt h i"
    from False have i: "2 * i + 1 < length h" and m: "lt (h ! ?j) (h ! i)" by auto
    have "heap_but_down lt (heap_swap h i ?j) ?j"
      by (rule heap_but_down_step [OF less.prems i m])
    moreover have "length h - ?j < length h - i" using smaller_child_bounds [OF i, of lt] by linarith
    ultimately have "is_heap lt (heap_down lt (heap_swap h i ?j) ?j)"
      using less.hyps [of "heap_swap h i ?j" ?j] by simp
    with False show ?thesis by (simp add: heap_down.simps [of lt h i])
  qed
qed

lemma heap_push_heap: "is_heap lt h \<Longrightarrow> is_heap lt (heap_push lt h x)"
proof -
  assume h: "is_heap lt h"
  have "heap_but_up lt (h @ [x]) (length h)"
    unfolding heap_but_up_def
  proof (intro conjI allI impI)
    fix c
    assume "0 < c \<and> c < length (h @ [x]) \<and> c \<noteq> length h"
    moreover from this have "parent c < length h" using parent_less [of c] by auto
    ultimately show "\<not> lt ((h @ [x]) ! c) ((h @ [x]) ! parent c)"
      using h by (auto simp: is_heap_def nth_append)
  next
    fix c
    assume "0 < c \<and> c < length (h @ [x]) \<and> 0 < length h \<and> parent c = length h"
    then have False using parent_less [of c] by auto
    then show "\<not> lt ((h @ [x]) ! c) ((h @ [x]) ! parent (length h))" ..
  qed
  then show ?thesis by (simp add: heap_push_def heap_up_heap)
qed

lemma heap_replace_root:
  "is_heap lt h \<Longrightarrow> is_heap lt (heap_fix_root lt (h[0 := x]))"
proof -
  assume h: "is_heap lt h"
  have "heap_but_down lt (h[0 := x]) 0"
    using h by (auto simp: heap_but_down_def is_heap_def nth_list_update)
  then show ?thesis by (simp add: heap_fix_root_def heap_down_heap)
qed

lemma heap_root_least: "is_heap lt h \<Longrightarrow> c < length h \<Longrightarrow> \<not> lt (h ! c) (h ! 0)"
proof (induction c rule: less_induct)
  case (less c)
  show ?case
  proof (cases "c = 0")
    case True
    then show ?thesis using asym by blast
  next
    case False
    then have p: "parent c < c" by (simp add: parent_less)
    then have "\<not> lt (h ! parent c) (h ! 0)" using less by simp
    moreover have "\<not> lt (h ! c) (h ! parent c)" using less.prems False by (simp add: is_heap_def)
    ultimately show ?thesis using neg_trans by blast
  qed
qed

end

end
