(* ===== verification/Inventory.thy ===== *)
theory Inventory
  imports Recovery Recent_Heap
begin

text \<open>
  The inventory snapshot, its validation and its cache (\<open>internal/inventory/inventory.go\<close>),
  and the readiness state (\<open>internal/readiness/readiness.go\<close>).

  A snapshot is a value, so the deep clones of the source are identities here. The cache is
  the published snapshot, or \<open>None\<close> before the first publication; \<open>Publish\<close> returns the
  error with the new content.
\<close>

section \<open>Data\<close>

definition MaxScopes :: nat where "MaxScopes = 1000"
definition MaxRecentObjects :: nat where "MaxRecentObjects = 200"
definition MaxCatalogObjects :: nat where "MaxCatalogObjects = 10000"

record scope =
  sp_name :: string
  sp_recognized :: bool
  sp_object_count :: int
  sp_stored_bytes :: int

record recent_object =
  rc_key :: string
  rc_scope :: string
  rc_size :: int
  rc_last_modified :: gotime

record snapshot =
  in_evidence :: evidence_snapshot
  in_generation :: u64
  in_last_refresh :: gotime
  in_last_attempt :: gotime
  in_failure :: fault
  in_pages :: int
  in_objects_examined :: int
  in_totals_known :: bool
  in_object_count :: int
  in_stored_bytes :: int
  in_unscoped :: int
  in_scopes :: "scope list"
  in_recent :: "recent_object list"
  in_catalog :: "backup list"
  in_wal :: wal_catalog
  in_recovery :: recovery_catalog

text \<open>The zero values of the two structs.\<close>

definition zero_evidence :: evidence_snapshot where
  "zero_evidence =
     \<lparr>es_format = [], es_compatibility = OtherState [], es_scope = \<lparr>scope_kind = [], scope_name = []\<rparr>,
      es_generation = 0, es_started = zero_time, es_completed = zero_time,
      es_completeness = OtherCompleteness [], es_stale = False, es_state = OtherState [],
      es_reason = [], es_capabilities = []\<rparr>"

definition zero_snapshot :: snapshot where
  "zero_snapshot =
     \<lparr>in_evidence = zero_evidence, in_generation = 0, in_last_refresh = zero_time,
      in_last_attempt = zero_time, in_failure = FaultNone, in_pages = 0, in_objects_examined = 0,
      in_totals_known = False, in_object_count = 0, in_stored_bytes = 0, in_unscoped = 0,
      in_scopes = [], in_recent = [], in_catalog = [], in_wal = [], in_recovery = []\<rparr>"

definition set_capability :: "capability_id \<Rightarrow> state \<Rightarrow> string \<Rightarrow> capability list \<Rightarrow> capability list" where
  "set_capability i st reason cs =
     map (\<lambda>c. if cap_id c = i
              then c\<lparr>cap_support := Supported, cap_state := st, cap_reason := reason\<rparr> else c) cs"

definition set_inventory_capability :: "state \<Rightarrow> string \<Rightarrow> evidence_snapshot \<Rightarrow> evidence_snapshot" where
  "set_inventory_capability st reason e =
     e\<lparr>es_capabilities := set_capability ObjectInventory st reason (es_capabilities e)\<rparr>"

definition initial_inventory :: "descriptor \<Rightarrow> snapshot" where
  "initial_inventory d =
     zero_snapshot\<lparr>in_evidence := set_inventory_capability Unknown ''no completed scan''
       (initial_snapshot (d_id d) (d_scope_kind d) (d_capabilities d))\<rparr>"

section \<open>Validation\<close>

definition valid_failure_category :: "fault \<Rightarrow> bool" where
  "valid_failure_category c \<longleftrightarrow>
     c \<in> {Canceled, Timeout, InvalidConfig, Authentication, Authorization, Throttled, Unavailable,
          NotFound, Incompatible, SafetyLimit}"

text \<open>The loop over the scopes, with the running sums it compares the totals with.\<close>

fun check_scopes :: "scope option \<Rightarrow> int \<Rightarrow> int \<Rightarrow> scope list \<Rightarrow> (int \<times> int) result" where
  "check_scopes prior objects bytes [] = Inr (objects, bytes)"
| "check_scopes prior objects bytes (s # rest) =
     (if sp_name s = [] \<or> sp_object_count s < 0 \<or> sp_stored_bytes s < 0
      then Inl ''invalid scope inventory''
      else if (\<exists>p\<in>set_option prior. sp_name s \<le> sp_name p)
      then Inl ''scope inventory is not uniquely sorted''
      else if max_int64 - objects < sp_object_count s \<or> max_int64 - bytes < sp_stored_bytes s
      then Inl ''scope inventory counters overflow''
      else check_scopes (Some s) (objects + sp_object_count s) (bytes + sp_stored_bytes s) rest)"

definition recent_object_ok :: "recent_object \<Rightarrow> bool" where
  "recent_object_ok r \<longleftrightarrow> rc_key r \<noteq> [] \<and> length (rc_key r) \<le> MaxKeyBytes \<and> 0 \<le> rc_size r"

definition refresh_times_ok :: "snapshot \<Rightarrow> bool" where
  "refresh_times_ok s \<longleftrightarrow> utc_or_zero (in_last_refresh s) \<and> utc_or_zero (in_last_attempt s)
     \<and> (time_is_zero (in_last_attempt s) \<or> time_is_zero (in_last_refresh s)
        \<or> \<not> time_before (in_last_refresh s) (in_last_attempt s))"

definition validate_totals :: "snapshot \<Rightarrow> string option" where
  "validate_totals s =
     (if \<not> in_totals_known s \<and> (in_object_count s \<noteq> 0 \<or> in_stored_bytes s \<noteq> 0 \<or> in_unscoped s \<noteq> 0
         \<or> in_scopes s \<noteq> [] \<or> in_recent s \<noteq> [])
      then Some ''unknown totals contain partial inventory''
      else if in_totals_known s \<and> es_completeness (in_evidence s) \<noteq> Complete
      then Some ''known totals require complete evidence''
      else case check_scopes None 0 0 (in_scopes s) of
        Inl e \<Rightarrow> Some e
      | Inr (objects, bytes) \<Rightarrow>
          if in_totals_known s \<and> (in_object_count s < objects
               \<or> in_unscoped s \<noteq> in_object_count s - objects \<or> in_stored_bytes s < bytes)
          then Some ''scope inventory does not reconcile with totals''
          else if \<not> list_all recent_object_ok (in_recent s) then Some ''invalid recent object''
          else if in_totals_known s \<and> in_object_count s < int (length (in_recent s))
          then Some ''recent inventory exceeds object total''
          else None)"

definition validate_snapshot :: "snapshot \<Rightarrow> string option" where
  "validate_snapshot s =
     (case validate_evidence (in_evidence s) of Some e \<Rightarrow> Some e | None \<Rightarrow>
      if MaxScopes < length (in_scopes s) \<or> MaxRecentObjects < length (in_recent s)
         \<or> MaxCatalogObjects < length (in_catalog s)
      then Some ''inventory snapshot exceeds a safety limit''
      else case validate_wal_catalog (in_wal s) of Some e \<Rightarrow> Some e | None \<Rightarrow>
      (case validate_recovery_catalog (in_recovery s) of Some e \<Rightarrow> Some e | None \<Rightarrow>
      if in_pages s < 0 \<or> in_objects_examined s < 0 \<or> in_object_count s < 0
         \<or> in_stored_bytes s < 0 \<or> in_unscoped s < 0
      then Some ''inventory snapshot contains a negative counter''
      else if in_failure s \<noteq> FaultNone \<and> \<not> valid_failure_category (in_failure s)
      then Some ''inventory snapshot contains an invalid refresh failure''
      else if \<not> refresh_times_ok s
      then Some ''inventory snapshot contains invalid refresh timestamps''
      else validate_totals s))"

section \<open>The cache\<close>

definition cache_load :: "snapshot option \<Rightarrow> snapshot" where
  "cache_load c = (case c of None \<Rightarrow> zero_snapshot | Some s \<Rightarrow> s)"

definition cache_publish :: "snapshot \<Rightarrow> snapshot option \<Rightarrow> string option \<times> snapshot option" where
  "cache_publish s c = (case validate_snapshot s of Some e \<Rightarrow> (Some e, c) | None \<Rightarrow> (None, Some s))"

definition new_cache :: "snapshot \<Rightarrow> snapshot option result" where
  "new_cache s = (case cache_publish s None of (Some e, c) \<Rightarrow> Inl e | (None, c) \<Rightarrow> Inr c)"

definition valid_cache :: "snapshot option \<Rightarrow> bool" where
  "valid_cache c \<longleftrightarrow> (\<forall>s\<in>set_option c. validate_snapshot s = None)"

lemma cache_publish_valid: "valid_cache c \<Longrightarrow> valid_cache (snd (cache_publish s c))"
  by (simp add: valid_cache_def cache_publish_def split: option.splits)

lemma cache_publish_Some: "validate_snapshot s = None \<Longrightarrow> cache_publish s c = (None, Some s)"
  by (simp add: cache_publish_def)

lemma new_cache_valid: "new_cache s = Inr c \<Longrightarrow> valid_cache c \<and> c = Some s"
  by (auto simp: new_cache_def cache_publish_def valid_cache_def split: option.splits)

section \<open>What validation means\<close>

lemma check_scopes_Inr_iff:
  assumes "0 \<le> objects" "0 \<le> bytes"
  shows "check_scopes prior objects bytes ss = Inr (o', b') \<longleftrightarrow>
     (\<forall>s\<in>set ss. sp_name s \<noteq> [] \<and> 0 \<le> sp_object_count s \<and> 0 \<le> sp_stored_bytes s)
     \<and> sorted_wrt (<) (map sp_name ss) \<and> (\<forall>p\<in>set_option prior. \<forall>s\<in>set ss. sp_name p < sp_name s)
     \<and> o' = objects + sum_list (map sp_object_count ss)
     \<and> b' = bytes + sum_list (map sp_stored_bytes ss)
     \<and> (ss = [] \<or> o' \<le> max_int64 \<and> b' \<le> max_int64)"
  using assms
proof (induction ss arbitrary: prior objects bytes)
  case Nil
  then show ?case by auto
next
  case (Cons s ss)
  let ?n = "objects + sp_object_count s" and ?m = "bytes + sp_stored_bytes s"
  show ?case
  proof (cases "sp_name s = [] \<or> sp_object_count s < 0 \<or> sp_stored_bytes s < 0")
    case True
    then show ?thesis by auto
  next
    case False
    then have nn: "0 \<le> ?n" "0 \<le> ?m" using Cons.prems by auto
    have sums: "0 \<le> sum_list (map sp_object_count ss)" "0 \<le> sum_list (map sp_stored_bytes ss)"
      if "\<forall>s\<in>set ss. 0 \<le> sp_object_count s \<and> 0 \<le> sp_stored_bytes s"
      using that by (auto intro!: sum_list_nonneg)
    show ?thesis
    proof (cases "\<exists>p\<in>set_option prior. sp_name s \<le> sp_name p")
      case True
      with False show ?thesis by (cases prior) (auto simp: not_less)
    next
      case np: False
      then have lt: "\<forall>p\<in>set_option prior. sp_name p < sp_name s" by (cases prior) auto
      have eq: "check_scopes prior objects bytes (s # ss) = Inr (o', b') \<longleftrightarrow>
          ?n \<le> max_int64 \<and> ?m \<le> max_int64 \<and> check_scopes (Some s) ?n ?m ss = Inr (o', b')"
        using False np by (cases prior) auto
      show ?thesis
        unfolding eq Cons.IH [OF nn] using False lt sums
        by (cases prior; cases "ss = []") (auto intro: less_trans)
    qed
  qed
qed

text \<open>The reconciliation of the totals of a snapshot that passes validation.\<close>

definition totals_reconcile :: "snapshot \<Rightarrow> bool" where
  "totals_reconcile s \<longleftrightarrow>
     sorted_wrt (<) (map sp_name (in_scopes s))
     \<and> (if in_totals_known s
        then es_completeness (in_evidence s) = Complete
          \<and> in_object_count s = in_unscoped s + sum_list (map sp_object_count (in_scopes s))
          \<and> sum_list (map sp_stored_bytes (in_scopes s)) \<le> in_stored_bytes s
          \<and> int (length (in_recent s)) \<le> in_object_count s
        else in_object_count s = 0 \<and> in_stored_bytes s = 0 \<and> in_unscoped s = 0
          \<and> in_scopes s = [] \<and> in_recent s = [])"

lemma check_scopes_sums:
  "check_scopes None 0 0 ss = Inr (o', b') \<Longrightarrow>
     o' = sum_list (map sp_object_count ss) \<and> b' = sum_list (map sp_stored_bytes ss)
     \<and> sorted_wrt (<) (map sp_name ss)"
  by (simp add: check_scopes_Inr_iff)

lemma validate_totals_reconcile:
  "validate_totals s = None \<Longrightarrow> totals_reconcile s"
  by (auto simp: validate_totals_def totals_reconcile_def dest!: check_scopes_sums
      split: if_splits sum.splits)

lemma validate_snapshot_None_iff:
  "validate_snapshot s = None \<longleftrightarrow>
     validate_evidence (in_evidence s) = None
     \<and> length (in_scopes s) \<le> MaxScopes \<and> length (in_recent s) \<le> MaxRecentObjects
     \<and> length (in_catalog s) \<le> MaxCatalogObjects
     \<and> validate_wal_catalog (in_wal s) = None \<and> validate_recovery_catalog (in_recovery s) = None
     \<and> 0 \<le> in_pages s \<and> 0 \<le> in_objects_examined s \<and> 0 \<le> in_object_count s
     \<and> 0 \<le> in_stored_bytes s \<and> 0 \<le> in_unscoped s
     \<and> (in_failure s = FaultNone \<or> valid_failure_category (in_failure s))
     \<and> refresh_times_ok s \<and> validate_totals s = None"
  by (simp add: validate_snapshot_def not_less split: option.splits)

section \<open>Readiness\<close>

record probe_state =
  ps_valid_config :: bool
  ps_max_age :: int
  ps_reachable :: bool
  ps_checked_at :: gotime
  ps_category :: fault

record readiness_result =
  rr_ready :: bool
  rr_category :: fault
  rr_checked_at :: gotime

definition new_probe_state :: "bool \<Rightarrow> int \<Rightarrow> probe_state" where
  "new_probe_state valid max_age =
     \<lparr>ps_valid_config = valid, ps_max_age = max_age, ps_reachable = False,
      ps_checked_at = zero_time, ps_category = Unavailable\<rparr>"

definition mark_reachable :: "gotime \<Rightarrow> probe_state \<Rightarrow> probe_state" where
  "mark_reachable at s =
     s\<lparr>ps_reachable := True, ps_checked_at := time_utc at, ps_category := FaultUnknown\<rparr>"

definition mark_failure :: "gotime \<Rightarrow> fault \<Rightarrow> probe_state \<Rightarrow> probe_state" where
  "mark_failure at category s =
     s\<lparr>ps_reachable := False, ps_checked_at := time_utc at, ps_category := category\<rparr>"

text \<open>\<open>Time.Sub\<close> saturates at the bounds of a duration.\<close>

definition time_sub :: "gotime \<Rightarrow> gotime \<Rightarrow> int" where
  "time_sub a b = max (- (2 ^ 63)) (min max_int64 (t_ns a - t_ns b))"

definition probe_result :: "gotime \<Rightarrow> probe_state \<Rightarrow> readiness_result" where
  "probe_result now s =
     (if \<not> ps_valid_config s
      then \<lparr>rr_ready = False, rr_category = InvalidConfig, rr_checked_at = zero_time\<rparr>
      else if time_is_zero (ps_checked_at s) \<or> \<not> ps_reachable s
      then \<lparr>rr_ready = False, rr_category = ps_category s, rr_checked_at = ps_checked_at s\<rparr>
      else if ps_max_age s \<le> 0 \<or> ps_max_age s < time_sub (time_utc now) (ps_checked_at s)
      then \<lparr>rr_ready = False, rr_category = Unavailable, rr_checked_at = ps_checked_at s\<rparr>
      else \<lparr>rr_ready = True, rr_category = FaultUnknown, rr_checked_at = ps_checked_at s\<rparr>)"

text \<open>The state after a history of probes, oldest first; \<open>None\<close> is a probe that succeeded.\<close>

definition mark_probe :: "probe_state \<Rightarrow> gotime \<times> fault option \<Rightarrow> probe_state" where
  "mark_probe s p = (case p of (at, None) \<Rightarrow> mark_reachable at s
     | (at, Some category) \<Rightarrow> mark_failure at category s)"

definition after_probes :: "bool \<Rightarrow> int \<Rightarrow> (gotime \<times> fault option) list \<Rightarrow> probe_state" where
  "after_probes valid max_age ps = foldl mark_probe (new_probe_state valid max_age) ps"

lemma after_probes_snoc:
  "after_probes valid max_age (ps @ [p]) = mark_probe (after_probes valid max_age ps) p"
  by (simp add: after_probes_def)

lemma after_probes_fixed:
  "ps_valid_config (after_probes valid max_age ps) = valid
   \<and> ps_max_age (after_probes valid max_age ps) = max_age"
proof (induction ps rule: rev_induct)
  case Nil
  then show ?case by (simp add: after_probes_def new_probe_state_def)
next
  case (snoc p ps)
  then show ?case
    by (auto simp: after_probes_snoc mark_probe_def mark_reachable_def mark_failure_def
        split: prod.splits option.splits)
qed

section \<open>Properties\<close>

text \<open>
  A published snapshot is honest about what it counted: healthy evidence and known totals
  come only from a complete scan, unknown totals carry no partial count, and known totals are
  the sum of the uniquely sorted scopes and of the objects outside every scope.
\<close>

lemma snapshot_totals_honest:
  assumes "validate_snapshot s = None"
  shows "(es_state (in_evidence s) = Healthy \<or> in_totals_known s
            \<longrightarrow> es_completeness (in_evidence s) = Complete)
     \<and> (\<not> in_totals_known s \<longrightarrow> in_object_count s = 0 \<and> in_stored_bytes s = 0
            \<and> in_unscoped s = 0 \<and> in_scopes s = [] \<and> in_recent s = [])
     \<and> (in_totals_known s \<longrightarrow>
            in_object_count s = in_unscoped s + sum_list (map sp_object_count (in_scopes s))
            \<and> sum_list (map sp_stored_bytes (in_scopes s)) \<le> in_stored_bytes s
            \<and> int (length (in_recent s)) \<le> in_object_count s)
     \<and> sorted_wrt (<) (map sp_name (in_scopes s))"
  using assms validate_totals_reconcile [of s]
  by (auto simp: validate_snapshot_None_iff validate_evidence_iff totals_reconcile_def split: if_splits)

lemma initial_inventory_valid:
  "validate_snapshot (initial_inventory barman_descriptor) = None"
  by (simp add: validate_snapshot_None_iff validate_evidence_iff initial_inventory_def
      zero_snapshot_def set_inventory_capability_def set_capability_def initial_snapshot_def
      initial_capability_def barman_descriptor_def barman_capabilities_def capability_id_defs
      capability_ok_def invalid_text_def ascii_control_def valid_support_def
      validate_wal_catalog_def validate_recovery_catalog_def refresh_times_ok_def
      utc_or_zero_def validate_totals_def time_defs)

lemma snapshot_totals_honest_witness:
  "in_scopes (initial_inventory barman_descriptor) = []
   \<and> es_state (in_evidence (initial_inventory barman_descriptor)) \<noteq> Healthy"
  using snapshot_totals_honest [OF initial_inventory_valid]
  by (simp add: initial_inventory_def zero_snapshot_def set_inventory_capability_def
      initial_snapshot_def)

text \<open>
  The service is ready exactly if its configuration is valid and the most recent probe of
  the store succeeded no longer ago than the maximum age; before the first probe it is not.
\<close>

theorem readiness_exact:
  assumes "max_age < max_int64" and "\<forall>(at, c)\<in>set ps. t_ns at \<noteq> 0"
  shows "rr_ready (probe_result now (after_probes valid max_age ps)) \<longleftrightarrow>
     valid \<and> 0 < max_age
     \<and> (\<exists>at before. ps = before @ [(at, None)] \<and> t_ns now - t_ns at \<le> max_age)"
proof (cases ps rule: rev_cases)
  case Nil
  then show ?thesis
    by (simp add: after_probes_def new_probe_state_def probe_result_def time_defs)
next
  case (snoc before p)
  obtain at c where p: "p = (at, c)" by (cases p)
  have nz: "t_ns at \<noteq> 0" using assms(2) snoc p by auto
  have sub: "max_age < time_sub (time_utc now) (time_utc at) \<longleftrightarrow> max_age < t_ns now - t_ns at"
    if "0 < max_age"
    using assms(1) that by (auto simp: time_sub_def)
  note fixed = after_probes_fixed [of valid max_age before]
  show ?thesis
  proof (cases c)
    case None
    show ?thesis
      using fixed nz sub unfolding snoc p None
      by (auto simp: after_probes_snoc mark_probe_def mark_reachable_def probe_result_def
          time_is_zero_def)
  next
    case (Some category)
    show ?thesis
      using fixed nz unfolding snoc p Some
      by (auto simp: after_probes_snoc mark_probe_def mark_failure_def probe_result_def)
  qed
qed

lemma readiness_exact_witness:
  "rr_ready (probe_result \<lparr>t_ns = 9, t_loc = UTC\<rparr>
     (after_probes True 5 [(\<lparr>t_ns = 1, t_loc = UTC\<rparr>, Some Timeout), (\<lparr>t_ns = 6, t_loc = UTC\<rparr>, None)]))"
  by (subst readiness_exact) (auto simp: append_eq_Cons_conv)

end
