(* ===== verification/Scanner.thy ===== *)
theory Scanner
  imports Inventory "HOL-Library.Signed_Division"
begin

text \<open>
  The inventory scanner (\<open>internal/inventory/scanner.go\<close>): the builder that consumes a
  listing, the bounded page loop, the completion of a snapshot with the Barman evidence, and
  the refresh cycle that publishes a snapshot or marks the previous one stale.

  Parameters of a scan: the reader (what the provider answers to each call), \<open>ctx\<close> (what
  \<open>ctx.Err()\<close> says at its n-th poll), \<open>decompress\<close> and \<open>time_parse\<close> (the decompression
  packages and \<open>time.Parse\<close>), and the two readings of the clock.
\<close>

section \<open>Recent objects\<close>

definition more_recent :: "recent_object \<Rightarrow> recent_object \<Rightarrow> bool" where
  "more_recent l r \<longleftrightarrow>
     (if \<not> time_equal (rc_last_modified l) (rc_last_modified r)
      then time_after (rc_last_modified l) (rc_last_modified r) else rc_key l < rc_key r)"

text \<open>\<open>recentHeap.Less\<close>: the root is the object to drop first.\<close>

definition recent_less :: "recent_object \<Rightarrow> recent_object \<Rightarrow> bool" where
  "recent_less l r \<longleftrightarrow> more_recent r l"

definition recency :: "recent_object \<Rightarrow> int \<times> string" where
  "recency r = (- t_ns (rc_last_modified r), rc_key r)"

definition add_recent :: "int \<Rightarrow> recent_object list \<Rightarrow> recent_object \<Rightarrow> recent_object list" where
  "add_recent limit h x =
     (if int (length h) < limit then heap_push recent_less h x
      else if more_recent x (h ! 0) then heap_fix_root recent_less (h[0 := x])
      else h)"

section \<open>The builder\<close>

record builder =
  bd_descriptor :: descriptor
  bd_pages :: int
  bd_object_count :: int
  bd_stored_bytes :: int
  bd_unscoped :: int
  bd_scopes :: "(string \<times> scope) list"
  bd_recent :: "recent_object list"
  bd_recent_limit :: int
  bd_catalog :: "object list"
  bd_wal :: "wal_collector option"

definition invalid_scope_name :: "string \<Rightarrow> bool" where
  "invalid_scope_name name \<longleftrightarrow>
     name = [] \<or> 128 < length name \<or> name = ''.'' \<or> name = ''..''
     \<or> CHR ''/'' \<in> set name \<or> CHR 0x5C \<in> set name \<or> has_control name"

definition empty_scope :: "string \<Rightarrow> scope" where
  "empty_scope name =
     \<lparr>sp_name = name, sp_recognized = False, sp_object_count = 0, sp_stored_bytes = 0\<rparr>"

fun initial_scope_map ::
  "(string \<times> scope) list \<Rightarrow> string list \<Rightarrow> go_error + (string \<times> scope) list" where
  "initial_scope_map scopes [] = Inr scopes"
| "initial_scope_map scopes (n # ns) =
     (if invalid_scope_name n then Inl (scan_error Incompatible)
      else if map_of scopes n \<noteq> None then Inl (scan_error Incompatible)
      else initial_scope_map (assoc_set n (empty_scope n) scopes) ns)"

definition new_builder :: "descriptor \<Rightarrow> string list \<Rightarrow> int \<Rightarrow> bool \<Rightarrow> go_error + builder" where
  "new_builder d initial limit analyze_barman =
     (if MaxScopes < length initial then Inl (scan_error SafetyLimit)
      else case initial_scope_map [] initial of Inl e \<Rightarrow> Inl e
      | Inr scopes \<Rightarrow>
          Inr \<lparr>bd_descriptor = d, bd_pages = 0, bd_object_count = 0, bd_stored_bytes = 0,
               bd_unscoped = 0, bd_scopes = scopes, bd_recent = [], bd_recent_limit = limit,
               bd_catalog = [],
               bd_wal = (if analyze_barman \<and> d_id d = ''barman-cloud'' then Some new_wal_collector
                         else None)\<rparr>)"

definition barman_backup_object :: "string \<Rightarrow> bool" where
  "barman_backup_object key =
     (let parts = split_on (CHR ''/'') key
      in 4 \<le> length parts \<and> parts ! 0 \<noteq> [] \<and> parts ! 1 = ''base'' \<and> parts ! 2 \<noteq> [])"

text \<open>The counters of a matched object's scope.\<close>

definition count_scope ::
  "(string \<times> scope) list \<Rightarrow> object \<Rightarrow> scope_match \<Rightarrow> go_error + (string \<times> scope) list" where
  "count_scope scopes ob m =
     (if invalid_scope_name (sm_name m) then Inl (scan_error Incompatible)
      else if map_of scopes (sm_name m) = None \<and> MaxScopes \<le> length scopes
      then Inl (scan_error SafetyLimit)
      else let v = (case map_of scopes (sm_name m) of None \<Rightarrow> empty_scope (sm_name m) | Some v \<Rightarrow> v)
      in if sp_object_count v = max_int64 \<or> max_int64 - sp_stored_bytes v < ob_size ob
         then Inl (scan_error SafetyLimit)
         else Inr (assoc_set (sm_name m)
                (v\<lparr>sp_object_count := sp_object_count v + 1,
                   sp_stored_bytes := sp_stored_bytes v + ob_size ob,
                   sp_recognized := sp_recognized v \<or> sm_recognized m\<rparr>) scopes))"

text \<open>What a matched object adds beside its scope: the Barman catalog listing and the collector.\<close>

definition add_barman :: "object \<Rightarrow> builder \<Rightarrow> go_error + builder" where
  "add_barman ob b =
     (if barman_backup_object (ob_key ob) \<and> MaxCatalogObjects \<le> length (bd_catalog b)
      then Inl (scan_error SafetyLimit)
      else Inr (b\<lparr>bd_catalog := (if barman_backup_object (ob_key ob) then bd_catalog b @ [ob]
                                 else bd_catalog b),
                  bd_wal := map_option (\<lambda>c. collector_add c ob) (bd_wal b)\<rparr>))"

definition recent_of :: "object \<Rightarrow> scope_match option \<Rightarrow> recent_object" where
  "recent_of ob m =
     \<lparr>rc_key = ob_key ob, rc_scope = (case m of None \<Rightarrow> [] | Some m \<Rightarrow> sm_name m),
      rc_size = ob_size ob, rc_last_modified = time_utc (ob_last_modified ob)\<rparr>"

definition count_recent :: "object \<Rightarrow> scope_match option \<Rightarrow> builder \<Rightarrow> builder" where
  "count_recent ob m b =
     b\<lparr>bd_recent := add_recent (bd_recent_limit b) (bd_recent b) (recent_of ob m)\<rparr>"

definition add_object :: "builder \<Rightarrow> object \<Rightarrow> scope_match option \<Rightarrow> go_error + builder" where
  "add_object b ob m =
     (if ob_key ob = [] \<or> MaxKeyBytes < length (ob_key ob) \<or> ob_size ob < 0
         \<or> bd_object_count b = max_int64 \<or> max_int64 - bd_stored_bytes b < ob_size ob
      then Inl (scan_error SafetyLimit)
      else let b = b\<lparr>bd_object_count := bd_object_count b + 1,
                     bd_stored_bytes := bd_stored_bytes b + ob_size ob\<rparr>
      in case m of
        None \<Rightarrow> Inr (count_recent ob None (b\<lparr>bd_unscoped := bd_unscoped b + 1\<rparr>))
      | Some r \<Rightarrow>
          (case count_scope (bd_scopes b) ob r of Inl e \<Rightarrow> Inl e
           | Inr scopes \<Rightarrow> add_barman ob (count_recent ob m (b\<lparr>bd_scopes := scopes\<rparr>))))"

fun add_objects :: "scope_matcher \<Rightarrow> builder \<Rightarrow> object list \<Rightarrow> go_error + builder" where
  "add_objects m b [] = Inr b"
| "add_objects m b (ob # obs) =
     (case add_object b ob (match_scope m (ob_key ob)) of Inl e \<Rightarrow> Inl e
      | Inr b' \<Rightarrow> add_objects m b' obs)"

text \<open>
  \<open>sort.Slice\<close> by name, and by \<open>moreRecent\<close>; two objects of one key and one time are in
  listing order here, in an unspecified one in the source.
\<close>

definition builder_complete :: "builder \<Rightarrow> u64 \<Rightarrow> gotime \<Rightarrow> gotime \<Rightarrow> snapshot" where
  "builder_complete b generation started completed =
     zero_snapshot\<lparr>
       in_evidence := set_inventory_capability Healthy ''complete object listing''
         ((initial_snapshot (d_id (bd_descriptor b)) (d_scope_kind (bd_descriptor b))
             (d_capabilities (bd_descriptor b)))
          \<lparr>es_generation := generation, es_started := started, es_completed := completed,
           es_completeness := Complete, es_state := Unknown,
           es_reason := ''backup semantics not evaluated''\<rparr>),
       in_generation := generation, in_last_refresh := completed, in_last_attempt := started,
       in_pages := bd_pages b, in_objects_examined := bd_object_count b,
       in_totals_known := True, in_object_count := bd_object_count b,
       in_stored_bytes := bd_stored_bytes b, in_unscoped := bd_unscoped b,
       in_scopes := sort_key sp_name (map snd (bd_scopes b)),
       in_recent := sort_key recency (bd_recent b)\<rparr>"

section \<open>The Barman evidence of a snapshot\<close>

definition conservative_state :: "state \<Rightarrow> state \<Rightarrow> state" where
  "conservative_state l r =
     (if l = Unknown \<or> r = Unknown then Unknown
      else if l = Unhealthy \<or> r = Unhealthy then Unhealthy
      else if l = Warning \<or> r = Warning then Warning
      else Healthy)"

definition set_evidence_capability ::
  "capability_id \<Rightarrow> state \<Rightarrow> string \<Rightarrow> snapshot \<Rightarrow> snapshot" where
  "set_evidence_capability i st reason s =
     s\<lparr>in_evidence := (in_evidence s)
        \<lparr>es_capabilities := set_capability i st reason (es_capabilities (in_evidence s))\<rparr>\<rparr>"

definition set_evidence_state :: "state \<Rightarrow> string \<Rightarrow> snapshot \<Rightarrow> snapshot" where
  "set_evidence_state st reason s =
     s\<lparr>in_evidence := (in_evidence s)\<lparr>es_state := st, es_reason := reason\<rparr>\<rparr>"

definition catalog_join :: "state \<times> string \<Rightarrow> backup \<Rightarrow> state \<times> string" where
  "catalog_join acc b =
     (case bk_state b of
        Unknown \<Rightarrow> (Unknown, ''Barman catalog contains unknown backup evidence'')
      | Unhealthy \<Rightarrow> if fst acc \<noteq> Unknown
          then (Unhealthy, ''Barman catalog contains failed or incomplete backup evidence'') else acc
      | Warning \<Rightarrow> if fst acc = Healthy
          then (Warning, ''Barman catalog contains in-progress backup evidence'') else acc
      | _ \<Rightarrow> acc)"

definition catalog_verdict :: "backup list \<Rightarrow> state \<times> string" where
  "catalog_verdict bs =
     (if bs = [] then (Unknown, ''no Barman backup metadata observed'')
      else foldl catalog_join (Healthy, ''Barman backup catalog evaluated'') bs)"

definition apply_barman_evidence :: "snapshot \<Rightarrow> snapshot" where
  "apply_barman_evidence s =
     (case catalog_verdict (in_catalog s) of (st, reason) \<Rightarrow>
        set_evidence_state st reason
          (set_evidence_capability StructuralValidation st reason
            (set_evidence_capability CatalogListing st reason s)))"

definition wal_verdict :: "wal_catalog \<Rightarrow> state \<times> string" where
  "wal_verdict servers =
     (if servers = [] then (Unknown, ''no Barman WAL scopes evaluated'')
      else let st = foldl conservative_state Healthy (map sw_state servers)
      in (st, case st of
            Unknown \<Rightarrow> ''Barman WAL continuity contains unknown evidence''
          | Unhealthy \<Rightarrow> ''Barman WAL continuity contains confirmed gaps''
          | Warning \<Rightarrow> ''Barman WAL continuity contains candidate gaps''
          | _ \<Rightarrow> ''Barman WAL continuity evaluated''))"

definition joined_reason :: "state \<Rightarrow> string" where
  "joined_reason st =
     (case st of
        Unknown \<Rightarrow> ''Barman catalog or WAL continuity contains unknown evidence''
      | Unhealthy \<Rightarrow> ''Barman catalog or WAL continuity contains unhealthy evidence''
      | Warning \<Rightarrow> ''Barman catalog or WAL continuity contains warning evidence''
      | _ \<Rightarrow> ''Barman catalog and WAL continuity evaluated'')"

definition apply_wal_evidence :: "snapshot \<Rightarrow> snapshot" where
  "apply_wal_evidence s =
     (case wal_verdict (in_wal s) of (st, reason) \<Rightarrow>
        let joined = conservative_state (es_state (in_evidence s)) st
        in set_evidence_state joined (joined_reason joined)
             (set_evidence_capability WALContinuity st reason s))"

definition recovery_capability_reason :: "string \<Rightarrow> state \<Rightarrow> string" where
  "recovery_capability_reason name st =
     (case st of
        Healthy \<Rightarrow> name @ '' evaluated''
      | Warning \<Rightarrow> name @ '' contains provisional evidence''
      | Unhealthy \<Rightarrow> name @ '' contains definite structural failure''
      | _ \<Rightarrow> name @ '' contains unknown evidence'')"

definition recovery_rollup :: "(server_recovery \<Rightarrow> state) \<Rightarrow> recovery_catalog \<Rightarrow> state" where
  "recovery_rollup f servers =
     (if servers = [] then Unknown else foldl conservative_state Healthy (map f servers))"

definition apply_recovery_evidence :: "snapshot \<Rightarrow> snapshot" where
  "apply_recovery_evidence s =
     (let timeline = recovery_rollup sr_timeline_state (in_recovery s);
          coverage = recovery_rollup sr_coverage_state (in_recovery s);
          retention = recovery_rollup (\<lambda>r. rs_state (sr_retention r)) (in_recovery s);
          joined = conservative_state (es_state (in_evidence s))
            (conservative_state timeline (conservative_state coverage retention))
      in set_evidence_state joined
           (if joined \<noteq> Healthy
            then ''Barman catalog, WAL, timeline, recovery, or retention evidence is not healthy''
            else ''Barman catalog, WAL, timeline, recovery, and retention evidence evaluated'')
           (set_evidence_capability RetentionExpectation retention
              (recovery_capability_reason ''retention evidence'' retention)
             (set_evidence_capability RecoveryCoverage coverage
                (recovery_capability_reason ''observed recovery coverage'' coverage)
               (set_evidence_capability TimelineTraversal timeline
                  (recovery_capability_reason ''timeline history'' timeline) s))))"

section \<open>The scan\<close>

record scanner_options =
  so_format :: repo_format
  so_scopes :: "string list"
  so_max_objects :: int
  so_page_size :: int
  so_recent_limit :: int
  so_analyze :: bool
  so_recovery :: recovery_options

text \<open>What surrounds one scan.\<close>

record scan_env =
  sv_reader :: reader
  sv_ctx :: "nat \<Rightarrow> go_error option"
  sv_decompress :: "string \<Rightarrow> string \<Rightarrow> opened"
  sv_time_parse :: "string \<Rightarrow> string \<Rightarrow> gotime option"

text \<open>
  \<open>NewScanner\<close> on the options that are values: the interval, the number of configured
  scopes and the limits (the nil checks of the source have no counterpart here).
\<close>

definition new_scanner :: "int \<Rightarrow> scanner_options \<Rightarrow> scanner_options result" where
  "new_scanner interval opts =
     (if interval \<le> 0 \<or> so_max_objects opts < 1 \<or> so_page_size opts < 1
         \<or> MaxPageObjects < so_page_size opts \<or> so_recent_limit opts < 1
         \<or> int MaxRecentObjects < so_recent_limit opts \<or> MaxScopes < length (so_scopes opts)
      then Inl ''invalid inventory scanner options'' else Inr opts)"

definition max_pages :: "scanner_options \<Rightarrow> int" where
  "max_pages opts =
     i64 (i64 (i64 (so_max_objects opts + so_page_size opts) - 1) sdiv so_page_size opts + 100)"

definition page_request :: "scanner_options \<Rightarrow> string \<Rightarrow> builder \<Rightarrow> list_request" where
  "page_request opts cursor b =
     \<lparr>lr_prefix = [], lr_cursor = cursor,
      lr_limit = min (so_page_size opts) (so_max_objects opts - bd_object_count b)\<rparr>"

text \<open>One page that the provider answered: its checks, and the objects added.\<close>

definition take_page ::
  "scanner_options \<Rightarrow> scope_matcher \<Rightarrow> list_request \<Rightarrow> builder \<Rightarrow> page \<Rightarrow> go_error + builder" where
  "take_page opts m req b p =
     (if lr_limit req < int (length (pg_objects p)) \<or> MaxCursorBytes < length (pg_next_cursor p)
      then Inl (scan_error SafetyLimit)
      else add_objects m (b\<lparr>bd_pages := bd_pages b + 1\<rparr>) (pg_objects p))"

function scan_pages ::
  "scanner_options \<Rightarrow> scan_env \<Rightarrow> scope_matcher \<Rightarrow> nat \<Rightarrow> string \<Rightarrow> builder \<Rightarrow> go_error + builder" where
  "scan_pages opts env m k cursor b =
     (case sv_ctx env k of Some e \<Rightarrow> Inl e | None \<Rightarrow>
      if max_pages opts \<le> int k then Inl (scan_error SafetyLimit)
      else if so_max_objects opts - bd_object_count b \<le> 0 then Inl (scan_error SafetyLimit)
      else let req = page_request opts cursor b
      in case rd_list (sv_reader env) k req of Inl e \<Rightarrow> Inl e
      | Inr p \<Rightarrow>
        (case take_page opts m req b p of Inl e \<Rightarrow> Inl e
         | Inr b' \<Rightarrow>
             if pg_next_cursor p = [] then Inr b'
             else if so_max_objects opts \<le> bd_object_count b' \<or> pg_next_cursor p = cursor
             then Inl (scan_error SafetyLimit)
             else scan_pages opts env m (Suc k) (pg_next_cursor p) b'))"
  by pat_completeness auto
termination
  by (relation "measure (\<lambda>(opts, _, _, k, _, _). nat (max_pages opts) - k)") auto

declare scan_pages.simps [simp del]

text \<open>
  The Barman analysis of a completed snapshot, with the two polls of the context (the page
  loop makes the polls up to the number of pages).
\<close>

definition analyze_snapshot ::
  "scanner_options \<Rightarrow> scan_env \<Rightarrow> snapshot \<Rightarrow> u64 \<Rightarrow> builder \<Rightarrow> snapshot \<Rightarrow> go_error + snapshot" where
  "analyze_snapshot opts env previous generation b s =
     (let rd = sv_reader env;
          polls = nat (bd_pages b);
          c = (case bd_wal b of Some c \<Rightarrow> c | None \<Rightarrow> new_wal_collector);
          backups = analyze (sv_time_parse env) rd (bd_catalog b)
      in case sv_ctx env polls of Some e \<Rightarrow> Inl e | None \<Rightarrow>
         let s = apply_barman_evidence (s\<lparr>in_catalog := backups\<rparr>);
             wal = collector_finish c backups (in_wal previous) generation;
             s = apply_wal_evidence (s\<lparr>in_wal := wal\<rparr>);
             (histories, truncated) = history_objects c;
             s = s\<lparr>in_recovery := analyze_recovery (sv_decompress env) rd backups wal histories
                     truncated (so_recovery opts)\<rparr>
         in case sv_ctx env (Suc polls) of Some e \<Rightarrow> Inl e
            | None \<Rightarrow> Inr (apply_recovery_evidence s))"

definition barman_scan :: "scanner_options \<Rightarrow> bool" where
  "barman_scan opts \<longleftrightarrow> so_analyze opts \<and> d_id (format_descriptor (so_format opts)) = ''barman-cloud''"

definition scan ::
  "scanner_options \<Rightarrow> scan_env \<Rightarrow> snapshot option \<Rightarrow> u64 \<Rightarrow> gotime \<Rightarrow> gotime \<Rightarrow> go_error + snapshot" where
  "scan opts env cache generation started completed =
     (case new_scope_matcher (so_format opts) (so_scopes opts) of Inl e \<Rightarrow> Inl plain_error
      | Inr m \<Rightarrow>
      let d = format_descriptor (so_format opts)
      in case new_builder d (initial_scopes m) (so_recent_limit opts) (so_analyze opts) of Inl e \<Rightarrow> Inl e
      | Inr b \<Rightarrow>
      (case scan_pages opts env m 0 [] b of Inl e \<Rightarrow> Inl e
       | Inr b \<Rightarrow>
           let s = builder_complete b generation started (time_utc completed)
           in if barman_scan opts then analyze_snapshot opts env (cache_load cache) generation b s
              else Inr s))"

section \<open>Refreshing\<close>

definition stale_capability :: "string \<Rightarrow> capability \<Rightarrow> capability" where
  "stale_capability reason c =
     (if cap_support c = Supported
      then c\<lparr>cap_state := Unknown, cap_reason := ''stale after '' @ reason\<rparr> else c)"

text \<open>\<open>publishFailure\<close> with totals from an earlier scan, and without.\<close>

definition stale_snapshot :: "snapshot \<Rightarrow> u64 \<Rightarrow> gotime \<Rightarrow> gotime \<Rightarrow> fault \<Rightarrow> snapshot" where
  "stale_snapshot previous generation started now category =
     (let reason = ''refresh failed: '' @ fault_text category; e = in_evidence previous
      in previous\<lparr>in_generation := generation, in_last_refresh := now, in_last_attempt := started,
           in_failure := category,
           in_evidence := e\<lparr>es_stale := True, es_state := Unknown, es_reason := reason,
             es_capabilities := map (stale_capability reason) (es_capabilities e)\<rparr>\<rparr>)"

definition failed_snapshot :: "descriptor \<Rightarrow> u64 \<Rightarrow> gotime \<Rightarrow> gotime \<Rightarrow> fault \<Rightarrow> snapshot" where
  "failed_snapshot d generation started now category =
     (let s = initial_inventory d; e = in_evidence s
      in s\<lparr>in_generation := generation, in_last_refresh := now, in_last_attempt := started,
           in_failure := category,
           in_evidence := e\<lparr>es_generation := generation, es_started := started,
             es_completeness := Incomplete, es_stale := True,
             es_reason := ''refresh failed: '' @ fault_text category,
             es_capabilities := map (\<lambda>c. if cap_id c \<noteq> ObjectInventory
                 then c\<lparr>cap_reason := ''scan incomplete''\<rparr> else c) (es_capabilities e)\<rparr>\<rparr>)"

definition failure_snapshot ::
  "scanner_options \<Rightarrow> snapshot option \<Rightarrow> u64 \<Rightarrow> gotime \<Rightarrow> gotime \<Rightarrow> fault \<Rightarrow> snapshot" where
  "failure_snapshot opts cache generation started now category =
     (let previous = cache_load cache
      in if in_totals_known previous then stale_snapshot previous generation started now category
         else failed_snapshot (format_descriptor (so_format opts)) generation started now category)"

definition publish_failure ::
  "scanner_options \<Rightarrow> snapshot option \<Rightarrow> u64 \<Rightarrow> gotime \<Rightarrow> gotime \<Rightarrow> fault \<Rightarrow> snapshot option" where
  "publish_failure opts cache generation started now category =
     snd (cache_publish (failure_snapshot opts cache generation started now category) cache)"

record scanner_state =
  ss_cache :: "snapshot option"
  ss_generation :: u64
  ss_readiness :: probe_state

datatype refresh_error = ScanFailed go_error | PublishFailed string

definition refresh ::
  "scanner_options \<Rightarrow> scan_env \<Rightarrow> gotime \<Rightarrow> gotime \<Rightarrow> scanner_state \<Rightarrow> refresh_error option \<times> scanner_state" where
  "refresh opts env t0 t1 st =
     (let generation = ss_generation st + 1;
          st = st\<lparr>ss_generation := generation\<rparr>;
          started = time_utc t0
      in case scan opts env (ss_cache st) generation started t1 of
        Inr s \<Rightarrow>
          (case cache_publish s (ss_cache st) of
             (Some e, c) \<Rightarrow> (Some (PublishFailed e), st\<lparr>ss_cache := c\<rparr>)
           | (None, c) \<Rightarrow> (None, st\<lparr>ss_cache := c\<rparr>))
      | Inl e \<Rightarrow>
          if err_canceled e then (Some (ScanFailed e), st)
          else (Some (ScanFailed e),
                st\<lparr>ss_cache := publish_failure opts (ss_cache st) generation started (time_utc t1)
                                (categorize (Some e))\<rparr>))"

definition probe :: "go_error + page \<Rightarrow> gotime \<Rightarrow> scanner_state \<Rightarrow> fault \<times> scanner_state" where
  "probe answer now st =
     (case answer of
        Inl e \<Rightarrow> (categorize (Some e),
          st\<lparr>ss_readiness := mark_failure (time_utc now) (categorize (Some e)) (ss_readiness st)\<rparr>)
      | Inr p \<Rightarrow> (FaultUnknown,
          st\<lparr>ss_readiness := mark_reachable (time_utc now) (ss_readiness st)\<rparr>))"

section \<open>Conservative joins\<close>

interpretation cs: state_rollup conservative_state
  by unfold_locales
    (auto simp: conservative_state_def max_def less_eq_state_def elim!: valid_stateE)

lemma foldl_conservative: "foldl conservative_state a xs = cs.rollup a xs"
  by (simp add: cs.rollup_def)

lemma conservative_Healthy_iff:
  "valid_state a \<Longrightarrow> valid_state b \<Longrightarrow> conservative_state a b = Healthy \<longleftrightarrow> a = Healthy \<and> b = Healthy"
  by (auto simp: conservative_state_def elim!: valid_stateE)

lemma conservative_valid [simp]: "valid_state (conservative_state a b)"
  by (simp add: conservative_state_def)

lemma catalog_join_state:
  "valid_state (fst acc) \<Longrightarrow> valid_state (bk_state b) \<Longrightarrow>
     fst (catalog_join acc b) = conservative_state (fst acc) (bk_state b)"
  by (auto simp: catalog_join_def conservative_state_def elim!: valid_stateE)

lemma foldl_catalog_join:
  "valid_state (fst acc) \<Longrightarrow> \<forall>b\<in>set bs. valid_state (bk_state b) \<Longrightarrow>
     fst (foldl catalog_join acc bs) = cs.rollup (fst acc) (map bk_state bs)"
  by (induction bs arbitrary: acc) (auto simp: catalog_join_state)

lemma catalog_verdict_Healthy_iff:
  "\<forall>b\<in>set bs. valid_state (bk_state b) \<Longrightarrow>
     fst (catalog_verdict bs) = Healthy \<longleftrightarrow> bs \<noteq> [] \<and> (\<forall>b\<in>set bs. bk_state b = Healthy)"
  by (simp add: catalog_verdict_def foldl_catalog_join cs.rollup_Healthy_iff)

lemma catalog_verdict_valid:
  "\<forall>b\<in>set bs. valid_state (bk_state b) \<Longrightarrow> valid_state (fst (catalog_verdict bs))"
  by (simp add: catalog_verdict_def foldl_catalog_join cs.rollup_valid)

lemma wal_verdict_Healthy_iff:
  "\<forall>w\<in>set servers. valid_state (sw_state w) \<Longrightarrow>
     fst (wal_verdict servers) = Healthy \<longleftrightarrow> servers \<noteq> [] \<and> (\<forall>w\<in>set servers. sw_state w = Healthy)"
  by (simp add: wal_verdict_def Let_def foldl_conservative cs.rollup_Healthy_iff)

lemma wal_verdict_valid:
  "\<forall>w\<in>set servers. valid_state (sw_state w) \<Longrightarrow> valid_state (fst (wal_verdict servers))"
  by (simp add: wal_verdict_def Let_def foldl_conservative cs.rollup_valid)

lemma recovery_rollup_Healthy_iff:
  "\<forall>r\<in>set servers. valid_state (f r) \<Longrightarrow>
     recovery_rollup f servers = Healthy \<longleftrightarrow> servers \<noteq> [] \<and> (\<forall>r\<in>set servers. f r = Healthy)"
  by (simp add: recovery_rollup_def foldl_conservative cs.rollup_Healthy_iff)

lemma recovery_rollup_valid:
  "\<forall>r\<in>set servers. valid_state (f r) \<Longrightarrow> valid_state (recovery_rollup f servers)"
  by (simp add: recovery_rollup_def foldl_conservative cs.rollup_valid)

section \<open>The most recent objects\<close>

lemma more_recent_iff: "more_recent l r \<longleftrightarrow> recency l < recency r"
  by (auto simp: more_recent_def recency_def time_defs)

interpretation rh: heap_order recent_less
  by unfold_locales (auto simp: recent_less_def more_recent_iff)

text \<open>
  What the heap holds of the objects it was given: a heap of at most \<open>n\<close> of them, none less
  recent than one that was dropped.
\<close>

definition keeps_recent :: "nat \<Rightarrow> recent_object list \<Rightarrow> recent_object list \<Rightarrow> bool" where
  "keeps_recent n xs h \<longleftrightarrow> is_heap recent_less h \<and> length h = min n (length xs)
     \<and> (\<exists>dropped. mset xs = mset h + dropped
          \<and> (\<forall>x\<in>#dropped. \<forall>y\<in>set h. recency y \<le> recency x))"

lemma recent_root: "is_heap recent_less h \<Longrightarrow> y \<in> set h \<Longrightarrow> recency y \<le> recency (h ! 0)"
  using rh.heap_root_least by (fastforce simp: in_set_conv_nth recent_less_def more_recent_iff)

lemma length_heap_push [simp]: "length (heap_push lt h x) = Suc (length h)"
  using heap_push_mset [of lt h x] by (metis size_add_mset size_mset)

lemma length_heap_fix_root [simp]: "length (heap_fix_root lt h) = length h"
  using heap_fix_root_mset [of lt h] by (metis size_mset)

lemma keeps_recent_push:
  assumes "keeps_recent n xs h" "length h < n"
  shows "keeps_recent n (xs @ [x]) (heap_push recent_less h x)"
proof -
  obtain dropped where d: "mset xs = mset h + dropped"
    using assms(1) by (auto simp: keeps_recent_def)
  moreover have len: "length h = length xs" using assms by (auto simp: keeps_recent_def)
  ultimately have "dropped = {#}" by (metis add_cancel_right_right size_eq_0_iff_empty size_mset size_union)
  then show ?thesis
    using assms len d rh.heap_push_heap by (auto simp: keeps_recent_def heap_push_mset)
qed

lemma mset_replace_root:
  "h \<noteq> [] \<Longrightarrow> add_mset (h ! 0) (mset (h[0 := x])) = add_mset x (mset h)"
  by (cases h) auto

lemma keeps_recent_replace:
  assumes k: "keeps_recent n xs h" and h: "h \<noteq> []" "length h = n" and more: "more_recent x (h ! 0)"
  shows "keeps_recent n (xs @ [x]) (heap_fix_root recent_less (h[0 := x]))"
proof -
  let ?h = "heap_fix_root recent_less (h[0 := x])"
  obtain dropped where d: "mset xs = mset h + dropped"
    and le: "\<forall>z\<in>#dropped. \<forall>y\<in>set h. recency y \<le> recency z"
    and heap: "is_heap recent_less h" and len: "n \<le> length xs"
    using k h by (auto simp: keeps_recent_def)
  have ms: "mset ?h = mset (h[0 := x])" by (rule heap_fix_root_mset)
  have root: "recency y \<le> recency (h ! 0)" if "y \<in> set h" for y
    using recent_root [OF heap that] .
  have below: "recency y \<le> recency (h ! 0)" if "y \<in> set ?h" for y
  proof -
    have "y \<in> insert x (set h)"
      using that ms set_update_subset_insert [of h 0 x] by (metis set_mset_mset subsetD)
    then show ?thesis using root more by (auto simp: more_recent_iff)
  qed
  have "mset (xs @ [x]) = mset ?h + add_mset (h ! 0) dropped"
    using d ms mset_replace_root [OF h(1), of x] by simp
  moreover have "\<forall>z\<in>#add_mset (h ! 0) dropped. \<forall>y\<in>set ?h. recency y \<le> recency z"
    using below le h(1) by (auto intro: order_trans [OF below] )
  ultimately show ?thesis
    using rh.heap_replace_root [OF heap] h(2) len by (auto simp: keeps_recent_def)
qed

lemma keeps_recent_keep:
  assumes k: "keeps_recent n xs h" and "length h = n" and "\<not> more_recent x (h ! 0)"
  shows "keeps_recent n (xs @ [x]) h"
proof -
  obtain dropped where d: "mset xs = mset h + dropped"
    and le: "\<forall>z\<in>#dropped. \<forall>y\<in>set h. recency y \<le> recency z"
    and heap: "is_heap recent_less h" and len: "n \<le> length xs"
    using k assms(2) by (auto simp: keeps_recent_def)
  have "recency y \<le> recency x" if "y \<in> set h" for y
    using recent_root [OF heap that] assms(3) by (simp add: more_recent_iff)
  with d le have "mset (xs @ [x]) = mset h + add_mset x dropped
      \<and> (\<forall>z\<in>#add_mset x dropped. \<forall>y\<in>set h. recency y \<le> recency z)"
    by simp
  with heap len assms(2) show ?thesis by (auto simp: keeps_recent_def)
qed

lemma add_recent_keeps:
  assumes "keeps_recent n xs h" "0 < n"
  shows "keeps_recent n (xs @ [x]) (add_recent (int n) h x)"
proof (cases "length h < n")
  case True
  with assms show ?thesis by (simp add: add_recent_def keeps_recent_push)
next
  case False
  with assms have "length h = n" "h \<noteq> []" by (auto simp: keeps_recent_def)
  with assms False show ?thesis
    by (auto simp: add_recent_def keeps_recent_replace keeps_recent_keep)
qed

lemma foldl_add_recent_keeps:
  "0 < n \<Longrightarrow> keeps_recent n xs (foldl (add_recent (int n)) [] xs)"
proof (induction xs rule: rev_induct)
  case Nil
  then show ?case by (simp add: keeps_recent_def is_heap_def)
next
  case (snoc x xs)
  then show ?case using add_recent_keeps by simp
qed

lemma keeps_recent_sorted:
  assumes "keeps_recent n xs h"
  shows "map recency (sort_key recency h) = take n (map recency (sort_key recency xs))"
proof -
  obtain dropped where d: "mset xs = mset h + dropped"
    and le: "\<forall>z\<in>#dropped. \<forall>y\<in>set h. recency y \<le> recency z"
    and len: "length h = min n (length xs)"
    using assms by (auto simp: keeps_recent_def)
  obtain ds where ds: "dropped = mset ds" by (metis ex_mset)
  let ?s = "map recency (sort_key recency h) @ sort (map recency ds)"
  have sk: "sort (map recency ys) = map recency (sort_key recency ys)" for ys
    by (rule properties_for_sort) (simp_all add: sorted_sort_key)
  have "sort (map recency xs) = ?s"
  proof (rule properties_for_sort)
    show "mset ?s = mset (map recency xs)" using d ds by simp
    show "sorted ?s" using le ds by (auto simp: sorted_append sorted_sort_key)
  qed
  then have "map recency (sort_key recency xs) = ?s" by (simp add: sk)
  then show ?thesis
  proof (cases "n \<le> length xs")
    case False
    then have "ds = []" using d ds len by (metis add_cancel_right_right le_eq_less_or_eq length_0_conv linear min.absorb2 size_mset size_union)
    with len False \<open>map recency (sort_key recency xs) = ?s\<close> show ?thesis by simp
  qed (simp add: len)
qed

section \<open>What the builder has counted\<close>

lemma set_assoc_set_iff:
  assumes "distinct (map fst al)"
  shows "(n, v) \<in> set (assoc_set k w al) \<longleftrightarrow> (n = k \<and> v = w) \<or> (n \<noteq> k \<and> (n, v) \<in> set al)"
proof -
  have "(n, v) \<in> set (assoc_set k w al) \<longleftrightarrow> map_of (assoc_set k w al) n = Some v"
    using assms by (simp add: distinct_assoc_set)
  also have "\<dots> \<longleftrightarrow> (n = k \<and> v = w) \<or> (n \<noteq> k \<and> map_of al n = Some v)"
    by (auto simp: map_of_assoc_set)
  finally show ?thesis using assms by simp
qed

lemma length_assoc_set:
  "length (assoc_set k v al) = (if k \<in> fst ` set al then length al else Suc (length al))"
  by (induction k v al rule: assoc_set.induct) auto

text \<open>The objects of a listing that the matcher puts in a scope, and in any.\<close>

definition in_scope :: "scope_matcher \<Rightarrow> string \<Rightarrow> object list \<Rightarrow> object list" where
  "in_scope m n obs = filter (\<lambda>ob. map_option sm_name (match_scope m (ob_key ob)) = Some n) obs"

definition matched :: "scope_matcher \<Rightarrow> object list \<Rightarrow> object list" where
  "matched m obs = filter (\<lambda>ob. match_scope m (ob_key ob) \<noteq> None) obs"

definition scope_exact :: "scope_matcher \<Rightarrow> object list \<Rightarrow> scope \<Rightarrow> bool" where
  "scope_exact m obs v \<longleftrightarrow>
     sp_object_count v = int (length (in_scope m (sp_name v) obs))
     \<and> sp_stored_bytes v = sum_list (map ob_size (in_scope m (sp_name v) obs))
     \<and> (sp_recognized v \<longleftrightarrow>
          (\<exists>ob\<in>set (in_scope m (sp_name v) obs). \<exists>r. match_scope m (ob_key ob) = Some r \<and> sm_recognized r))"

definition recents_of :: "scope_matcher \<Rightarrow> object list \<Rightarrow> recent_object list" where
  "recents_of m obs = map (\<lambda>ob. recent_of ob (match_scope m (ob_key ob))) obs"

definition object_ok :: "object \<Rightarrow> bool" where
  "object_ok ob \<longleftrightarrow> ob_key ob \<noteq> [] \<and> length (ob_key ob) \<le> MaxKeyBytes \<and> 0 \<le> ob_size ob"

definition scopes_exact :: "scope_matcher \<Rightarrow> string list \<Rightarrow> object list \<Rightarrow> (string \<times> scope) list \<Rightarrow> bool" where
  "scopes_exact m initial obs scopes \<longleftrightarrow>
     distinct (map fst scopes) \<and> length scopes \<le> MaxScopes
     \<and> (\<forall>(n, v)\<in>set scopes. sp_name v = n \<and> scope_exact m obs v \<and> \<not> invalid_scope_name n)
     \<and> fst ` set scopes
        = set initial \<union> {sm_name r | ob r. ob \<in> set obs \<and> match_scope m (ob_key ob) = Some r}"

definition builder_exact ::
  "scope_matcher \<Rightarrow> string list \<Rightarrow> int \<Rightarrow> bool \<Rightarrow> builder \<Rightarrow> object list \<Rightarrow> bool" where
  "builder_exact m initial limit barman b obs \<longleftrightarrow>
     bd_object_count b = int (length obs) \<and> bd_stored_bytes b = sum_list (map ob_size obs)
     \<and> bd_unscoped b = int (length obs) - int (length (matched m obs))
     \<and> scopes_exact m initial obs (bd_scopes b)
     \<and> bd_recent b = foldl (add_recent limit) [] (recents_of m obs) \<and> bd_recent_limit b = limit
     \<and> bd_catalog b = filter (\<lambda>ob. barman_backup_object (ob_key ob)) (matched m obs)
     \<and> length (bd_catalog b) \<le> MaxCatalogObjects
     \<and> bd_wal b = (if barman then Some (collect (matched m obs)) else None)
     \<and> list_all object_ok obs \<and> bd_object_count b \<le> max_int64 \<and> bd_stored_bytes b \<le> max_int64"

lemma in_scope_snoc:
  "in_scope m n (obs @ [ob]) =
     in_scope m n obs @ (if map_option sm_name (match_scope m (ob_key ob)) = Some n then [ob] else [])"
  by (simp add: in_scope_def)

lemma matched_snoc:
  "matched m (obs @ [ob]) = matched m obs @ (if match_scope m (ob_key ob) = None then [] else [ob])"
  by (simp add: matched_def)

lemma initial_scope_map_Inr:
  "initial_scope_map scopes ns = Inr scopes' \<Longrightarrow>
     distinct (map fst scopes) \<Longrightarrow> \<forall>(n, v)\<in>set scopes. v = empty_scope n \<and> \<not> invalid_scope_name n \<Longrightarrow>
     distinct (map fst scopes') \<and> length scopes' = length scopes + length ns
     \<and> (\<forall>(n, v)\<in>set scopes'. v = empty_scope n \<and> \<not> invalid_scope_name n)
     \<and> fst ` set scopes' = fst ` set scopes \<union> set ns"
proof (induction scopes ns rule: initial_scope_map.induct)
  case (2 scopes n ns)
  from 2(2) have n: "\<not> invalid_scope_name n" "map_of scopes n = None"
    and rest: "initial_scope_map (assoc_set n (empty_scope n) scopes) ns = Inr scopes'"
    by (auto split: if_splits)
  have "\<forall>(k, v)\<in>set (assoc_set n (empty_scope n) scopes). v = empty_scope k \<and> \<not> invalid_scope_name k"
    using 2(3,4) n by (auto simp: set_assoc_set_iff)
  moreover have "distinct (map fst (assoc_set n (empty_scope n) scopes))"
    using 2(3) by (rule distinct_assoc_set)
  moreover have "n \<notin> fst ` set scopes" using n(2) by (simp add: map_of_eq_None_iff)
  ultimately show ?case
    using 2(1) n rest by (simp add: dom_assoc_set length_assoc_set insert_commute)
qed auto

lemma new_builder_exact:
  assumes "new_builder d initial limit barman = Inr b"
  shows "builder_exact m initial limit (barman \<and> d_id d = ''barman-cloud'') b []
     \<and> bd_descriptor b = d \<and> bd_pages b = 0"
proof -
  obtain scopes where s: "initial_scope_map [] initial = Inr scopes" "length initial \<le> MaxScopes"
    and b: "b = \<lparr>bd_descriptor = d, bd_pages = 0, bd_object_count = 0, bd_stored_bytes = 0,
               bd_unscoped = 0, bd_scopes = scopes, bd_recent = [], bd_recent_limit = limit,
               bd_catalog = [],
               bd_wal = (if barman \<and> d_id d = ''barman-cloud'' then Some new_wal_collector else None)\<rparr>"
    using assms by (auto simp: new_builder_def split: if_splits sum.splits)
  note i = initial_scope_map_Inr [OF s(1)]
  have "scopes_exact m initial [] scopes"
    using i s(2) by (auto simp: scopes_exact_def scope_exact_def in_scope_def empty_scope_def)
  then show ?thesis
    by (simp add: b builder_exact_def matched_def recents_of_def collect_def)
qed

lemma scope_exact_hit:
  assumes "scope_exact m obs v" "match_scope m (ob_key ob) = Some r" "sp_name v = sm_name r"
  shows "scope_exact m (obs @ [ob])
     (v\<lparr>sp_object_count := sp_object_count v + 1, sp_stored_bytes := sp_stored_bytes v + ob_size ob,
        sp_recognized := sp_recognized v \<or> sm_recognized r\<rparr>)"
  using assms by (simp add: scope_exact_def in_scope_snoc disj_commute)

lemma scope_exact_miss:
  assumes "scope_exact m obs v" "match_scope m (ob_key ob) = Some r" "sp_name v \<noteq> sm_name r"
  shows "scope_exact m (obs @ [ob]) v"
  using assms by (simp add: scope_exact_def in_scope_snoc)

lemma count_scope_exact:
  assumes ex: "scopes_exact m initial obs scopes" and r: "match_scope m (ob_key ob) = Some r"
    and c: "count_scope scopes ob r = Inr scopes'"
  shows "scopes_exact m initial (obs @ [ob]) scopes'"
proof -
  let ?n = "sm_name r"
  define v where "v = (case map_of scopes ?n of None \<Rightarrow> empty_scope ?n | Some v \<Rightarrow> v)"
  let ?v = "v\<lparr>sp_object_count := sp_object_count v + 1,
              sp_stored_bytes := sp_stored_bytes v + ob_size ob,
              sp_recognized := sp_recognized v \<or> sm_recognized r\<rparr>"
  from c have n: "\<not> invalid_scope_name ?n"
    and room: "map_of scopes ?n \<noteq> None \<or> length scopes < MaxScopes"
    and s': "scopes' = assoc_set ?n ?v scopes"
    by (auto simp: count_scope_def v_def Let_def split: if_splits option.splits)
  have d: "distinct (map fst scopes)"
    and all: "\<And>k w. (k, w) \<in> set scopes \<Longrightarrow> sp_name w = k \<and> scope_exact m obs w \<and> \<not> invalid_scope_name k"
    and names: "fst ` set scopes = set initial \<union> {sm_name r | ob r. ob \<in> set obs \<and> match_scope m (ob_key ob) = Some r}"
    and len: "length scopes \<le> MaxScopes"
    using ex by (auto simp: scopes_exact_def)
  have v: "sp_name v = ?n \<and> scope_exact m obs v"
  proof (cases "map_of scopes ?n")
    case None
    then have "?n \<notin> fst ` set scopes" by (simp add: map_of_eq_None_iff)
    then have "in_scope m ?n obs = []"
      unfolding names in_scope_def by (auto simp: filter_empty_conv)
    with None show ?thesis by (simp add: v_def empty_scope_def scope_exact_def)
  next
    case (Some w)
    then have "(?n, w) \<in> set scopes" by (rule map_of_SomeD)
    with all Some show ?thesis by (simp add: v_def)
  qed
  have "scope_exact m (obs @ [ob]) w" if "(k, w) \<in> set scopes'" for k w
    using that v all [of k w] scope_exact_hit [OF _ r] scope_exact_miss [OF _ r]
    unfolding s' set_assoc_set_iff [OF d] by auto
  moreover have "sp_name w = k \<and> \<not> invalid_scope_name k" if "(k, w) \<in> set scopes'" for k w
    using that v all n unfolding s' set_assoc_set_iff [OF d] by auto
  moreover have "length scopes' \<le> MaxScopes"
    using room len by (auto simp: s' length_assoc_set map_of_eq_None_iff)
  moreover have "fst ` set scopes' = set initial
      \<union> {sm_name r | ob' r. ob' \<in> set (obs @ [ob]) \<and> match_scope m (ob_key ob') = Some r}"
    using r by (auto simp: s' dom_assoc_set names)
  ultimately show ?thesis
    using distinct_assoc_set [OF d, of ?n ?v] by (auto simp: scopes_exact_def s')
qed

lemma scopes_exact_unmatched:
  "scopes_exact m initial obs scopes \<Longrightarrow> match_scope m (ob_key ob) = None \<Longrightarrow>
     scopes_exact m initial (obs @ [ob]) scopes"
  by (auto simp: scopes_exact_def scope_exact_def in_scope_snoc)

lemma collect_snoc_object: "collect (obs @ [ob]) = collector_add (collect obs) ob"
  by (simp add: collect_def)

lemma add_object_fixed:
  "add_object b ob r = Inr b' \<Longrightarrow>
     bd_descriptor b' = bd_descriptor b \<and> bd_pages b' = bd_pages b
     \<and> bd_recent_limit b' = bd_recent_limit b"
  by (auto simp: add_object_def add_barman_def count_recent_def Let_def
      split: if_splits option.splits sum.splits)

lemma add_object_exact:
  assumes ex: "builder_exact m initial limit barman b obs"
    and a: "add_object b ob (match_scope m (ob_key ob)) = Inr b'"
  shows "builder_exact m initial limit barman b' (obs @ [ob])"
proof -
  from a have ok: "object_ok ob" and room: "bd_object_count b \<noteq> max_int64"
    "ob_size ob \<le> max_int64 - bd_stored_bytes b"
    by (auto simp: add_object_def object_ok_def not_less split: if_splits)
  have rec: "recents_of m (obs @ [ob]) = recents_of m obs @ [recent_of ob (match_scope m (ob_key ob))]"
    by (simp add: recents_of_def)
  show ?thesis
  proof (cases "match_scope m (ob_key ob)")
    case None
    with a ok have b': "b' = count_recent ob None
        (b\<lparr>bd_object_count := bd_object_count b + 1, bd_stored_bytes := bd_stored_bytes b + ob_size ob,
           bd_unscoped := bd_unscoped b + 1\<rparr>)"
      by (auto simp: add_object_def split: if_splits)
    show ?thesis
      using ex ok room None rec scopes_exact_unmatched [of m initial obs "bd_scopes b" ob]
      by (auto simp: b' builder_exact_def count_recent_def matched_snoc)
  next
    case (Some r)
    with a obtain scopes where c: "count_scope (bd_scopes b) ob r = Inr scopes"
      and ab: "add_barman ob (count_recent ob (Some r)
        (b\<lparr>bd_object_count := bd_object_count b + 1, bd_stored_bytes := bd_stored_bytes b + ob_size ob,
           bd_scopes := scopes\<rparr>)) = Inr b'"
      by (auto simp: add_object_def Let_def split: if_splits sum.splits)
    have "scopes_exact m initial (obs @ [ob]) scopes"
      using count_scope_exact [OF _ Some c] ex by (simp add: builder_exact_def)
    then show ?thesis
      using ex ok room Some rec ab
      by (auto simp: builder_exact_def add_barman_def count_recent_def matched_snoc
          collect_snoc_object split: if_splits)
  qed
qed

lemma add_objects_exact:
  "add_objects m b obs' = Inr b' \<Longrightarrow> builder_exact m initial limit barman b obs \<Longrightarrow>
     builder_exact m initial limit barman b' (obs @ obs')
     \<and> bd_descriptor b' = bd_descriptor b \<and> bd_pages b' = bd_pages b"
proof (induction obs' arbitrary: b obs)
  case (Cons ob obs')
  then obtain b1 where b1: "add_object b ob (match_scope m (ob_key ob)) = Inr b1"
    and rest: "add_objects m b1 obs' = Inr b'"
    by (auto split: sum.splits)
  from add_object_exact [OF Cons.prems(2) b1] Cons.IH [OF rest] add_object_fixed [OF b1]
  show ?case by fastforce
qed auto

section \<open>The page loop\<close>

text \<open>
  The pages that answer a scan, from its k-th call with \<open>n\<close> objects already taken: each page
  is requested at the cursor of the one before it, and the last one has no next cursor.
\<close>

fun listed :: "scanner_options \<Rightarrow> reader \<Rightarrow> nat \<Rightarrow> string \<Rightarrow> nat \<Rightarrow> page list \<Rightarrow> bool" where
  "listed opts rd k cursor n [] \<longleftrightarrow> False"
| "listed opts rd k cursor n (p # ps) \<longleftrightarrow>
     rd_list rd k \<lparr>lr_prefix = [], lr_cursor = cursor,
        lr_limit = min (so_page_size opts) (so_max_objects opts - int n)\<rparr> = Inr p
     \<and> (if pg_next_cursor p = [] then ps = []
        else listed opts rd (Suc k) (pg_next_cursor p) (n + length (pg_objects p)) ps)"

definition listing :: "page list \<Rightarrow> object list" where
  "listing ps = concat (map pg_objects ps)"

lemma builder_exact_pages [simp]:
  "builder_exact m initial limit barman (b\<lparr>bd_pages := n\<rparr>) obs \<longleftrightarrow> builder_exact m initial limit barman b obs"
  by (simp add: builder_exact_def)

lemma take_page_exact:
  assumes "take_page opts m req b p = Inr b'" "builder_exact m initial limit barman b obs"
  shows "builder_exact m initial limit barman b' (obs @ pg_objects p)
     \<and> bd_descriptor b' = bd_descriptor b \<and> bd_pages b' = bd_pages b + 1
     \<and> int (length (pg_objects p)) \<le> lr_limit req \<and> length (pg_next_cursor p) \<le> MaxCursorBytes"
proof -
  from assms(1) have a: "add_objects m (b\<lparr>bd_pages := bd_pages b + 1\<rparr>) (pg_objects p) = Inr b'"
    and "int (length (pg_objects p)) \<le> lr_limit req" "length (pg_next_cursor p) \<le> MaxCursorBytes"
    by (auto simp: take_page_def split: if_splits)
  with add_objects_exact [OF a, of initial limit barman obs] assms(2) show ?thesis by simp
qed

text \<open>One iteration of the loop that succeeds.\<close>

lemma scan_pages_InrD:
  assumes "scan_pages opts env m k cursor b = Inr b'"
  obtains p b1 where "rd_list (sv_reader env) k (page_request opts cursor b) = Inr p"
    and "take_page opts m (page_request opts cursor b) b p = Inr b1" and "int k < max_pages opts"
    and "pg_next_cursor p = [] \<and> b' = b1
      \<or> pg_next_cursor p \<noteq> [] \<and> scan_pages opts env m (Suc k) (pg_next_cursor p) b1 = Inr b'"
  using assms
  by (subst (asm) scan_pages.simps) (auto simp: Let_def split: option.splits if_splits sum.splits)

lemma scan_pages_listed:
  assumes "scan_pages opts env m k cursor b = Inr b'"
    and "builder_exact m initial limit barman b obs" and "bd_pages b = int k"
  shows "\<exists>ps. listed opts (sv_reader env) k cursor (length obs) ps
     \<and> builder_exact m initial limit barman b' (obs @ listing ps)
     \<and> bd_descriptor b' = bd_descriptor b \<and> bd_pages b' = int (k + length ps)
     \<and> int (k + length ps) \<le> max_pages opts
     \<and> int (length (obs @ listing ps)) \<le> so_max_objects opts"
  using assms
proof (induction opts env m k cursor b arbitrary: obs rule: scan_pages.induct)
  case (1 opts env m k cursor b)
  obtain p b1 where p: "rd_list (sv_reader env) k (page_request opts cursor b) = Inr p"
    and t: "take_page opts m (page_request opts cursor b) b p = Inr b1"
    and k: "int k < max_pages opts"
    and next': "pg_next_cursor p = [] \<and> b' = b1
      \<or> pg_next_cursor p \<noteq> [] \<and> scan_pages opts env m (Suc k) (pg_next_cursor p) b1 = Inr b'"
    by (rule scan_pages_InrD [OF 1(2)])
  have req: "page_request opts cursor b = \<lparr>lr_prefix = [], lr_cursor = cursor,
      lr_limit = min (so_page_size opts) (so_max_objects opts - int (length obs))\<rparr>"
    using 1(3) by (simp add: page_request_def builder_exact_def)
  note b1 = take_page_exact [OF t 1(3)]
  have le: "int (length (obs @ pg_objects p)) \<le> so_max_objects opts"
    using b1 by (simp add: req)
  show ?case
  proof (cases "pg_next_cursor p = []")
    case True
    with next' have "b' = b1" by simp
    with True b1 p k le 1(4) show ?thesis
      by (intro exI [of _ "[p]"]) (simp add: req listing_def)
  next
    case False
    with next' have rest: "scan_pages opts env m (Suc k) (pg_next_cursor p) b1 = Inr b'" by simp
    have "bd_pages b1 = int (Suc k)" using b1 1(4) by simp
    moreover have "builder_exact m initial limit barman b1 (obs @ pg_objects p)" using b1 by simp
    moreover have "sv_ctx env k = None" "\<not> max_pages opts \<le> int k"
      "\<not> so_max_objects opts - bd_object_count b \<le> 0"
      "\<not> (so_max_objects opts \<le> bd_object_count b1 \<or> pg_next_cursor p = cursor)"
      using 1(2) p t False
      by (subst (asm) scan_pages.simps; auto simp: Let_def split: option.splits if_splits sum.splits)+
    ultimately obtain ps where "listed opts (sv_reader env) (Suc k) (pg_next_cursor p)
        (length (obs @ pg_objects p)) ps"
      and "builder_exact m initial limit barman b' ((obs @ pg_objects p) @ listing ps)"
      and "bd_descriptor b' = bd_descriptor b1" "bd_pages b' = int (Suc k + length ps)"
      and "int (Suc k + length ps) \<le> max_pages opts"
      and "int (length ((obs @ pg_objects p) @ listing ps)) \<le> so_max_objects opts"
      using 1(1) [OF _ _ _ refl p t False _ rest] by metis
    with p False b1 show ?thesis
      by (intro exI [of _ "p # ps"]) (simp add: req listing_def)
  qed
qed

text \<open>The requests of the loop: two readers that agree on the valid ones give the same scan.\<close>

lemma page_request_valid:
  assumes "1 \<le> so_page_size opts" "so_page_size opts \<le> MaxPageObjects"
    and "length cursor \<le> MaxCursorBytes" "0 < so_max_objects opts - bd_object_count b"
  shows "validate_list_request (page_request opts cursor b) = None"
  using assms by (auto simp: validate_list_request_def page_request_def MaxKeyBytes_def)

lemma scan_pages_reader:
  assumes "\<And>j req. int j < max_pages opts \<Longrightarrow> validate_list_request req = None \<Longrightarrow>
      lr_limit req \<le> so_max_objects opts \<Longrightarrow> rd_list rd' j req = rd_list (sv_reader env) j req"
    and "1 \<le> so_page_size opts" "so_page_size opts \<le> MaxPageObjects"
    and "length cursor \<le> MaxCursorBytes" "builder_exact m initial limit barman b obs"
  shows "scan_pages opts (env\<lparr>sv_reader := rd'\<rparr>) m k cursor b = scan_pages opts env m k cursor b"
  using assms
proof (induction opts env m k cursor b arbitrary: obs rule: scan_pages.induct)
  case (1 opts env m k cursor b)
  let ?req = "page_request opts cursor b"
  show ?case
  proof (cases "sv_ctx env k = None \<and> int k < max_pages opts \<and> 0 < so_max_objects opts - bd_object_count b")
    case False
    then show ?thesis
      by (auto simp: scan_pages.simps [of opts _ m k cursor b] split: option.split)
  next
    case go: True
    have "lr_limit ?req \<le> so_max_objects opts"
      using 1(6) by (simp add: page_request_def builder_exact_def)
    then have agree: "rd_list rd' k ?req = rd_list (sv_reader env) k ?req"
      using page_request_valid [OF 1(3-5)] 1(2) go by blast
    have step: "scan_pages opts (env\<lparr>sv_reader := rd'\<rparr>) m (Suc k) (pg_next_cursor p) b1
        = scan_pages opts env m (Suc k) (pg_next_cursor p) b1"
      if p: "rd_list (sv_reader env) k ?req = Inr p" and t: "take_page opts m ?req b p = Inr b1"
        and c: "pg_next_cursor p \<noteq> []" "\<not> (so_max_objects opts \<le> bd_object_count b1 \<or> pg_next_cursor p = cursor)"
      for p b1
    proof -
      have "\<not> max_pages opts \<le> int k" "\<not> so_max_objects opts - bd_object_count b \<le> 0"
        using go by auto
      then show ?thesis
        using 1(1) [OF _ _ _ refl p t c 1(2-4)] take_page_exact [OF t 1(6)] go by blast
    qed
    show ?thesis
      using go step
      by (simp add: scan_pages.simps [of opts _ m k cursor b] agree Let_def not_le
          split: sum.split if_split)
  qed
qed

section \<open>The analysis of a completed listing\<close>

text \<open>What the Barman analysis leaves as it is.\<close>

definition inventory_part :: "snapshot \<Rightarrow> snapshot" where
  "inventory_part s = s\<lparr>in_evidence := zero_evidence, in_catalog := [], in_wal := [], in_recovery := []\<rparr>"

lemma inventory_part_eqD:
  assumes "inventory_part s = inventory_part s'"
  shows "in_generation s = in_generation s'" "in_last_refresh s = in_last_refresh s'"
    "in_last_attempt s = in_last_attempt s'" "in_failure s = in_failure s'" "in_pages s = in_pages s'"
    "in_objects_examined s = in_objects_examined s'" "in_totals_known s = in_totals_known s'"
    "in_object_count s = in_object_count s'" "in_stored_bytes s = in_stored_bytes s'"
    "in_unscoped s = in_unscoped s'" "in_scopes s = in_scopes s'" "in_recent s = in_recent s'"
  using assms by (cases s; cases s'; simp add: inventory_part_def)+

lemma evidence_setters [simp]:
  "in_catalog (set_evidence_state st r s) = in_catalog s"
  "in_wal (set_evidence_state st r s) = in_wal s"
  "in_recovery (set_evidence_state st r s) = in_recovery s"
  "inventory_part (set_evidence_state st r s) = inventory_part s"
  "es_state (in_evidence (set_evidence_state st r s)) = st"
  "in_catalog (set_evidence_capability i st r s) = in_catalog s"
  "in_wal (set_evidence_capability i st r s) = in_wal s"
  "in_recovery (set_evidence_capability i st r s) = in_recovery s"
  "inventory_part (set_evidence_capability i st r s) = inventory_part s"
  "es_state (in_evidence (set_evidence_capability i st r s)) = es_state (in_evidence s)"
  "inventory_part (s\<lparr>in_catalog := c\<rparr>) = inventory_part s"
  "inventory_part (s\<lparr>in_wal := w\<rparr>) = inventory_part s"
  "inventory_part (s\<lparr>in_recovery := v\<rparr>) = inventory_part s"
  by (simp_all add: set_evidence_state_def set_evidence_capability_def inventory_part_def)

lemma apply_barman_fields [simp]:
  "in_catalog (apply_barman_evidence s) = in_catalog s" "in_wal (apply_barman_evidence s) = in_wal s"
  "in_recovery (apply_barman_evidence s) = in_recovery s"
  "inventory_part (apply_barman_evidence s) = inventory_part s"
  "es_state (in_evidence (apply_barman_evidence s)) = fst (catalog_verdict (in_catalog s))"
  by (simp_all add: apply_barman_evidence_def split: prod.splits)

lemma apply_wal_fields [simp]:
  "in_catalog (apply_wal_evidence s) = in_catalog s" "in_wal (apply_wal_evidence s) = in_wal s"
  "in_recovery (apply_wal_evidence s) = in_recovery s"
  "inventory_part (apply_wal_evidence s) = inventory_part s"
  "es_state (in_evidence (apply_wal_evidence s))
     = conservative_state (es_state (in_evidence s)) (fst (wal_verdict (in_wal s)))"
  by (simp_all add: apply_wal_evidence_def Let_def split: prod.splits)

lemma apply_recovery_fields [simp]:
  "in_catalog (apply_recovery_evidence s) = in_catalog s" "in_wal (apply_recovery_evidence s) = in_wal s"
  "in_recovery (apply_recovery_evidence s) = in_recovery s"
  "inventory_part (apply_recovery_evidence s) = inventory_part s"
  "es_state (in_evidence (apply_recovery_evidence s))
     = conservative_state (es_state (in_evidence s))
         (conservative_state (recovery_rollup sr_timeline_state (in_recovery s))
           (conservative_state (recovery_rollup sr_coverage_state (in_recovery s))
             (recovery_rollup (\<lambda>r. rs_state (sr_retention r)) (in_recovery s))))"
  by (simp_all add: apply_recovery_evidence_def Let_def)

text \<open>The states of the evidence are among the four.\<close>

lemma analyze_state_valid: "b \<in> set (analyze pt rd objects) \<Longrightarrow> valid_state (bk_state b)"
proof -
  assume "b \<in> set (analyze pt rd objects)"
  then obtain g where "b = analyze_group pt rd g" by (auto simp: set_analyze)
  then show ?thesis
    using read_backup_state [of pt rd] structural_state_valid [of rd]
    by (auto simp: analyze_group_def analyze_listed_def Let_def valid_state_def)
qed

lemma finish_server_state: "valid_state (sw_state (finish_server backups previous gen e))"
  by (cases e) (simp add: finish_server_def Let_def verdict_state empty_server_wal_def split: prod.splits)

lemma finish_state_valid:
  "w \<in> set (collector_finish c backups previous gen) \<Longrightarrow> valid_state (sw_state w)"
  by (auto simp: collector_finish_def finish_server_state)

lemma coverage_rollup_valid: "valid_state (fst (coverage_rollup paths))"
proof (cases "paths = []")
  case False
  have "valid_state (foldl (\<lambda>a p. conservative_recovery_state a (rp_state p)) Healthy paths)"
    by (induction paths rule: rev_induct) (simp_all add: conservative_recovery_state_def)
  with False show ?thesis
    by (auto simp: coverage_rollup_def Let_def foldl_map elim!: valid_stateE)
qed (simp add: coverage_rollup_def)

lemma retention_state_valid: "valid_state (rs_state (retention_summary bs opts))"
  by (simp add: retention_summary_fields split: option.splits)

lemma analyze_histories_state: "valid_state (fst (snd (analyze_histories dec rd wal objects truncated)))"
proof -
  obtain hs state reason where h: "analyze_histories dec rd wal objects truncated = (hs, state, reason)"
    by (metis prod_cases3)
  then have "valid_state state" by (rule analyze_histories_cases) auto
  with h show ?thesis by simp
qed

lemma recovery_state_valid:
  "r \<in> set (analyze_recovery dec rd backups wal objects truncated opts) \<Longrightarrow>
     valid_state (sr_timeline_state r) \<and> valid_state (sr_coverage_state r)
     \<and> valid_state (rs_state (sr_retention r))"
  by (auto simp: analyze_recovery_def analyze_server_def Let_def coverage_rollup_valid
      retention_state_valid analyze_histories_state)

text \<open>What a successful analysis publishes.\<close>

lemma analyze_snapshot_InrD:
  assumes a: "analyze_snapshot opts env previous generation b s = Inr s'" and c: "bd_wal b = Some c"
  defines "backups \<equiv> analyze (sv_time_parse env) (sv_reader env) (bd_catalog b)"
  defines "wal \<equiv> collector_finish c backups (in_wal previous) generation"
  shows "inventory_part s' = inventory_part s" and "in_catalog s' = backups" and "in_wal s' = wal"
    and "in_recovery s' = analyze_recovery (sv_decompress env) (sv_reader env) backups wal
           (wc_history c) (wc_history_truncated c) (so_recovery opts)"
    and "es_state (in_evidence s') = conservative_state
           (conservative_state (fst (catalog_verdict backups)) (fst (wal_verdict wal)))
           (conservative_state (recovery_rollup sr_timeline_state (in_recovery s'))
             (conservative_state (recovery_rollup sr_coverage_state (in_recovery s'))
               (recovery_rollup (\<lambda>r. rs_state (sr_retention r)) (in_recovery s'))))"
  using a c unfolding backups_def wal_def
  by (auto simp: analyze_snapshot_def history_objects_def Let_def split: option.splits)

lemma analyze_snapshot_Healthy_iff:
  assumes a: "analyze_snapshot opts env previous generation b s = Inr s'" and c: "bd_wal b = Some c"
  shows "es_state (in_evidence s') = Healthy \<longleftrightarrow>
     in_catalog s' \<noteq> [] \<and> (\<forall>b\<in>set (in_catalog s'). bk_state b = Healthy)
     \<and> in_wal s' \<noteq> [] \<and> (\<forall>w\<in>set (in_wal s'). sw_state w = Healthy)
     \<and> in_recovery s' \<noteq> []
     \<and> (\<forall>r\<in>set (in_recovery s'). sr_timeline_state r = Healthy \<and> sr_coverage_state r = Healthy
          \<and> rs_state (sr_retention r) = Healthy)"
proof -
  note f = analyze_snapshot_InrD [OF a c]
  have b: "\<forall>b\<in>set (in_catalog s'). valid_state (bk_state b)"
    using analyze_state_valid by (simp add: f(2))
  have w: "\<forall>w\<in>set (in_wal s'). valid_state (sw_state w)"
    using finish_state_valid by (simp add: f(3))
  have r: "\<forall>r\<in>set (in_recovery s'). valid_state (sr_timeline_state r)"
    "\<forall>r\<in>set (in_recovery s'). valid_state (sr_coverage_state r)"
    "\<forall>r\<in>set (in_recovery s'). valid_state (rs_state (sr_retention r))"
    using recovery_state_valid unfolding f(4) by blast+
  show ?thesis
    unfolding f(5) [folded f(2) f(3)]
    using catalog_verdict_Healthy_iff [OF b] wal_verdict_Healthy_iff [OF w]
      recovery_rollup_Healthy_iff [OF r(1)] recovery_rollup_Healthy_iff [OF r(2)]
      recovery_rollup_Healthy_iff [OF r(3)]
    by (auto simp: conservative_Healthy_iff catalog_verdict_valid [OF b] wal_verdict_valid [OF w]
        recovery_rollup_valid [OF r(1)] recovery_rollup_valid [OF r(2)] recovery_rollup_valid [OF r(3)])
qed

section \<open>A successful scan\<close>

text \<open>A scan that returns a snapshot: its matcher, its pages and the builder that took them.\<close>

lemma scan_InrD:
  assumes "scan opts env cache generation started completed = Inr s"
  obtains m ps b where "new_scope_matcher (so_format opts) (so_scopes opts) = Inr m"
    and "listed opts (sv_reader env) 0 [] 0 ps"
    and "builder_exact m (initial_scopes m) (so_recent_limit opts) (barman_scan opts) b (listing ps)"
    and "bd_descriptor b = format_descriptor (so_format opts)" "bd_pages b = int (length ps)"
    and "int (length ps) \<le> max_pages opts" "int (length (listing ps)) \<le> so_max_objects opts"
    and "(if barman_scan opts then analyze_snapshot opts env (cache_load cache) generation b
            (builder_complete b generation started (time_utc completed))
          else Inr (builder_complete b generation started (time_utc completed))) = Inr s"
proof -
  obtain m b0 b where m: "new_scope_matcher (so_format opts) (so_scopes opts) = Inr m"
    and b0: "new_builder (format_descriptor (so_format opts)) (initial_scopes m) (so_recent_limit opts)
               (so_analyze opts) = Inr b0"
    and b: "scan_pages opts env m 0 [] b0 = Inr b"
    and s: "(if barman_scan opts then analyze_snapshot opts env (cache_load cache) generation b
            (builder_complete b generation started (time_utc completed))
          else Inr (builder_complete b generation started (time_utc completed))) = Inr s"
    using assms by (auto simp: scan_def Let_def split: sum.splits if_splits)
  note e0 = new_builder_exact [OF b0, of m, folded barman_scan_def]
  obtain ps where "listed opts (sv_reader env) 0 [] 0 ps"
    "builder_exact m (initial_scopes m) (so_recent_limit opts) (barman_scan opts) b (listing ps)"
    "bd_descriptor b = bd_descriptor b0" "bd_pages b = int (length ps)"
    "int (length ps) \<le> max_pages opts" "int (length (listing ps)) \<le> so_max_objects opts"
    using scan_pages_listed [OF b, of "initial_scopes m" "so_recent_limit opts" "barman_scan opts" "[]"] e0
    by auto
  with m s e0 that show ?thesis by metis
qed

lemma builder_complete_part:
  "inventory_part (builder_complete b generation started completed) =
     inventory_part (zero_snapshot\<lparr>
       in_generation := generation, in_last_refresh := completed, in_last_attempt := started,
       in_pages := bd_pages b, in_objects_examined := bd_object_count b,
       in_totals_known := True, in_object_count := bd_object_count b,
       in_stored_bytes := bd_stored_bytes b, in_unscoped := bd_unscoped b,
       in_scopes := sort_key sp_name (map snd (bd_scopes b)),
       in_recent := sort_key recency (bd_recent b)\<rparr>)"
  by (simp add: builder_complete_def inventory_part_def)

lemma scan_inventory_part:
  assumes s: "(if barman then analyze_snapshot opts env previous generation b s0 else Inr s0) = Inr s"
    and w: "barman \<Longrightarrow> bd_wal b \<noteq> None"
  shows "inventory_part s = inventory_part s0"
  using assms analyze_snapshot_InrD(1) by (cases barman) auto

lemma sorted_scopes:
  assumes "scopes_exact m initial obs scopes"
  shows "map sp_name (sort_key sp_name (map snd scopes)) = sorted_list_of_set (fst ` set scopes)"
proof -
  have eq: "map sp_name (map snd scopes) = map fst scopes"
    using assms by (auto simp: scopes_exact_def)
  have "map sp_name (sort_key sp_name (map snd scopes)) = sort (map fst scopes)"
    unfolding eq [symmetric]
    by (rule properties_for_sort [symmetric]) (simp_all add: multiset.map_comp)
  moreover have "distinct (map fst scopes)" using assms by (simp add: scopes_exact_def)
  ultimately show ?thesis by (simp add: sorted_list_of_set_sort_remdups distinct_remdups_id
        flip: set_map)
qed

section \<open>Failed refreshes\<close>

lemma failure_reason_ok:
  "\<not> invalid_text (''refresh failed: '' @ fault_text f) 256"
  "\<not> invalid_text (''stale after refresh failed: '' @ fault_text f) 256"
  by (cases f; simp add: invalid_text_def ascii_control_def)+

lemma stale_capability_ok:
  "capability_ok c \<Longrightarrow> capability_ok (stale_capability (''refresh failed: '' @ fault_text f) c)
     \<and> cap_id (stale_capability (''refresh failed: '' @ fault_text f) c) = cap_id c
     \<and> cap_state (stale_capability (''refresh failed: '' @ fault_text f) c) = Unknown"
  using failure_reason_ok(2) [of f]
  by (auto simp: capability_ok_def stale_capability_def valid_support_def)

lemma map_cap_id_stale:
  "map (cap_id \<circ> stale_capability reason) cs = map cap_id cs"
  by (auto simp: stale_capability_def)

lemma stale_fields [simp]:
  "in_generation (stale_snapshot s g t0 t1 f) = g" "in_last_refresh (stale_snapshot s g t0 t1 f) = t1"
  "in_last_attempt (stale_snapshot s g t0 t1 f) = t0" "in_failure (stale_snapshot s g t0 t1 f) = f"
  "in_pages (stale_snapshot s g t0 t1 f) = in_pages s"
  "in_objects_examined (stale_snapshot s g t0 t1 f) = in_objects_examined s"
  "in_totals_known (stale_snapshot s g t0 t1 f) = in_totals_known s"
  "in_object_count (stale_snapshot s g t0 t1 f) = in_object_count s"
  "in_stored_bytes (stale_snapshot s g t0 t1 f) = in_stored_bytes s"
  "in_unscoped (stale_snapshot s g t0 t1 f) = in_unscoped s"
  "in_scopes (stale_snapshot s g t0 t1 f) = in_scopes s"
  "in_recent (stale_snapshot s g t0 t1 f) = in_recent s"
  "in_catalog (stale_snapshot s g t0 t1 f) = in_catalog s"
  "in_wal (stale_snapshot s g t0 t1 f) = in_wal s"
  "in_recovery (stale_snapshot s g t0 t1 f) = in_recovery s"
  "in_evidence (stale_snapshot s g t0 t1 f) = (in_evidence s)\<lparr>es_stale := True, es_state := Unknown,
     es_reason := ''refresh failed: '' @ fault_text f,
     es_capabilities := map (stale_capability (''refresh failed: '' @ fault_text f))
       (es_capabilities (in_evidence s))\<rparr>"
  by (simp_all add: stale_snapshot_def Let_def)

lemma stale_snapshot_valid:
  assumes v: "validate_snapshot s = None" and f: "valid_failure_category f"
    and t: "t_loc started = UTC" "t_loc now = UTC" "\<not> time_before now started"
  shows "validate_snapshot (stale_snapshot s generation started now f) = None"
proof -
  let ?s = "stale_snapshot s generation started now f"
  let ?r = "''refresh failed: '' @ fault_text f"
  have "validate_evidence (in_evidence s) = None" using v by (simp add: validate_snapshot_None_iff)
  then have e: "validate_evidence (in_evidence ?s) = None"
    unfolding validate_evidence_iff
    using failure_reason_ok(1) [of f] stale_capability_ok [of _ f]
    by (simp add: map_cap_id_stale)
  have "validate_totals ?s = validate_totals s"
    unfolding validate_totals_def stale_fields by simp
  then show ?thesis
    using v e f t
    by (simp add: validate_snapshot_None_iff refresh_times_ok_def utc_or_zero_def)
qed

lemma descriptor_cases:
  "d = barman_descriptor \<or> d = pgbackrest_descriptor \<Longrightarrow>
     d_capabilities d = barman_capabilities \<and> \<not> invalid_text (d_id d) 128
     \<and> \<not> invalid_text (d_scope_kind d) 128"
  by (auto simp: barman_descriptor_def pgbackrest_descriptor_def barman_capabilities_def
      pgbackrest_capabilities_def invalid_text_def ascii_control_def)

lemma barman_capabilities_ok:
  "distinct barman_capabilities \<and> (\<forall>c\<in>set barman_capabilities. \<not> invalid_text c 128)"
  by (simp add: barman_capabilities_def capability_id_defs invalid_text_def ascii_control_def)

lemma initial_evidence:
  "cap_state c = Unknown \<and> valid_support (cap_support c) \<and> \<not> invalid_text (cap_reason c) 256
     \<and> cap_id c \<in> set (d_capabilities d)"
  if "c \<in> set (es_capabilities (in_evidence (initial_inventory d)))"
  using that
  by (auto simp: initial_inventory_def set_inventory_capability_def set_capability_def
      initial_snapshot_def initial_capability_def valid_support_def invalid_text_def
      ascii_control_def)

lemma map_cap_id_set: "map cap_id (set_capability i st r cs) = map cap_id cs"
  by (simp add: set_capability_def comp_def if_distrib cong: if_cong)

lemma failed_snapshot_valid:
  assumes d: "d = barman_descriptor \<or> d = pgbackrest_descriptor" and f: "valid_failure_category f"
    and t: "t_loc started = UTC" "t_loc now = UTC" "\<not> time_before now started"
  shows "validate_snapshot (failed_snapshot d generation started now f) = None"
proof -
  let ?s = "failed_snapshot d generation started now f"
  let ?cs = "es_capabilities (in_evidence (initial_inventory d))"
  note dc = descriptor_cases [OF d]
  have ids: "map cap_id ?cs = sort (d_capabilities d)"
    using map_cap_id_initial [of "d_id d" "d_scope_kind d" "d_capabilities d"]
    by (simp add: initial_inventory_def set_inventory_capability_def map_cap_id_set)
  have caps: "es_capabilities (in_evidence ?s)
      = map (\<lambda>c. if cap_id c \<noteq> ObjectInventory then c\<lparr>cap_reason := ''scan incomplete''\<rparr> else c) ?cs"
    by (simp add: failed_snapshot_def Let_def)
  have "map cap_id (es_capabilities (in_evidence ?s)) = sort (d_capabilities d)"
    unfolding caps ids [symmetric] by (simp add: comp_def if_distrib cong: if_cong)
  then have "distinct (map cap_id (es_capabilities (in_evidence ?s)))"
    using dc barman_capabilities_ok by simp
  moreover have "capability_ok c" if c: "c \<in> set (es_capabilities (in_evidence ?s))" for c
    using c initial_evidence [of _ d] dc barman_capabilities_ok unfolding caps
    by (auto simp: capability_ok_def invalid_text_def ascii_control_def)
  ultimately have "validate_evidence (in_evidence ?s) = None"
    using failure_reason_ok(1) [of f] dc
    by (simp add: validate_evidence_iff failed_snapshot_def Let_def initial_inventory_def
        set_inventory_capability_def initial_snapshot_def)
  then show ?thesis
    using f t
    by (simp add: validate_snapshot_None_iff refresh_times_ok_def utc_or_zero_def validate_totals_def
        failed_snapshot_def Let_def initial_inventory_def zero_snapshot_def validate_wal_catalog_def
        validate_recovery_catalog_def)
qed

section \<open>The refresh cycle\<close>

text \<open>
  The states a scanner can reach: it starts from the initial snapshot of its format, and then
  probes the store and refreshes, whatever the provider, the context and the clock answer. The
  clock does not run backwards during one refresh, and the 64-bit generation counter does not
  wrap around.
\<close>

inductive scanner_reach :: "scanner_options \<Rightarrow> scanner_state \<Rightarrow> bool" for opts where
  start: "new_cache (initial_inventory (format_descriptor (so_format opts))) = Inr c \<Longrightarrow>
     scanner_reach opts \<lparr>ss_cache = c, ss_generation = 0, ss_readiness = new_probe_state valid age\<rparr>"
| refreshed: "scanner_reach opts st \<Longrightarrow> ss_generation st \<noteq> max_u64 \<Longrightarrow> \<not> time_before t1 t0 \<Longrightarrow>
     refresh opts env t0 t1 st = (r, st') \<Longrightarrow> scanner_reach opts st'"
| probed: "scanner_reach opts st \<Longrightarrow> probe answer now st = (f, st') \<Longrightarrow> scanner_reach opts st'"

definition gaps_before :: "u64 \<Rightarrow> snapshot \<Rightarrow> bool" where
  "gaps_before gen s \<longleftrightarrow> (\<forall>w\<in>set (in_wal s). \<forall>g\<in>set (sw_gaps w).
     0 < wg_first_generation g \<and> wg_first_generation g \<le> gen \<and> wg_last_generation g \<le> gen)"

text \<open>The published snapshot belongs to a generation that the counter has reached.\<close>

definition published_ok :: "scanner_state \<Rightarrow> bool" where
  "published_ok st \<longleftrightarrow> (\<exists>s. ss_cache st = Some s \<and> validate_snapshot s = None
     \<and> in_generation s \<le> ss_generation st \<and> es_generation (in_evidence s) \<le> in_generation s
     \<and> gaps_before (in_generation s) s)"

lemma finish_gaps_generation:
  assumes "w \<in> set (collector_finish (collect objects) backups previous gen)" "g \<in> set (sw_gaps w)"
  shows "wg_last_generation g = gen \<and> (wg_first_generation g = gen
    \<or> (\<exists>p\<in>set previous. \<exists>old\<in>set (sw_gaps p). wg_first_generation g = wg_first_generation old))"
proof -
  let ?prev = "previous_server previous (sw_server w)"
  obtain sz ranges where "g \<in> set (gaps_for_ranges ranges ?prev sz gen)"
    using finish_server_gaps assms by (metis finish_mem)
  then obtain l r where g: "gap_between l r (prior_gaps ?prev) sz gen = Some g"
    unfolding gaps_for_ranges_def by (rule gaps_from_mem)
  have "\<exists>p\<in>set previous. \<exists>old'\<in>set (sw_gaps p). old' = old" if "old \<in> set (sw_gaps ?prev)" for old
    using previous_server_gaps [of previous "\<lambda>g. \<exists>p\<in>set previous. g \<in> set (sw_gaps p)" "sw_server w"] that
    by blast
  then show ?thesis
    using gap_between_Some(7,8) [OF g] prior_gaps_Some [of ?prev "identity_of g"]
    by (auto split: option.splits)
qed

lemma apply_generation [simp]:
  "es_generation (in_evidence (apply_barman_evidence s)) = es_generation (in_evidence s)"
  "es_generation (in_evidence (apply_wal_evidence s)) = es_generation (in_evidence s)"
  "es_generation (in_evidence (apply_recovery_evidence s)) = es_generation (in_evidence s)"
  by (simp_all add: apply_barman_evidence_def apply_wal_evidence_def apply_recovery_evidence_def
      set_evidence_state_def set_evidence_capability_def Let_def split: prod.splits)

lemma analyze_snapshot_generation:
  "analyze_snapshot opts env previous gen b s = Inr s' \<Longrightarrow>
     es_generation (in_evidence s') = es_generation (in_evidence s)"
  by (auto simp: analyze_snapshot_def history_objects_def Let_def split: option.splits)

lemma builder_complete_generation:
  "es_generation (in_evidence (builder_complete b gen t0 t1)) = gen"
  by (simp add: builder_complete_def set_inventory_capability_def)

lemma scan_generation:
  assumes s: "scan opts env cache gen t0 t1 = Inr s" and g: "0 < gen"
    and prior: "\<forall>p\<in>set_option cache. gaps_before gen p"
  shows "in_generation s = gen \<and> es_generation (in_evidence s) = gen \<and> gaps_before gen s"
proof -
  obtain m ps b where ex: "builder_exact m (initial_scopes m) (so_recent_limit opts) (barman_scan opts) b (listing ps)"
    and s': "(if barman_scan opts then analyze_snapshot opts env (cache_load cache) gen b
            (builder_complete b gen t0 (time_utc t1))
          else Inr (builder_complete b gen t0 (time_utc t1))) = Inr s"
    by (rule scan_InrD [OF s])
  show ?thesis
  proof (cases "barman_scan opts")
    case False
    then have "s = builder_complete b gen t0 (time_utc t1)" using s' by simp
    then show ?thesis
      by (simp add: builder_complete_def set_inventory_capability_def gaps_before_def zero_snapshot_def)
  next
    case True
    then have a: "analyze_snapshot opts env (cache_load cache) gen b (builder_complete b gen t0 (time_utc t1)) = Inr s"
      and w: "bd_wal b = Some (collect (matched m (listing ps)))"
      using s' ex by (simp_all add: builder_exact_def)
    have "in_generation s = gen"
      using inventory_part_eqD(1) [OF analyze_snapshot_InrD(1) [OF a w]] by (simp add: builder_complete_def)
    moreover have "gaps_before gen s"
      unfolding gaps_before_def
    proof (intro ballI)
      fix v x
      assume v: "v \<in> set (in_wal s)" and x: "x \<in> set (sw_gaps v)"
      have "0 < wg_first_generation old \<and> wg_first_generation old \<le> gen"
        if "p \<in> set (in_wal (cache_load cache))" "old \<in> set (sw_gaps p)" for p old
        using prior that by (cases cache) (auto simp: cache_load_def gaps_before_def zero_snapshot_def)
      then show "0 < wg_first_generation x \<and> wg_first_generation x \<le> gen \<and> wg_last_generation x \<le> gen"
        using finish_gaps_generation [OF v [unfolded analyze_snapshot_InrD(3) [OF a w]] x] g by auto
    qed
    ultimately show ?thesis
      using analyze_snapshot_generation [OF a] by (simp add: builder_complete_generation)
  qed
qed

lemma gaps_before_mono: "gaps_before a s \<Longrightarrow> a \<le> b \<Longrightarrow> gaps_before b s"
  by (fastforce simp: gaps_before_def)

lemma u64_suc_bounds: "(g :: u64) \<noteq> max_u64 \<Longrightarrow> g < g + 1 \<and> 0 < g + 1"
  using unat_suc_u64 [of g] by (simp add: word_less_nat_alt)

lemma failure_snapshot_generation:
  assumes "gaps_before gen (cache_load cache)" "es_generation (in_evidence (cache_load cache)) \<le> gen"
  shows "in_generation (failure_snapshot opts cache gen t0 t1 f) = gen
     \<and> es_generation (in_evidence (failure_snapshot opts cache gen t0 t1 f)) \<le> gen
     \<and> gaps_before gen (failure_snapshot opts cache gen t0 t1 f)"
  using assms
  by (simp add: failure_snapshot_def Let_def gaps_before_def failed_snapshot_def initial_inventory_def
      zero_snapshot_def)

text \<open>What one refresh does to the published snapshot.\<close>

lemma refresh_success:
  assumes "scan opts env (ss_cache st) (ss_generation st + 1) (time_utc t0) t1 = Inr s"
  shows "refresh opts env t0 t1 st = (case validate_snapshot s of
       Some e \<Rightarrow> (Some (PublishFailed e), st\<lparr>ss_generation := ss_generation st + 1\<rparr>)
     | None \<Rightarrow> (None, st\<lparr>ss_generation := ss_generation st + 1, ss_cache := Some s\<rparr>))"
  using assms by (simp add: refresh_def Let_def cache_publish_def split: option.split)

lemma refresh_failure:
  assumes "scan opts env (ss_cache st) (ss_generation st + 1) (time_utc t0) t1 = Inl e"
  shows "refresh opts env t0 t1 st = (Some (ScanFailed e),
     if err_canceled e then st\<lparr>ss_generation := ss_generation st + 1\<rparr>
     else let s = failure_snapshot opts (ss_cache st) (ss_generation st + 1) (time_utc t0)
                    (time_utc t1) (categorize (Some e))
          in if validate_snapshot s = None
             then st\<lparr>ss_generation := ss_generation st + 1, ss_cache := Some s\<rparr>
             else st\<lparr>ss_generation := ss_generation st + 1\<rparr>)"
  using assms
  by (auto simp: refresh_def Let_def publish_failure_def cache_publish_def split: option.split)

lemma refresh_published:
  assumes ok: "published_ok st" and g: "ss_generation st \<noteq> max_u64"
    and r: "refresh opts env t0 t1 st = (r, st')"
  shows "ss_generation st' = ss_generation st + 1 \<and> ss_readiness st' = ss_readiness st
     \<and> published_ok st'
     \<and> (ss_cache st' = ss_cache st
        \<or> (\<exists>s. ss_cache st' = Some s \<and> in_generation s = ss_generation st'))"
proof -
  obtain s where s: "ss_cache st = Some s" "validate_snapshot s = None"
    "in_generation s \<le> ss_generation st" "es_generation (in_evidence s) \<le> in_generation s"
    "gaps_before (in_generation s) s"
    using ok by (auto simp: published_ok_def)
  let ?g = "ss_generation st + 1"
  have lt: "ss_generation st < ?g" "0 < ?g" using u64_suc_bounds [OF g] by auto
  have le: "in_generation s \<le> ?g" using s(3) lt(1) by simp
  have same: "published_ok (st\<lparr>ss_generation := ?g\<rparr>)" using s le by (simp add: published_ok_def)
  show ?thesis
  proof (cases "scan opts env (ss_cache st) ?g (time_utc t0) t1")
    case (Inr v)
    have "in_generation v = ?g \<and> es_generation (in_evidence v) = ?g \<and> gaps_before ?g v"
      using gaps_before_mono [OF s(5) le] by (intro scan_generation [OF Inr lt(2)]) (simp add: s(1))
    then show ?thesis
      using r same unfolding refresh_success [OF Inr]
      by (auto simp: published_ok_def split: option.splits)
  next
    case (Inl e)
    have "es_generation (in_evidence s) \<le> ?g" using s(4) le by simp
    then have "in_generation (failure_snapshot opts (ss_cache st) ?g a b f) = ?g
        \<and> es_generation (in_evidence (failure_snapshot opts (ss_cache st) ?g a b f)) \<le> ?g
        \<and> gaps_before ?g (failure_snapshot opts (ss_cache st) ?g a b f)" for a b f
      using gaps_before_mono [OF s(5) le]
      by (intro failure_snapshot_generation) (simp_all add: s(1) cache_load_def)
    then show ?thesis
      using r same unfolding refresh_failure [OF Inl]
      by (auto simp: published_ok_def Let_def split: if_splits)
  qed
qed

lemma probe_published:
  "probe answer now st = (f, st') \<Longrightarrow> ss_cache st' = ss_cache st \<and> ss_generation st' = ss_generation st"
  by (auto simp: probe_def split: sum.splits)

lemma scanner_reach_published: "scanner_reach opts st \<Longrightarrow> published_ok st"
proof (induction rule: scanner_reach.induct)
  case (start c valid age)
  then show ?case
    using new_cache_valid [OF start]
    by (auto simp: published_ok_def valid_cache_def initial_inventory_def zero_snapshot_def
        gaps_before_def set_inventory_capability_def initial_snapshot_def)
next
  case (refreshed st t1 t0 env r st')
  then show ?case using refresh_published by blast
next
  case (probed st answer now f st')
  then show ?case using probe_published by (simp add: published_ok_def)
qed

section \<open>Properties\<close>

text \<open>
  C24. A completed scan reports the listing exactly: the pages the provider answered form one
  complete listing, and the totals, the sorted scopes with their counters and the most recent
  objects are those of its objects, never more of them than the configured maximum.
\<close>

theorem scan_exact:
  assumes opts: "new_scanner interval opts0 = Inr opts"
    and s: "scan opts env cache generation started completed = Inr s"
  shows "\<exists>m ps. new_scope_matcher (so_format opts) (so_scopes opts) = Inr m
     \<and> listed opts (sv_reader env) 0 [] 0 ps \<and> in_pages s = int (length ps)
     \<and> in_totals_known s \<and> in_objects_examined s = in_object_count s
     \<and> in_object_count s = int (length (listing ps)) \<and> in_object_count s \<le> so_max_objects opts
     \<and> in_stored_bytes s = sum_list (map ob_size (listing ps))
     \<and> in_unscoped s = in_object_count s - int (length (matched m (listing ps)))
     \<and> map sp_name (in_scopes s) = sorted_list_of_set (set (initial_scopes m)
          \<union> {sm_name r | ob r. ob \<in> set (listing ps) \<and> match_scope m (ob_key ob) = Some r})
     \<and> list_all (scope_exact m (listing ps)) (in_scopes s)
     \<and> map recency (in_recent s) = take (nat (so_recent_limit opts))
          (map recency (sort_key recency (recents_of m (listing ps))))
     \<and> set (in_recent s) \<subseteq> set (recents_of m (listing ps))"
proof -
  obtain m ps b where m: "new_scope_matcher (so_format opts) (so_scopes opts) = Inr m"
    and ps: "listed opts (sv_reader env) 0 [] 0 ps"
    and ex: "builder_exact m (initial_scopes m) (so_recent_limit opts) (barman_scan opts) b (listing ps)"
    and pages: "bd_pages b = int (length ps)" and le: "int (length (listing ps)) \<le> so_max_objects opts"
    and s': "(if barman_scan opts then analyze_snapshot opts env (cache_load cache) generation b
            (builder_complete b generation started (time_utc completed))
          else Inr (builder_complete b generation started (time_utc completed))) = Inr s"
    by (rule scan_InrD [OF s])
  have "inventory_part s = inventory_part (builder_complete b generation started (time_utc completed))"
    using scan_inventory_part [OF s'] ex by (simp add: builder_exact_def)
  note f = inventory_part_eqD [OF this [unfolded builder_complete_part], simplified]
  have sc: "scopes_exact m (initial_scopes m) (listing ps) (bd_scopes b)"
    using ex by (simp add: builder_exact_def)
  have limit: "0 < nat (so_recent_limit opts)" "int (nat (so_recent_limit opts)) = so_recent_limit opts"
    using opts by (auto simp: new_scanner_def split: if_splits)
  have keeps: "keeps_recent (nat (so_recent_limit opts)) (recents_of m (listing ps)) (bd_recent b)"
    using foldl_add_recent_keeps [OF limit(1), of "recents_of m (listing ps)"] ex
    unfolding limit(2) by (simp add: builder_exact_def)
  have "list_all (scope_exact m (listing ps)) (in_scopes s)"
    using sc by (auto simp: f list_all_iff scopes_exact_def)
  moreover have "set (bd_recent b) \<subseteq> set (recents_of m (listing ps))"
    using keeps by (auto simp: keeps_recent_def simp flip: set_mset_mset)
  moreover have "map sp_name (in_scopes s) = sorted_list_of_set (set (initial_scopes m)
          \<union> {sm_name r | ob r. ob \<in> set (listing ps) \<and> match_scope m (ob_key ob) = Some r})"
    using sorted_scopes [OF sc] sc by (simp add: f scopes_exact_def)
  ultimately show ?thesis
    using m ps pages le ex keeps_recent_sorted [OF keeps]
    by (intro exI [of _ m] exI [of _ ps]) (simp add: f builder_exact_def)
qed

definition ex_page_object :: object where
  "ex_page_object = \<lparr>ob_key = ''pg/base/b/data.tar'', ob_size = 7, ob_last_modified = zero_time, ob_etag = []\<rparr>"

definition ex_scan_reader :: reader where
  "ex_scan_reader = \<lparr>rd_list = (\<lambda>k req. Inr \<lparr>pg_objects = [ex_page_object], pg_next_cursor = []\<rparr>),
     rd_open = (\<lambda>r. OpenFailed), rd_stat = (\<lambda>r. Inl plain_error)\<rparr>"

definition ex_scan_options :: "bool \<Rightarrow> scanner_options" where
  "ex_scan_options barman =
     \<lparr>so_format = BarmanFormat, so_scopes = [''pg''], so_max_objects = 10, so_page_size = 5,
      so_recent_limit = 3, so_analyze = barman,
      so_recovery = \<lparr>ro_retention_policy = [], ro_minimum_redundancy = None\<rparr>\<rparr>"

definition ex_scan_env :: "go_error option \<Rightarrow> scan_env" where
  "ex_scan_env err = \<lparr>sv_reader = ex_scan_reader, sv_ctx = (\<lambda>n. err),
     sv_decompress = (\<lambda>c d. OpenFailed), sv_time_parse = (\<lambda>l v. None)\<rparr>"

lemmas ex_scan_defs = ex_page_object_def ex_scan_reader_def ex_scan_options_def ex_scan_env_def

lemma ex_new_scanner: "new_scanner 1 (ex_scan_options barman) = Inr (ex_scan_options barman)"
  by (simp add: new_scanner_def ex_scan_options_def MaxPageObjects_def MaxRecentObjects_def MaxScopes_def)

lemma ex_matcher:
  "new_scope_matcher (so_format (ex_scan_options barman)) (so_scopes (ex_scan_options barman))
     = Inr (BarmanMatcher [''pg''] {''pg''})"
  by (simp add: ex_scan_options_def barman_new_matcher_def valid_discovered_name_def ascii_control_def)

lemma ex_match:
  "match_scope (BarmanMatcher [''pg''] {''pg''}) ''pg/base/b/data.tar''
     = Some \<lparr>sm_name = ''pg'', sm_recognized = True\<rparr>"
  by (simp add: barman_match_def valid_discovered_name_def ascii_control_def numeral_3_eq_3
      has_prefix_def Let_def)

lemma ex_max_pages: "max_pages (ex_scan_options barman) = 102"
  by (simp add: max_pages_def ex_scan_options_def i64_def signed_divide_int_def sgn_if)

lemma ex_new_builder:
  "new_builder barman_descriptor [''pg''] 3 barman =
     Inr \<lparr>bd_descriptor = barman_descriptor, bd_pages = 0, bd_object_count = 0, bd_stored_bytes = 0,
        bd_unscoped = 0, bd_scopes = [(''pg'', empty_scope ''pg'')], bd_recent = [], bd_recent_limit = 3,
        bd_catalog = [], bd_wal = (if barman then Some new_wal_collector else None)\<rparr>"
  by (simp add: new_builder_def invalid_scope_name_def ascii_control_def MaxScopes_def
      barman_descriptor_def)

lemma ex_add_object:
  assumes "bd_object_count b = 0" "bd_stored_bytes b = 0" "bd_scopes b = [(''pg'', empty_scope ''pg'')]"
    "bd_catalog b = []"
  shows "\<exists>b'. add_objects (BarmanMatcher [''pg''] {''pg''}) b [ex_page_object] = Inr b'"
  using assms
  by (simp add: ex_page_object_def ex_match add_object_def count_scope_def invalid_scope_name_def
      ascii_control_def Let_def add_barman_def count_recent_def MaxKeyBytes_def MaxCatalogObjects_def
      empty_scope_def del: match_scope.simps)

lemma ex_scan_pages:
  assumes "bd_object_count b = 0" "bd_stored_bytes b = 0" "bd_scopes b = [(''pg'', empty_scope ''pg'')]"
    "bd_catalog b = []"
  shows "\<exists>b'. scan_pages (ex_scan_options barman) (ex_scan_env None)
     (BarmanMatcher [''pg''] {''pg''}) 0 [] b = Inr b'"
proof -
  obtain b' where b': "add_objects (BarmanMatcher [''pg''] {''pg''}) (b\<lparr>bd_pages := bd_pages b + 1\<rparr>)
      [ex_page_object] = Inr b'"
    using ex_add_object [of "b\<lparr>bd_pages := bd_pages b + 1\<rparr>"] assms by auto
  have "take_page (ex_scan_options barman) (BarmanMatcher [''pg''] {''pg''})
      (page_request (ex_scan_options barman) [] b) b \<lparr>pg_objects = [ex_page_object], pg_next_cursor = []\<rparr> = Inr b'"
    using b' assms by (simp add: take_page_def page_request_def ex_scan_options_def)
  moreover have "sv_ctx (ex_scan_env None) 0 = None"
    "rd_list (sv_reader (ex_scan_env None)) 0 req = Inr \<lparr>pg_objects = [ex_page_object], pg_next_cursor = []\<rparr>"
    "so_max_objects (ex_scan_options barman) = 10" for req
    by (simp_all add: ex_scan_defs)
  ultimately show ?thesis
    using assms(1)
    by (simp add: scan_pages.simps [of "ex_scan_options barman" _ _ 0] ex_max_pages Let_def)
qed

lemma ex_scan_eq:
  "\<exists>b. scan (ex_scan_options barman) (ex_scan_env None) cache g t0 t1 =
     (if barman then analyze_snapshot (ex_scan_options barman) (ex_scan_env None) (cache_load cache) g b
          (builder_complete b g t0 (time_utc t1))
      else Inr (builder_complete b g t0 (time_utc t1)))"
proof -
  have d: "format_descriptor (so_format (ex_scan_options barman)) = barman_descriptor"
    "so_recent_limit (ex_scan_options barman) = 3" "so_analyze (ex_scan_options barman) = barman"
    "barman_scan (ex_scan_options barman) = barman"
    by (simp_all add: ex_scan_options_def barman_scan_def barman_descriptor_def)
  let ?b = "\<lparr>bd_descriptor = barman_descriptor, bd_pages = 0, bd_object_count = 0, bd_stored_bytes = 0,
        bd_unscoped = 0, bd_scopes = [(''pg'', empty_scope ''pg'')], bd_recent = [], bd_recent_limit = 3,
        bd_catalog = [], bd_wal = (if barman then Some new_wal_collector else None)\<rparr>"
  obtain b where "scan_pages (ex_scan_options barman) (ex_scan_env None) (BarmanMatcher [''pg''] {''pg''})
      0 [] ?b = Inr b"
    using ex_scan_pages [of ?b barman] by auto
  then show ?thesis
    unfolding scan_def ex_matcher by (intro exI [of _ b]) (simp add: Let_def d ex_new_builder)
qed

lemma ex_scan: "\<exists>s. scan (ex_scan_options False) (ex_scan_env None) cache g t0 t1 = Inr s"
  using ex_scan_eq [of False cache g t0 t1] by auto

lemma ex_barman_scan: "\<exists>s. scan (ex_scan_options True) (ex_scan_env None) cache g t0 t1 = Inr s"
proof -
  have "sv_ctx (ex_scan_env None) n = None" for n by (simp add: ex_scan_env_def)
  then show ?thesis
    using ex_scan_eq [of True cache g t0 t1]
    by (auto simp: analyze_snapshot_def history_objects_def Let_def)
qed

lemma scan_exact_witness:
  "\<exists>s ps. scan (ex_scan_options False) (ex_scan_env None) None 1 zero_time zero_time = Inr s
     \<and> listed (ex_scan_options False) ex_scan_reader 0 [] 0 ps
     \<and> in_object_count s = int (length (listing ps))"
proof -
  obtain s where s: "scan (ex_scan_options False) (ex_scan_env None) None 1 zero_time zero_time = Inr s"
    using ex_scan by blast
  from scan_exact [OF ex_new_scanner s] show ?thesis using s by (auto simp: ex_scan_env_def)
qed

text \<open>
  C27. The page loop is bounded: it terminates, makes fewer calls than its page limit, and each
  request is one that the store boundary accepts, for at most the remaining objects. What a
  reader answers to any other call cannot change the scan.
\<close>

theorem scan_requests_bounded:
  assumes "new_scanner interval opts0 = Inr opts"
    and "\<And>j req. int j < max_pages opts \<Longrightarrow> validate_list_request req = None \<Longrightarrow>
      lr_limit req \<le> so_max_objects opts \<Longrightarrow> rd_list rd' j req = rd_list (sv_reader env) j req"
    and "new_builder d (initial_scopes m) (so_recent_limit opts) (so_analyze opts) = Inr b"
  shows "scan_pages opts (env\<lparr>sv_reader := rd'\<rparr>) m 0 [] b = scan_pages opts env m 0 [] b"
  using scan_pages_reader [OF assms(2) _ _ _ conjunct1 [OF new_builder_exact [OF assms(3)]]] assms(1)
  by (auto simp: new_scanner_def split: if_splits)

lemma scan_requests_bounded_witness:
  "\<exists>b. scan_pages (ex_scan_options False)
     (ex_scan_env None\<lparr>sv_reader := ex_scan_reader\<lparr>rd_list := (\<lambda>k req.
        if validate_list_request req = None then rd_list ex_scan_reader k req else Inl plain_error)\<rparr>\<rparr>)
     (BarmanMatcher [''pg''] {''pg''}) 0 [] b
   = scan_pages (ex_scan_options False) (ex_scan_env None) (BarmanMatcher [''pg''] {''pg''}) 0 [] b"
proof -
  obtain b where b: "new_builder barman_descriptor (initial_scopes (BarmanMatcher [''pg''] {''pg''}))
     (so_recent_limit (ex_scan_options False)) (so_analyze (ex_scan_options False)) = Inr b"
    using ex_new_builder [of False] by (simp add: ex_scan_options_def)
  show ?thesis
    by (rule exI [of _ b], rule scan_requests_bounded [OF ex_new_scanner _ b])
      (simp add: ex_scan_env_def)
qed

text \<open>
  C25. The overall verdict of a Barman scan is healthy exactly if there is a backup and all are
  healthy, there is an archive and all are healthy, and every server has healthy timelines,
  healthy recovery coverage and a healthy retention summary; nothing is healthy by default.
\<close>

theorem healthy_snapshot_exact:
  assumes "scan opts env cache generation started completed = Inr s" and "barman_scan opts"
  shows "es_state (in_evidence s) = Healthy \<longleftrightarrow>
     in_catalog s \<noteq> [] \<and> (\<forall>b\<in>set (in_catalog s). bk_state b = Healthy)
     \<and> in_wal s \<noteq> [] \<and> (\<forall>w\<in>set (in_wal s). sw_state w = Healthy)
     \<and> in_recovery s \<noteq> []
     \<and> (\<forall>r\<in>set (in_recovery s). sr_timeline_state r = Healthy \<and> sr_coverage_state r = Healthy
          \<and> rs_state (sr_retention r) = Healthy)"
  using assms
  by (elim scan_InrD) (simp add: builder_exact_def analyze_snapshot_Healthy_iff)

lemma healthy_snapshot_exact_witness:
  "\<exists>s. scan (ex_scan_options True) (ex_scan_env None) None 1 zero_time zero_time = Inr s
     \<and> (es_state (in_evidence s) \<noteq> Healthy \<or> in_recovery s \<noteq> [])"
proof -
  obtain s where s: "scan (ex_scan_options True) (ex_scan_env None) None 1 zero_time zero_time = Inr s"
    using ex_barman_scan by blast
  moreover have "barman_scan (ex_scan_options True)"
    by (simp add: ex_scan_options_def barman_scan_def barman_descriptor_def)
  ultimately show ?thesis using healthy_snapshot_exact [OF s] by blast
qed

lemma refresh_failure_published:
  assumes st: "scanner_reach opts st"
    and r: "refresh opts env t0 t1 st = (Some (ScanFailed e), st')"
    and e: "\<not> err_canceled e" "valid_failure_category (categorize (Some e))"
    and format: "so_format opts = BarmanFormat \<or> so_format opts = PgBackRestFormat"
    and clock: "\<not> time_before t1 t0"
  shows "\<exists>s. ss_cache st' = Some s \<and> validate_snapshot s = None
     \<and> es_state (in_evidence s) = Unknown \<and> es_stale (in_evidence s)
     \<and> list_all (\<lambda>c. cap_state c = Unknown) (es_capabilities (in_evidence s))
     \<and> in_failure s = categorize (Some e) \<and> in_generation s = ss_generation st'
     \<and> inventory_part (s\<lparr>in_generation := 0, in_last_refresh := zero_time, in_last_attempt := zero_time,
            in_failure := FaultNone\<rparr>)
        = (if in_totals_known (cache_load (ss_cache st))
           then inventory_part ((cache_load (ss_cache st))\<lparr>in_generation := 0, in_last_refresh := zero_time,
                  in_last_attempt := zero_time, in_failure := FaultNone\<rparr>)
           else inventory_part zero_snapshot)"
proof -
  let ?g = "ss_generation st + 1" and ?f = "categorize (Some e)"
  obtain v where v: "ss_cache st = Some v" "validate_snapshot v = None"
    using scanner_reach_published [OF st] by (auto simp: published_ok_def)
  have scan: "scan opts env (ss_cache st) ?g (time_utc t0) t1 = Inl e"
  proof (cases "scan opts env (ss_cache st) ?g (time_utc t0) t1")
    case (Inr s)
    then show ?thesis using r refresh_success [OF Inr] by (simp split: option.splits)
  next
    case (Inl e')
    then show ?thesis using r refresh_failure [OF Inl] by simp
  qed
  let ?s = "failure_snapshot opts (ss_cache st) ?g (time_utc t0) (time_utc t1) ?f"
  have utc: "\<not> time_before (time_utc t1) (time_utc t0)" using clock by (simp add: time_before_def)
  have d: "format_descriptor (so_format opts) = barman_descriptor
      \<or> format_descriptor (so_format opts) = pgbackrest_descriptor" using format by auto
  have valid: "validate_snapshot ?s = None"
    using stale_snapshot_valid [OF v(2) e(2) _ _ utc] failed_snapshot_valid [OF d e(2) _ _ utc]
    by (simp add: failure_snapshot_def Let_def v(1) cache_load_def)
  have caps: "cap_state c = Unknown" if "c \<in> set (es_capabilities (in_evidence v))" "cap_support c \<noteq> Supported" for c
    using v(2) that by (auto simp: validate_snapshot_None_iff validate_evidence_iff capability_ok_def)
  have "ss_cache st' = Some ?s" "ss_generation st' = ?g"
    using r valid e(1) unfolding refresh_failure [OF scan] by (auto simp: Let_def)
  moreover have "list_all (\<lambda>c. cap_state c = Unknown) (es_capabilities (in_evidence ?s))"
    using caps initial_evidence [of _ "format_descriptor (so_format opts)"]
    by (auto simp: failure_snapshot_def Let_def v(1) cache_load_def list_all_iff stale_capability_def
        failed_snapshot_def)
  ultimately show ?thesis
    using valid
    by (intro exI [of _ ?s])
      (simp add: failure_snapshot_def Let_def v(1) cache_load_def failed_snapshot_def initial_inventory_def
        set_inventory_capability_def initial_snapshot_def zero_snapshot_def inventory_part_def
        stale_snapshot_def)
qed

text \<open>
  A refresh that fails never leaves better evidence than it has: unless it was cancelled,
  the published snapshot becomes stale and unknown, with every capability unknown and the
  failure as its category, while known totals stay those of the last complete scan.
\<close>

theorem failed_refresh_unknown:
  assumes st: "scanner_reach opts st"
    and r: "refresh opts env t0 t1 st = (Some (ScanFailed e), st')"
    and e: "\<not> err_canceled e" "valid_failure_category (categorize (Some e))"
    and format: "so_format opts = BarmanFormat \<or> so_format opts = PgBackRestFormat"
    and clock: "\<not> time_before t1 t0"
  shows "\<exists>s. ss_cache st' = Some s \<and> validate_snapshot s = None
     \<and> es_state (in_evidence s) = Unknown \<and> es_stale (in_evidence s)
     \<and> list_all (\<lambda>c. cap_state c = Unknown) (es_capabilities (in_evidence s))
     \<and> in_failure s = categorize (Some e) \<and> in_generation s = ss_generation st'
     \<and> inventory_part (s\<lparr>in_generation := 0, in_last_refresh := zero_time, in_last_attempt := zero_time,
            in_failure := FaultNone\<rparr>)
        = (if in_totals_known (cache_load (ss_cache st))
           then inventory_part ((cache_load (ss_cache st))\<lparr>in_generation := 0, in_last_refresh := zero_time,
                  in_last_attempt := zero_time, in_failure := FaultNone\<rparr>)
           else inventory_part zero_snapshot)"
  using assms by (rule refresh_failure_published)

lemma ex_new_cache:
  "new_cache (initial_inventory (format_descriptor (so_format (ex_scan_options barman))))
     = Inr (Some (initial_inventory barman_descriptor))"
  by (simp add: ex_scan_options_def new_cache_def cache_publish_def initial_inventory_valid)

lemmas ex_reach = scanner_reach.start [OF ex_new_cache, of _ True 5]

lemma ex_failed_scan:
  "scan (ex_scan_options barman) (ex_scan_env (Some e)) cache g t0 t1 = Inl e"
  unfolding scan_def ex_matcher
  by (simp add: Let_def ex_scan_options_def ex_new_builder scan_pages.simps ex_scan_env_def)

lemma failed_refresh_unknown_witness:
  "\<exists>st st' s. scanner_reach (ex_scan_options True) st
     \<and> refresh (ex_scan_options True) (ex_scan_env (Some (scan_error Throttled))) zero_time zero_time st
        = (Some (ScanFailed (scan_error Throttled)), st')
     \<and> ss_cache st' = Some s \<and> in_failure s = Throttled \<and> es_state (in_evidence s) = Unknown"
proof -
  let ?st = "\<lparr>ss_cache = Some (initial_inventory barman_descriptor), ss_generation = 0,
      ss_readiness = new_probe_state True 5\<rparr>"
  obtain st' where r: "refresh (ex_scan_options True) (ex_scan_env (Some (scan_error Throttled)))
      zero_time zero_time ?st = (Some (ScanFailed (scan_error Throttled)), st')"
    unfolding refresh_failure [OF ex_failed_scan] by simp
  have "\<exists>s. ss_cache st' = Some s \<and> in_failure s = Throttled \<and> es_state (in_evidence s) = Unknown"
    using failed_refresh_unknown [OF ex_reach r]
    by (auto simp: scan_error_def categorize_def valid_failure_category_def ex_scan_options_def time_before_def)
  with r ex_reach [of True] show ?thesis by blast
qed

text \<open>
  A refresh that fails with an error of no category is not published at all: the category
  is then \<open>unknown\<close>, which the validation of the snapshot refuses, and the error of
  \<open>Publish\<close> is dropped, so the last snapshot stays as it was, healthy or not.
\<close>

lemma uncategorized_failure_unpublished:
  assumes "refresh opts env t0 t1 st = (Some (ScanFailed e), st')"
    and "categorize (Some e) = FaultUnknown"
  shows "ss_cache st' = ss_cache st"
proof (cases "scan opts env (ss_cache st) (ss_generation st + 1) (time_utc t0) t1")
  case (Inr s)
  then show ?thesis using assms(1) refresh_success [OF Inr] by (simp split: option.splits)
next
  case (Inl e')
  have "in_failure (failure_snapshot opts c g a b FaultUnknown) = FaultUnknown" for c g a b
    by (simp add: failure_snapshot_def Let_def failed_snapshot_def)
  then have "(validate_snapshot (failure_snapshot opts c g a b FaultUnknown) = None) = False" for c g a b
    by (simp only: validate_snapshot_None_iff) (simp add: valid_failure_category_def)
  moreover have "e' = e" using assms(1) refresh_failure [OF Inl] by simp
  ultimately show ?thesis
    using assms unfolding refresh_failure [OF Inl] by (auto simp only: Let_def prod.inject if_False
        if_cancel) simp
qed

lemma uncategorized_failure_unpublished_witness:
  "\<exists>st st'. refresh (ex_scan_options True) (ex_scan_env (Some plain_error)) zero_time zero_time st
       = (Some (ScanFailed plain_error), st')
     \<and> ss_cache st' = Some (initial_inventory barman_descriptor)"
proof -
  let ?st = "\<lparr>ss_cache = Some (initial_inventory barman_descriptor), ss_generation = 0,
      ss_readiness = new_probe_state True 5\<rparr>"
  obtain st' where r: "refresh (ex_scan_options True) (ex_scan_env (Some plain_error)) zero_time zero_time ?st
      = (Some (ScanFailed plain_error), st')"
    unfolding refresh_failure [OF ex_failed_scan] by simp
  from uncategorized_failure_unpublished [OF r] r show ?thesis
    by (auto simp: categorize_def plain_error_def)
qed

text \<open>
  C26. In every state the scanner can reach, a valid snapshot is published whose generation the
  counter has reached and which is no older than its evidence and its gaps; the next refresh
  advances the counter, and either leaves the snapshot or publishes one of the new generation.
\<close>

theorem publication_generations:
  assumes "scanner_reach opts st" and "ss_generation st \<noteq> max_u64"
    and "refresh opts env t0 t1 st = (r, st')"
  shows "\<exists>s s'. ss_cache st = Some s \<and> ss_cache st' = Some s'
     \<and> validate_snapshot s = None \<and> validate_snapshot s' = None
     \<and> in_generation s \<le> ss_generation st \<and> es_generation (in_evidence s) \<le> in_generation s
     \<and> gaps_before (in_generation s) s
     \<and> ss_generation st < ss_generation st'
     \<and> (s' = s \<or> in_generation s' = ss_generation st' \<and> in_generation s < in_generation s')"
proof -
  have ok: "published_ok st" by (rule scanner_reach_published [OF assms(1)])
  note p = refresh_published [OF ok assms(2,3)]
  have "ss_generation st < ss_generation st'" using p u64_suc_bounds [OF assms(2)] by simp
  with ok p show ?thesis by (fastforce simp: published_ok_def)
qed

lemma publication_generations_witness:
  "\<exists>st st' r. scanner_reach (ex_scan_options True) st
     \<and> refresh (ex_scan_options True) (ex_scan_env (Some plain_error)) zero_time zero_time st = (r, st')
     \<and> ss_generation st < ss_generation st'"
proof -
  let ?st = "\<lparr>ss_cache = Some (initial_inventory barman_descriptor), ss_generation = 0,
      ss_readiness = new_probe_state True 5\<rparr>"
  obtain r st' where r: "refresh (ex_scan_options True) (ex_scan_env (Some plain_error)) zero_time zero_time ?st
      = (r, st')"
    by (rule prod.exhaust)
  from publication_generations [OF ex_reach _ r] r ex_reach [of True] show ?thesis by fastforce
qed

end
