(* ===== verification/Replay.thy ===== *)
theory Replay
imports Recovery
begin

text \<open>
  The analyses of \<open>Wal_Collector\<close> and \<open>Recovery\<close> composed as
  \<open>scanner.go\<close> composes them: the recovery paths are evaluated over the archive that the
  collector finished from the same listing, so that what a healthy path promises can be read
  off the listed objects.
\<close>

text \<open>
  The archive the listing holds: the segment of position \<open>q\<close> on timeline \<open>t\<close> is listed if an
  object of the server is classified as a segment whose name is the name of that position.
\<close>

definition segment_listed :: "object list \<Rightarrow> string \<Rightarrow> int \<Rightarrow> u32 \<Rightarrow> u64 \<Rightarrow> bool" where
  "segment_listed objects server sz t q \<longleftrightarrow>
     (\<exists>ob c name. ob \<in> set objects \<and> classify_wal_object ob = Some c \<and> cw_server c = server
        \<and> cw_class c = WALSegment \<and> wal_name t q sz = Inr name \<and> map upper_char (cw_name c) = name)"

definition segments_listed :: "object list \<Rightarrow> string \<Rightarrow> int \<Rightarrow> u32 \<Rightarrow> u64 \<Rightarrow> u64 \<Rightarrow> bool" where
  "segments_listed objects server sz t a b \<longleftrightarrow>
     (\<forall>q. a \<le> q \<and> q \<le> b \<longrightarrow> segment_listed objects server sz t q)"

text \<open>
  The replay of a backup along a chain of switchpoints finds every segment it needs: each
  timeline up to its switchpoint, the switch segment on the next one, and the target up to
  the frontier \<open>f\<close>.
\<close>

fun replay_listed ::
  "object list \<Rightarrow> string \<Rightarrow> int \<Rightarrow> u32 \<Rightarrow> u64 \<Rightarrow> history_edge list \<Rightarrow> u64 \<Rightarrow> bool" where
  "replay_listed objects server sz t pos [] f \<longleftrightarrow> pos \<le> f \<and> segments_listed objects server sz t pos f"
| "replay_listed objects server sz t pos (e # es) f \<longleftrightarrow>
     segments_listed objects server sz t pos (he_switch_position e)
     \<and> segment_listed objects server sz (he_child e) (he_switch_position e)
     \<and> replay_listed objects server sz (he_child e) (he_switch_position e) es f"

lemma observed_segment_listed:
  "(t, q) \<in> observed sz server objects \<Longrightarrow> segment_listed objects server sz t q"
  by (elim observed_listed) (auto simp: segment_listed_def)

lemma covered_listed:
  assumes "ranges_cover (sw_ranges w) = observed sz server objects" and "covered w t a b"
  shows "segments_listed objects server sz t a b"
  using assms observed_segment_listed by (auto simp: segments_listed_def covered_def)

lemma path_covered_listed:
  assumes "ranges_cover (sw_ranges w) = observed sz server objects"
  shows "path_covered w t pos edges f \<Longrightarrow> replay_listed objects server sz t pos edges f"
  by (induction edges arbitrary: t pos)
    (use assms in \<open>auto intro: covered_listed observed_segment_listed\<close>)

text \<open>
  A path is healthy only over known WAL evidence with ranges, which is the entry of the
  catalog for that server: a server without an entry has no range.
\<close>

lemma path_covered_nonempty: "path_covered w t pos edges f \<Longrightarrow> ranges_cover (sw_ranges w) \<noteq> {}"
  by (cases edges) (auto simp: covered_def)

lemma wal_for_server_cases:
  obtains "wal_for_server wal server \<in> set wal" "sw_server (wal_for_server wal server) = server"
  | "sw_ranges (wal_for_server wal server) = []"
proof (cases "find (\<lambda>v. sw_server v = server) wal")
  case None
  then have "sw_ranges (wal_for_server wal server) = []"
    by (simp add: wal_for_server_def previous_server_def empty_server_wal_def)
  then show ?thesis by (rule that(2))
next
  case (Some v)
  then have v: "v \<in> set wal" "sw_server v = server" by (auto simp: find_Some_iff)
  moreover have "wal_for_server wal server = v"
    using Some v(2) by (cases v) (auto simp: wal_for_server_def previous_server_def Let_def)
  ultimately show ?thesis using that(1) by simp
qed

lemma healthy_path_known:
  assumes "p \<in> set (recovery_paths backups wal histories)" and "rp_state p = Healthy"
  shows "sw_state wal \<noteq> Unknown"
proof -
  obtain b where "path_of wal histories b p" using recovery_paths_mem [OF assms(1)] by blast
  then show ?thesis using assms(2) by (auto simp: path_of_def evaluate_path_def)
qed

lemma finished_wal_observed:
  assumes wal: "wal = collector_finish (collect objects) backups previous generation"
    and path: "p \<in> set (recovery_paths bs (wal_for_server wal server) histories)" "rp_state p = Healthy"
  defines "w \<equiv> wal_for_server wal server"
  shows "ranges_ok (sw_segment_size w) (sw_ranges w)"
    and "ranges_cover (sw_ranges w) = observed (sw_segment_size w) server objects"
proof -
  have "sw_ranges w \<noteq> []"
  proof
    assume "sw_ranges w = []"
    then have ok: "ranges_ok 0 (sw_ranges w)" and none: "ranges_cover (sw_ranges w) = {}"
      by (simp_all add: ranges_ok_def ranges_cover_def)
    show False
      using healthy_path_sound [OF path ok [unfolded w_def]] path_covered_nonempty none
      unfolding w_def by blast
  qed
  then have w: "w \<in> set wal" "sw_server w = server"
    unfolding w_def by (cases rule: wal_for_server_cases [of wal server]; simp)+
  have "w = finish_server backups previous generation (server, build (server_wals server objects))"
    using w finish_mem [of w objects backups previous generation] unfolding wal by simp
  from finish_server_known [OF this] healthy_path_known [OF path]
  show "ranges_ok (sw_segment_size w) (sw_ranges w)"
    "ranges_cover (sw_ranges w) = observed (sw_segment_size w) server objects"
    by (simp_all add: w_def)
qed

text \<open>
  The switch segments of a chain of switchpoints are listed on the timeline the branch leaves and
  on the one it enters.
\<close>

fun switches_listed :: "object list \<Rightarrow> string \<Rightarrow> int \<Rightarrow> u32 \<Rightarrow> history_edge list \<Rightarrow> bool" where
  "switches_listed objects server sz t [] \<longleftrightarrow> True"
| "switches_listed objects server sz t (e # es) \<longleftrightarrow>
     segment_listed objects server sz t (he_switch_position e)
     \<and> segment_listed objects server sz (he_child e) (he_switch_position e)
     \<and> switches_listed objects server sz (he_child e) es"

lemma switches_observed_listed:
  assumes "ranges_cover (sw_ranges w) = observed sz server objects"
  shows "switches_observed w t pos edges \<Longrightarrow> switches_listed objects server sz t edges"
  by (induction edges arbitrary: t pos) (use assms in \<open>auto intro: observed_segment_listed\<close>)

text \<open>
  The switchpoints \<open>edges\<close> are those of a listed history file: they are the ones that its content
  parses to, from the timeline \<open>t\<close> on.
\<close>

definition listed_history :: "classified_wal \<Rightarrow> history_object" where
  "listed_history c = \<lparr>ho_key = cw_key c, ho_server = cw_server c, ho_name = cw_name c,
     ho_compression = cw_compression c, ho_timeline = cw_timeline c\<rparr>"

definition edges_listed ::
  "(string \<Rightarrow> string \<Rightarrow> opened) \<Rightarrow> reader \<Rightarrow> object list \<Rightarrow> string \<Rightarrow> int \<Rightarrow> u32 \<Rightarrow> history_edge list \<Rightarrow> bool" where
  "edges_listed decompress rd objects server sz t edges \<longleftrightarrow>
     (\<exists>ob c data all rest. ob \<in> set objects \<and> classify_wal_object ob = Some c \<and> cw_class c = WALHistory
        \<and> cw_server c = server \<and> read_history decompress rd (listed_history c) = Some data
        \<and> parse_history data (cw_timeline c) sz = Inr all \<and> descendant_edges all t = edges @ rest)"

lemma collected_history:
  "ho \<in> set (wc_history (collect objects)) \<Longrightarrow>
     \<exists>ob\<in>set objects. \<exists>c. classify_wal_object ob = Some c \<and> cw_class c = WALHistory \<and> ho = listed_history c"
proof (induction objects rule: rev_induct)
  case (snoc ob objects)
  then show ?case
    by (auto simp: collect_snoc collector_add_def Let_def listed_history_def split: option.splits if_splits)
qed (simp add: collect_def new_wal_collector_def)

lemma history_read_listed:
  assumes "history_read decompress rd sz (histories_for_server (wc_history (collect objects)) server) h"
    and "descendant_edges (th_edges h) t = edges @ rest"
  shows "edges_listed decompress rd objects server sz t edges"
proof -
  let ?hs = "histories_for_server (wc_history (collect objects)) server"
  obtain ho data where ho: "filter (\<lambda>ob. ho_timeline ob = th_timeline h) ?hs = [ho]"
    "read_history decompress rd ho = Some data" "parse_history data (th_timeline h) sz = Inr (th_edges h)"
    using assms(1) by (auto simp: history_read_def)
  then have "ho \<in> set (filter (\<lambda>ob. ho_timeline ob = th_timeline h) ?hs)" by simp
  then have "ho \<in> set (wc_history (collect objects))" "ho_server ho = server" "ho_timeline ho = th_timeline h"
    by (simp_all add: histories_for_server_def)
  moreover from collected_history [OF this(1)]
  obtain ob c where c: "ob \<in> set objects" "classify_wal_object ob = Some c" "cw_class c = WALHistory"
    "ho = listed_history c" by blast
  ultimately have "cw_server c = server" "cw_timeline c = th_timeline h" by (simp_all add: listed_history_def)
  then show ?thesis unfolding edges_listed_def using c ho assms(2) by metis
qed

lemma analyze_recovery_paths:
  assumes "r \<in> set (analyze_recovery decompress rd backups wal hs truncated options)"
  obtains st reason where
    "analyze_histories decompress rd (wal_for_server wal (sr_server r)) (histories_for_server hs (sr_server r))
       truncated = (sr_histories r, st, reason)"
    "sr_paths r = recovery_paths (backups_for_server backups (sr_server r))
       (wal_for_server wal (sr_server r)) (sr_histories r)"
proof -
  obtain server where s: "r = analyze_server decompress rd backups wal hs truncated options server"
    using assms by (auto simp: analyze_recovery_def)
  obtain h st reason where h: "analyze_histories decompress rd (wal_for_server wal server)
      (histories_for_server hs server) truncated = (h, st, reason)" by (metis prod_cases3)
  then have "sr_server r = server" "sr_histories r = h"
    "sr_paths r = recovery_paths (backups_for_server backups server) (wal_for_server wal server) h"
    unfolding s by (simp_all add: analyze_server_def Let_def)
  then show ?thesis using that h by simp
qed

text \<open>
  C4. End to end: a recovery path that the analysis of a listing reports healthy can be
  replayed from the listing. The timelines it crosses are those of a listed history file, as its
  content states them, which does not branch off before the backup; every segment from the start
  of the backup's WAL to each of these switchpoints and on to the frontier of the target
  timeline, and the switch segments on the timelines the branches enter, are the names of listed
  objects of that server. So are those on the timelines the branches leave, if the end LSN of
  the backup does not lie before the segment of its end WAL.
\<close>

theorem healthy_path_replayable:
  assumes wal: "wal = collector_finish (collect objects) backups previous generation"
    and hs: "(hs, truncated) = history_objects (collect objects)"
    and r: "r \<in> set (analyze_recovery decompress rd backups wal hs truncated options)"
    and p: "p \<in> set (sr_paths r)" "rp_state p = Healthy"
  shows "\<exists>b t s e edges. b \<in> set backups \<and> bk_server b = sr_server r \<and> bk_id b = rp_backup_id p
     \<and> bk_state b = Healthy \<and> backup_range b = Inr (t, s, e)
     \<and> segments_listed objects (sr_server r) (bk_segment_size b) t s e
     \<and> replay_listed objects (sr_server r) (bk_segment_size b) t e edges (rp_frontier_position p)
     \<and> rp_target p = (if edges = [] then t else he_child (last edges))
     \<and> (edges \<noteq> [] \<longrightarrow> \<not> branch_before_backup (hd edges) b e
          \<and> edges_listed decompress rd objects (sr_server r) (bk_segment_size b) t edges)
     \<and> (end_lsn_ok b e \<longrightarrow> switches_listed objects (sr_server r) (bk_segment_size b) t edges)"
proof -
  let ?w = "wal_for_server wal (sr_server r)"
  let ?hs = "histories_for_server (wc_history (collect objects)) (sr_server r)"
  obtain st reason where an: "analyze_histories decompress rd ?w ?hs truncated = (sr_histories r, st, reason)"
    and paths: "p \<in> set (recovery_paths (backups_for_server backups (sr_server r)) ?w (sr_histories r))"
    using analyze_recovery_paths [OF r] p(1) hs by (metis Pair_inject history_objects_def)
  note obs = finished_wal_observed [OF wal paths p(2)]
  from healthy_path_observed [OF an paths p(2) obs(1)]
  obtain b t s e edges where b: "b \<in> set (backups_for_server backups (sr_server r))"
      "bk_state b = Healthy" "rp_backup_id p = bk_id b" "sw_segment_size ?w = bk_segment_size b"
      "backup_range b = Inr (t, s, e)" "rp_target p = (if edges = [] then t else he_child (last edges))"
    and cov: "covered ?w t s e" "path_covered ?w t e edges (rp_frontier_position p)"
    and src: "edges \<noteq> [] \<longrightarrow> (\<exists>h. \<exists>rest. history_read decompress rd (sw_segment_size ?w) ?hs h
          \<and> descendant_edges (th_edges h) t = edges @ rest \<and> \<not> branch_before_backup (hd edges) b e)"
    and sw: "end_lsn_ok b e \<longrightarrow> switches_observed ?w t e edges"
    by blast
  have "segments_listed objects (sr_server r) (bk_segment_size b) t s e"
    "replay_listed objects (sr_server r) (bk_segment_size b) t e edges (rp_frontier_position p)"
    using covered_listed [OF obs(2) cov(1)] path_covered_listed [OF obs(2) cov(2)] by (simp_all add: b(4))
  moreover have "end_lsn_ok b e \<longrightarrow> switches_listed objects (sr_server r) (bk_segment_size b) t edges"
    using switches_observed_listed [OF obs(2)] sw unfolding b(4) by blast
  moreover have "edges \<noteq> [] \<longrightarrow> \<not> branch_before_backup (hd edges) b e
      \<and> edges_listed decompress rd objects (sr_server r) (bk_segment_size b) t edges"
    using src history_read_listed unfolding b(4) by blast
  moreover have "b \<in> set backups" "bk_server b = sr_server r"
    using b(1) by (simp_all add: backups_for_server_def)
  ultimately show ?thesis using b(2,3,5,6) by (intro exI conjI) simp_all
qed

definition ex_usable :: backup where
  "ex_usable = ex_anchor\<lparr>bk_version := 150000\<rparr>"

definition ex_archive :: wal_catalog where
  "ex_archive = collector_finish (collect (ex_wals [1, 2, 3])) [ex_usable] [] 7"

lemma ex_usable_fields:
  "bk_server ex_usable = ''s''" "bk_state ex_usable = Healthy" "bk_system_id ex_usable = []"
  "bk_segment_size ex_usable = 16777216" "bk_version ex_usable = 150000"
  by (simp_all add: ex_usable_def ex_anchor_def empty_backup_def)

lemma ex_usable_range: "backup_range ex_usable = Inr (1, 1, 2)"
  using ex_anchor_range unfolding backup_range_def
  by (simp add: ex_usable_def case_prod_beta cong: sum.case_cong)

lemma ex_archive_entry:
  defines "w \<equiv> finish_server [ex_usable] [] 7 (''s'', build (server_wals ''s'' (ex_wals [1, 2, 3])))"
  shows "sw_server w = ''s''" "sw_segment_size w = 16777216" "sw_state w = Healthy" "sw_ranges w = [ex_range 1 3]"
proof -
  have c: "wal_context [ex_usable] ''s'' = (150000, 16777216, [])"
    by (simp add: wal_context_def ex_usable_fields ex_size)
  show "sw_server w = ''s''" "sw_segment_size w = 16777216" "sw_state w = Healthy" "sw_ranges w = [ex_range 1 3]"
    unfolding w_def finish_server_context [OF c] ex_ranges_full
    by (simp_all add: gaps_for_ranges_def ex_verdict_full)
qed

lemma ex_archive_paths:
  assumes "sw_server w = ''s''" "sw_segment_size w = 16777216" "sw_state w = Healthy" "sw_ranges w = [ex_range 1 3]"
  shows "map rp_state (recovery_paths [ex_usable] w []) = [Healthy]"
proof -
  have "conflicting_system_ids [ex_usable] = False"
    by (simp add: conflicting_system_ids_def ex_usable_fields)
  moreover have "rp_state (evaluate_path ex_usable w 1 1 2 1 []) = Healthy"
    using assms
    by (simp add: evaluate_path_def reach_position_def ranges_for_timeline_def ex_range_def
        reach_state_tuple contiguous_frontier_def Let_def)
  moreover have "observed_timelines w = [1]"
    using assms by (simp add: observed_timelines_def ex_range_def)
  ultimately show ?thesis
    using ex_usable_range assms(2)
    by (simp add: recovery_paths_def sort_recovery_paths_def backup_paths_def ex_usable_fields)
qed

lemma ex_archive_server:
  "\<exists>w. wal_for_server ex_archive ''s'' = w \<and> sw_server w = ''s'' \<and> sw_segment_size w = 16777216
     \<and> sw_state w = Healthy \<and> sw_ranges w = [ex_range 1 3]"
proof -
  let ?w = "finish_server [ex_usable] [] 7 (''s'', build (server_wals ''s'' (ex_wals [1, 2, 3])))"
  have mem: "v \<in> set ex_archive \<Longrightarrow> sw_server v = ''s'' \<Longrightarrow> v = ?w" for v
    unfolding ex_archive_def by (simp add: finish_mem)
  have "?w \<in> set ex_archive"
    unfolding ex_archive_def finish_mem by (simp add: ex_archive_entry(1) ex_server_wals)
  then have "find (\<lambda>v. sw_server v = ''s'') ex_archive \<noteq> None"
    using ex_archive_entry(1) by (auto simp: find_None_iff)
  then obtain v where v: "find (\<lambda>v. sw_server v = ''s'') ex_archive = Some v" by auto
  then have "v \<in> set ex_archive \<and> sw_server v = ''s''" by (auto simp: find_Some_iff)
  then have "v = ?w" using mem by simp
  then have "wal_for_server ex_archive ''s'' = ?w"
    using v ex_archive_entry(1) by (simp add: wal_for_server_def previous_server_def)
  then show ?thesis using ex_archive_entry by simp
qed

lemma ex_archive_histories: "([], False) = history_objects (collect (ex_wals [1, 2, 3]))"
  by code_simp

lemma healthy_path_replayable_witness:
  "\<exists>r\<in>set (analyze_recovery (\<lambda>c d. OpenFailed) ex_reader [ex_usable] ex_archive [] False
        \<lparr>ro_retention_policy = [], ro_minimum_redundancy = None\<rparr>).
     \<exists>p\<in>set (sr_paths r). rp_state p = Healthy \<and> sr_server r = ''s''
       \<and> segments_listed (ex_wals [1, 2, 3]) ''s'' 16777216 1 1 2"
proof -
  let ?opts = "\<lparr>ro_retention_policy = [], ro_minimum_redundancy = None\<rparr>"
  let ?r = "analyze_server (\<lambda>c d. OpenFailed) ex_reader [ex_usable] ex_archive [] False ?opts ''s''"
  obtain w where w: "wal_for_server ex_archive ''s'' = w" "sw_server w = ''s''"
    "sw_segment_size w = 16777216" "sw_state w = Healthy" "sw_ranges w = [ex_range 1 3]"
    using ex_archive_server by blast
  have "sr_paths ?r = recovery_paths [ex_usable] w []"
    using w by (simp add: analyze_server_def Let_def backups_for_server_def histories_for_server_def
        ex_usable_fields analyze_histories_def group_histories_def
        observed_timelines_def ex_range_def)
  then obtain p where p: "p \<in> set (sr_paths ?r)" "rp_state p = Healthy"
    using ex_archive_paths [OF w(2-5)] by (cases "sr_paths ?r") auto
  have r: "?r \<in> set (analyze_recovery (\<lambda>c d. OpenFailed) ex_reader [ex_usable] ex_archive [] False ?opts)"
    "sr_server ?r = ''s''"
    by (simp_all add: analyze_recovery_def recovery_server_names_def ex_usable_fields analyze_server_def Let_def)
  have h: "([], False) = history_objects (collect (ex_wals [1, 2, 3]))"
    by (rule ex_archive_histories)
  from healthy_path_replayable [OF ex_archive_def h r(1) p]
  have "segments_listed (ex_wals [1, 2, 3]) ''s'' 16777216 1 1 2"
    using r(2) by (auto simp: ex_usable_range ex_usable_fields)
  with r p show ?thesis by blast
qed
end
