(* ===== verification/Wire_Types.thy ===== *)
theory Wire_Types
  imports Inventory
begin

text \<open>
  The wire contract of the evidence API (\<open>api/evidence/v1alpha1/types.go\<close>): its resources as
  records, their validators and the orders of the four collections.

  A pointer field is an option and a slice whose nil-ness the validators look at is an option
  of a list. The enumerations are those of the evidence envelope, whose constants have the same
  text: \<open>internal/evidence\<close> declares its own as aliases of these. Validators return the error
  or \<open>None\<close>. The JSON library is a parameter of the two methods of \<open>Details\<close> that call it.
\<close>

section \<open>Constants\<close>

definition APIVersion :: string where "APIVersion = ''evidence.objectstoreviewer.io/v1alpha1''"
definition SnapshotKind :: string where "SnapshotKind = ''RepositoryEvidenceSnapshot''"
definition BarmanDetailsType :: string where "BarmanDetailsType = ''barman-cloud/v1alpha1''"
definition BarmanBackupPageKind :: string where "BarmanBackupPageKind = ''BarmanBackupPage''"
definition BarmanWALRangePageKind :: string where "BarmanWALRangePageKind = ''BarmanWALRangePage''"
definition BarmanWALGapPageKind :: string where "BarmanWALGapPageKind = ''BarmanWALGapPage''"
definition BarmanRecoveryPageKind :: string where "BarmanRecoveryPageKind = ''BarmanRecoveryPathPage''"
definition ErrorKind :: string where "ErrorKind = ''EvidenceAPIError''"
definition HealthKind :: string where "HealthKind = ''HealthStatus''"
definition ReadinessKind :: string where "ReadinessKind = ''ReadinessStatus''"
definition HealthLive :: string where "HealthLive = ''live''"
definition ReadinessReady :: string where "ReadinessReady = ''ready''"
definition ReadinessNotReady :: string where "ReadinessNotReady = ''not-ready''"
definition ProducerName :: string where "ProducerName = ''objectstoreviewer''"

text \<open>The capability identifiers a snapshot carries, in their order.\<close>

definition capability_ids :: "capability_id list" where
  "capability_ids =
     [CatalogListing, DependencyValidation, EncryptedMetadata, ObjectInventory, RecoveryCoverage,
      RetentionExpectation, StructuralValidation, TimelineTraversal, WALContinuity]"

section \<open>Resources\<close>

record wire_reason =
  wn_code :: string
  wn_message :: string

record state_reason =
  sn_state :: state
  sn_reason :: wire_reason

record wire_capability =
  kc_id :: capability_id
  kc_support :: support
  kc_state :: state
  kc_reason :: wire_reason

record producer =
  pd_name :: string
  pd_version :: string

record cluster_identity =
  ci_namespace :: string
  ci_uid :: string
  ci_name :: "string option"

record scope_identity =
  si_kind :: string
  si_name :: string

record repository_identity =
  ri_provider :: string
  ri_format :: string
  ri_fingerprint :: string
  ri_scope :: scope_identity

record wire_identity =
  wi_cluster :: cluster_identity
  wi_repository :: repository_identity

record inventory_summary =
  iv_known :: bool
  iv_object_count :: "u64 option"
  iv_stored_bytes :: "u64 option"
  iv_unscoped :: "u64 option"
  iv_pages :: u64
  iv_objects_examined :: u64
  iv_failure :: "fault option"

record state_counts =
  cn_healthy :: u64
  cn_warning :: u64
  cn_unhealthy :: u64
  cn_unknown :: u64

record barman_wal_counts =
  bw_segment :: u64
  bw_partial :: u64
  bw_history :: u64
  bw_backup_history :: u64
  bw_unknown :: u64
  bw_duplicate :: u64

record barman_retention =
  rt_visible :: "u64 option"
  rt_usable :: "u64 option"
  rt_oldest :: "gotime option"
  rt_newest :: "gotime option"
  rt_minimum_configured :: bool
  rt_minimum_redundancy :: "u64 option"
  rt_policy_configured :: bool
  rt_state :: state
  rt_reason :: wire_reason

record barman_summary =
  bc_backup_items :: "u64 option"
  bc_range_items :: "u64 option"
  bc_gap_items :: "u64 option"
  bc_path_items :: "u64 option"
  bc_usable :: "u64 option"
  bc_backup_states :: "state_counts option"
  bc_wal_counts :: "barman_wal_counts option"
  bc_wal :: state_reason
  bc_timeline :: state_reason
  bc_coverage :: state_reason
  bc_retention :: barman_retention
  bc_latest_receipt :: "gotime option"
  bc_ranges_truncated :: bool
  bc_diagnostics_truncated :: bool

record details =
  dt_type :: string
  dt_barman :: "barman_summary option"
  dt_unknown :: bool

record wire_snapshot =
  ws_api_version :: string
  ws_kind :: string
  ws_producer :: producer
  ws_identity :: wire_identity
  ws_revision :: u64
  ws_evidence_generation :: u64
  ws_started :: "gotime option"
  ws_completed :: "gotime option"
  ws_last_attempt :: "gotime option"
  ws_completeness :: completeness
  ws_stale :: bool
  ws_state :: state
  ws_reason :: wire_reason
  ws_capabilities :: "wire_capability list"
  ws_inventory :: inventory_summary
  ws_details :: details

record barman_backup =
  bb_server :: string
  bb_id :: string
  bb_status :: "string option"
  bb_type :: "string option"
  bb_state :: state
  bb_reason :: wire_reason
  bb_system_id :: "string option"
  bb_version :: "u64 option"
  bb_timeline :: "u64 option"
  bb_segment_size :: "u64 option"
  bb_begin_wal :: "string option"
  bb_end_wal :: "string option"
  bb_begin_lsn :: "string option"
  bb_end_lsn :: "string option"
  bb_begin_at :: "gotime option"
  bb_end_at :: "gotime option"
  bb_logical_bytes :: "u64 option"
  bb_dedup_bytes :: "u64 option"
  bb_stored_bytes :: "u64 option"
  bb_compression :: "string option"
  bb_encryption :: "string option"
  bb_artifacts :: "u64 option"
  bb_tablespaces :: "u64 option"

record barman_wal_range =
  xr_server :: string
  xr_timeline :: u64
  xr_start :: u64
  xr_end :: u64
  xr_count :: u64
  xr_first :: string
  xr_last :: string
  xr_latest_receipt :: "gotime option"
  xr_end_receipt :: "gotime option"

record barman_wal_gap =
  xg_server :: string
  xg_timeline :: u64
  xg_start :: u64
  xg_end :: u64
  xg_count :: u64
  xg_first :: string
  xg_last :: string
  xg_status :: gap_status
  xg_first_generation :: u64
  xg_last_generation :: u64

record barman_recovery_path =
  xp_server :: string
  xp_backup_id :: string
  xp_target :: u64
  xp_state :: state
  xp_reason :: wire_reason
  xp_stop :: coverage_stop
  xp_lower_bound :: "gotime option"
  xp_start_timeline :: "u64 option"
  xp_start_position :: "u64 option"
  xp_start_wal :: "string option"
  xp_frontier_timeline :: "u64 option"
  xp_frontier_position :: "u64 option"
  xp_frontier_wal :: "string option"
  xp_frontier_receipt :: "gotime option"
  xp_assumptions :: "string list option"

record page_header =
  ph_api_version :: string
  ph_kind :: string
  ph_revision :: u64
  ph_evidence_generation :: u64
  ph_total_items :: "u64 option"
  ph_next_cursor :: "string option"

text \<open>The four page types differ in their items only.\<close>

record 'a wire_page =
  wp_header :: page_header
  wp_items :: "'a list option"

type_synonym barman_backup_page = "barman_backup wire_page"
type_synonym barman_wal_range_page = "barman_wal_range wire_page"
type_synonym barman_wal_gap_page = "barman_wal_gap wire_page"
type_synonym barman_recovery_path_page = "barman_recovery_path wire_page"

datatype error_code = ErrorInvalidRequest | ErrorUnauthenticated | ErrorNotFound
  | ErrorMethodNotAllowed | ErrorPublicationChanged | ErrorResponseLimit | ErrorBusy
  | ErrorInvalidPublication | OtherErrorCode string

record api_error =
  ae_api_version :: string
  ae_kind :: string
  ae_code :: error_code
  ae_message :: string

record service_status =
  ss_api_version :: string
  ss_kind :: string
  ss_status :: string

section \<open>Text and vocabulary\<close>

text \<open>
  \<open>strings.ToValidUTF8(value, "") == value\<close>: the string is the concatenation of the shortest
  UTF-8 encodings of code points outside the surrogates.
\<close>

definition utf8_cont :: "char \<Rightarrow> bool" where
  "utf8_cont c \<longleftrightarrow> 128 \<le> byte c \<and> byte c \<le> 191"

definition utf8_two :: "char \<Rightarrow> char \<Rightarrow> bool" where
  "utf8_two c d \<longleftrightarrow> 194 \<le> byte c \<and> byte c \<le> 223 \<and> utf8_cont d"

definition utf8_three :: "char \<Rightarrow> char \<Rightarrow> char \<Rightarrow> bool" where
  "utf8_three c d e \<longleftrightarrow> 224 \<le> byte c \<and> byte c \<le> 239 \<and> utf8_cont d \<and> utf8_cont e
     \<and> (byte c = 224 \<longrightarrow> 160 \<le> byte d) \<and> (byte c = 237 \<longrightarrow> byte d \<le> 159)"

definition utf8_four :: "char \<Rightarrow> char \<Rightarrow> char \<Rightarrow> char \<Rightarrow> bool" where
  "utf8_four c d e f \<longleftrightarrow> 240 \<le> byte c \<and> byte c \<le> 244 \<and> utf8_cont d \<and> utf8_cont e \<and> utf8_cont f
     \<and> (byte c = 240 \<longrightarrow> 144 \<le> byte d) \<and> (byte c = 244 \<longrightarrow> byte d \<le> 143)"

fun valid_utf8 :: "string \<Rightarrow> bool" where
  "valid_utf8 [] = True"
| "valid_utf8 [c] = (byte c < 128)"
| "valid_utf8 [c, d] = (if byte c < 128 then valid_utf8 [d] else utf8_two c d)"
| "valid_utf8 [c, d, e] =
     (if byte c < 128 then valid_utf8 [d, e] else if utf8_two c d then valid_utf8 [e]
      else utf8_three c d e)"
| "valid_utf8 (c # d # e # f # cs) =
     (if byte c < 128 then valid_utf8 (d # e # f # cs)
      else if utf8_two c d then valid_utf8 (e # f # cs)
      else if utf8_three c d e then valid_utf8 (f # cs)
      else utf8_four c d e f \<and> valid_utf8 cs)"

definition invalid_wire_text :: "string \<Rightarrow> nat \<Rightarrow> bool" where
  "invalid_wire_text value maximum \<longleftrightarrow>
     value = [] \<or> maximum < length value \<or> \<not> valid_utf8 value \<or> has_control value"

definition invalid_optional_text :: "string option \<Rightarrow> nat \<Rightarrow> bool" where
  "invalid_optional_text value maximum \<longleftrightarrow> (\<exists>v\<in>set_option value. invalid_wire_text v maximum)"

text \<open>
  The loop over the characters of a reason code. A character outside ASCII is refused, so the
  byte index of the loop is the position of the byte; a dash is neither the first nor the last
  one.
\<close>

definition code_char :: "char \<Rightarrow> bool" where
  "code_char c \<longleftrightarrow> 97 \<le> byte c \<and> byte c \<le> 122 \<or> is_digit c"

fun code_from :: "bool \<Rightarrow> string \<Rightarrow> bool" where
  "code_from first [] = True"
| "code_from first (c # cs) \<longleftrightarrow>
     (code_char c \<or> (c = CHR ''-'' \<and> \<not> first \<and> cs \<noteq> [])) \<and> code_from False cs"

definition code_text :: "string \<Rightarrow> bool" where
  "code_text s = code_from True s"

definition invalid_reason :: "wire_reason \<Rightarrow> bool" where
  "invalid_reason r \<longleftrightarrow> invalid_wire_text (wn_code r) 64 \<or> invalid_wire_text (wn_message r) 256
     \<or> \<not> code_text (wn_code r)"

definition valid_completeness :: "completeness \<Rightarrow> bool" where
  "valid_completeness c \<longleftrightarrow> c = Complete \<or> c = Incomplete \<or> c = Unscanned"

definition valid_capability :: "capability_id \<Rightarrow> bool" where
  "valid_capability c \<longleftrightarrow> c \<in> set capability_ids"

definition valid_failure :: "fault \<Rightarrow> bool" where
  "valid_failure f \<longleftrightarrow> f \<in> {Canceled, Timeout, InvalidConfig, Authentication, Authorization,
     Throttled, Unavailable, NotFound, Incompatible, SafetyLimit}"

definition valid_optional_time :: "gotime option \<Rightarrow> bool" where
  "valid_optional_time value \<longleftrightarrow>
     (\<forall>t\<in>set_option value. \<not> time_is_zero t \<and> loc_offset (t_loc t) = 0)"

definition ordered_times :: "gotime option \<Rightarrow> gotime option \<Rightarrow> bool" where
  "ordered_times start complete \<longleftrightarrow> valid_optional_time start \<and> valid_optional_time complete
     \<and> (case (start, complete) of (Some s, Some c) \<Rightarrow> \<not> time_before c s | _ \<Rightarrow> False)"

definition lower_hex_char :: "char \<Rightarrow> bool" where
  "lower_hex_char c \<longleftrightarrow> is_digit c \<or> is_lower_hex c"

definition valid_fingerprint :: "string \<Rightarrow> bool" where
  "valid_fingerprint value \<longleftrightarrow> length value = length ''sha256:'' + 64 \<and> has_prefix value ''sha256:''
     \<and> list_all lower_hex_char (drop (length ''sha256:'') value)"

definition uppercase_hex :: "string \<Rightarrow> bool" where
  "uppercase_hex value \<longleftrightarrow> list_all (\<lambda>c. is_digit c \<or> is_upper_hex c) value"

definition valid_wal_name :: "string \<Rightarrow> bool" where
  "valid_wal_name value \<longleftrightarrow> length value = 24 \<and> uppercase_hex value"

definition valid_optional_wal_name :: "string option \<Rightarrow> bool" where
  "valid_optional_wal_name value \<longleftrightarrow> (\<forall>v\<in>set_option value. valid_wal_name v)"

definition valid_optional_lsn :: "string option \<Rightarrow> bool" where
  "valid_optional_lsn value =
     (case value of None \<Rightarrow> True
      | Some v \<Rightarrow> (case cut_at ''/'' v of None \<Rightarrow> False
         | Some (high, low) \<Rightarrow> 1 \<le> length high \<and> length high \<le> 8 \<and> 1 \<le> length low \<and> length low \<le> 8
             \<and> uppercase_hex high \<and> uppercase_hex low))"

definition decimal :: "string \<Rightarrow> bool" where
  "decimal value \<longleftrightarrow> value \<noteq> [] \<and> list_all is_digit value"

definition valid_segment_bytes :: "u64 \<Rightarrow> bool" where
  "valid_segment_bytes v \<longleftrightarrow> 1048576 \<le> v \<and> v \<le> 1073741824 \<and> Bit_Operations.and v (v - 1) = 0"

definition complete_position :: "u64 option \<Rightarrow> u64 option \<Rightarrow> string option \<Rightarrow> bool" where
  "complete_position timeline position wal \<longleftrightarrow>
     (timeline = None \<and> position = None \<and> wal = None)
     \<or> (\<exists>t\<in>set_option timeline. 0 < t) \<and> position \<noteq> None \<and> (\<exists>w\<in>set_option wal. valid_wal_name w)"

definition valid_barman_server :: "string \<Rightarrow> bool" where
  "valid_barman_server value \<longleftrightarrow> \<not> invalid_wire_text value 256 \<and> value \<noteq> ''.'' \<and> value \<noteq> ''..''
     \<and> \<not> list_ex (\<lambda>c. c = CHR ''/'' \<or> c = CHR 0x5C) value"

section \<open>Validation of the snapshot\<close>

definition validate_identity :: "wire_identity \<Rightarrow> string option" where
  "validate_identity i =
     (let c = wi_cluster i; r = wi_repository i in
      if invalid_wire_text (ci_namespace c) 63 \<or> invalid_wire_text (ci_uid c) 128
         \<or> invalid_optional_text (ci_name c) 253
      then Some ''cluster identity is invalid''
      else if ri_provider r \<noteq> ''s3'' \<or> ri_format r \<noteq> ''barman-cloud''
         \<or> si_kind (ri_scope r) \<noteq> ''barman-server'' \<or> \<not> valid_barman_server (si_name (ri_scope r))
      then Some ''repository identity is outside the initial profile''
      else if \<not> valid_fingerprint (ri_fingerprint r)
      then Some ''repository destination fingerprint is invalid''
      else None)"

definition validate_wire_capability :: "wire_capability \<Rightarrow> string option" where
  "validate_wire_capability c =
     (if \<not> valid_capability (kc_id c) \<or> \<not> valid_support (kc_support c) \<or> \<not> valid_state (kc_state c)
         \<or> invalid_reason (kc_reason c)
      then Some ''capability is invalid''
      else if kc_support c \<noteq> Supported \<and> kc_state c \<noteq> Unknown
      then Some (''capability '' @ kc_id c @ '' must be unknown without proven support'')
      else None)"

fun check_capabilities :: "bool \<Rightarrow> capability_id list \<Rightarrow> wire_capability list \<Rightarrow> string option" where
  "check_capabilities stale (i # ids) (c # cs) =
     (case validate_wire_capability c of Some e \<Rightarrow> Some e
      | None \<Rightarrow>
          if kc_id c \<noteq> i then Some ''snapshot capabilities must be complete and sorted''
          else if stale \<and> kc_support c = Supported \<and> kc_state c \<noteq> Unknown
          then Some ''stale supported capabilities must be unknown''
          else check_capabilities stale ids cs)"
| "check_capabilities stale _ _ = None"

definition validate_inventory_summary :: "inventory_summary \<Rightarrow> string option" where
  "validate_inventory_summary i =
     (if iv_known i \<noteq> (iv_object_count i \<noteq> None \<and> iv_stored_bytes i \<noteq> None \<and> iv_unscoped i \<noteq> None)
      then Some ''inventory known flag and nullable totals disagree''
      else if \<exists>f\<in>set_option (iv_failure i). \<not> valid_failure f
      then Some ''inventory failure category is invalid''
      else None)"

definition result_ok :: "state_reason \<Rightarrow> bool" where
  "result_ok r \<longleftrightarrow> valid_state (sn_state r) \<and> \<not> invalid_reason (sn_reason r)"

definition retention_times_ordered :: "barman_retention \<Rightarrow> bool" where
  "retention_times_ordered r \<longleftrightarrow>
     (\<forall>a\<in>set_option (rt_oldest r). \<forall>b\<in>set_option (rt_newest r). \<not> time_before b a)"

text \<open>The sum of the counts is the sum of the source, which wraps around at 64 bits.\<close>

definition states_reconcile :: "barman_summary \<Rightarrow> bool" where
  "states_reconcile s \<longleftrightarrow>
     (\<forall>n\<in>set_option (bc_backup_items s). \<forall>c\<in>set_option (bc_backup_states s).
        cn_healthy c + cn_warning c + cn_unhealthy c + cn_unknown c = n)"

definition validate_summary :: "barman_summary \<Rightarrow> string option" where
  "validate_summary s =
     (let r = bc_retention s in
      if \<not> list_all result_ok [bc_wal s, bc_timeline s, bc_coverage s]
      then Some ''Barman details state is invalid''
      else if \<not> valid_state (rt_state r) \<or> invalid_reason (rt_reason r)
         \<or> rt_minimum_configured r \<noteq> (rt_minimum_redundancy r \<noteq> None)
         \<or> \<not> valid_optional_time (rt_oldest r) \<or> \<not> valid_optional_time (rt_newest r)
         \<or> \<not> valid_optional_time (bc_latest_receipt s)
      then Some ''Barman retention details are invalid''
      else if \<not> retention_times_ordered r then Some ''Barman retention completion times are unordered''
      else if (bc_ranges_truncated s \<or> bc_diagnostics_truncated s) \<and> sn_state (bc_wal s) \<noteq> Unknown
      then Some ''truncated Barman WAL evidence must be unknown''
      else if \<not> states_reconcile s then Some ''Barman backup state counts do not reconcile''
      else if \<exists>n\<in>set_option (bc_backup_items s). \<exists>u\<in>set_option (bc_usable s). n < u
      then Some ''structurally usable backups exceed visible backups''
      else None)"

definition validate_details :: "details \<Rightarrow> string option" where
  "validate_details d =
     (if invalid_wire_text (dt_type d) 64 then Some ''details type must be bounded''
      else if dt_unknown d \<or> dt_type d \<noteq> BarmanDetailsType
      then (if dt_barman d \<noteq> None then Some ''unknown details cannot retain a payload'' else None)
      else case dt_barman d of None \<Rightarrow> Some ''Barman details payload is required''
        | Some s \<Rightarrow> validate_summary s)"

definition has_generation_counts :: "barman_summary \<Rightarrow> bool" where
  "has_generation_counts s \<longleftrightarrow> bc_backup_items s \<noteq> None \<or> bc_range_items s \<noteq> None
     \<or> bc_gap_items s \<noteq> None \<or> bc_path_items s \<noteq> None \<or> bc_usable s \<noteq> None
     \<or> bc_backup_states s \<noteq> None \<or> bc_wal_counts s \<noteq> None"

text \<open>The checks of a snapshot without and with a generation.\<close>

definition generation_error :: "wire_snapshot \<Rightarrow> string option" where
  "generation_error s =
     (if ws_evidence_generation s = 0
      then (if ws_started s \<noteq> None \<or> ws_completed s \<noteq> None
               \<or> (ws_completeness s \<noteq> Unscanned \<and> ws_completeness s \<noteq> Incomplete)
               \<or> ws_state s \<noteq> Unknown
            then Some ''snapshot without a generation must remain unknown'' else None)
      else if ws_completeness s \<noteq> Complete \<or> \<not> ordered_times (ws_started s) (ws_completed s)
      then Some ''snapshot generation timestamps are invalid''
      else None)"

definition validate_wire_snapshot :: "wire_snapshot \<Rightarrow> string option" where
  "validate_wire_snapshot s =
     (if ws_api_version s \<noteq> APIVersion \<or> ws_kind s \<noteq> SnapshotKind
      then Some ''snapshot has an incompatible version or kind''
      else if pd_name (ws_producer s) \<noteq> ProducerName \<or> invalid_wire_text (pd_version (ws_producer s)) 64
      then Some ''snapshot producer is invalid''
      else case validate_identity (ws_identity s) of Some e \<Rightarrow> Some e | None \<Rightarrow>
      if \<not> valid_state (ws_state s) \<or> \<not> valid_completeness (ws_completeness s)
         \<or> invalid_reason (ws_reason s)
      then Some ''snapshot evidence state is invalid''
      else if ws_revision s < ws_evidence_generation s
      then Some ''snapshot revision precedes its evidence generation''
      else if ws_completeness s \<noteq> Complete \<and> ws_state s = Healthy
      then Some ''incomplete evidence cannot be healthy''
      else if ws_stale s \<and> ws_state s \<noteq> Unknown then Some ''stale evidence must be unknown''
      else case generation_error s of Some e \<Rightarrow> Some e | None \<Rightarrow>
      if \<not> valid_optional_time (ws_last_attempt s) then Some ''snapshot attempt timestamp is invalid''
      else if length (ws_capabilities s) \<noteq> length capability_ids
      then Some ''snapshot must carry the complete capability set''
      else case check_capabilities (ws_stale s) capability_ids (ws_capabilities s) of Some e \<Rightarrow> Some e
      | None \<Rightarrow>
      (case validate_inventory_summary (ws_inventory s) of Some e \<Rightarrow> Some e | None \<Rightarrow>
      if iv_failure (ws_inventory s) \<noteq> None \<and> (\<not> ws_stale s \<or> ws_state s \<noteq> Unknown)
      then Some ''a failed latest attempt must publish stale unknown evidence''
      else case validate_details (ws_details s) of Some e \<Rightarrow> Some e
      | None \<Rightarrow>
      if ws_completeness s \<noteq> Complete
         \<and> (\<exists>b\<in>set_option (dt_barman (ws_details s)). has_generation_counts b)
      then Some ''incomplete evidence cannot expose generation collection counts''
      else None))"

section \<open>Validation of the collections\<close>

definition validate_header :: "page_header \<Rightarrow> string \<Rightarrow> nat \<Rightarrow> string option" where
  "validate_header h kind n =
     (if ph_api_version h \<noteq> APIVersion \<or> ph_kind h \<noteq> kind
      then Some ''page has an incompatible version or kind''
      else if ph_revision h = 0 \<or> ph_evidence_generation h = 0
         \<or> ph_revision h < ph_evidence_generation h \<or> 200 < n
         \<or> (\<exists>t\<in>set_option (ph_total_items h). t < of_nat n)
      then Some ''page item bounds are invalid''
      else if \<exists>c\<in>set_option (ph_next_cursor h). invalid_wire_text c 4096
      then Some ''page cursor is invalid''
      else None)"

definition backup_evidence_ok :: "barman_backup \<Rightarrow> bool" where
  "backup_evidence_ok b \<longleftrightarrow>
     (\<forall>v\<in>set_option (bb_system_id b). decimal v) \<and> bb_timeline b \<noteq> Some 0
     \<and> (\<forall>v\<in>set_option (bb_segment_size b). valid_segment_bytes v)
     \<and> valid_optional_wal_name (bb_begin_wal b) \<and> valid_optional_wal_name (bb_end_wal b)
     \<and> valid_optional_lsn (bb_begin_lsn b) \<and> valid_optional_lsn (bb_end_lsn b)
     \<and> valid_optional_time (bb_begin_at b) \<and> valid_optional_time (bb_end_at b)
     \<and> (\<forall>s\<in>set_option (bb_begin_at b). \<forall>e\<in>set_option (bb_end_at b). \<not> time_before e s)"

definition validate_barman_backup :: "barman_backup \<Rightarrow> string option" where
  "validate_barman_backup b =
     (if \<not> valid_barman_server (bb_server b) \<or> invalid_wire_text (bb_id b) 256
         \<or> \<not> valid_state (bb_state b) \<or> invalid_reason (bb_reason b)
      then Some ''Barman backup identity or state is invalid''
      else if list_ex (\<lambda>(v, n). invalid_optional_text v n)
         [(bb_status b, 64), (bb_type b, 64), (bb_system_id b, 64), (bb_begin_wal b, 64),
          (bb_end_wal b, 64), (bb_begin_lsn b, 32), (bb_end_lsn b, 32), (bb_compression b, 64),
          (bb_encryption b, 64)]
      then Some ''Barman backup contains an invalid optional value''
      else if \<not> backup_evidence_ok b
      then Some ''Barman backup contains invalid timeline or time evidence''
      else None)"

definition validate_barman_range :: "barman_wal_range \<Rightarrow> string option" where
  "validate_barman_range r =
     (if \<not> valid_barman_server (xr_server r) \<or> xr_timeline r = 0 \<or> xr_end r < xr_start r
         \<or> xr_end r = max_u64 \<or> xr_count r \<noteq> xr_end r - xr_start r + 1
         \<or> \<not> valid_wal_name (xr_first r) \<or> \<not> valid_wal_name (xr_last r)
         \<or> \<not> valid_optional_time (xr_latest_receipt r) \<or> \<not> valid_optional_time (xr_end_receipt r)
      then Some ''Barman WAL range is invalid'' else None)"

definition validate_barman_gap :: "barman_wal_gap \<Rightarrow> string option" where
  "validate_barman_gap g =
     (if \<not> valid_barman_server (xg_server g) \<or> xg_timeline g = 0 \<or> xg_end g < xg_start g
         \<or> xg_end g = max_u64 \<or> xg_count g \<noteq> xg_end g - xg_start g + 1
         \<or> \<not> valid_wal_name (xg_first g) \<or> \<not> valid_wal_name (xg_last g)
         \<or> (xg_status g \<noteq> GapCandidate \<and> xg_status g \<noteq> GapConfirmed)
         \<or> xg_first_generation g = 0 \<or> xg_last_generation g < xg_first_generation g
         \<or> (xg_status g = GapCandidate \<and> xg_last_generation g \<noteq> xg_first_generation g)
         \<or> (xg_status g = GapConfirmed \<and> xg_last_generation g = xg_first_generation g)
      then Some ''Barman WAL gap is invalid'' else None)"

definition valid_stop :: "coverage_stop \<Rightarrow> bool" where
  "valid_stop s \<longleftrightarrow>
     s \<in> {CoverageFrontier, CoverageCandidateLimited, CoverageGapLimited, CoverageUnknownLimited}"

fun check_codes :: "string option \<Rightarrow> string list \<Rightarrow> bool" where
  "check_codes prior [] = True"
| "check_codes prior (c # cs) \<longleftrightarrow>
     \<not> invalid_reason \<lparr>wn_code = c, wn_message = ''bounded''\<rparr> \<and> \<not> (\<exists>p\<in>set_option prior. c \<le> p)
     \<and> check_codes (Some c) cs"

definition validate_barman_path :: "barman_recovery_path \<Rightarrow> string option" where
  "validate_barman_path p =
     (if \<not> valid_barman_server (xp_server p) \<or> invalid_wire_text (xp_backup_id p) 256
         \<or> xp_target p = 0 \<or> \<not> valid_state (xp_state p) \<or> invalid_reason (xp_reason p)
         \<or> \<not> valid_stop (xp_stop p) \<or> \<not> valid_optional_time (xp_lower_bound p)
         \<or> \<not> valid_optional_time (xp_frontier_receipt p)
      then Some ''Barman recovery path is invalid''
      else case xp_assumptions p of None \<Rightarrow> Some ''Barman recovery assumptions are invalid''
      | Some codes \<Rightarrow>
          if 32 < length codes then Some ''Barman recovery assumptions are invalid''
          else if \<not> complete_position (xp_start_timeline p) (xp_start_position p) (xp_start_wal p)
             \<or> \<not> complete_position (xp_frontier_timeline p) (xp_frontier_position p) (xp_frontier_wal p)
          then Some ''Barman recovery path positions are incomplete''
          else if \<not> check_codes None codes
          then Some ''Barman recovery assumptions must be bounded, unique, and sorted''
          else None)"

section \<open>The orders of the collections\<close>

definition compare_text :: "string \<Rightarrow> string \<Rightarrow> int" where
  "compare_text l r = (if l < r then -1 else if r < l then 1 else 0)"

definition compare_u64 :: "u64 \<Rightarrow> u64 \<Rightarrow> int" where
  "compare_u64 l r = (if l < r then -1 else if r < l then 1 else 0)"

definition compare_backup :: "barman_backup \<Rightarrow> barman_backup \<Rightarrow> int" where
  "compare_backup l r =
     (let c = compare_text (bb_id l) (bb_id r)
      in if c \<noteq> 0 then c else compare_text (bb_server l) (bb_server r))"

definition compare_range :: "barman_wal_range \<Rightarrow> barman_wal_range \<Rightarrow> int" where
  "compare_range l r =
     (let c = compare_text (xr_server l) (xr_server r) in
      if c \<noteq> 0 then c
      else if xr_timeline l \<noteq> xr_timeline r then (if xr_timeline l < xr_timeline r then -1 else 1)
      else compare_u64 (xr_start l) (xr_start r))"

definition compare_gap :: "barman_wal_gap \<Rightarrow> barman_wal_gap \<Rightarrow> int" where
  "compare_gap l r =
     (let c = compare_text (xg_server l) (xg_server r) in
      if c \<noteq> 0 then c
      else if xg_timeline l \<noteq> xg_timeline r then compare_u64 (xg_timeline l) (xg_timeline r)
      else compare_u64 (xg_start l) (xg_start r))"

definition compare_path :: "barman_recovery_path \<Rightarrow> barman_recovery_path \<Rightarrow> int" where
  "compare_path l r =
     (let c = compare_text (xp_backup_id l) (xp_backup_id r) in
      if c \<noteq> 0 then c
      else if xp_target l \<noteq> xp_target r then compare_u64 (xp_target l) (xp_target r)
      else compare_text (xp_server l) (xp_server r))"

text \<open>
  The loop over the items of a page, which the four \<open>Validate\<close> methods repeat with their item
  validator, their order and their error.
\<close>

fun check_items ::
  "('a \<Rightarrow> string option) \<Rightarrow> ('a \<Rightarrow> 'a \<Rightarrow> int) \<Rightarrow> string \<Rightarrow> 'a option \<Rightarrow> 'a list \<Rightarrow> string option" where
  "check_items valid compare msg prior [] = None"
| "check_items valid compare msg prior (x # xs) =
     (case valid x of Some e \<Rightarrow> Some e
      | None \<Rightarrow> if \<exists>p\<in>set_option prior. 0 \<le> compare p x then Some msg
          else check_items valid compare msg (Some x) xs)"

definition validate_page ::
  "('a \<Rightarrow> string option) \<Rightarrow> ('a \<Rightarrow> 'a \<Rightarrow> int) \<Rightarrow> string \<Rightarrow> string \<Rightarrow> string \<Rightarrow> 'a wire_page \<Rightarrow> string option" where
  "validate_page valid compare kind missing unsorted p =
     (case validate_header (wp_header p) kind
             (case wp_items p of None \<Rightarrow> 0 | Some xs \<Rightarrow> length xs) of Some e \<Rightarrow> Some e
      | None \<Rightarrow> (case wp_items p of None \<Rightarrow> Some missing
          | Some xs \<Rightarrow> check_items valid compare unsorted None xs))"

definition validate_backup_page :: "barman_backup_page \<Rightarrow> string option" where
  "validate_backup_page = validate_page validate_barman_backup compare_backup BarmanBackupPageKind
     ''backup page items must be non-null'' ''backup page items must be uniquely sorted''"

definition validate_range_page :: "barman_wal_range_page \<Rightarrow> string option" where
  "validate_range_page = validate_page validate_barman_range compare_range BarmanWALRangePageKind
     ''WAL range page items must be non-null'' ''WAL range page items must be uniquely sorted''"

definition validate_gap_page :: "barman_wal_gap_page \<Rightarrow> string option" where
  "validate_gap_page = validate_page validate_barman_gap compare_gap BarmanWALGapPageKind
     ''WAL gap page items must be non-null'' ''WAL gap page items must be uniquely sorted''"

definition validate_path_page :: "barman_recovery_path_page \<Rightarrow> string option" where
  "validate_path_page = validate_page validate_barman_path compare_path BarmanRecoveryPageKind
     ''recovery path page items must be non-null'' ''recovery path page items must be uniquely sorted''"

section \<open>Errors, statuses and details\<close>

definition validate_service_status :: "service_status \<Rightarrow> string option" where
  "validate_service_status s =
     (let valid = (ss_kind s = HealthKind \<and> ss_status s = HealthLive
            \<or> ss_kind s = ReadinessKind \<and> (ss_status s = ReadinessReady \<or> ss_status s = ReadinessNotReady))
      in if ss_api_version s \<noteq> APIVersion \<or> \<not> valid then Some ''service status is invalid'' else None)"

definition validate_api_error :: "api_error \<Rightarrow> string option" where
  "validate_api_error e =
     (if ae_api_version e \<noteq> APIVersion \<or> ae_kind e \<noteq> ErrorKind
         \<or> ae_code e \<notin> {ErrorInvalidRequest, ErrorUnauthenticated, ErrorNotFound, ErrorMethodNotAllowed,
              ErrorPublicationChanged, ErrorResponseLimit, ErrorBusy, ErrorInvalidPublication}
         \<or> invalid_wire_text (ae_message e) 256
      then Some ''evidence API error is invalid'' else None)"

text \<open>
  What \<open>MarshalJSON\<close> hands to the JSON library, and \<open>UnmarshalJSON\<close> over what the library
  decodes: the tag of the object and its payload.
\<close>

datatype details_json = TagOnly string | TagAndBarman string "barman_summary option"

definition marshal_details :: "details \<Rightarrow> details_json" where
  "marshal_details d =
     (if dt_unknown d \<or> dt_type d \<noteq> BarmanDetailsType then TagOnly (dt_type d)
      else TagAndBarman (dt_type d) (dt_barman d))"

definition unmarshal_details ::
  "(string \<Rightarrow> string result) \<Rightarrow> (string \<Rightarrow> barman_summary option result) \<Rightarrow> string \<Rightarrow> details
     \<Rightarrow> string option \<times> details" where
  "unmarshal_details json_tag json_barman data d =
     (case json_tag data of Inl e \<Rightarrow> (Some e, d)
      | Inr tag \<Rightarrow>
          if invalid_wire_text tag 64 then (Some ''details type must be bounded'', d)
          else let d = \<lparr>dt_type = tag, dt_barman = None, dt_unknown = False\<rparr> in
            if tag \<noteq> BarmanDetailsType then (None, d\<lparr>dt_unknown := True\<rparr>)
            else case json_barman data of Inl e \<Rightarrow> (Some e, d)
              | Inr payload \<Rightarrow> (None, d\<lparr>dt_barman := payload\<rparr>))"

end
