(* ===== verification/Fingerprint.thy ===== *)
theory Fingerprint
  imports Wire_Types
begin

text \<open>
  The repository fingerprint (\<open>api/evidence/v1alpha1/fingerprint.go\<close>): the canonical form of
  a credential-free S3 destination, its framing and the identity printed from the hash.

  \<open>url.Parse\<close> and SHA-256 are parameters: a URL is the record of what the code reads of the
  parsed one, the hash a function on byte strings. \<open>to_lower\<close> maps the ASCII letters of a
  host name only (see \<open>Prelude\<close>): two spellings of a host that differ in the case of a letter
  outside ASCII are different hosts here and one host in the program.
\<close>

section \<open>Definitions\<close>

text \<open>What the code reads of a parsed URL; \<open>Hostname\<close> and \<open>Port\<close> are its methods.\<close>

record url =
  ur_scheme :: string
  ur_opaque :: string
  ur_user :: bool
  ur_host :: string
  ur_hostname :: string
  ur_port :: string
  ur_path :: string
  ur_raw_path :: string
  ur_escaped_path :: string
  ur_raw_query :: string
  ur_fragment :: string

record s3_input =
  s3_endpoint :: string
  s3_region :: string
  s3_bucket :: string
  s3_prefix :: string
  s3_format :: string
  s3_scope_kind :: string
  s3_scope_name :: string

definition fingerprintDomain :: string where "fingerprintDomain = ''objectstoreviewer-repository-v1''"

text \<open>\<open>net.JoinHostPort\<close>.\<close>

definition join_host_port :: "string \<Rightarrow> string \<Rightarrow> string" where
  "join_host_port host port =
     (if CHR '':'' \<in> set host then ''['' @ host @ '']:'' @ port else host @ '':'' @ port)"

definition canonical_endpoint :: "(string \<Rightarrow> url option) \<Rightarrow> string \<Rightarrow> string result" where
  "canonical_endpoint parse_url raw =
     (if raw = [] then Inr []
      else case parse_url raw of None \<Rightarrow> Inl ''S3 endpoint must be a credential-free HTTP origin''
      | Some u \<Rightarrow>
          if ur_opaque u \<noteq> [] \<or> ur_user u \<or> ur_raw_query u \<noteq> [] \<or> ur_fragment u \<noteq> []
             \<or> ur_raw_path u \<noteq> [] \<or> (ur_path u \<noteq> [] \<and> ur_path u \<noteq> ''/'')
             \<or> (ur_scheme u \<noteq> ''http'' \<and> ur_scheme u \<noteq> ''https'') \<or> ur_hostname u = []
          then Inl ''S3 endpoint must be a credential-free HTTP origin''
          else let port = (if (ur_scheme u = ''http'' \<and> ur_port u = ''80'')
                              \<or> (ur_scheme u = ''https'' \<and> ur_port u = ''443'')
                           then [] else ur_port u);
                   hostname = to_lower (ur_hostname u);
                   host = (if CHR '':'' \<in> set hostname \<or> port \<noteq> []
                           then (if port = [] then ''['' @ hostname @ '']'' else join_host_port hostname port)
                           else hostname)
               in Inr (to_lower (ur_scheme u) @ ''://'' @ host))"

text \<open>\<open>strings.Trim(prefix, "/")\<close>.\<close>

definition trim_slashes :: "string \<Rightarrow> string" where
  "trim_slashes s = rev (dropWhile (\<lambda>c. c = CHR ''/'') (rev (dropWhile (\<lambda>c. c = CHR ''/'') s)))"

definition s3_field_bad :: "string \<times> nat \<times> bool \<Rightarrow> bool" where
  "s3_field_bad f \<longleftrightarrow> (case f of (value, maximum, required) \<Rightarrow>
     (required \<and> value = []) \<or> maximum < length value \<or> \<not> valid_utf8 value \<or> has_control value)"

definition canonical_s3 :: "(string \<Rightarrow> url option) \<Rightarrow> s3_input \<Rightarrow> s3_input result" where
  "canonical_s3 parse_url input =
     (case canonical_endpoint parse_url (s3_endpoint input) of Inl e \<Rightarrow> Inl e
      | Inr endpoint \<Rightarrow>
          let i = input\<lparr>s3_endpoint := endpoint, s3_prefix := trim_slashes (s3_prefix input)\<rparr> in
          if s3_format i \<noteq> ''barman-cloud'' \<or> s3_scope_kind i \<noteq> ''barman-server''
          then Inl ''S3 fingerprint profile is invalid''
          else if list_ex s3_field_bad
             [(s3_region i, 128, False), (s3_bucket i, 255, True), (s3_prefix i, 1024, False),
              (s3_scope_name i, 256, True)]
          then Inl ''S3 fingerprint input is invalid''
          else if \<not> valid_barman_server (s3_scope_name i)
          then Inl ''S3 fingerprint scope is invalid''
          else Inr i)"

text \<open>\<open>binary.BigEndian.PutUint32(length, uint32(n))\<close> and \<open>%x\<close>.\<close>

definition be32 :: "nat \<Rightarrow> string" where
  "be32 n = map (\<lambda>k. char_of (n div 256 ^ k mod 256)) [3, 2, 1, 0]"

definition frame :: "string list \<Rightarrow> string" where
  "frame values = concat (map (\<lambda>v. be32 (length v) @ v) values)"

definition lower_hex_digit :: "nat \<Rightarrow> char" where
  "lower_hex_digit n = (if n < 10 then char_of (48 + n) else char_of (87 + n))"

definition hex_bytes :: "string \<Rightarrow> string" where
  "hex_bytes s = concat (map (\<lambda>c. [lower_hex_digit (byte c div 16), lower_hex_digit (byte c mod 16)]) s)"

definition fingerprint_values :: "s3_input \<Rightarrow> string list" where
  "fingerprint_values i =
     [''s3'', s3_endpoint i, s3_region i, s3_bucket i, s3_prefix i, s3_format i, s3_scope_kind i,
      s3_scope_name i]"

definition fingerprint_s3 ::
  "(string \<Rightarrow> url option) \<Rightarrow> (string \<Rightarrow> string) \<Rightarrow> s3_input \<Rightarrow> string result" where
  "fingerprint_s3 parse_url sha256 input =
     (case canonical_s3 parse_url input of Inl e \<Rightarrow> Inl e
      | Inr canonical \<Rightarrow>
          Inr (''sha256:'' @ hex_bytes (sha256 (fingerprintDomain @ frame (fingerprint_values canonical)))))"

section \<open>Framing and printing\<close>

lemma length_be32 [simp]: "length (be32 n) = 4"
  by (simp add: be32_def)

lemma byte_less: "byte c < 256"
  by (metis of_char_mod_256 mod_less_divisor zero_less_numeral)

lemma byte_halves: "byte c div 16 < 16" "byte c mod 16 < 16"
  using byte_less [of c] by (auto simp: div_less_iff_less_mult)

lemma base256_digits:
  fixes n :: nat
  assumes "n < 2 ^ 32"
  shows "n = 16777216 * (n div 16777216 mod 256) + (65536 * (n div 65536 mod 256)
     + (256 * (n div 256 mod 256) + n mod 256))"
proof -
  have step: "n mod (256 ^ k * 256) = 256 ^ k * (n div 256 ^ k mod 256) + n mod 256 ^ k" for k :: nat
    by (rule mod_mult2_eq)
  have "n mod 4294967296 = n" using assms by simp
  moreover have "n mod 4294967296 = 16777216 * (n div 16777216 mod 256) + n mod 16777216"
    "n mod 16777216 = 65536 * (n div 65536 mod 256) + n mod 65536"
    "n mod 65536 = 256 * (n div 256 mod 256) + n mod 256"
    using step [of 3] step [of 2] step [of 1] by simp_all
  ultimately show ?thesis by linarith
qed

lemma char_of_mod_eqD:
  fixes a b :: nat
  assumes "(char_of (a mod 256) :: char) = char_of (b mod 256)"
  shows "a mod 256 = b mod 256"
proof -
  have "byte (char_of (a mod 256)) = byte (char_of (b mod 256))" by (simp only: assms)
  then show ?thesis by (simp only: of_char_of mod_mod_trivial)
qed

lemma be32_inj:
  assumes "be32 m = be32 n" "m < 2 ^ 32" "n < 2 ^ 32"
  shows "m = n"
proof -
  have "\<forall>k\<in>set [3, 2, 1, 0]. (char_of (m div 256 ^ k mod 256) :: char) = char_of (n div 256 ^ k mod 256)"
    using assms(1) by (simp only: be32_def map_eq_conv)
  then have d: "m div 256 ^ k mod 256 = n div 256 ^ k mod 256" if "k \<in> set [3, 2, 1, 0]" for k
    using that by (intro char_of_mod_eqD) (drule bspec, assumption+)
  have "m mod 256 = n mod 256" "m div 256 mod 256 = n div 256 mod 256"
    "m div 65536 mod 256 = n div 65536 mod 256" "m div 16777216 mod 256 = n div 16777216 mod 256"
    using d [of 0] d [of 1] d [of 2] d [of 3] by simp_all
  then show ?thesis
    using base256_digits [OF assms(2)] base256_digits [OF assms(3)] by (simp only:)
qed

lemma frame_Cons: "frame (v # vs) = be32 (length v) @ v @ frame vs"
  by (simp add: frame_def)

lemma frame_inj:
  assumes "length us = length vs" and "\<forall>v\<in>set us \<union> set vs. length v < 2 ^ 32"
    and "frame us = frame vs"
  shows "us = vs"
  using assms
proof (induction us vs rule: list_induct2)
  case (Cons u us v vs)
  have e: "be32 (length u) @ (u @ frame us) = be32 (length v) @ (v @ frame vs)"
    using Cons.prems(2) by (simp add: frame_Cons)
  then have b: "be32 (length u) = be32 (length v)" by simp
  then have l: "length u = length v" using be32_inj Cons.prems(1) by simp
  have "u @ frame us = v @ frame vs" using e b by simp
  then have "u = v" "frame us = frame vs" using l by simp_all
  then show ?case using Cons by simp
qed simp

lemma lower_hex_digit_inj: "m < 16 \<Longrightarrow> n < 16 \<Longrightarrow> lower_hex_digit m = lower_hex_digit n \<Longrightarrow> m = n"
proof -
  assume a: "m < 16" "n < 16" "lower_hex_digit m = lower_hex_digit n"
  then have "(of_char (lower_hex_digit m) :: nat) = of_char (lower_hex_digit n)" by simp
  with a(1,2) show "m = n" by (auto simp: lower_hex_digit_def split: if_splits)
qed

lemma lower_hex_digit_hex: "n < 16 \<Longrightarrow> lower_hex_char (lower_hex_digit n)"
  by (auto simp: lower_hex_digit_def lower_hex_char_def is_digit_def is_lower_hex_def)

lemma hex_bytes_inj: "hex_bytes a = hex_bytes b \<Longrightarrow> a = b"
proof (induction a arbitrary: b)
  case Nil
  then show ?case by (cases b) (simp_all add: hex_bytes_def)
next
  case (Cons x xs)
  then obtain y ys where b: "b = y # ys" by (cases b) (simp_all add: hex_bytes_def)
  note lt = byte_halves
  have q: "(of_char x :: nat) div 16 = of_char y div 16" "(of_char x :: nat) mod 16 = of_char y mod 16"
    using Cons.prems lt [of x] lt [of y] unfolding b
    by (auto simp: hex_bytes_def intro!: lower_hex_digit_inj)
  have "(of_char x :: nat) = of_char y" using q by (metis div_mult_mod_eq)
  moreover have "hex_bytes xs = hex_bytes ys" using Cons.prems by (simp add: b hex_bytes_def)
  ultimately show ?case using Cons.IH b by simp
qed

lemma length_hex_bytes: "length (hex_bytes s) = 2 * length s"
  by (induction s) (simp_all add: hex_bytes_def)

lemma hex_bytes_hex: "list_all lower_hex_char (hex_bytes s)"
proof (induction s)
  case (Cons c s)
  show ?case using Cons byte_halves [of c] by (auto simp: hex_bytes_def intro!: lower_hex_digit_hex)
qed (simp add: hex_bytes_def)

lemma printed_fingerprint_valid:
  "length h = 32 \<Longrightarrow> valid_fingerprint (''sha256:'' @ hex_bytes h)"
  by (simp add: valid_fingerprint_def has_prefix_def length_hex_bytes hex_bytes_hex)

section \<open>The fingerprint identifies the canonical destination\<close>

lemma canonical_s3_InrD:
  assumes "canonical_s3 parse_url input = Inr i"
  shows "s3_format i = ''barman-cloud''" "s3_scope_kind i = ''barman-server''"
    and "length (s3_region i) \<le> 128" "length (s3_bucket i) \<le> 255" "s3_bucket i \<noteq> []"
    and "length (s3_prefix i) \<le> 1024" "length (s3_scope_name i) \<le> 256"
    and "valid_barman_server (s3_scope_name i)"
  using assms by (auto simp: canonical_s3_def s3_field_bad_def Let_def split: sum.splits if_splits)

definition fingerprint_bytes :: "s3_input \<Rightarrow> string" where
  "fingerprint_bytes i = fingerprintDomain @ frame (fingerprint_values i)"

lemma fingerprint_bytes_inj:
  assumes a: "canonical_s3 parse_url a = Inr ca" "length (s3_endpoint ca) < 2 ^ 32"
    and b: "canonical_s3 parse_url b = Inr cb" "length (s3_endpoint cb) < 2 ^ 32"
    and eq: "fingerprint_bytes ca = fingerprint_bytes cb"
  shows "ca = cb"
proof -
  have short: "\<forall>v\<in>set (fingerprint_values i). length v < 2 ^ 32"
    if "canonical_s3 parse_url x = Inr i" "length (s3_endpoint i) < 2 ^ 32" for x i
    using canonical_s3_InrD [OF that(1)] that(2) by (simp add: fingerprint_values_def)
  have "frame (fingerprint_values ca) = frame (fingerprint_values cb)"
    using eq by (simp add: fingerprint_bytes_def)
  then have "fingerprint_values ca = fingerprint_values cb"
    using short [OF a] short [OF b] by (intro frame_inj) (auto simp: fingerprint_values_def)
  then show ?thesis by (cases ca; cases cb) (simp add: fingerprint_values_def)
qed

text \<open>
  C16. The fingerprint names the canonical destination and nothing else: two inputs have the
  same fingerprint exactly if their canonical forms are equal, unless the hash function itself
  collides on the two framed byte strings.
\<close>

theorem fingerprint_identifies:
  assumes "canonical_s3 parse_url a = Inr ca" "length (s3_endpoint ca) < 2 ^ 32"
    and "canonical_s3 parse_url b = Inr cb" "length (s3_endpoint cb) < 2 ^ 32"
  shows "fingerprint_s3 parse_url sha256 a = fingerprint_s3 parse_url sha256 b \<longleftrightarrow>
     ca = cb \<or> (fingerprint_bytes ca \<noteq> fingerprint_bytes cb
                \<and> sha256 (fingerprint_bytes ca) = sha256 (fingerprint_bytes cb))"
proof -
  have "fingerprint_s3 parse_url sha256 a = fingerprint_s3 parse_url sha256 b \<longleftrightarrow>
      sha256 (fingerprint_bytes ca) = sha256 (fingerprint_bytes cb)"
    using assms(1,3) hex_bytes_inj by (auto simp: fingerprint_s3_def fingerprint_bytes_def)
  then show ?thesis using fingerprint_bytes_inj [OF assms] by blast
qed

definition ex_s3 :: "string \<Rightarrow> s3_input" where
  "ex_s3 prefix = \<lparr>s3_endpoint = [], s3_region = ''eu'', s3_bucket = ''backups'', s3_prefix = prefix,
     s3_format = ''barman-cloud'', s3_scope_kind = ''barman-server'', s3_scope_name = ''pg''\<rparr>"

lemma ex_canonical:
  "canonical_s3 parse_url (ex_s3 ''a'') = Inr (ex_s3 ''a'')"
  "canonical_s3 parse_url (ex_s3 ''/a/'') = Inr (ex_s3 ''a'')"
  "canonical_s3 parse_url (ex_s3 ''b'') = Inr (ex_s3 ''b'')"
proof -
  have v: "list_ex s3_field_bad [(''eu'', 128, False), (''backups'', 255, True), (p, 1024, False),
      (''pg'', 256, True)] = False" "valid_barman_server ''pg''" if "p \<in> {''a'', ''b''}" for p
    using that by (auto simp: s3_field_bad_def valid_barman_server_def invalid_wire_text_def ascii_control_def)
  have t: "trim_slashes ''a'' = ''a''" "trim_slashes ''/a/'' = ''a''" "trim_slashes ''b'' = ''b''"
    by (simp_all add: trim_slashes_def)
  show "canonical_s3 parse_url (ex_s3 ''a'') = Inr (ex_s3 ''a'')"
    "canonical_s3 parse_url (ex_s3 ''/a/'') = Inr (ex_s3 ''a'')"
    "canonical_s3 parse_url (ex_s3 ''b'') = Inr (ex_s3 ''b'')"
    using v [of "''a''"] v [of "''b''"]
    by (simp_all add: canonical_s3_def canonical_endpoint_def ex_s3_def t)
qed

lemma fingerprint_identifies_witness:
  "fingerprint_s3 (\<lambda>u. None) (\<lambda>s. s) (ex_s3 ''a'') = fingerprint_s3 (\<lambda>u. None) (\<lambda>s. s) (ex_s3 ''/a/'')
   \<and> fingerprint_s3 (\<lambda>u. None) (\<lambda>s. s) (ex_s3 ''a'') \<noteq> fingerprint_s3 (\<lambda>u. None) (\<lambda>s. s) (ex_s3 ''b'')"
proof -
  have "length (s3_endpoint (ex_s3 p)) < 2 ^ 32" for p by (simp add: ex_s3_def)
  then show ?thesis
    using fingerprint_identifies [OF ex_canonical(1) _ ex_canonical(2), of "\<lambda>u. None" "\<lambda>s. s"]
      fingerprint_identifies [OF ex_canonical(1) _ ex_canonical(3), of "\<lambda>u. None" "\<lambda>s. s"]
    by (simp add: ex_s3_def)
qed

end
