(* ===== verification/Projection.thy ===== *)
theory Projection
  imports Fingerprint
begin

text \<open>
  The projection of an inventory snapshot to the wire contract
  (\<open>internal/evidenceapi/projection.go\<close>): one publication, its validation, and what a reader
  of the publication learns about the snapshot.

  \<open>slices.SortFunc\<close> is not stable. Two capabilities, or two backups, with the same key make
  the publication invalid in any order, so the model sorts stably. A conversion of a signed
  counter to 64 bits wraps around, as in the source.
\<close>

section \<open>Data\<close>

record projection_options =
  po_version :: string
  po_namespace :: string
  po_uid :: string
  po_name :: "string option"
  po_s3 :: s3_input

text \<open>
  \<open>Project\<close> fills the collections of a publication first and its snapshot from them, so the
  four collections are a record of their own.
\<close>

record collections =
  pb_backups :: "barman_backup list"
  pb_ranges :: "barman_wal_range list"
  pb_gaps :: "barman_wal_gap list"
  pb_paths :: "barman_recovery_path list"

record publication = collections +
  pb_snapshot :: wire_snapshot

section \<open>Pointers\<close>

definition count_pointer :: "nat \<Rightarrow> u64 option" where
  "count_pointer n = Some (of_nat n)"

definition equals_count :: "u64 option \<Rightarrow> nat \<Rightarrow> bool" where
  "equals_count value n \<longleftrightarrow> value = Some (of_nat n)"

definition positive_u64_pointer :: "u64 \<Rightarrow> u64 option" where
  "positive_u64_pointer v = (if v = 0 then None else Some v)"

definition positive_u32_pointer :: "u32 \<Rightarrow> u64 option" where
  "positive_u32_pointer v = positive_u64_pointer (ucast v)"

definition position_pointer :: "u32 \<Rightarrow> u64 \<Rightarrow> u64 option" where
  "position_pointer timeline position = (if timeline = 0 then None else Some position)"

definition positive_int64_pointer :: "int \<Rightarrow> u64 option" where
  "positive_int64_pointer v = (if v \<le> 0 then None else Some (of_int v))"

definition int64_pointer :: "int option \<Rightarrow> u64 option" where
  "int64_pointer v = (case v of None \<Rightarrow> None | Some n \<Rightarrow> if n < 0 then None else Some (of_int n))"

definition string_pointer :: "string \<Rightarrow> string option" where
  "string_pointer s = (if s = [] then None else Some s)"

definition time_pointer :: "gotime \<Rightarrow> gotime option" where
  "time_pointer t = (if time_is_zero t then None else Some (time_utc t))"

definition message_or :: "string \<Rightarrow> string \<Rightarrow> string" where
  "message_or value fallback = (if value = [] then fallback else value)"

definition typed_reason :: "string \<Rightarrow> string \<Rightarrow> wire_reason" where
  "typed_reason code message = \<lparr>wn_code = code, wn_message = message\<rparr>"

definition to_state_reason :: "state \<Rightarrow> string \<Rightarrow> string \<Rightarrow> string \<Rightarrow> state_reason" where
  "to_state_reason st prefix message fallback =
     (let st = (if state_text st = [] then Unknown else st)
      in \<lparr>sn_state = st,
          sn_reason = typed_reason (prefix @ ''-'' @ state_text st) (message_or message fallback)\<rparr>)"

section \<open>Collections\<close>

definition wal_server :: "wal_catalog \<Rightarrow> string \<Rightarrow> server_wal" where
  "wal_server catalog name =
     (case find (\<lambda>s. sw_server s = name) catalog of Some s \<Rightarrow> s
      | None \<Rightarrow> empty_server_wal\<lparr>sw_server := name, sw_state := Unknown,
                  sw_reason := ''no Barman WAL evidence observed''\<rparr>)"

definition recovery_server :: "recovery_catalog \<Rightarrow> string \<Rightarrow> server_recovery" where
  "recovery_server catalog name =
     (case find (\<lambda>s. sr_server s = name) catalog of Some s \<Rightarrow> s
      | None \<Rightarrow>
          \<lparr>sr_server = name, sr_timeline_state = Unknown,
           sr_timeline_reason = ''no timeline evidence observed'', sr_coverage_state = Unknown,
           sr_coverage_reason = ''no observed recovery coverage'', sr_histories = [], sr_paths = [],
           sr_retention = \<lparr>rs_visible = 0, rs_usable = 0, rs_oldest = zero_time, rs_newest = zero_time,
             rs_minimum_configured = False, rs_minimum_redundancy = 0, rs_policy_configured = False,
             rs_state = Unknown, rs_reason = ''no retention evidence observed''\<rparr>\<rparr>)"

definition project_backup :: "string \<Rightarrow> backup \<Rightarrow> barman_backup" where
  "project_backup server b =
     \<lparr>bb_server = server, bb_id = bk_id b, bb_status = string_pointer (bk_status b),
      bb_type = string_pointer (bk_type b), bb_state = bk_state b,
      bb_reason = typed_reason (''backup-'' @ state_text (bk_state b)) (bk_reason b),
      bb_system_id = string_pointer (bk_system_id b),
      bb_version = positive_int64_pointer (bk_version b),
      bb_timeline = positive_u32_pointer (bk_timeline b),
      bb_segment_size = positive_int64_pointer (bk_segment_size b),
      bb_begin_wal = string_pointer (bk_begin_wal b), bb_end_wal = string_pointer (bk_end_wal b),
      bb_begin_lsn = string_pointer (bk_begin_lsn b), bb_end_lsn = string_pointer (bk_end_lsn b),
      bb_begin_at = time_pointer (bk_begin_at b), bb_end_at = time_pointer (bk_end_at b),
      bb_logical_bytes = positive_int64_pointer (bk_logical_bytes b),
      bb_dedup_bytes = int64_pointer (bk_dedup_bytes b),
      bb_stored_bytes = Some (of_int (bk_stored_bytes b)),
      bb_compression = string_pointer (bk_compression b),
      bb_encryption = string_pointer (bk_encryption b),
      bb_artifacts = count_pointer (length (bk_artifacts b)),
      bb_tablespaces = count_pointer (length (bk_tablespaces b))\<rparr>"

definition project_backups :: "snapshot \<Rightarrow> string \<Rightarrow> barman_backup list" where
  "project_backups source server =
     sort_key (\<lambda>b. (bb_id b, bb_server b))
       (map (project_backup server) (filter (\<lambda>b. bk_server b = server) (in_catalog source)))"

definition project_range :: "string \<Rightarrow> wal_range \<Rightarrow> barman_wal_range" where
  "project_range server r =
     \<lparr>xr_server = server, xr_timeline = ucast (wr_timeline r), xr_start = wr_start r, xr_end = wr_end r,
      xr_count = wr_count r, xr_first = wr_first r, xr_last = wr_last r,
      xr_latest_receipt = time_pointer (wr_latest_receipt r),
      xr_end_receipt = time_pointer (wr_end_receipt r)\<rparr>"

definition project_gap :: "string \<Rightarrow> wal_gap \<Rightarrow> barman_wal_gap" where
  "project_gap server g =
     \<lparr>xg_server = server, xg_timeline = ucast (wg_timeline g), xg_start = wg_start g, xg_end = wg_end g,
      xg_count = wg_count g, xg_first = wg_first g, xg_last = wg_last g, xg_status = wg_status g,
      xg_first_generation = wg_first_generation g, xg_last_generation = wg_last_generation g\<rparr>"

definition project_wal :: "snapshot \<Rightarrow> string \<Rightarrow> barman_wal_range list \<times> barman_wal_gap list" where
  "project_wal source server =
     (let selected = wal_server (in_wal source) server
      in (map (project_range server) (sw_ranges selected), map (project_gap server) (sw_gaps selected)))"

definition assumption_mapping :: "(string \<times> string) list" where
  "assumption_mapping =
     [(''segment-name presence only'', ''segment-name-presence-only''),
      (''timeline history metadata only'', ''timeline-history-metadata-only''),
      (''WAL bytes and restore execution not verified'', ''wal-bytes-and-restore-not-verified''),
      (''backup system identifier unavailable'', ''backup-system-identifier-unavailable''),
      (''backup system identifier retained; WAL objects do not carry it'',
       ''wal-system-identifier-unavailable'')]"

definition assumption_codes :: "string list \<Rightarrow> string list" where
  "assumption_codes values =
     remdups_adj (sort (List.map_filter (map_of assumption_mapping) values))"

definition project_path :: "string \<Rightarrow> recovery_path \<Rightarrow> barman_recovery_path" where
  "project_path server p =
     \<lparr>xp_server = server, xp_backup_id = rp_backup_id p, xp_target = ucast (rp_target p),
      xp_state = rp_state p,
      xp_reason = typed_reason (''coverage-path-'' @ state_text (rp_state p)) (rp_reason p),
      xp_stop = rp_stop p, xp_lower_bound = time_pointer (rp_lower_bound p),
      xp_start_timeline = positive_u32_pointer (rp_start_timeline p),
      xp_start_position = position_pointer (rp_start_timeline p) (rp_start_position p),
      xp_start_wal = string_pointer (rp_start_wal p),
      xp_frontier_timeline = positive_u32_pointer (rp_frontier_timeline p),
      xp_frontier_position = position_pointer (rp_frontier_timeline p) (rp_frontier_position p),
      xp_frontier_wal = string_pointer (rp_frontier_wal p),
      xp_frontier_receipt = time_pointer (rp_frontier_receipt p),
      xp_assumptions = Some (assumption_codes (rp_assumptions p))\<rparr>"

definition project_paths :: "snapshot \<Rightarrow> string \<Rightarrow> barman_recovery_path list" where
  "project_paths source server =
     map (project_path server)
       (filter (\<lambda>p. rp_target p \<noteq> 0) (sr_paths (recovery_server (in_recovery source) server)))"

section \<open>The snapshot resource\<close>

definition project_capabilities :: "capability list \<Rightarrow> wire_capability list" where
  "project_capabilities values =
     sort_key kc_id (map (\<lambda>c.
       \<lparr>kc_id = cap_id c, kc_support = cap_support c, kc_state = cap_state c,
        kc_reason = typed_reason (''capability-'' @ cap_id c @ ''-'' @ state_text (cap_state c))
          (cap_reason c)\<rparr>) values)"

definition project_inventory :: "snapshot \<Rightarrow> inventory_summary" where
  "project_inventory source =
     (let known = (\<lambda>v. if in_totals_known source then Some (of_int v) else None)
      in \<lparr>iv_known = in_totals_known source, iv_object_count = known (in_object_count source),
          iv_stored_bytes = known (in_stored_bytes source), iv_unscoped = known (in_unscoped source),
          iv_pages = of_int (in_pages source), iv_objects_examined = of_int (in_objects_examined source),
          iv_failure = (if in_failure source \<noteq> FaultNone then Some (in_failure source) else None)\<rparr>)"

definition project_retention :: "retention \<Rightarrow> barman_retention" where
  "project_retention v =
     \<lparr>rt_visible = (if state_text (rs_state v) \<noteq> [] then Some (of_int (rs_visible v)) else None),
      rt_usable = (if state_text (rs_state v) \<noteq> [] then Some (of_int (rs_usable v)) else None),
      rt_oldest = time_pointer (rs_oldest v), rt_newest = time_pointer (rs_newest v),
      rt_minimum_configured = rs_minimum_configured v,
      rt_minimum_redundancy =
        (if rs_minimum_configured v then Some (of_int (rs_minimum_redundancy v)) else None),
      rt_policy_configured = rs_policy_configured v, rt_state = rs_state v,
      rt_reason = typed_reason (''retention-'' @ state_text (rs_state v))
        (message_or (rs_reason v) ''no retention evidence observed'')\<rparr>"

definition project_wal_counts :: "wal_counts \<Rightarrow> barman_wal_counts" where
  "project_wal_counts v =
     \<lparr>bw_segment = of_int (ct_segments v), bw_partial = of_int (ct_partials v),
      bw_history = of_int (ct_history v), bw_backup_history = of_int (ct_backup_history v),
      bw_unknown = of_int (ct_unknown v), bw_duplicate = of_int (ct_duplicates v)\<rparr>"

definition count_backup_state :: "state_counts \<times> u64 \<Rightarrow> barman_backup \<Rightarrow> state_counts \<times> u64" where
  "count_backup_state acc b =
     (case acc of (c, usable) \<Rightarrow>
        case bb_state b of
          Healthy \<Rightarrow> (c\<lparr>cn_healthy := cn_healthy c + 1\<rparr>, usable + 1)
        | Warning \<Rightarrow> (c\<lparr>cn_warning := cn_warning c + 1\<rparr>, usable)
        | Unhealthy \<Rightarrow> (c\<lparr>cn_unhealthy := cn_unhealthy c + 1\<rparr>, usable)
        | _ \<Rightarrow> (c\<lparr>cn_unknown := cn_unknown c + 1\<rparr>, usable))"

definition backup_counts :: "barman_backup list \<Rightarrow> state_counts \<times> u64" where
  "backup_counts bs =
     foldl count_backup_state
       (\<lparr>cn_healthy = 0, cn_warning = 0, cn_unhealthy = 0, cn_unknown = 0\<rparr>, 0) bs"

definition project_details :: "snapshot \<Rightarrow> string \<Rightarrow> collections \<Rightarrow> details" where
  "project_details source server p =
     (let wal = wal_server (in_wal source) server;
          recovery = recovery_server (in_recovery source) server;
          known = in_totals_known source;
          counts = backup_counts (pb_backups p);
          summary =
            \<lparr>bc_backup_items = (if known then count_pointer (length (pb_backups p)) else None),
             bc_range_items = (if known then count_pointer (length (pb_ranges p)) else None),
             bc_gap_items = (if known then count_pointer (length (pb_gaps p)) else None),
             bc_path_items = (if known then count_pointer (length (pb_paths p)) else None),
             bc_usable = (if known then Some (snd counts) else None),
             bc_backup_states = (if known then Some (fst counts) else None),
             bc_wal_counts = (if known then Some (project_wal_counts (sw_counts wal)) else None),
             bc_wal = to_state_reason (sw_state wal) ''wal'' (sw_reason wal) ''no Barman WAL evidence observed'',
             bc_timeline = to_state_reason (sr_timeline_state recovery) ''timeline''
               (sr_timeline_reason recovery) ''no timeline evidence observed'',
             bc_coverage = to_state_reason (sr_coverage_state recovery) ''coverage''
               (sr_coverage_reason recovery) ''no observed recovery coverage'',
             bc_retention = project_retention (sr_retention recovery),
             bc_latest_receipt = time_pointer (sw_latest_receipt wal),
             bc_ranges_truncated = sw_ranges_truncated wal,
             bc_diagnostics_truncated = sw_diagnostics_truncated wal\<rparr>
      in \<lparr>dt_type = BarmanDetailsType, dt_barman = Some summary, dt_unknown = False\<rparr>)"

text \<open>\<open>strings.ReplaceAll(category, "_", "-")\<close>.\<close>

definition dashed :: "string \<Rightarrow> string" where
  "dashed s = map (\<lambda>c. if c = CHR ''_'' then CHR ''-'' else c) s"

definition project_snapshot ::
  "snapshot \<Rightarrow> projection_options \<Rightarrow> s3_input \<Rightarrow> string \<Rightarrow> collections \<Rightarrow> wire_snapshot" where
  "project_snapshot source opts canonical fingerprint p =
     (let e = in_evidence source; known = in_totals_known source; failed = (in_failure source \<noteq> FaultNone)
      in \<lparr>ws_api_version = APIVersion, ws_kind = SnapshotKind,
          ws_producer = \<lparr>pd_name = ProducerName, pd_version = po_version opts\<rparr>,
          ws_identity =
            \<lparr>wi_cluster = \<lparr>ci_namespace = po_namespace opts, ci_uid = po_uid opts, ci_name = po_name opts\<rparr>,
             wi_repository =
               \<lparr>ri_provider = ''s3'', ri_format = s3_format canonical, ri_fingerprint = fingerprint,
                ri_scope = \<lparr>si_kind = s3_scope_kind canonical, si_name = s3_scope_name canonical\<rparr>\<rparr>\<rparr>,
          ws_revision = in_generation source,
          ws_evidence_generation = (if known then es_generation e else 0),
          ws_started = (if known then time_pointer (es_started e) else None),
          ws_completed = (if known then time_pointer (es_completed e) else None),
          ws_last_attempt = time_pointer (in_last_attempt source),
          ws_completeness = es_completeness e, ws_stale = es_stale e \<or> failed, ws_state = es_state e,
          ws_reason = typed_reason
            (if failed then ''refresh-'' @ dashed (fault_text (in_failure source))
             else ''snapshot-'' @ state_text (es_state e)) (es_reason e),
          ws_capabilities = project_capabilities (es_capabilities e),
          ws_inventory = project_inventory source,
          ws_details = project_details source (s3_scope_name canonical) p\<rparr>)"

section \<open>Validation and projection\<close>

text \<open>
  The loops of \<open>Publication.Validate\<close>: every item of a collection is valid, then every
  neighbouring pair is in strict order.
\<close>

fun first_error :: "('a \<Rightarrow> string option) \<Rightarrow> 'a list \<Rightarrow> string option" where
  "first_error valid [] = None"
| "first_error valid (x # xs) = (case valid x of Some e \<Rightarrow> Some e | None \<Rightarrow> first_error valid xs)"

fun neighbours :: "('a \<Rightarrow> 'a \<Rightarrow> bool) \<Rightarrow> 'a list \<Rightarrow> bool" where
  "neighbours bad (x # y # ys) \<longleftrightarrow> bad x y \<or> neighbours bad (y # ys)"
| "neighbours bad _ \<longleftrightarrow> False"

definition backups_disordered :: "barman_backup \<Rightarrow> barman_backup \<Rightarrow> bool" where
  "backups_disordered l r \<longleftrightarrow> bb_id r < bb_id l \<or> (bb_id l = bb_id r \<and> bb_server r \<le> bb_server l)"

definition ranges_disordered :: "barman_wal_range \<Rightarrow> barman_wal_range \<Rightarrow> bool" where
  "ranges_disordered l r \<longleftrightarrow> xr_server r < xr_server l \<or> (xr_server l = xr_server r
     \<and> (xr_timeline r < xr_timeline l \<or> (xr_timeline l = xr_timeline r \<and> xr_start r \<le> xr_start l)))"

definition gaps_disordered :: "barman_wal_gap \<Rightarrow> barman_wal_gap \<Rightarrow> bool" where
  "gaps_disordered l r \<longleftrightarrow> xg_server r < xg_server l \<or> (xg_server l = xg_server r
     \<and> (xg_timeline r < xg_timeline l \<or> (xg_timeline l = xg_timeline r \<and> xg_start r \<le> xg_start l)))"

definition paths_disordered :: "barman_recovery_path \<Rightarrow> barman_recovery_path \<Rightarrow> bool" where
  "paths_disordered l r \<longleftrightarrow> xp_backup_id r < xp_backup_id l \<or> (xp_backup_id l = xp_backup_id r
     \<and> (xp_target r < xp_target l \<or> (xp_target l = xp_target r \<and> xp_server r \<le> xp_server l)))"

definition check_collection ::
  "('a \<Rightarrow> string option) \<Rightarrow> ('a \<Rightarrow> 'a \<Rightarrow> bool) \<Rightarrow> string \<Rightarrow> 'a list \<Rightarrow> string option" where
  "check_collection valid bad msg xs =
     (case first_error valid xs of Some e \<Rightarrow> Some e
      | None \<Rightarrow> if neighbours bad xs then Some msg else None)"

definition counts_agree :: "publication \<Rightarrow> barman_summary \<Rightarrow> bool" where
  "counts_agree p d \<longleftrightarrow> equals_count (bc_backup_items d) (length (pb_backups p))
     \<and> equals_count (bc_range_items d) (length (pb_ranges p))
     \<and> equals_count (bc_gap_items d) (length (pb_gaps p))
     \<and> equals_count (bc_path_items d) (length (pb_paths p))"

definition validate_publication :: "publication \<Rightarrow> string option" where
  "validate_publication p =
     (case validate_wire_snapshot (pb_snapshot p) of Some e \<Rightarrow> Some e | None \<Rightarrow>
      (case check_collection validate_barman_backup backups_disordered
              ''publication backups are not uniquely sorted'' (pb_backups p) of Some e \<Rightarrow> Some e | None \<Rightarrow>
      (case check_collection validate_barman_range ranges_disordered
              ''publication WAL ranges are not uniquely sorted'' (pb_ranges p) of Some e \<Rightarrow> Some e | None \<Rightarrow>
      (case check_collection validate_barman_gap gaps_disordered
              ''publication WAL gaps are not uniquely sorted'' (pb_gaps p) of Some e \<Rightarrow> Some e | None \<Rightarrow>
      (case check_collection validate_barman_path paths_disordered
              ''publication recovery paths are not uniquely sorted'' (pb_paths p) of Some e \<Rightarrow> Some e | None \<Rightarrow>
      if ws_completeness (pb_snapshot p) = Complete
         \<and> (\<exists>d\<in>set_option (dt_barman (ws_details (pb_snapshot p))). \<not> counts_agree p d)
      then Some ''publication summary and collection counts disagree'' else None)))))"

definition backup_out_of_profile :: "string \<Rightarrow> backup \<Rightarrow> bool" where
  "backup_out_of_profile server b \<longleftrightarrow> bk_server b \<noteq> server \<or> bk_version b < 0 \<or> bk_segment_size b < 0
     \<or> bk_logical_bytes b < 0 \<or> bk_stored_bytes b < 0 \<or> (\<exists>n\<in>set_option (bk_dedup_bytes b). n < 0)"

definition validate_source_profile :: "snapshot \<Rightarrow> string \<Rightarrow> string option" where
  "validate_source_profile source server =
     (if \<not> in_totals_known source \<and> (in_catalog source \<noteq> [] \<or> in_wal source \<noteq> [] \<or> in_recovery source \<noteq> [])
      then Some ''project evidence publication: incomplete source retained partial format evidence''
      else if list_ex (backup_out_of_profile server) (in_catalog source)
      then Some ''project evidence publication: invalid or cross-scope backup evidence''
      else if list_ex (\<lambda>w. sw_server w \<noteq> server) (in_wal source)
      then Some ''project evidence publication: cross-scope WAL evidence''
      else if list_ex (\<lambda>r. sr_server r \<noteq> server) (in_recovery source)
      then Some ''project evidence publication: cross-scope recovery evidence''
      else None)"

definition project_collections :: "snapshot \<Rightarrow> string \<Rightarrow> collections" where
  "project_collections source server =
     \<lparr>pb_backups = project_backups source server, pb_ranges = fst (project_wal source server),
      pb_gaps = snd (project_wal source server), pb_paths = project_paths source server\<rparr>"

definition project_publication ::
  "snapshot \<Rightarrow> projection_options \<Rightarrow> s3_input \<Rightarrow> string \<Rightarrow> publication" where
  "project_publication source opts canonical fingerprint =
     (let c = project_collections source (s3_scope_name canonical)
      in collections.extend c
           \<lparr>pb_snapshot = project_snapshot source opts canonical fingerprint c\<rparr>)"

definition project ::
  "(string \<Rightarrow> url option) \<Rightarrow> (string \<Rightarrow> string) \<Rightarrow> snapshot \<Rightarrow> projection_options \<Rightarrow> publication result" where
  "project parse_url sha256 source opts =
     (case validate_snapshot source of Some e \<Rightarrow> Inl (''project evidence publication: '' @ e)
      | None \<Rightarrow>
      (case canonical_s3 parse_url (po_s3 opts) of
         Inl e \<Rightarrow> Inl ''project evidence publication: incompatible repository identity''
       | Inr canonical \<Rightarrow>
      if s3_format canonical \<noteq> es_format (in_evidence source)
         \<or> scope_kind (es_scope (in_evidence source)) \<noteq> ''server''
      then Inl ''project evidence publication: incompatible repository identity''
      else if in_totals_known source \<and> map sp_name (in_scopes source) \<noteq> [s3_scope_name canonical]
      then Inl ''project evidence publication: snapshot is not confined to one configured scope''
      else case validate_source_profile source (s3_scope_name canonical) of Some e \<Rightarrow> Inl e
      | None \<Rightarrow>
      (case fingerprint_s3 parse_url sha256 canonical of
         Inl e \<Rightarrow> Inl ''project evidence publication: invalid repository fingerprint''
       | Inr fingerprint \<Rightarrow>
           let p = project_publication source opts canonical fingerprint
           in case validate_publication p of Some e \<Rightarrow> Inl (''project evidence publication: '' @ e)
              | None \<Rightarrow> Inr p)))"

section \<open>Strictly ordered collections\<close>

text \<open>
  The contract between a validator of a collection and its order: two neighbours are refused
  exactly if the key of the second one is not above that of the first. A collection that
  passes is then strictly increasing, and so is every segment of it.
\<close>

locale ordered_collection =
  fixes bad :: "'a \<Rightarrow> 'a \<Rightarrow> bool" and key :: "'a \<Rightarrow> 'k :: linorder"
  assumes bad_iff: "bad l r \<longleftrightarrow> key r \<le> key l"
begin

definition increasing :: "'a list \<Rightarrow> bool" where
  "increasing xs \<longleftrightarrow> sorted_wrt (\<lambda>a b. key a < key b) xs"

lemma increasing_Nil: "increasing []"
  by (simp add: increasing_def)

lemma increasing_Cons: "increasing (x # xs) \<longleftrightarrow> (\<forall>y\<in>set xs. key x < key y) \<and> increasing xs"
  by (simp add: increasing_def)

lemma not_neighbours: "\<not> neighbours bad xs \<longleftrightarrow> increasing xs"
proof (induction xs rule: induct_list012)
  case (3 x y zs)
  then show ?case
    by (auto simp: bad_iff increasing_Cons not_le intro: less_trans)
qed (simp_all add: increasing_def)

lemma check_collection_None:
  "check_collection valid bad msg xs = None \<longleftrightarrow> first_error valid xs = None \<and> increasing xs"
  using not_neighbours [of xs] by (auto simp: check_collection_def split: option.splits)

lemma increasing_distinct: "increasing xs \<Longrightarrow> distinct (map key xs)"
  by (induction xs) (auto simp: increasing_def)

lemma increasing_segment: "increasing xs \<Longrightarrow> increasing (take n (drop m xs))"
  unfolding increasing_def by (intro sorted_wrt_take sorted_wrt_drop)

lemma check_items_None:
  assumes "\<And>l r. (0 \<le> compare l r) = bad l r"
  shows "check_items valid compare msg prior xs = None \<longleftrightarrow>
     first_error valid xs = None \<and> increasing xs \<and> (\<forall>p\<in>set_option prior. \<forall>x\<in>set xs. key p < key x)"
proof (induction xs arbitrary: prior)
  case (Cons x xs)
  then show ?case
    by (cases prior) (auto simp: assms bad_iff increasing_Cons not_le split: option.splits intro: less_trans)
qed (simp add: increasing_def)

end

lemma first_error_None: "first_error valid xs = None \<longleftrightarrow> (\<forall>x\<in>set xs. valid x = None)"
  by (induction xs) (auto split: option.splits)

interpretation backup_order: ordered_collection backups_disordered "\<lambda>b. (bb_id b, bb_server b)"
  by unfold_locales (auto simp: backups_disordered_def less_eq_prod_def)

interpretation range_order: ordered_collection ranges_disordered "\<lambda>r. (xr_server r, xr_timeline r, xr_start r)"
  by unfold_locales (auto simp: ranges_disordered_def less_eq_prod_def)

interpretation gap_order: ordered_collection gaps_disordered "\<lambda>g. (xg_server g, xg_timeline g, xg_start g)"
  by unfold_locales (auto simp: gaps_disordered_def less_eq_prod_def)

interpretation path_order: ordered_collection paths_disordered "\<lambda>p. (xp_backup_id p, xp_target p, xp_server p)"
  by unfold_locales (auto simp: paths_disordered_def less_eq_prod_def)

text \<open>The comparisons of the page validators are those of the publication.\<close>

lemma compare_text_simps:
  "compare_text l r = 0 \<longleftrightarrow> l = r" "0 \<le> compare_text l r \<longleftrightarrow> r \<le> l"
  by (auto simp: compare_text_def)

lemma compare_u64_nonneg: "0 \<le> compare_u64 l r \<longleftrightarrow> r \<le> l"
  by (auto simp: compare_u64_def)

lemma compare_agree:
  "0 \<le> compare_backup b b' \<longleftrightarrow> backups_disordered b b'"
  "0 \<le> compare_range r r' \<longleftrightarrow> ranges_disordered r r'"
  "0 \<le> compare_gap g g' \<longleftrightarrow> gaps_disordered g g'"
  "0 \<le> compare_path p p' \<longleftrightarrow> paths_disordered p p'"
  by (auto simp: compare_backup_def backups_disordered_def compare_range_def ranges_disordered_def
      compare_gap_def gaps_disordered_def compare_path_def paths_disordered_def Let_def
      compare_text_simps compare_u64_nonneg)

section \<open>What a publication says\<close>

lemma validate_wire_snapshot_NoneD:
  assumes "validate_wire_snapshot s = None"
  shows "validate_identity (ws_identity s) = None" "valid_state (ws_state s)"
    and "ws_evidence_generation s \<le> ws_revision s"
    and "ws_completeness s \<noteq> Complete \<longrightarrow> ws_state s \<noteq> Healthy"
    and "ws_stale s \<longrightarrow> ws_state s = Unknown"
    and "generation_error s = None"
    and "check_capabilities (ws_stale s) capability_ids (ws_capabilities s) = None"
    and "length (ws_capabilities s) = length capability_ids"
    and "validate_inventory_summary (ws_inventory s) = None"
    and "iv_failure (ws_inventory s) \<noteq> None \<longrightarrow> ws_stale s \<and> ws_state s = Unknown"
    and "validate_details (ws_details s) = None"
    and "ws_completeness s \<noteq> Complete \<longrightarrow>
       (\<forall>b\<in>set_option (dt_barman (ws_details s)). \<not> has_generation_counts b)"
  using assms
  by (simp_all add: validate_wire_snapshot_def not_less split: if_splits option.splits) auto

lemma check_capabilities_None:
  assumes "check_capabilities stale ids cs = None" "length cs = length ids"
  shows "map kc_id cs = ids" and "\<forall>c\<in>set cs. validate_wire_capability c = None"
    and "stale \<longrightarrow> (\<forall>c\<in>set cs. kc_state c = Unknown)"
proof -
  have "map kc_id cs = ids \<and> (\<forall>c\<in>set cs. validate_wire_capability c = None)
      \<and> (stale \<longrightarrow> (\<forall>c\<in>set cs. kc_state c = Unknown))"
    using assms
  proof (induction stale ids cs rule: check_capabilities.induct)
    case (1 stale i ids c cs)
    then have c: "validate_wire_capability c = None" "kc_id c = i"
      "stale \<longrightarrow> kc_support c = Supported \<longrightarrow> kc_state c = Unknown"
      by (auto split: option.splits if_splits)
    moreover have "kc_support c \<noteq> Supported \<longrightarrow> kc_state c = Unknown"
      using c(1) by (auto simp: validate_wire_capability_def split: if_splits)
    ultimately show ?case using 1 by auto
  qed (auto split: list.splits)
  then show "map kc_id cs = ids" "\<forall>c\<in>set cs. validate_wire_capability c = None"
    "stale \<longrightarrow> (\<forall>c\<in>set cs. kc_state c = Unknown)" by auto
qed

lemma validate_publication_NoneD:
  assumes "validate_publication p = None"
  shows "validate_wire_snapshot (pb_snapshot p) = None"
    and "\<forall>b\<in>set (pb_backups p). validate_barman_backup b = None" "backup_order.increasing (pb_backups p)"
    and "\<forall>r\<in>set (pb_ranges p). validate_barman_range r = None" "range_order.increasing (pb_ranges p)"
    and "\<forall>g\<in>set (pb_gaps p). validate_barman_gap g = None" "gap_order.increasing (pb_gaps p)"
    and "\<forall>q\<in>set (pb_paths p). validate_barman_path q = None" "path_order.increasing (pb_paths p)"
proof -
  have "check_collection validate_barman_backup backups_disordered
          ''publication backups are not uniquely sorted'' (pb_backups p) = None"
    "check_collection validate_barman_range ranges_disordered
          ''publication WAL ranges are not uniquely sorted'' (pb_ranges p) = None"
    "check_collection validate_barman_gap gaps_disordered
          ''publication WAL gaps are not uniquely sorted'' (pb_gaps p) = None"
    "check_collection validate_barman_path paths_disordered
          ''publication recovery paths are not uniquely sorted'' (pb_paths p) = None"
    "validate_wire_snapshot (pb_snapshot p) = None"
    using assms by (simp_all add: validate_publication_def split: option.splits)
  then show "validate_wire_snapshot (pb_snapshot p) = None"
    "\<forall>b\<in>set (pb_backups p). validate_barman_backup b = None" "backup_order.increasing (pb_backups p)"
    "\<forall>r\<in>set (pb_ranges p). validate_barman_range r = None" "range_order.increasing (pb_ranges p)"
    "\<forall>g\<in>set (pb_gaps p). validate_barman_gap g = None" "gap_order.increasing (pb_gaps p)"
    "\<forall>q\<in>set (pb_paths p). validate_barman_path q = None" "path_order.increasing (pb_paths p)"
    by (simp_all add: backup_order.check_collection_None range_order.check_collection_None
        gap_order.check_collection_None path_order.check_collection_None first_error_None)
qed

lemma project_InrD:
  assumes "project parse_url sha256 source opts = Inr p"
  obtains canonical fingerprint where "validate_snapshot source = None"
    and "canonical_s3 parse_url (po_s3 opts) = Inr canonical"
    and "s3_format canonical = es_format (in_evidence source)"
    and "in_totals_known source \<longrightarrow> map sp_name (in_scopes source) = [s3_scope_name canonical]"
    and "validate_source_profile source (s3_scope_name canonical) = None"
    and "fingerprint_s3 parse_url sha256 canonical = Inr fingerprint"
    and "p = project_publication source opts canonical fingerprint" "validate_publication p = None"
  using assms by (auto simp: project_def Let_def split: option.splits sum.splits if_splits)

lemma project_publication_fields [simp]:
  "pb_backups (project_publication source opts c f) = project_backups source (s3_scope_name c)"
  "pb_ranges (project_publication source opts c f) = fst (project_wal source (s3_scope_name c))"
  "pb_gaps (project_publication source opts c f) = snd (project_wal source (s3_scope_name c))"
  "pb_paths (project_publication source opts c f) = project_paths source (s3_scope_name c)"
  "pb_snapshot (project_publication source opts c f)
     = project_snapshot source opts c f (project_collections source (s3_scope_name c))"
  by (simp_all add: project_publication_def project_collections_def collections.defs Let_def)

lemma backup_counts_exact:
  "backup_counts bs =
     (\<lparr>cn_healthy = of_nat (length (filter (\<lambda>b. bb_state b = Healthy) bs)),
       cn_warning = of_nat (length (filter (\<lambda>b. bb_state b = Warning) bs)),
       cn_unhealthy = of_nat (length (filter (\<lambda>b. bb_state b = Unhealthy) bs)),
       cn_unknown = of_nat (length (filter (\<lambda>b. bb_state b \<notin> {Healthy, Warning, Unhealthy}) bs))\<rparr>,
      of_nat (length (filter (\<lambda>b. bb_state b = Healthy) bs)))"
proof (induction bs rule: rev_induct)
  case (snoc b bs)
  then show ?case
    by (cases "bb_state b") (simp_all add: backup_counts_def count_backup_state_def)
qed (simp add: backup_counts_def)

lemma source_profile_servers:
  assumes "validate_source_profile source server = None"
  shows "filter (\<lambda>b. bk_server b = server) (in_catalog source) = in_catalog source"
    and "w \<in> set (in_wal source) \<Longrightarrow> sw_server w = server"
    and "r \<in> set (in_recovery source) \<Longrightarrow> sr_server r = server"
    and "\<not> in_totals_known source \<Longrightarrow> in_catalog source = [] \<and> in_wal source = [] \<and> in_recovery source = []"
proof -
  have "b \<in> set (in_catalog source) \<Longrightarrow> bk_server b = server" for b
    using assms by (auto simp: validate_source_profile_def list_ex_iff backup_out_of_profile_def split: if_splits)
  then show "filter (\<lambda>b. bk_server b = server) (in_catalog source) = in_catalog source"
    by (simp add: filter_id_conv)
qed (use assms in \<open>auto simp: validate_source_profile_def list_ex_iff split: if_splits\<close>)

lemma wal_server_Nil [simp]: "sw_ranges (wal_server [] s) = []" "sw_gaps (wal_server [] s) = []"
  by (simp_all add: wal_server_def empty_server_wal_def)

lemma recovery_server_Nil [simp]: "sr_paths (recovery_server [] s) = []"
  by (simp add: recovery_server_def)

section \<open>Properties\<close>

text \<open>
  C8. A publication is faithful to the snapshot it was projected from: its backups, ranges and
  gaps are those of the configured server, none lost and none invented, with the states the
  analysis gave them; its recovery paths are those of the server that have a target timeline, in
  order and with their states. Paths without one, such as those for a backup with invalid WAL
  anchors or for the path limit, are left out. The summary counts the backups exactly.
\<close>

theorem projection_faithful:
  assumes p: "project parse_url sha256 source opts = Inr p"
  defines "server \<equiv> si_name (ri_scope (wi_repository (ws_identity (pb_snapshot p))))"
  shows "(\<forall>b\<in>set (in_catalog source). bk_server b = server)
     \<and> mset (map (\<lambda>b. (bb_server b, bb_id b, bb_state b)) (pb_backups p))
         = mset (map (\<lambda>b. (bk_server b, bk_id b, bk_state b)) (in_catalog source))
     \<and> sorted_wrt (\<lambda>a b. bb_id a < bb_id b) (pb_backups p)
     \<and> map (\<lambda>r. (xr_timeline r, xr_start r, xr_end r)) (pb_ranges p)
         = map (\<lambda>r. (ucast (wr_timeline r), wr_start r, wr_end r)) (sw_ranges (wal_server (in_wal source) server))
     \<and> map (\<lambda>g. (xg_timeline g, xg_start g, xg_end g, xg_status g)) (pb_gaps p)
         = map (\<lambda>g. (ucast (wg_timeline g), wg_start g, wg_end g, wg_status g))
             (sw_gaps (wal_server (in_wal source) server))
     \<and> map (\<lambda>q. (xp_backup_id q, xp_target q, xp_state q)) (pb_paths p)
         = map (\<lambda>q. (rp_backup_id q, ucast (rp_target q), rp_state q))
             (filter (\<lambda>q. rp_target q \<noteq> 0) (sr_paths (recovery_server (in_recovery source) server)))
     \<and> (in_totals_known source \<longrightarrow>
          (\<exists>d. dt_barman (ws_details (pb_snapshot p)) = Some d
             \<and> bc_backup_items d = Some (of_nat (length (in_catalog source)))
             \<and> bc_usable d = Some (of_nat (length (filter (\<lambda>b. bk_state b = Healthy) (in_catalog source))))))"
proof -
  obtain c f where can: "canonical_s3 parse_url (po_s3 opts) = Inr c"
    and prof: "validate_source_profile source (s3_scope_name c) = None"
    and eq: "p = project_publication source opts c f" and valid: "validate_publication p = None"
    by (rule project_InrD [OF p])
  have server: "server = s3_scope_name c"
    by (simp add: server_def eq project_snapshot_def Let_def)
  note src = source_profile_servers [OF prof, folded server]
  have b: "pb_backups p = sort_key (\<lambda>b. (bb_id b, bb_server b)) (map (project_backup server) (in_catalog source))"
    by (simp add: eq project_backups_def server [symmetric] src(1))
  have inc: "sorted_wrt (\<lambda>a b. (bb_id a, bb_server a) < (bb_id b, bb_server b)) (pb_backups p)"
    using validate_publication_NoneD(3) [OF valid] by (simp only: backup_order.increasing_def)
  have srv: "bb_server x = server" if "x \<in> set (pb_backups p)" for x
    using that by (auto simp: b project_backup_def)
  have "sorted_wrt (\<lambda>a b. bb_id a < bb_id b) (pb_backups p)"
    by (rule sorted_wrt_mono_rel [OF _ inc]) (auto simp: srv)
  moreover have "mset (map (\<lambda>b. (bb_server b, bb_id b, bb_state b)) (pb_backups p))
         = mset (map (\<lambda>b. (bk_server b, bk_id b, bk_state b)) (in_catalog source))"
  proof -
    have "map (\<lambda>b. (bb_server b, bb_id b, bb_state b)) (map (project_backup server) (in_catalog source))
        = map (\<lambda>b. (bk_server b, bk_id b, bk_state b)) (in_catalog source)"
      using src(1) by (auto simp: project_backup_def filter_id_conv)
    then have "mset (map (\<lambda>b. (bb_server b, bb_id b, bb_state b)) (map (project_backup server) (in_catalog source)))
        = mset (map (\<lambda>b. (bk_server b, bk_id b, bk_state b)) (in_catalog source))" by (rule arg_cong)
    then show ?thesis unfolding b by (simp only: mset_map mset_sort)
  qed
  moreover have "length (filter (\<lambda>b. bb_state b = Healthy) (pb_backups p))
      = length (filter (\<lambda>b. bk_state b = Healthy) (in_catalog source))"
  proof -
    have "length (filter P (sort_key k ys)) = length (filter P ys)"
      for P and k :: "barman_backup \<Rightarrow> string \<times> string" and ys
      by (metis mset_filter mset_sort size_mset)
    then show ?thesis unfolding b by (simp add: filter_map comp_def project_backup_def)
  qed
  moreover have "length (project_backups source server) = length (in_catalog source)"
    using b by (simp add: eq server)
  moreover have "\<forall>x\<in>set (in_catalog source). bk_server x = server"
    using src(1) by (simp add: filter_id_conv)
  ultimately show ?thesis
    by (simp add: eq project_snapshot_def project_details_def project_collections_def
        project_wal_def project_paths_def backup_counts_exact count_pointer_def Let_def server
        project_range_def project_gap_def project_path_def comp_def)
qed

text \<open>A state of the evidence as the wire shows it.\<close>

definition shown_state :: "state \<Rightarrow> state" where
  "shown_state st = (if state_text st = [] then Unknown else st)"

text \<open>
  C11. A publication never overstates the evidence in its state and its capabilities: it is
  healthy only if the source completed a scan that no later refresh has made stale, with ordered
  times; a stale publication is unknown as a whole and in every capability; and without a
  completed scan there are no items and no counts. The details of the format are not subject to
  staleness: their archive, timeline, coverage and retention states are exactly those of the
  evidence that the source retained.
\<close>

theorem publication_never_overstates:
  assumes p: "project parse_url sha256 source opts = Inr p"
  defines "s \<equiv> pb_snapshot p"
    and "server \<equiv> si_name (ri_scope (wi_repository (ws_identity (pb_snapshot p))))"
  shows "(ws_state s = Healthy \<longrightarrow> in_totals_known source \<and> in_failure source = FaultNone
            \<and> \<not> es_stale (in_evidence source) \<and> ws_evidence_generation s \<noteq> 0
            \<and> ordered_times (ws_started s) (ws_completed s))
     \<and> (ws_stale s \<longrightarrow> ws_state s = Unknown \<and> (\<forall>c\<in>set (ws_capabilities s). kc_state c = Unknown))
     \<and> (in_failure source \<noteq> FaultNone \<longrightarrow> ws_stale s \<and> iv_failure (ws_inventory s) = Some (in_failure source))
     \<and> map kc_id (ws_capabilities s) = capability_ids
     \<and> (\<not> in_totals_known source \<longrightarrow> ws_state s = Unknown \<and> pb_backups p = [] \<and> pb_ranges p = []
          \<and> pb_gaps p = [] \<and> pb_paths p = []
          \<and> (\<exists>d. dt_barman (ws_details s) = Some d \<and> \<not> has_generation_counts d))
     \<and> (\<exists>d. dt_barman (ws_details s) = Some d
          \<and> sn_state (bc_wal d) = shown_state (sw_state (wal_server (in_wal source) server))
          \<and> sn_state (bc_timeline d) = shown_state (sr_timeline_state (recovery_server (in_recovery source) server))
          \<and> sn_state (bc_coverage d) = shown_state (sr_coverage_state (recovery_server (in_recovery source) server))
          \<and> rt_state (bc_retention d) = rs_state (sr_retention (recovery_server (in_recovery source) server)))"
proof -
  obtain c f where prof: "validate_source_profile source (s3_scope_name c) = None"
    and eq: "p = project_publication source opts c f" and valid: "validate_publication p = None"
    by (rule project_InrD [OF p])
  have "validate_wire_snapshot s = None" using validate_publication_NoneD(1) [OF valid] by (simp add: s_def)
  note v = validate_wire_snapshot_NoneD [OF this]
  have f: "ws_state s = es_state (in_evidence source)"
    "ws_stale s \<longleftrightarrow> es_stale (in_evidence source) \<or> in_failure source \<noteq> FaultNone"
    "ws_evidence_generation s = (if in_totals_known source then es_generation (in_evidence source) else 0)"
    "iv_failure (ws_inventory s) = (if in_failure source \<noteq> FaultNone then Some (in_failure source) else None)"
    by (simp_all add: s_def eq project_snapshot_def project_inventory_def Let_def)
  have gen: "ws_evidence_generation s = 0 \<longrightarrow> ws_state s = Unknown"
    "ws_evidence_generation s \<noteq> 0 \<longrightarrow> ordered_times (ws_started s) (ws_completed s)"
    using v(6) by (auto simp: generation_error_def split: if_splits)
  have "ws_state s = Healthy \<longrightarrow> in_totals_known source \<and> in_failure source = FaultNone
            \<and> \<not> es_stale (in_evidence source) \<and> ws_evidence_generation s \<noteq> 0
            \<and> ordered_times (ws_started s) (ws_completed s)"
    using gen v(5) f(2,3) by (cases "ws_evidence_generation s = 0"; cases "in_totals_known source") auto
  moreover have "ws_stale s \<longrightarrow> ws_state s = Unknown \<and> (\<forall>c\<in>set (ws_capabilities s). kc_state c = Unknown)"
    using v(5) check_capabilities_None(3) [OF v(7,8)] by blast
  moreover have "in_failure source \<noteq> FaultNone \<longrightarrow>
      ws_stale s \<and> iv_failure (ws_inventory s) = Some (in_failure source)"
    using f(2,4) by simp
  moreover have "map kc_id (ws_capabilities s) = capability_ids"
    by (rule check_capabilities_None(1) [OF v(7,8)])
  moreover have "\<not> in_totals_known source \<longrightarrow> ws_state s = Unknown \<and> pb_backups p = [] \<and> pb_ranges p = []
          \<and> pb_gaps p = [] \<and> pb_paths p = []
          \<and> (\<exists>d. dt_barman (ws_details s) = Some d \<and> \<not> has_generation_counts d)"
  proof (intro impI conjI)
    assume unknown: "\<not> in_totals_known source"
    show "ws_state s = Unknown" using gen(1) f(3) unknown by simp
    show "pb_backups p = []" "pb_ranges p = []" "pb_gaps p = []" "pb_paths p = []"
      using source_profile_servers(4) [OF prof unknown]
      by (simp_all add: eq project_backups_def project_wal_def project_paths_def)
    show "\<exists>d. dt_barman (ws_details s) = Some d \<and> \<not> has_generation_counts d"
      using unknown
      by (simp add: s_def eq project_snapshot_def project_details_def Let_def has_generation_counts_def)
  qed
  moreover have "server = s3_scope_name c"
    by (simp add: server_def eq project_snapshot_def Let_def)
  then have "\<exists>d. dt_barman (ws_details s) = Some d
          \<and> sn_state (bc_wal d) = shown_state (sw_state (wal_server (in_wal source) server))
          \<and> sn_state (bc_timeline d) = shown_state (sr_timeline_state (recovery_server (in_recovery source) server))
          \<and> sn_state (bc_coverage d) = shown_state (sr_coverage_state (recovery_server (in_recovery source) server))
          \<and> rt_state (bc_retention d) = rs_state (sr_retention (recovery_server (in_recovery source) server))"
    by (simp add: s_def eq project_snapshot_def project_details_def project_retention_def
        to_state_reason_def shown_state_def Let_def)
  ultimately show ?thesis by (intro conjI)
qed

definition eg_time :: gotime where "eg_time = \<lparr>t_ns = 1000, t_loc = UTC\<rparr>"

definition eg_capability :: "capability_id \<Rightarrow> capability" where
  "eg_capability i = \<lparr>cap_id = i, cap_support = Supported, cap_state = Healthy, cap_reason = ''observed''\<rparr>"

definition eg_backup :: "string \<Rightarrow> backup" where
  "eg_backup i = empty_backup\<lparr>bk_server := ''pg'', bk_id := i, bk_status := ''DONE'', bk_state := Healthy,
     bk_reason := ''complete'', bk_timeline := 1\<rparr>"

definition eg_source :: snapshot where
  "eg_source = zero_snapshot\<lparr>
     in_evidence := \<lparr>es_format = ''barman-cloud'', es_compatibility = Healthy,
        es_scope = \<lparr>scope_kind = ''server'', scope_name = []\<rparr>, es_generation = 3, es_started = eg_time,
        es_completed = eg_time, es_completeness = Complete, es_stale = False, es_state = Healthy,
        es_reason = ''all evidence is healthy'', es_capabilities = map eg_capability capability_ids\<rparr>,
     in_generation := 3, in_last_refresh := eg_time, in_last_attempt := eg_time, in_pages := 1,
     in_objects_examined := 2, in_totals_known := True, in_object_count := 2, in_stored_bytes := 20,
     in_scopes := [\<lparr>sp_name = ''pg'', sp_recognized = True, sp_object_count = 2, sp_stored_bytes = 20\<rparr>],
     in_catalog := [eg_backup ''b'', eg_backup ''a'']\<rparr>"

definition eg_projection :: projection_options where
  "eg_projection = \<lparr>po_version = ''1.0'', po_namespace = ''db'', po_uid = ''u-1'', po_name = None,
     po_s3 = ex_s3 ''a''\<rparr>"

definition eg_hash :: "string \<Rightarrow> string" where
  "eg_hash s = replicate 32 (CHR ''h'')"

lemma eg_source_valid: "validate_snapshot eg_source = None"
  by code_simp


lemma eg_canonical: "canonical_s3 parse_url (po_s3 eg_projection) = Inr (ex_s3 ''a'')"
  by (simp add: eg_projection_def ex_canonical)

definition eg_print :: string where
  "eg_print = ''sha256:'' @ hex_bytes (replicate 32 (CHR ''h''))"

lemma eg_fingerprint: "fingerprint_s3 parse_url eg_hash (ex_s3 ''a'') = Inr eg_print"
  by (simp add: fingerprint_s3_def ex_canonical eg_hash_def eg_print_def)

lemma eg_identity_valid:
  "validate_identity
     \<lparr>wi_cluster = \<lparr>ci_namespace = ''db'', ci_uid = ''u-1'', ci_name = None\<rparr>,
      wi_repository = \<lparr>ri_provider = ''s3'', ri_format = ''barman-cloud'', ri_fingerprint = eg_print,
        ri_scope = \<lparr>si_kind = ''barman-server'', si_name = ''pg''\<rparr>\<rparr>\<rparr> = None"
  by code_simp

lemma eg_capabilities_valid:
  "check_capabilities False capability_ids (project_capabilities (map eg_capability capability_ids)) = None"
  by code_simp

lemma eg_details_valid:
  "validate_details (project_details eg_source ''pg'' (project_collections eg_source ''pg'')) = None"
  by code_simp

lemma eg_reason_valid: "\<not> invalid_reason (typed_reason ''snapshot-healthy'' ''all evidence is healthy'')"
  by code_simp

lemma eg_version_valid: "\<not> invalid_wire_text ''1.0'' 64"
  by code_simp

lemma eg_backups_valid:
  "project_backups eg_source ''pg'' = [project_backup ''pg'' (eg_backup ''a''), project_backup ''pg'' (eg_backup ''b'')]"
  "validate_barman_backup (project_backup ''pg'' (eg_backup ''a'')) = None"
  "validate_barman_backup (project_backup ''pg'' (eg_backup ''b'')) = None"
  "backups_disordered (project_backup ''pg'' (eg_backup ''a'')) (project_backup ''pg'' (eg_backup ''b'')) = False"
  by code_simp+

lemma eg_collections:
  "project_wal eg_source ''pg'' = ([], [])" "project_paths eg_source ''pg'' = []"
  by (simp_all add: project_wal_def project_paths_def eg_source_def zero_snapshot_def)

definition eg_snapshot :: wire_snapshot where
  "eg_snapshot = project_snapshot eg_source eg_projection (ex_s3 ''a'') eg_print
     (project_collections eg_source ''pg'')"

lemma eg_snapshot_fields:
  "ws_api_version eg_snapshot = APIVersion" "ws_kind eg_snapshot = SnapshotKind"
  "ws_producer eg_snapshot = \<lparr>pd_name = ProducerName, pd_version = ''1.0''\<rparr>"
  "ws_identity eg_snapshot =
     \<lparr>wi_cluster = \<lparr>ci_namespace = ''db'', ci_uid = ''u-1'', ci_name = None\<rparr>,
      wi_repository = \<lparr>ri_provider = ''s3'', ri_format = ''barman-cloud'', ri_fingerprint = eg_print,
        ri_scope = \<lparr>si_kind = ''barman-server'', si_name = ''pg''\<rparr>\<rparr>\<rparr>"
  "ws_details eg_snapshot = project_details eg_source ''pg'' (project_collections eg_source ''pg'')"
  "ws_inventory eg_snapshot = project_inventory eg_source"
  by (simp_all add: eg_snapshot_def project_snapshot_def Let_def eg_projection_def ex_s3_def)

lemma eg_snapshot_evidence:
  "ws_state eg_snapshot = Healthy" "ws_completeness eg_snapshot = Complete" "\<not> ws_stale eg_snapshot"
  "ws_revision eg_snapshot = 3" "ws_evidence_generation eg_snapshot = 3"
  "ws_started eg_snapshot = Some eg_time" "ws_completed eg_snapshot = Some eg_time"
  "ws_last_attempt eg_snapshot = Some eg_time"
  "ws_reason eg_snapshot = typed_reason ''snapshot-healthy'' ''all evidence is healthy''"
  "ws_capabilities eg_snapshot = project_capabilities (map eg_capability capability_ids)"
  unfolding eg_snapshot_def project_snapshot_def Let_def wire_snapshot.simps
  by (simp_all add: eg_source_def eg_time_def time_pointer_def time_defs zero_snapshot_def)

lemma eg_inventory_valid:
  "validate_inventory_summary (project_inventory eg_source) = None"
  "iv_failure (project_inventory eg_source) = None"
  by (simp_all add: validate_inventory_summary_def project_inventory_def eg_source_def zero_snapshot_def)

lemma eg_snapshot_valid: "validate_wire_snapshot eg_snapshot = None"
proof -
  have "length (project_capabilities (map eg_capability capability_ids)) = length capability_ids"
    by (simp add: project_capabilities_def)
  moreover have "valid_optional_time (Some eg_time)" "ordered_times (Some eg_time) (Some eg_time)"
    by (simp_all add: valid_optional_time_def ordered_times_def eg_time_def time_defs)
  ultimately show ?thesis
    by (simp add: validate_wire_snapshot_def eg_snapshot_fields eg_snapshot_evidence generation_error_def
        eg_identity_valid eg_capabilities_valid eg_details_valid eg_reason_valid eg_version_valid
        eg_inventory_valid valid_completeness_def)
qed

lemma eg_publication_valid:
  "validate_publication (project_publication eg_source eg_projection (ex_s3 ''a'') eg_print) = None"
proof -
  have n: "s3_scope_name (ex_s3 ''a'') = ''pg''" by (simp add: ex_s3_def)
  have "counts_agree (project_publication eg_source eg_projection (ex_s3 ''a'') eg_print) d"
    if "dt_barman (project_details eg_source ''pg'' (project_collections eg_source ''pg'')) = Some d" for d
    using that by (auto simp: counts_agree_def n eg_backups_valid eg_collections project_details_def Let_def
        project_collections_def count_pointer_def equals_count_def eg_source_def)
  then show ?thesis
    by (simp add: validate_publication_def check_collection_def n eg_backups_valid eg_collections
        eg_snapshot_valid eg_snapshot_fields flip: eg_snapshot_def)
qed

lemma eg_project: "\<exists>p. project parse_url eg_hash eg_source eg_projection = Inr p"
proof -
  have "s3_format (ex_s3 ''a'') = es_format (in_evidence eg_source)"
    "scope_kind (es_scope (in_evidence eg_source)) = ''server''"
    "map sp_name (in_scopes eg_source) = [s3_scope_name (ex_s3 ''a'')]"
    "validate_source_profile eg_source (s3_scope_name (ex_s3 ''a'')) = None"
    by (simp_all add: ex_s3_def eg_source_def validate_source_profile_def backup_out_of_profile_def
        eg_backup_def empty_backup_def zero_snapshot_def)
  then show ?thesis
    by (simp add: project_def eg_source_valid eg_canonical eg_fingerprint eg_publication_valid Let_def)
qed

lemma eg_source_fields:
  "in_catalog eg_source = [eg_backup ''b'', eg_backup ''a'']" "bk_state (eg_backup i) = Healthy"
  "bk_id (eg_backup i) = i" "bk_server (eg_backup i) = ''pg''" "es_state (in_evidence eg_source) = Healthy" "in_totals_known eg_source"
  by (simp_all add: eg_source_def eg_backup_def)

lemma projection_faithful_witness:
  "\<exists>p. project (\<lambda>u. None) eg_hash eg_source eg_projection = Inr p
     \<and> mset (map (\<lambda>b. (bb_server b, bb_id b, bb_state b)) (pb_backups p)) = {#(''pg'', ''b'', Healthy), (''pg'', ''a'', Healthy)#}"
proof -
  obtain p where p: "project (\<lambda>u. None) eg_hash eg_source eg_projection = Inr p"
    using eg_project by blast
  from projection_faithful [OF p] p show ?thesis by (auto simp: eg_source_fields)
qed

lemma publication_never_overstates_witness:
  "\<exists>p. project (\<lambda>u. None) eg_hash eg_source eg_projection = Inr p \<and> ws_state (pb_snapshot p) = Healthy
     \<and> ws_evidence_generation (pb_snapshot p) \<noteq> 0"
proof -
  obtain p where p: "project (\<lambda>u. None) eg_hash eg_source eg_projection = Inr p"
    using eg_project by blast
  have "ws_state (pb_snapshot p) = Healthy"
    by (rule project_InrD [OF p]) (simp add: project_snapshot_def Let_def eg_source_fields)
  with publication_never_overstates [OF p] p show ?thesis by blast
qed

end
