(* ===== verification/Cursor.thy ===== *)
theory Cursor
  imports Fingerprint
begin

text \<open>
  The continuation tokens of the providers (\<open>internal/provider/cursor/cursor.go\<close>) and the
  unpadded URL alphabet of base64 they are printed in.

  HMAC-SHA256 is a parameter, a function of a key and a message; that its sums have 32 bytes is
  a named hypothesis of the properties. \<open>base64.RawURLEncoding\<close> is modelled: the decoder
  skips carriage returns and newlines and ignores the unused bits of the last character.
\<close>

section \<open>Base64\<close>

definition b64_char :: "nat \<Rightarrow> char" where
  "b64_char n = (if n < 26 then char_of (65 + n) else if n < 52 then char_of (71 + n)
     else if n < 62 then char_of (n - 4) else if n = 62 then CHR ''-'' else CHR ''_'')"

definition b64_value :: "char \<Rightarrow> nat option" where
  "b64_value c =
     (if 65 \<le> byte c \<and> byte c \<le> 90 then Some (byte c - 65)
      else if 97 \<le> byte c \<and> byte c \<le> 122 then Some (byte c - 71)
      else if 48 \<le> byte c \<and> byte c \<le> 57 then Some (byte c + 4)
      else if byte c = 45 then Some 62 else if byte c = 95 then Some 63 else None)"

text \<open>The bytes of a string as sextets and back; a trailing group has two or three sextets.\<close>

fun to_sextets :: "nat list \<Rightarrow> nat list" where
  "to_sextets [] = []"
| "to_sextets [a] = [a div 4, a mod 4 * 16]"
| "to_sextets [a, b] = [a div 4, a mod 4 * 16 + b div 16, b mod 16 * 4]"
| "to_sextets (a # b # c # rest) =
     a div 4 # (a mod 4 * 16 + b div 16) # (b mod 16 * 4 + c div 64) # c mod 64 # to_sextets rest"

fun from_sextets :: "nat list \<Rightarrow> nat list option" where
  "from_sextets [] = Some []"
| "from_sextets [x] = None"
| "from_sextets [x, y] = Some [x * 4 + y div 16]"
| "from_sextets [x, y, z] = Some [x * 4 + y div 16, y mod 16 * 16 + z div 4]"
| "from_sextets (x # y # z # w # rest) =
     map_option (\<lambda>bs. (x * 4 + y div 16) # (y mod 16 * 16 + z div 4) # (z mod 4 * 64 + w) # bs)
       (from_sextets rest)"

definition b64_encode :: "string \<Rightarrow> string" where
  "b64_encode s = map b64_char (to_sextets (map of_char s))"

definition b64_decode :: "string \<Rightarrow> string option" where
  "b64_decode s =
     (case those (map b64_value (filter (\<lambda>c. c \<noteq> CHR 0x0A \<and> c \<noteq> CHR 0x0D) s)) of None \<Rightarrow> None
      | Some xs \<Rightarrow> map_option (map char_of) (from_sextets xs))"

section \<open>The codec\<close>

definition maxEncodedBytes :: nat where "maxEncodedBytes = 16 * 1024"

definition hash_size :: nat where "hash_size = 32"

definition cursor_body :: "string \<Rightarrow> string \<Rightarrow> string" where
  "cursor_body prefix token = be32 (length prefix) @ prefix @ token"

definition cursor_encode ::
  "(string \<Rightarrow> string \<Rightarrow> string) \<Rightarrow> string \<Rightarrow> string \<Rightarrow> string \<Rightarrow> string result" where
  "cursor_encode hmac key prefix token =
     (if length key \<noteq> hash_size \<or> maxEncodedBytes < length prefix \<or> maxEncodedBytes < length token
      then Inl ''invalid cursor''
      else let body = cursor_body prefix token;
               encoded = b64_encode (body @ hmac key body)
           in if maxEncodedBytes < length encoded then Inl ''invalid cursor'' else Inr encoded)"

definition from_be32 :: "string \<Rightarrow> nat" where
  "from_be32 s = foldl (\<lambda>a c. 256 * a + byte c) 0 s"

definition cursor_decode ::
  "(string \<Rightarrow> string \<Rightarrow> string) \<Rightarrow> string \<Rightarrow> string \<Rightarrow> string \<Rightarrow> string result" where
  "cursor_decode hmac key prefix value =
     (if value = [] then Inr []
      else if maxEncodedBytes < length value then Inl ''invalid cursor''
      else case b64_decode value of None \<Rightarrow> Inl ''invalid cursor''
      | Some raw \<Rightarrow>
          if length raw < 36 then Inl ''invalid cursor''
          else if b64_encode raw \<noteq> value then Inl ''invalid cursor''
          else let body = take (length raw - hash_size) raw; sig = drop (length raw - hash_size) raw in
            if sig \<noteq> hmac key body then Inl ''invalid cursor''
            else let n = from_be32 (take 4 body) in
              if length body - 4 < n \<or> take n (drop 4 body) \<noteq> prefix then Inl ''invalid cursor''
              else Inr (drop (4 + n) body))"

section \<open>Base64 round trip\<close>

lemma b64_value_char: "n < 64 \<Longrightarrow> b64_value (b64_char n) = Some n"
  by (auto simp: b64_char_def b64_value_def)

lemma b64_char_skipped: "n < 64 \<Longrightarrow> b64_char n \<noteq> CHR 0x0A \<and> b64_char n \<noteq> CHR 0x0D"
  using b64_value_char [of n] by (auto simp: b64_value_def)

lemma to_sextets_small:
  "\<forall>x\<in>set bs. x < 256 \<Longrightarrow> \<forall>x\<in>set (to_sextets bs). x < 64"
  by (induction bs rule: to_sextets.induct) (auto simp: div_less_iff_less_mult)

lemma digit_pair:
  fixes q r m :: nat
  assumes "q < m"
  shows "(r * m + q) div m = r" "(r * m + q) mod m = q"
  using assms by simp_all

lemma sextet_arith:
  fixes a b c :: nat
  assumes "b < 256" "c < 256"
  shows "a div 4 * 4 + (a mod 4 * 16 + b div 16) div 16 = a"
    and "(a mod 4 * 16 + b div 16) mod 16 * 16 + (b mod 16 * 4 + c div 64) div 4 = b"
    and "(b mod 16 * 4 + c div 64) mod 4 * 64 + c mod 64 = c"
    and "(a mod 4 * 16 + b div 16) mod 16 * 16 + b mod 16 * 4 div 4 = b"
proof -
  have q: "b div 16 < 16" "c div 64 < 4" using assms by (simp_all add: div_less_iff_less_mult)
  show "a div 4 * 4 + (a mod 4 * 16 + b div 16) div 16 = a"
    "(a mod 4 * 16 + b div 16) mod 16 * 16 + (b mod 16 * 4 + c div 64) div 4 = b"
    "(b mod 16 * 4 + c div 64) mod 4 * 64 + c mod 64 = c"
    "(a mod 4 * 16 + b div 16) mod 16 * 16 + b mod 16 * 4 div 4 = b"
    unfolding digit_pair [OF q(1)] digit_pair [OF q(2)] by simp_all
qed

lemma from_to_sextets: "\<forall>x\<in>set bs. x < 256 \<Longrightarrow> from_sextets (to_sextets bs) = Some bs"
proof (induction bs rule: to_sextets.induct)
  case (4 a b c rest)
  then show ?case using sextet_arith(1,2) [of b c a] sextet_arith(3) [of b c] by simp
next
  case (3 a b)
  then show ?case using sextet_arith(1,4) [of b 0 a] by simp
qed auto

lemma those_map_Some: "\<forall>x\<in>set xs. f (g x) = Some x \<Longrightarrow> those (map f (map g xs)) = Some xs"
  by (induction xs) auto

lemma b64_decode_encode: "b64_decode (b64_encode s) = Some s"
proof -
  have s: "\<forall>x\<in>set (map of_char s). x < (256 :: nat)" using byte_less by auto
  note small = to_sextets_small [OF s]
  have "filter (\<lambda>c. c \<noteq> CHR 0x0A \<and> c \<noteq> CHR 0x0D) (b64_encode s) = b64_encode s"
    unfolding filter_id_conv b64_encode_def using small b64_char_skipped by auto
  moreover have "those (map b64_value (b64_encode s)) = Some (to_sextets (map of_char s))"
    unfolding b64_encode_def using small b64_value_char by (intro those_map_Some) blast
  ultimately show ?thesis
    by (simp add: b64_decode_def from_to_sextets [OF s] comp_def)
qed


lemma length_to_sextets: "length bs \<le> length (to_sextets bs)"
  by (induction bs rule: to_sextets.induct) auto

lemma length_b64_encode: "length s \<le> length (b64_encode s)"
  using length_to_sextets [of "map of_char s"] by (simp add: b64_encode_def)

lemma b64_encode_inj: "b64_encode a = b64_encode b \<longleftrightarrow> a = b"
  by (metis b64_decode_encode option.inject)

lemma b64_encode_chars: "c \<in> set (b64_encode s) \<Longrightarrow> b64_value c \<noteq> None"
proof -
  assume "c \<in> set (b64_encode s)"
  moreover have "\<forall>x\<in>set (map of_char s). x < (256 :: nat)" using byte_less by auto
  ultimately show ?thesis
    using to_sextets_small b64_value_char by (fastforce simp: b64_encode_def)
qed

lemma length_to_sextets_exact: "length (to_sextets bs) = (4 * length bs + 2) div 3"
  by (induction bs rule: to_sextets.induct) auto

section \<open>Lengths\<close>

lemma from_be32_4: "from_be32 [a, b, c, d] = ((byte a * 256 + byte b) * 256 + byte c) * 256 + byte d"
  by (simp add: from_be32_def algebra_simps)

lemma list_length_4: "length s = 4 \<Longrightarrow> \<exists>a b c d. s = [a, b, c, d]"
  by (auto simp: numeral_eq_Suc length_Suc_conv)

lemma be32_from: 
  assumes "length s = 4"
  shows "be32 (from_be32 s) = s"
proof -
  obtain a b c d where s: "s = [a, b, c, d]" using list_length_4 [OF assms] by blast
  have lt: "byte a < 256" "byte b < 256" "byte c < 256" "byte d < 256" by (simp_all add: byte_less)
  let ?n = "((byte a * 256 + byte b) * 256 + byte c) * 256 + byte d"
  have d3: "?n div 256 = (byte a * 256 + byte b) * 256 + byte c" by (rule digit_pair(1) [OF lt(4)])
  have d2: "?n div 256 div 256 = byte a * 256 + byte b" unfolding d3 by (rule digit_pair(1) [OF lt(3)])
  have d1: "?n div 256 div 256 div 256 = byte a" unfolding d2 by (rule digit_pair(1) [OF lt(2)])
  have p: "?n div 256 ^ 2 = ?n div 256 div 256" "?n div 256 ^ 3 = ?n div 256 div 256 div 256"
    by (simp_all add: div_mult2_eq [symmetric])
  have m: "?n div 256 ^ 0 mod 256 = byte d" "?n div 256 ^ 1 mod 256 = byte c"
    unfolding power_0 power_one_right div_by_1 d3
    by (rule digit_pair(2) [OF lt(4)], rule digit_pair(2) [OF lt(3)])
  have m': "?n div 256 ^ 2 mod 256 = byte b" "?n div 256 ^ 3 mod 256 = byte a"
    unfolding p d1 unfolding d2 by (rule digit_pair(2) [OF lt(2)], rule mod_less [OF lt(1)])
  have "be32 ?n = [char_of (byte a), char_of (byte b), char_of (byte c), char_of (byte d)]"
    unfolding be32_def list.map m m' ..
  then show ?thesis unfolding s from_be32_4 by simp
qed

lemma from_be32_be32: "n < 2 ^ 32 \<Longrightarrow> from_be32 (be32 n) = n"
proof -
  assume n: "n < 2 ^ 32"
  have "be32 (from_be32 (be32 n)) = be32 n" by (rule be32_from) simp
  moreover have "from_be32 (be32 n) < 2 ^ 32"
  proof -
    obtain a b c d where "be32 n = [a, b, c, d]" using list_length_4 [of "be32 n"] by auto
    moreover have "((byte a * 256 + byte b) * 256 + byte c) * 256 + byte d < 4294967296"
    proof -
      have step: "r * 256 + byte x < k * 256" if "r < k" for r k x
        using that byte_less [of x] by linarith
      show ?thesis
        using step [OF step [OF step [OF byte_less [of a], of b], of c], of d] by simp
    qed
    ultimately show ?thesis by (simp only: from_be32_4) simp
  qed
  ultimately show ?thesis using be32_inj n by blast
qed

section \<open>The codec accepts exactly its own tokens\<close>

lemma length_b64_encode_le: "length (b64_encode s) \<le> 2 * length s"
proof -
  have "length (to_sextets bs) \<le> 2 * length bs" for bs
    by (induction bs rule: to_sextets.induct) auto
  from this [of "map of_char s"] show ?thesis by (simp add: b64_encode_def)
qed

lemma cursor_body_parts:
  "take 4 (cursor_body prefix token) = be32 (length prefix)"
  "drop 4 (cursor_body prefix token) = prefix @ token"
  "length (cursor_body prefix token) = 4 + length prefix + length token"
  by (simp_all add: cursor_body_def)

lemma drop_add_4: "drop (4 + n) xs = drop n (drop 4 xs)"
  by (simp add: add.commute)

lemma cursor_decode_encode:
  assumes enc: "cursor_encode hmac key prefix token = Inr value"
    and mac: "\<And>k b. length (hmac k b) = hash_size"
  shows "value \<noteq> []" and "cursor_decode hmac key prefix value = Inr token"
proof -
  let ?body = "cursor_body prefix token"
  let ?raw = "?body @ hmac key ?body"
  have v: "value = b64_encode ?raw" and small: "length prefix \<le> maxEncodedBytes"
    "length value \<le> maxEncodedBytes"
    using enc by (auto simp: cursor_encode_def Let_def split: if_splits)
  have len: "length ?raw = 36 + length prefix + length token"
    using mac by (simp add: cursor_body_parts hash_size_def)
  show ne: "value \<noteq> []"
    using length_b64_encode [of ?raw] len v by auto
  have cut: "take (length ?raw - hash_size) ?raw = ?body" "drop (length ?raw - hash_size) ?raw = hmac key ?body"
    using mac by simp_all
  have n: "from_be32 (take 4 ?body) = length prefix"
    using small by (simp add: cursor_body_parts from_be32_be32 maxEncodedBytes_def)
  show "cursor_decode hmac key prefix value = Inr token"
    using ne small(2) len
    unfolding cursor_decode_def v b64_decode_encode option.case cut Let_def n drop_add_4
    by (simp add: cursor_body_parts)
qed

lemma cursor_encode_decode:
  assumes dec: "cursor_decode hmac key prefix value = Inr token" and ne: "value \<noteq> []"
    and key: "length key = hash_size"
  shows "cursor_encode hmac key prefix token = Inr value"
proof -
  obtain raw where raw: "length value \<le> maxEncodedBytes" "36 \<le> length raw" "b64_encode raw = value"
    using dec ne by (auto simp: cursor_decode_def Let_def not_less split: option.splits if_splits)
  define body where "body = take (length raw - hash_size) raw"
  define n where "n = from_be32 (take 4 body)"
  have "b64_decode value = Some raw" using raw(3) b64_decode_encode by blast
  then have sig: "drop (length raw - hash_size) raw = hmac key body" and n: "n \<le> length body - 4"
    and pre: "take n (drop 4 body) = prefix" and tok: "drop (4 + n) body = token"
    using dec ne raw by (simp_all add: cursor_decode_def Let_def body_def n_def not_less split: if_splits)
  have len: "length body = length raw - hash_size" "4 \<le> length body"
    using raw(2) by (simp_all add: body_def hash_size_def)
  have np: "n = length prefix" using pre n by auto
  have "body = take 4 body @ take n (drop 4 body) @ drop n (drop 4 body)"
    by (simp only: append_take_drop_id)
  also have "\<dots> = cursor_body prefix token"
    using be32_from [of "take 4 body"] len(2) pre tok np
    by (simp add: cursor_body_def n_def add.commute)
  finally have body: "body = cursor_body prefix token" .
  have whole: "raw = body @ hmac key body"
    using append_take_drop_id [of "length raw - hash_size" raw] by (simp only: sig body_def [symmetric])
  have "length raw \<le> maxEncodedBytes" using length_b64_encode [of raw] raw(1,3) by simp
  then have "length prefix \<le> maxEncodedBytes" "length token \<le> maxEncodedBytes"
    using len(1) body by (simp_all add: cursor_body_parts)
  then show ?thesis
    using raw(1,3) key whole body by (simp add: cursor_encode_def Let_def)
qed

text \<open>
  C15. A continuation token is accepted for a prefix exactly if it is the token the codec itself
  would print for that prefix: what was encoded is decoded again, and no other spelling, no
  other prefix and no other signature is accepted.
\<close>

theorem cursor_exact:
  assumes "\<And>k b. length (hmac k b) = hash_size" and "length key = hash_size"
  shows "cursor_decode hmac key prefix v = Inr token \<longleftrightarrow>
     v = [] \<and> token = [] \<or> cursor_encode hmac key prefix token = Inr v"
proof (cases "v = []")
  case True
  then have "cursor_encode hmac key prefix token \<noteq> Inr v"
    using cursor_decode_encode(1) assms(1) by blast
  with True show ?thesis by (auto simp: cursor_decode_def)
next
  case False
  then show ?thesis
    using cursor_decode_encode(2) [of hmac key prefix token v] assms
      cursor_encode_decode [of hmac key prefix v token] by blast
qed

definition ex_mac :: "string \<Rightarrow> string \<Rightarrow> string" where
  "ex_mac key body = replicate 32 (CHR ''m'')"

definition ex_key :: string where "ex_key = replicate 32 (CHR ''k'')"

lemma cursor_exact_witness:
  "\<exists>v. cursor_encode ex_mac ex_key ''p/'' ''t'' = Inr v \<and> cursor_decode ex_mac ex_key ''p/'' v = Inr ''t''
     \<and> cursor_decode ex_mac ex_key ''q/'' v \<noteq> Inr ''t''"
proof -
  have mac: "length (ex_mac k b) = hash_size" and key: "length ex_key = hash_size" for k b
    by (simp_all add: ex_mac_def ex_key_def hash_size_def)
  have e: "cursor_encode ex_mac ex_key q ''t'' =
      Inr (b64_encode (cursor_body q ''t'' @ ex_mac ex_key (cursor_body q ''t'')))" if "length q = 2" for q
    using that key length_b64_encode_le [of "cursor_body q ''t'' @ ex_mac ex_key (cursor_body q ''t'')"]
    by (simp add: cursor_encode_def Let_def maxEncodedBytes_def cursor_body_parts mac hash_size_def)
  have "cursor_body ''p/'' ''t'' \<noteq> cursor_body ''q/'' ''t''" by (simp add: cursor_body_def)
  then have other: "cursor_encode ex_mac ex_key ''q/'' ''t'' \<noteq>
      Inr (b64_encode (cursor_body ''p/'' ''t'' @ ex_mac ex_key (cursor_body ''p/'' ''t'')))"
    using e [of "''q/''"] by (simp add: b64_encode_inj ex_mac_def)
  obtain v where v: "cursor_encode ex_mac ex_key ''p/'' ''t'' = Inr v"
    "cursor_encode ex_mac ex_key ''q/'' ''t'' \<noteq> Inr v"
    using e [of "''p/''"] other by simp
  moreover have "v \<noteq> []" using v(1) mac by (rule cursor_decode_encode(1))
  ultimately show ?thesis
    using cursor_exact [of ex_mac ex_key "''p/''" v "''t''", OF mac key]
      cursor_exact [of ex_mac ex_key "''q/''" v "''t''", OF mac key]
    by auto
qed

end
