(* ===== verification/Engine.thy ===== *)
theory Engine
  imports Projection Cursor
begin

text \<open>
  The evidence engine (\<open>internal/evidenceapi/engine.go\<close>): it publishes one projected snapshot
  at a time and serves its four collections in pages that follow signed cursors.

  The current publication is a value, so the deep clones of the source are identities here and
  \<open>reflect.DeepEqual\<close> is equality. The URL parser, SHA-256, HMAC-SHA256 and the JSON encoding
  of a cursor payload are parameters; the properties name what they rely on: that decoding
  returns the encoded payload, that the encoding is short and that a sum has 32 bytes.
\<close>

section \<open>Data\<close>

definition DefaultPageSize :: int where "DefaultPageSize = 100"
definition MaximumPageSize :: int where "MaximumPageSize = 200"
definition MaximumCursorBytes :: nat where "MaximumCursorBytes = 4096"
definition cursorKeyBytes :: nat where "cursorKeyBytes = 32"
definition cursorVersion :: u64 where "cursorVersion = 1"

datatype engine_error = ErrInvalidRequest | ErrPublicationChanged | ErrInvalidPublication string

datatype route = BackupRoute | WALRangeRoute | WALGapRoute | RecoveryPathRoute | OtherRoute string

record cursor_payload =
  cp_version :: u64
  cp_route :: route
  cp_revision :: u64
  cp_generation :: u64
  cp_position :: u64
  cp_limit :: u64

record evidence_request =
  er_revision :: u64
  er_limit :: int
  er_cursor :: string

record engine_env =
  ev_parse_url :: "string \<Rightarrow> url option"
  ev_sha256 :: "string \<Rightarrow> string"
  ev_hmac :: "string \<Rightarrow> string \<Rightarrow> string"
  ev_marshal :: "cursor_payload \<Rightarrow> string option"
  ev_unmarshal :: "string \<Rightarrow> cursor_payload option"

record engine =
  en_projection :: projection_options
  en_key :: string
  en_current :: "publication option"

section \<open>Publishing\<close>

definition publish :: "engine_env \<Rightarrow> snapshot \<Rightarrow> engine \<Rightarrow> engine_error option \<times> engine" where
  "publish env source e =
     (case project (ev_parse_url env) (ev_sha256 env) source (en_projection e) of
        Inl msg \<Rightarrow> (Some (ErrInvalidPublication msg), e)
      | Inr projected \<Rightarrow>
          (case en_current e of None \<Rightarrow> (None, e\<lparr>en_current := Some projected\<rparr>)
           | Some current \<Rightarrow>
               let old = ws_revision (pb_snapshot current); new = ws_revision (pb_snapshot projected) in
               if new < old then (Some (ErrInvalidPublication []), e)
               else if new = old
               then (if current = projected then (None, e) else (Some (ErrInvalidPublication []), e))
               else (None, e\<lparr>en_current := Some projected\<rparr>)))"

text \<open>\<open>NewEngine\<close>; the key is what \<open>io.ReadFull\<close> reads, if it reads that many bytes.\<close>

definition new_engine ::
  "engine_env \<Rightarrow> projection_options \<Rightarrow> snapshot \<Rightarrow> string option \<Rightarrow> engine_error option + engine" where
  "new_engine env opts initial entropy =
     (case entropy of None \<Rightarrow> Inl None
      | Some key \<Rightarrow>
          (case publish env initial \<lparr>en_projection = opts, en_key = key, en_current = None\<rparr> of
             (Some err, e) \<Rightarrow> Inl (Some err)
           | (None, e) \<Rightarrow> Inr e))"

section \<open>Cursors\<close>

definition encode_cursor :: "engine_env \<Rightarrow> string \<Rightarrow> cursor_payload \<Rightarrow> string option" where
  "encode_cursor env key payload =
     map_option (\<lambda>data. b64_encode data @ ''.'' @ b64_encode (ev_hmac env key data))
       (ev_marshal env payload)"

definition decode_cursor :: "engine_env \<Rightarrow> string \<Rightarrow> string \<Rightarrow> cursor_payload option" where
  "decode_cursor env key cursor =
     (case cut_at ''.'' cursor of None \<Rightarrow> None
      | Some (payload_part, signature_part) \<Rightarrow>
          if payload_part = [] \<or> signature_part = [] \<or> CHR ''.'' \<in> set signature_part then None
          else (case b64_decode payload_part of None \<Rightarrow> None
            | Some data \<Rightarrow>
                (case b64_decode signature_part of None \<Rightarrow> None
                 | Some provided \<Rightarrow>
                     if provided \<noteq> ev_hmac env key data then None else ev_unmarshal env data)))"

section \<open>Pages\<close>

fun collection_kind :: "route \<Rightarrow> string" where
  "collection_kind BackupRoute = BarmanBackupPageKind"
| "collection_kind WALRangeRoute = BarmanWALRangePageKind"
| "collection_kind WALGapRoute = BarmanWALGapPageKind"
| "collection_kind RecoveryPathRoute = BarmanRecoveryPageKind"
| "collection_kind (OtherRoute r) = undefined"

fun collection_length :: "publication \<Rightarrow> route \<Rightarrow> nat" where
  "collection_length p BackupRoute = length (pb_backups p)"
| "collection_length p WALRangeRoute = length (pb_ranges p)"
| "collection_length p WALGapRoute = length (pb_gaps p)"
| "collection_length p RecoveryPathRoute = length (pb_paths p)"
| "collection_length p (OtherRoute r) = 0"

definition payload_accepted ::
  "cursor_payload \<Rightarrow> publication \<Rightarrow> evidence_request \<Rightarrow> int \<Rightarrow> route \<Rightarrow> bool" where
  "payload_accepted c p req limit route \<longleftrightarrow>
     cp_version c = cursorVersion \<and> cp_route c = route \<and> cp_revision c = er_revision req
     \<and> cp_generation c = ws_evidence_generation (pb_snapshot p) \<and> cp_limit c = of_int limit
     \<and> cp_position c \<noteq> 0 \<and> cp_position c < of_nat (collection_length p route)"

definition engine_page ::
  "engine_env \<Rightarrow> engine \<Rightarrow> evidence_request \<Rightarrow> route \<Rightarrow> engine_error + (publication \<times> nat \<times> nat)" where
  "engine_page env e req route =
     (if er_revision req = 0 \<or> MaximumCursorBytes < length (er_cursor req) \<or> er_limit req < 0
         \<or> MaximumPageSize < er_limit req
      then Inl ErrInvalidRequest
      else let limit = (if er_limit req = 0 then DefaultPageSize else er_limit req) in
        case en_current e of None \<Rightarrow> Inl (ErrInvalidPublication [])
        | Some p \<Rightarrow>
            if er_revision req \<noteq> ws_revision (pb_snapshot p) then Inl ErrPublicationChanged
            else if ws_evidence_generation (pb_snapshot p) = 0 then Inl ErrInvalidRequest
            else if er_cursor req = [] then Inr (p, 0, nat limit)
            else (case decode_cursor env (en_key e) (er_cursor req) of None \<Rightarrow> Inl ErrInvalidRequest
              | Some payload \<Rightarrow>
                  if payload_accepted payload p req limit route
                  then Inr (p, unat (cp_position payload), nat limit) else Inl ErrInvalidRequest))"

definition make_page_header ::
  "engine_env \<Rightarrow> engine \<Rightarrow> publication \<Rightarrow> route \<Rightarrow> nat \<Rightarrow> nat \<Rightarrow> nat \<Rightarrow> engine_error + page_header" where
  "make_page_header env e p route end' limit len =
     (let header = \<lparr>ph_api_version = APIVersion, ph_kind = collection_kind route,
            ph_revision = ws_revision (pb_snapshot p),
            ph_evidence_generation = ws_evidence_generation (pb_snapshot p),
            ph_total_items = Some (of_nat len), ph_next_cursor = None\<rparr>
      in if end' < len
         then (case encode_cursor env (en_key e)
                  \<lparr>cp_version = cursorVersion, cp_route = route,
                   cp_revision = ws_revision (pb_snapshot p),
                   cp_generation = ws_evidence_generation (pb_snapshot p),
                   cp_position = of_nat end', cp_limit = of_nat limit\<rparr> of
                 None \<Rightarrow> Inl (ErrInvalidPublication ''encode cursor'')
               | Some encoded \<Rightarrow>
                   if MaximumCursorBytes < length encoded then Inl (ErrInvalidPublication [])
                   else Inr (header\<lparr>ph_next_cursor := Some encoded\<rparr>))
         else Inr header)"

text \<open>
  The four methods of the engine differ in the collection, the route and the validator of the
  page type.
\<close>

definition serve_page ::
  "(publication \<Rightarrow> 'a list) \<Rightarrow> ('a wire_page \<Rightarrow> string option) \<Rightarrow> route
     \<Rightarrow> engine_env \<Rightarrow> engine \<Rightarrow> evidence_request \<Rightarrow> engine_error + 'a wire_page" where
  "serve_page items valid route env e req =
     (case engine_page env e req route of Inl err \<Rightarrow> Inl err
      | Inr (p, start, limit) \<Rightarrow>
          let end' = min (start + limit) (length (items p)) in
          case make_page_header env e p route end' limit (length (items p)) of Inl err \<Rightarrow> Inl err
          | Inr header \<Rightarrow>
              let pg = \<lparr>wp_header = header, wp_items = Some (take (end' - start) (drop start (items p)))\<rparr>
              in case valid pg of Some msg \<Rightarrow> Inl (ErrInvalidPublication []) | None \<Rightarrow> Inr pg)"

definition backups_page :: "engine_env \<Rightarrow> engine \<Rightarrow> evidence_request \<Rightarrow> engine_error + barman_backup_page" where
  "backups_page = serve_page pb_backups validate_backup_page BackupRoute"

definition ranges_page :: "engine_env \<Rightarrow> engine \<Rightarrow> evidence_request \<Rightarrow> engine_error + barman_wal_range_page" where
  "ranges_page = serve_page pb_ranges validate_range_page WALRangeRoute"

definition gaps_page :: "engine_env \<Rightarrow> engine \<Rightarrow> evidence_request \<Rightarrow> engine_error + barman_wal_gap_page" where
  "gaps_page = serve_page pb_gaps validate_gap_page WALGapRoute"

definition paths_page ::
  "engine_env \<Rightarrow> engine \<Rightarrow> evidence_request \<Rightarrow> engine_error + barman_recovery_path_page" where
  "paths_page = serve_page pb_paths validate_path_page RecoveryPathRoute"

section \<open>One publication per revision\<close>

text \<open>The engines that a constructed engine becomes by publishing.\<close>

inductive engine_reach :: "engine_env \<Rightarrow> engine \<Rightarrow> bool" for env where
  start: "new_engine env opts initial entropy = Inr e \<Longrightarrow> engine_reach env e"
| step: "engine_reach env e \<Longrightarrow> publish env source e = (err, e') \<Longrightarrow> engine_reach env e'"

inductive publishes :: "engine_env \<Rightarrow> engine \<Rightarrow> engine \<Rightarrow> bool" for env where
  refl: "publishes env e e"
| step: "publishes env e e' \<Longrightarrow> publish env source e' = (err, e'') \<Longrightarrow> publishes env e e''"

definition current_revision :: "engine \<Rightarrow> u64" where
  "current_revision e = (case en_current e of None \<Rightarrow> 0 | Some p \<Rightarrow> ws_revision (pb_snapshot p))"

lemma publish_cases:
  assumes "publish env source e = (err, e')"
  obtains "e' = e"
  | p where "err = None" "project (ev_parse_url env) (ev_sha256 env) source (en_projection e) = Inr p"
      "e' = e\<lparr>en_current := Some p\<rparr>"
      "\<forall>c\<in>set_option (en_current e). ws_revision (pb_snapshot c) < ws_revision (pb_snapshot p)"
proof (cases "project (ev_parse_url env) (ev_sha256 env) source (en_projection e)")
  case (Inl msg)
  then show ?thesis using assms that(1) by (simp add: publish_def)
next
  case (Inr p)
  show ?thesis
  proof (cases "en_current e")
    case None
    then show ?thesis using assms Inr that(2) [of p] by (simp add: publish_def)
  next
    case (Some c)
    show ?thesis
      using assms Inr Some that(1) that(2) [of p]
      by (auto simp: publish_def Let_def not_less less_le split: if_splits)
  qed
qed

lemma project_valid: "project u h source opts = Inr p \<Longrightarrow> validate_publication p = None"
  by (elim project_InrD)

lemma engine_reach_valid:
  "engine_reach env e \<Longrightarrow> \<exists>p. en_current e = Some p \<and> validate_publication p = None"
proof (induction rule: engine_reach.induct)
  case (start opts initial entropy e)
  then obtain key where
    "publish env initial \<lparr>en_projection = opts, en_key = key, en_current = None\<rparr> = (None, e)"
    by (auto simp: new_engine_def split: option.splits prod.splits)
  then show ?case by (auto simp: publish_def project_valid split: sum.splits)
next
  case (step e source err e')
  from step(2) step(3) show ?case by (cases rule: publish_cases) (auto simp: project_valid)
qed

lemma publishes_mono:
  assumes "publishes env e e'" "en_current e = Some p"
  shows "\<exists>p'. en_current e' = Some p'
     \<and> (p' = p \<or> ws_revision (pb_snapshot p) < ws_revision (pb_snapshot p'))"
  using assms
proof (induction rule: publishes.induct)
  case (step e e' source err e'')
  from step(2) step(3) [OF step(4)] show ?case
    by (cases rule: publish_cases) (auto intro: less_trans)
qed simp

section \<open>Cursor text\<close>

lemma cut_at_dot: "CHR ''.'' \<notin> set a \<Longrightarrow> cut_at ''.'' (a @ ''.'' @ b) = Some (a, b)"
  by (induction a) (auto simp: has_prefix_def)

definition cursor_char :: "char \<Rightarrow> bool" where
  "cursor_char c \<longleftrightarrow> 45 \<le> byte c \<and> byte c \<le> 122"

lemma b64_value_cursor_char: "b64_value c \<noteq> None \<Longrightarrow> cursor_char c \<and> c \<noteq> CHR ''.''"
  by (auto simp: b64_value_def cursor_char_def split: if_splits)

lemma cursor_text_plain:
  assumes "list_all cursor_char s"
  shows "valid_utf8 s" "\<not> has_control s"
proof -
  show "valid_utf8 s" using assms
    by (induction s rule: valid_utf8.induct) (auto simp: cursor_char_def)
  show "\<not> has_control s" using assms
    by (induction s rule: has_control.induct) (auto simp: cursor_char_def ascii_control_def)
qed

text \<open>What the properties below rely on of the JSON library and of HMAC-SHA256.\<close>

definition known_route :: "route \<Rightarrow> bool" where
  "known_route r \<longleftrightarrow> r = BackupRoute \<or> r = WALRangeRoute \<or> r = WALGapRoute \<or> r = RecoveryPathRoute"

definition env_ok :: "engine_env \<Rightarrow> bool" where
  "env_ok env \<longleftrightarrow> (\<forall>k d. length (ev_hmac env k d) = hash_size)
     \<and> (\<forall>c. known_route (cp_route c) \<longrightarrow> (\<exists>d. ev_marshal env c = Some d \<and> d \<noteq> [] \<and> length d \<le> 1000
          \<and> ev_unmarshal env d = Some c))"

lemma encode_cursor_ok:
  assumes env: "env_ok env" and r: "known_route (cp_route c)"
  obtains t where "encode_cursor env key c = Some t" "t \<noteq> []" "length t \<le> MaximumCursorBytes"
    "decode_cursor env key t = Some c" "\<not> invalid_wire_text t 4096"
proof -
  obtain d where d: "ev_marshal env c = Some d" "d \<noteq> []" "length d \<le> 1000" "ev_unmarshal env d = Some c"
    using env r unfolding env_ok_def by blast
  let ?sum = "ev_hmac env key d"
  let ?t = "b64_encode d @ ''.'' @ b64_encode ?sum"
  have sum: "length ?sum = 32" using env by (simp add: env_ok_def hash_size_def)
  have enc: "encode_cursor env key c = Some ?t" by (simp add: encode_cursor_def d)
  have len: "length ?t \<le> 4096"
    using length_b64_encode_le [of d] length_b64_encode_le [of ?sum] d(3) sum by simp
  have dots: "CHR ''.'' \<notin> set (b64_encode s)" for s
    using b64_encode_chars b64_value_cursor_char by blast
  have ne: "b64_encode d \<noteq> []" "b64_encode ?sum \<noteq> []"
    using length_b64_encode [of d] length_b64_encode [of ?sum] d(2) sum by auto
  have dec: "decode_cursor env key ?t = Some c"
    unfolding decode_cursor_def cut_at_dot [OF dots] using ne dots d(4) by (simp add: b64_decode_encode)
  have "list_all cursor_char ?t"
    using b64_encode_chars b64_value_cursor_char by (auto simp: list_all_iff cursor_char_def)
  then have "\<not> invalid_wire_text ?t 4096"
    using cursor_text_plain len by (simp add: invalid_wire_text_def)
  then show ?thesis using that enc len dec by (simp add: MaximumCursorBytes_def)
qed

section \<open>Following the cursors\<close>

text \<open>A client that asks for the next page with the cursor of the last one, at most \<open>n\<close> times.\<close>

fun follow :: "nat \<Rightarrow> (string \<Rightarrow> engine_error + 'a wire_page) \<Rightarrow> string \<Rightarrow> 'a list option" where
  "follow 0 get c = None"
| "follow (Suc n) get c =
     (case get c of Inl err \<Rightarrow> None
      | Inr pg \<Rightarrow>
          (case wp_items pg of None \<Rightarrow> None
           | Some xs \<Rightarrow>
               (case ph_next_cursor (wp_header pg) of None \<Rightarrow> Some xs
                | Some c' \<Rightarrow> map_option ((@) xs) (follow n get c'))))"

text \<open>
  The contract of a collection of the publication: its route, its page kind, and an order that
  validated publications have, that page segments keep and that the page validator accepts.
\<close>

locale paged_collection =
  fixes items :: "publication \<Rightarrow> 'a list"
    and valid_item :: "'a \<Rightarrow> string option"
    and compare :: "'a \<Rightarrow> 'a \<Rightarrow> int"
    and unsorted missing :: string
    and route :: route
    and increasing :: "'a list \<Rightarrow> bool"
  assumes known: "known_route route"
    and len: "collection_length p route = length (items p)"
    and accepted: "increasing xs \<Longrightarrow> \<forall>x\<in>set xs. valid_item x = None \<Longrightarrow>
      check_items valid_item compare unsorted None xs = None"
    and segment: "increasing xs \<Longrightarrow> increasing (take n (drop m xs))"
    and published: "validate_publication p = None \<Longrightarrow>
      increasing (items p) \<and> (\<forall>x\<in>set (items p). valid_item x = None)"
begin

abbreviation serve :: "engine_env \<Rightarrow> engine \<Rightarrow> evidence_request \<Rightarrow> engine_error + 'a wire_page" where
  "serve \<equiv> serve_page items
     (validate_page valid_item compare (collection_kind route) missing unsorted) route"

text \<open>The payload and the cursor of the page that starts at a position.\<close>

definition payload_at :: "publication \<Rightarrow> int \<Rightarrow> nat \<Rightarrow> cursor_payload" where
  "payload_at p limit start =
     \<lparr>cp_version = cursorVersion, cp_route = route, cp_revision = ws_revision (pb_snapshot p),
      cp_generation = ws_evidence_generation (pb_snapshot p), cp_position = of_nat start,
      cp_limit = of_int limit\<rparr>"

definition cursor_at :: "engine_env \<Rightarrow> engine \<Rightarrow> publication \<Rightarrow> int \<Rightarrow> nat \<Rightarrow> string \<Rightarrow> bool" where
  "cursor_at env e p limit start c \<longleftrightarrow>
     (if start = 0 then c = []
      else c \<noteq> [] \<and> length c \<le> MaximumCursorBytes
         \<and> decode_cursor env (en_key e) c = Some (payload_at p limit start))"

definition effective :: "int \<Rightarrow> int" where
  "effective limit = (if limit = 0 then DefaultPageSize else limit)"

lemma effective_bounds: "0 \<le> limit \<Longrightarrow> limit \<le> MaximumPageSize \<Longrightarrow> 0 < effective limit \<and> effective limit \<le> 200"
  by (auto simp: effective_def DefaultPageSize_def MaximumPageSize_def)

definition serving :: "engine_env \<Rightarrow> engine \<Rightarrow> publication \<Rightarrow> int \<Rightarrow> bool" where
  "serving env e p limit \<longleftrightarrow> env_ok env \<and> en_current e = Some p \<and> validate_publication p = None
     \<and> ws_evidence_generation (pb_snapshot p) \<noteq> 0 \<and> 0 \<le> limit \<and> limit \<le> MaximumPageSize
     \<and> length (items p) < 2 ^ 63"

abbreviation request :: "publication \<Rightarrow> int \<Rightarrow> string \<Rightarrow> evidence_request" where
  "request p limit c \<equiv> \<lparr>er_revision = ws_revision (pb_snapshot p), er_limit = limit, er_cursor = c\<rparr>"

lemma serving_revision:
  assumes "serving env e p limit"
  shows "ws_revision (pb_snapshot p) \<noteq> 0" "ws_evidence_generation (pb_snapshot p) \<le> ws_revision (pb_snapshot p)"
proof -
  have "validate_publication p = None" "ws_evidence_generation (pb_snapshot p) \<noteq> 0"
    using assms by (simp_all add: serving_def)
  moreover show le: "ws_evidence_generation (pb_snapshot p) \<le> ws_revision (pb_snapshot p)"
    by (rule validate_wire_snapshot_NoneD(3) [OF validate_publication_NoneD(1) [OF calculation(1)]])
  ultimately show "ws_revision (pb_snapshot p) \<noteq> 0" by auto
qed

lemma unat_position: "n < 2 ^ 63 \<Longrightarrow> unat (of_nat n :: u64) = n"
  by (simp add: unsigned_of_nat take_bit_nat_eq_self)

lemma page_ok:
  assumes s: "serving env e p limit" and c: "cursor_at env e p (effective limit) start c"
    and start: "start = 0 \<or> start < length (items p)"
  shows "engine_page env e (request p limit c) route = Inr (p, start, nat (effective limit))"
proof -
  have base: "\<not> (ws_revision (pb_snapshot p) = 0 \<or> MaximumCursorBytes < length c \<or> limit < 0
      \<or> MaximumPageSize < limit)"
    using s c serving_revision [OF s] by (auto simp: serving_def cursor_at_def split: if_splits)
  have eff: "(if limit = 0 then DefaultPageSize else limit) = effective limit"
    by (simp add: effective_def)
  have cur: "en_current e = Some p" "ws_evidence_generation (pb_snapshot p) \<noteq> 0"
    using s by (simp_all add: serving_def)
  show ?thesis
  proof (cases "start = 0")
    case True
    then have "c = []" using c by (simp add: cursor_at_def)
    then show ?thesis
      using True base cur unfolding engine_page_def Let_def evidence_request.simps eff by simp
  next
    case False
    then have lt: "start < length (items p)" and small: "start < 2 ^ 63" "length (items p) < 2 ^ 63"
      using start s by (auto simp: serving_def)
    have c': "c \<noteq> []" "decode_cursor env (en_key e) c = Some (payload_at p (effective limit) start)"
      using c False by (simp_all add: cursor_at_def)
    have pos: "unat (cp_position (payload_at p (effective limit) start)) = start"
      using small by (simp add: payload_at_def unat_position)
    have "cp_position (payload_at p (effective limit) start) \<noteq> 0" using pos False by auto
    moreover have "cp_position (payload_at p (effective limit) start) < of_nat (collection_length p route)"
      using lt small pos by (simp add: word_less_nat_alt len unat_position)
    ultimately have "payload_accepted (payload_at p (effective limit) start) p (request p limit c) (effective limit) route"
      by (simp add: payload_accepted_def) (simp add: payload_at_def)
    then show ?thesis
      using base cur c' pos unfolding engine_page_def Let_def evidence_request.simps eff by simp
  qed
qed

lemma header_ok:
  assumes s: "serving env e p limit" and e': "0 < end' \<or> end' = length (items p)"
    and n: "n \<le> 200" "n \<le> length (items p)"
  obtains h where
    "make_page_header env e p route end' (nat (effective limit)) (length (items p)) = Inr h"
    and "validate_header h (collection_kind route) n = None"
    and "end' < length (items p) \<Longrightarrow>
      \<exists>t. ph_next_cursor h = Some t \<and> cursor_at env e p (effective limit) end' t"
    and "\<not> end' < length (items p) \<Longrightarrow> ph_next_cursor h = None"
proof -
  have L: "0 < effective limit" using s effective_bounds by (auto simp: serving_def)
  have pay: "\<lparr>cp_version = cursorVersion, cp_route = route, cp_revision = ws_revision (pb_snapshot p),
      cp_generation = ws_evidence_generation (pb_snapshot p), cp_position = of_nat end',
      cp_limit = of_nat (nat (effective limit))\<rparr> = payload_at p (effective limit) end'"
    using L by (simp add: payload_at_def of_nat_nat)
  have "env_ok env" using s by (simp add: serving_def)
  moreover have "known_route (cp_route (payload_at p (effective limit) end'))"
    by (simp add: payload_at_def known)
  ultimately obtain t where t: "encode_cursor env (en_key e) (payload_at p (effective limit) end') = Some t"
    "t \<noteq> []" "length t \<le> MaximumCursorBytes"
    "decode_cursor env (en_key e) t = Some (payload_at p (effective limit) end')"
    "\<not> invalid_wire_text t 4096"
    by (rule encode_cursor_ok)
  let ?h = "\<lparr>ph_api_version = APIVersion, ph_kind = collection_kind route,
      ph_revision = ws_revision (pb_snapshot p),
      ph_evidence_generation = ws_evidence_generation (pb_snapshot p),
      ph_total_items = Some (of_nat (length (items p))),
      ph_next_cursor = (if end' < length (items p) then Some t else None)\<rparr>"
  have "make_page_header env e p route end' (nat (effective limit)) (length (items p)) = Inr ?h"
    using t(1,3) by (simp add: make_page_header_def Let_def pay)
  moreover have "validate_header ?h (collection_kind route) n = None"
  proof -
    have "\<not> (of_nat (length (items p)) :: u64) < of_nat n"
      using n s by (simp add: word_less_nat_alt unat_position serving_def)
    then show ?thesis
      using serving_revision [OF s] s n(1) t(5) by (simp add: validate_header_def serving_def not_less)
  qed
  moreover have "cursor_at env e p (effective limit) end' t" if "end' < length (items p)"
    using that e' t(2-4) by (auto simp: cursor_at_def)
  ultimately show ?thesis using that [of ?h] by simp
qed

lemma serve_ok:
  assumes s: "serving env e p limit" and c: "cursor_at env e p (effective limit) start c"
    and start: "start = 0 \<or> start < length (items p)"
  defines "L \<equiv> nat (effective limit)"
  obtains pg where "serve env e (request p limit c) = Inr pg"
    and "wp_items pg = Some (take L (drop start (items p)))"
    and "start + L < length (items p) \<Longrightarrow> \<exists>t. ph_next_cursor (wp_header pg) = Some t
           \<and> cursor_at env e p (effective limit) (start + L) t"
    and "\<not> start + L < length (items p) \<Longrightarrow> ph_next_cursor (wp_header pg) = None"
proof -
  let ?stop = "min (start + L) (length (items p))"
  let ?xs = "take (?stop - start) (drop start (items p))"
  have L: "0 < L" "L \<le> 200" using s effective_bounds [of limit] by (auto simp: L_def serving_def)
  have xs: "?xs = take L (drop start (items p))" by (simp add: min_def)
  have "0 < ?stop \<or> ?stop = length (items p)" "length ?xs \<le> 200" "length ?xs \<le> length (items p)"
    using L by auto
  from header_ok [OF s this] obtain h where
    h: "make_page_header env e p route ?stop (nat (effective limit)) (length (items p)) = Inr h"
      "validate_header h (collection_kind route) (length ?xs) = None"
      "?stop < length (items p) \<Longrightarrow> \<exists>t. ph_next_cursor h = Some t \<and> cursor_at env e p (effective limit) ?stop t"
      "\<not> ?stop < length (items p) \<Longrightarrow> ph_next_cursor h = None"
    by blast
  have v: "increasing (items p)" "\<forall>x\<in>set (items p). valid_item x = None"
    using published s by (auto simp: serving_def)
  have "check_items valid_item compare unsorted None ?xs = None"
  proof (rule accepted)
    show "increasing ?xs" by (rule segment [OF v(1)])
    show "\<forall>x\<in>set ?xs. valid_item x = None"
      using v(2) by (meson in_set_dropD in_set_takeD)
  qed
  then have "serve env e (request p limit c) = Inr \<lparr>wp_header = h, wp_items = Some ?xs\<rparr>"
    using page_ok [OF s c start] h(1,2) by (simp add: serve_page_def Let_def validate_page_def L_def)
  then show ?thesis using h(3,4) xs by (intro that) auto
qed

lemma follow_from:
  assumes s: "serving env e p limit"
  shows "cursor_at env e p (effective limit) start c \<Longrightarrow> start = 0 \<or> start < length (items p) \<Longrightarrow>
    length (items p) - start < n \<Longrightarrow>
    follow n (\<lambda>c. serve env e (request p limit c)) c = Some (drop start (items p))"
proof (induction n arbitrary: start c)
  case (Suc n)
  let ?L = "nat (effective limit)"
  have L: "0 < ?L" using s effective_bounds [of limit] by (auto simp: serving_def)
  from serve_ok [OF s Suc.prems(1,2)] obtain pg where
    pg: "serve env e (request p limit c) = Inr pg" "wp_items pg = Some (take ?L (drop start (items p)))"
      "start + ?L < length (items p) \<Longrightarrow> \<exists>t. ph_next_cursor (wp_header pg) = Some t
           \<and> cursor_at env e p (effective limit) (start + ?L) t"
      "\<not> start + ?L < length (items p) \<Longrightarrow> ph_next_cursor (wp_header pg) = None"
    by blast
  show ?case
  proof (cases "start + ?L < length (items p)")
    case False
    then show ?thesis using pg by simp
  next
    case True
    then obtain t where t: "ph_next_cursor (wp_header pg) = Some t"
      "cursor_at env e p (effective limit) (start + ?L) t" using pg(3) by blast
    have "follow n (\<lambda>c. serve env e (request p limit c)) t = Some (drop (start + ?L) (items p))"
      using Suc.IH [OF t(2)] True Suc.prems(3) L by simp
    moreover have "take ?L (drop start (items p)) @ drop (start + ?L) (items p) = drop start (items p)"
      using append_take_drop_id [of ?L "drop start (items p)"] by (simp add: add.commute)
    ultimately show ?thesis using pg(1,2) t(1) by simp
  qed
qed simp

lemma follow_all:
  assumes "serving env e p limit"
  shows "follow (Suc (length (items p))) (\<lambda>c. serve env e (request p limit c)) [] = Some (items p)"
  using follow_from [OF assms, of 0 "[]" "Suc (length (items p))"] by (simp add: cursor_at_def)

end


interpretation paged_backups: paged_collection pb_backups validate_barman_backup compare_backup
    "''backup page items must be uniquely sorted''" "''backup page items must be non-null''"
    BackupRoute backup_order.increasing
  by unfold_locales
    (auto simp: known_route_def backup_order.check_items_None compare_agree first_error_None
      backup_order.increasing_segment validate_publication_NoneD)

interpretation paged_ranges: paged_collection pb_ranges validate_barman_range compare_range
    "''WAL range page items must be uniquely sorted''" "''WAL range page items must be non-null''"
    WALRangeRoute range_order.increasing
  by unfold_locales
    (auto simp: known_route_def range_order.check_items_None compare_agree first_error_None
      range_order.increasing_segment validate_publication_NoneD)

interpretation paged_gaps: paged_collection pb_gaps validate_barman_gap compare_gap
    "''WAL gap page items must be uniquely sorted''" "''WAL gap page items must be non-null''"
    WALGapRoute gap_order.increasing
  by unfold_locales
    (auto simp: known_route_def gap_order.check_items_None compare_agree first_error_None
      gap_order.increasing_segment validate_publication_NoneD)

interpretation paged_paths: paged_collection pb_paths validate_barman_path compare_path
    "''recovery path page items must be uniquely sorted''" "''recovery path page items must be non-null''"
    RecoveryPathRoute path_order.increasing
  by unfold_locales
    (auto simp: known_route_def path_order.check_items_None compare_agree first_error_None
      path_order.increasing_segment validate_publication_NoneD)

lemma served_by:
  "backups_page env e req = serve_page pb_backups (validate_page validate_barman_backup compare_backup
     (collection_kind BackupRoute) ''backup page items must be non-null''
     ''backup page items must be uniquely sorted'') BackupRoute env e req"
  "ranges_page env e req = serve_page pb_ranges (validate_page validate_barman_range compare_range
     (collection_kind WALRangeRoute) ''WAL range page items must be non-null''
     ''WAL range page items must be uniquely sorted'') WALRangeRoute env e req"
  "gaps_page env e req = serve_page pb_gaps (validate_page validate_barman_gap compare_gap
     (collection_kind WALGapRoute) ''WAL gap page items must be non-null''
     ''WAL gap page items must be uniquely sorted'') WALGapRoute env e req"
  "paths_page env e req = serve_page pb_paths (validate_page validate_barman_path compare_path
     (collection_kind RecoveryPathRoute) ''recovery path page items must be non-null''
     ''recovery path page items must be uniquely sorted'') RecoveryPathRoute env e req"
  by (simp_all add: backups_page_def ranges_page_def gaps_page_def paths_page_def
      validate_backup_page_def validate_range_page_def validate_gap_page_def validate_path_page_def)

section \<open>Properties\<close>

text \<open>
  C12. Reading page by page gives the whole collection: a client that keeps the revision and the
  limit and follows the cursors is never refused and gets every backup, range, gap and
  recovery path of the publication exactly once and in order, whatever the limit is.
\<close>

theorem pages_enumerate:
  assumes env: "env_ok env" and e: "engine_reach env e" "en_current e = Some p"
    and gen: "ws_evidence_generation (pb_snapshot p) \<noteq> 0"
    and lim: "0 \<le> limit" "limit \<le> MaximumPageSize"
    and short: "length (pb_backups p) < 2 ^ 63" "length (pb_ranges p) < 2 ^ 63"
      "length (pb_gaps p) < 2 ^ 63" "length (pb_paths p) < 2 ^ 63"
  defines "request c \<equiv> \<lparr>er_revision = ws_revision (pb_snapshot p), er_limit = limit, er_cursor = c\<rparr>"
  shows "follow (Suc (length (pb_backups p))) (\<lambda>c. backups_page env e (request c)) [] = Some (pb_backups p)
     \<and> follow (Suc (length (pb_ranges p))) (\<lambda>c. ranges_page env e (request c)) [] = Some (pb_ranges p)
     \<and> follow (Suc (length (pb_gaps p))) (\<lambda>c. gaps_page env e (request c)) [] = Some (pb_gaps p)
     \<and> follow (Suc (length (pb_paths p))) (\<lambda>c. paths_page env e (request c)) [] = Some (pb_paths p)"
proof -
  have "validate_publication p = None" using engine_reach_valid [OF e(1)] e(2) by auto
  then have "paged_backups.serving env e p limit" "paged_ranges.serving env e p limit"
    "paged_gaps.serving env e p limit" "paged_paths.serving env e p limit"
    using env e(2) gen lim short
    by (simp_all add: paged_backups.serving_def paged_ranges.serving_def paged_gaps.serving_def
        paged_paths.serving_def)
  then show ?thesis
    unfolding request_def served_by
    by (intro conjI paged_backups.follow_all paged_ranges.follow_all paged_gaps.follow_all
        paged_paths.follow_all)
qed

text \<open>
  C13. A revision names one publication: whatever is published after, the engine holds a valid
  publication, its revision never goes back, and as long as the revision is the same the
  publication is the same, so that pages read with one revision belong together.
\<close>

theorem revision_names_publication:
  assumes "engine_reach env e" and "publishes env e e'"
  shows "\<exists>p p'. en_current e = Some p \<and> en_current e' = Some p' \<and> validate_publication p' = None
     \<and> ws_revision (pb_snapshot p) \<le> ws_revision (pb_snapshot p')
     \<and> (ws_revision (pb_snapshot p) = ws_revision (pb_snapshot p') \<longrightarrow> p' = p)"
proof -
  obtain p where p: "en_current e = Some p" using engine_reach_valid [OF assms(1)] by blast
  obtain p' where p': "en_current e' = Some p'"
    "p' = p \<or> ws_revision (pb_snapshot p) < ws_revision (pb_snapshot p')"
    using publishes_mono [OF assms(2) p] by blast
  have "engine_reach env e'" using assms(2,1)
    by (induction rule: publishes.induct) (auto intro: engine_reach.step)
  then have "validate_publication p' = None" using engine_reach_valid p'(1) by fastforce
  with p p' show ?thesis by auto
qed

text \<open>
  C14. A cursor opens only the page it was issued for: if a request with an issued cursor is
  accepted, its route, revision, generation and limit are those of the cursor and it starts at
  the cursor's position, inside the collection.
\<close>

theorem cursor_opens_its_page:
  assumes env: "env_ok env" and known: "known_route (cp_route payload)"
    and issued: "encode_cursor env (en_key e) payload = Some (er_cursor req)"
    and page: "engine_page env e req route = Inr (p, start, limit)"
  shows "en_current e = Some p \<and> cp_route payload = route \<and> cp_revision payload = er_revision req
     \<and> er_revision req = ws_revision (pb_snapshot p)
     \<and> cp_generation payload = ws_evidence_generation (pb_snapshot p)
     \<and> cp_limit payload = of_nat limit \<and> start = unat (cp_position payload)
     \<and> 0 < start \<and> start < collection_length p route"
proof -
  obtain t where "encode_cursor env (en_key e) payload = Some t" "t \<noteq> []"
    "decode_cursor env (en_key e) t = Some payload"
    by (rule encode_cursor_ok [OF env known])
  then have t: "er_cursor req \<noteq> []" "decode_cursor env (en_key e) (er_cursor req) = Some payload"
    using issued by auto
  define L where "L = (if er_limit req = 0 then DefaultPageSize else er_limit req)"
  have a: "en_current e = Some p" "er_revision req = ws_revision (pb_snapshot p)"
    "payload_accepted payload p req L route" "start = unat (cp_position payload)" "limit = nat L" "0 \<le> L"
    using page t by (auto simp: engine_page_def Let_def L_def DefaultPageSize_def split: if_splits option.splits)
  then have "cp_position payload < of_nat (collection_length p route)" "cp_position payload \<noteq> 0"
    "cp_limit payload = of_int L"
    by (simp_all add: payload_accepted_def)
  moreover have "unat (of_nat n :: u64) \<le> n" for n
    by (simp add: unsigned_of_nat take_bit_nat_less_eq_self)
  ultimately have "start < collection_length p route" "0 < start"
    using a(4) by (auto simp: word_less_nat_alt unat_gt_0 intro: less_le_trans)
  then show ?thesis
    using a \<open>cp_limit payload = of_int L\<close> by (simp add: payload_accepted_def of_nat_nat)
qed

section \<open>An instance\<close>

text \<open>
  An encoding of the payloads that is not JSON but satisfies what is relied on: a letter for
  the route and five numbers of eight bytes.
\<close>

definition be64 :: "u64 \<Rightarrow> string" where
  "be64 w = be32 (unat w div 2 ^ 32) @ be32 (unat w mod 2 ^ 32)"

definition from_be64 :: "string \<Rightarrow> u64" where
  "from_be64 s = of_nat (from_be32 (take 4 s) * 2 ^ 32 + from_be32 (take 4 (drop 4 s)))"

lemma be64_round_trip [simp]: "from_be64 (be64 w @ rest) = w" "length (be64 w) = 8"
proof -
  have "unat w div 2 ^ 32 < 2 ^ 32" using unat_lt_u64 [of w] by (simp add: div_less_iff_less_mult)
  moreover have "unat w mod 2 ^ 32 < 2 ^ 32" by simp
  ultimately have "from_be64 (be64 w @ rest) = of_nat (unat w div 2 ^ 32 * 2 ^ 32 + unat w mod 2 ^ 32)"
    unfolding from_be64_def be64_def by (simp add: from_be32_be32)
  then show "from_be64 (be64 w @ rest) = w" by (simp only: div_mult_mod_eq) simp
  show "length (be64 w) = 8" by (simp add: be64_def)
qed

fun route_letter :: "route \<Rightarrow> char" where
  "route_letter BackupRoute = CHR ''b''"
| "route_letter WALRangeRoute = CHR ''r''"
| "route_letter WALGapRoute = CHR ''g''"
| "route_letter RecoveryPathRoute = CHR ''p''"
| "route_letter (OtherRoute r) = CHR ''o''"

definition ex_marshal :: "cursor_payload \<Rightarrow> string option" where
  "ex_marshal c = Some (route_letter (cp_route c) # be64 (cp_version c) @ be64 (cp_revision c)
     @ be64 (cp_generation c) @ be64 (cp_position c) @ be64 (cp_limit c))"

definition ex_unmarshal :: "string \<Rightarrow> cursor_payload option" where
  "ex_unmarshal s =
     (case s of [] \<Rightarrow> None
      | c # d \<Rightarrow> Some \<lparr>cp_version = from_be64 d,
          cp_route = (if c = CHR ''b'' then BackupRoute else if c = CHR ''r'' then WALRangeRoute
             else if c = CHR ''g'' then WALGapRoute else RecoveryPathRoute),
          cp_revision = from_be64 (drop 8 d), cp_generation = from_be64 (drop 16 d),
          cp_position = from_be64 (drop 24 d), cp_limit = from_be64 (drop 32 d)\<rparr>)"

definition ex_env :: engine_env where
  "ex_env = \<lparr>ev_parse_url = (\<lambda>u. None), ev_sha256 = eg_hash, ev_hmac = ex_mac,
     ev_marshal = ex_marshal, ev_unmarshal = ex_unmarshal\<rparr>"

lemma ex_env_ok: "env_ok ex_env"
proof -
  have "ex_unmarshal (the (ex_marshal c)) = Some c" if "known_route (cp_route c)" for c
  proof -
    have last: "from_be64 (be64 w) = w" for w using be64_round_trip(1) [of w "[]"] by simp
    show ?thesis using that by (auto simp: ex_unmarshal_def ex_marshal_def known_route_def last)
  qed
  then show ?thesis by (simp add: env_ok_def ex_env_def ex_mac_def hash_size_def) (simp add: ex_marshal_def)
qed

lemma ex_engine:
  obtains e p where "new_engine ex_env eg_projection eg_source (Some ex_key) = Inr e"
    and "engine_reach ex_env e" "en_current e = Some p" "en_key e = ex_key"
    and "project (\<lambda>u. None) eg_hash eg_source eg_projection = Inr p"
proof -
  obtain p where p: "project (\<lambda>u. None) eg_hash eg_source eg_projection = Inr p"
    using eg_project by blast
  then have e: "new_engine ex_env eg_projection eg_source (Some ex_key) =
      Inr \<lparr>en_projection = eg_projection, en_key = ex_key, en_current = Some p\<rparr>"
    by (simp add: new_engine_def publish_def ex_env_def)
  from that [OF e engine_reach.start [OF e]] p show ?thesis by simp
qed

lemma ex_publication:
  assumes "project (\<lambda>u. None) eg_hash eg_source eg_projection = Inr p"
  shows "pb_backups p = [project_backup ''pg'' (eg_backup ''a''), project_backup ''pg'' (eg_backup ''b'')]" "pb_ranges p = []" "pb_gaps p = []"
    "pb_paths p = []" "ws_revision (pb_snapshot p) = 3" "ws_evidence_generation (pb_snapshot p) = 3"
proof -
  obtain c f where c: "canonical_s3 (\<lambda>u. None) (po_s3 eg_projection) = Inr c"
    and p: "p = project_publication eg_source eg_projection c f"
    by (rule project_InrD [OF assms])
  have n: "s3_scope_name c = ''pg''" using c by (auto simp: eg_canonical ex_s3_def)
  show "pb_backups p = [project_backup ''pg'' (eg_backup ''a''), project_backup ''pg'' (eg_backup ''b'')]" "pb_ranges p = []" "pb_gaps p = []" "pb_paths p = []"
    by (simp_all add: p n eg_backups_valid eg_collections)
  show "ws_revision (pb_snapshot p) = 3" "ws_evidence_generation (pb_snapshot p) = 3"
    by (simp_all add: p project_snapshot_def Let_def eg_source_def zero_snapshot_def)
qed

lemma pages_enumerate_witness:
  "\<exists>e. engine_reach ex_env e
     \<and> follow 3 (\<lambda>c. backups_page ex_env e \<lparr>er_revision = 3, er_limit = 1, er_cursor = c\<rparr>) []
         = Some [project_backup ''pg'' (eg_backup ''a''), project_backup ''pg'' (eg_backup ''b'')]"
proof -
  obtain e p where e: "engine_reach ex_env e" "en_current e = Some p"
    and p: "project (\<lambda>u. None) eg_hash eg_source eg_projection = Inr p" by (rule ex_engine)
  note f = ex_publication [OF p]
  have "0 \<le> (1 :: int)" "1 \<le> MaximumPageSize" by (simp_all add: MaximumPageSize_def)
  from pages_enumerate [OF ex_env_ok e _ this] f
  have "follow (Suc (length (pb_backups p)))
      (\<lambda>c. backups_page ex_env e \<lparr>er_revision = 3, er_limit = 1, er_cursor = c\<rparr>) [] = Some (pb_backups p)"
    by simp
  then show ?thesis using e(1) f(1) by (auto simp: numeral_3_eq_3)
qed

lemma revision_names_publication_witness:
  "\<exists>e p. engine_reach ex_env e \<and> en_current e = Some p \<and> ws_revision (pb_snapshot p) \<le> 3
     \<and> validate_publication p = None"
proof -
  obtain e p where e: "engine_reach ex_env e" "en_current e = Some p"
    and p: "project (\<lambda>u. None) eg_hash eg_source eg_projection = Inr p" by (rule ex_engine)
  from revision_names_publication [OF e(1) publishes.refl] show ?thesis
    using e ex_publication(5) [OF p] by fastforce
qed


lemma cursor_opens_its_page_witness:
  "\<exists>e c p. engine_reach ex_env e
     \<and> engine_page ex_env e \<lparr>er_revision = 3, er_limit = 1, er_cursor = c\<rparr> BackupRoute = Inr (p, 1, 1)
     \<and> 1 < collection_length p BackupRoute"
proof -
  obtain e p where e: "engine_reach ex_env e" "en_current e = Some p" "en_key e = ex_key"
    and p: "project (\<lambda>u. None) eg_hash eg_source eg_projection = Inr p" by (rule ex_engine)
  note f = ex_publication [OF p]
  let ?c = "\<lparr>cp_version = cursorVersion, cp_route = BackupRoute, cp_revision = 3, cp_generation = 3,
      cp_position = 1, cp_limit = 1\<rparr>"
  have known: "known_route (cp_route ?c)" by (simp add: known_route_def)
  obtain t where t: "encode_cursor ex_env (en_key e) ?c = Some t" "t \<noteq> []"
    "length t \<le> MaximumCursorBytes" "decode_cursor ex_env (en_key e) t = Some ?c"
    by (rule encode_cursor_ok [OF ex_env_ok known])
  let ?req = "\<lparr>er_revision = 3, er_limit = 1, er_cursor = t\<rparr>"
  have page: "engine_page ex_env e ?req BackupRoute = Inr (p, 1, 1)"
    using t e(2) f
    by (simp add: engine_page_def Let_def MaximumPageSize_def payload_accepted_def word_less_nat_alt)
  from cursor_opens_its_page [OF ex_env_ok known _ page] t(1) have "1 < collection_length p BackupRoute"
    by simp
  with e(1) page show ?thesis by blast
qed

end
