(* ===== verification/Configuration.thy ===== *)
theory Configuration
  imports Fingerprint
begin

text \<open>
  The environment contract of the process (\<open>internal/config/config.go\<close>): how the variables
  are read, checked and turned into one configuration, and the redacted error of every
  refusal.

  The environment is a pair of functions, as in the source. \<open>url.Parse\<close>, \<open>time.ParseDuration\<close>,
  \<open>json.Valid\<close>, the PEM reader of \<open>crypto/x509\<close> and the file system are parameters; a
  duration is its number of nanoseconds. The loop over the map of provider variables runs in
  an order the language leaves open, which is a parameter too.
\<close>

section \<open>Data\<close>

datatype runtime_mode = RuntimeStandalone | RuntimePGConsoleSidecar

datatype repository_format = FormatBarmanCloud | FormatPGBackRest

datatype provider = ProviderS3 | ProviderAzure | ProviderGCS

datatype credential_mode = CredentialUnset | CredentialAmbient | CredentialStaticFiles
  | CredentialAWSWebIdentity | CredentialConnectionFile | CredentialAccountKeyFile
  | CredentialSASTokenFile | CredentialJSONFile

text \<open>A secret is its bytes, which only \<open>Bytes\<close> returns.\<close>

datatype secret = Secret (secret_bytes: string)

definition secret_empty :: "secret \<Rightarrow> bool" where
  "secret_empty s \<longleftrightarrow> secret_bytes s = []"

definition secret_string :: "secret \<Rightarrow> string" where
  "secret_string s = ''[REDACTED]''"

record credentials =
  cd_mode :: credential_mode
  cd_access_key :: secret
  cd_secret_key :: secret
  cd_session_token :: secret
  cd_region :: string
  cd_role_arn :: string
  cd_web_identity_file :: string
  cd_azure_account :: string
  cd_azure_connection :: secret
  cd_azure_key :: secret
  cd_azure_sas :: secret
  cd_google_json :: secret

record config =
  cf_runtime :: runtime_mode
  cf_format :: repository_format
  cf_provider :: provider
  cf_destination :: "url option"
  cf_endpoint :: "url option"
  cf_ca_bundle :: string
  cf_servers :: "string list"
  cf_stanzas :: "string list"
  cf_cipher :: secret
  cf_listen_addr :: string
  cf_user_header :: string
  cf_allow_download :: bool
  cf_token_file :: string
  cf_namespace :: string
  cf_uid :: string
  cf_cluster_name :: string
  cf_refresh_interval :: int
  cf_request_timeout :: int
  cf_concurrency :: int
  cf_max_objects :: int
  cf_page_size :: int
  cf_retention_policy :: string
  cf_minimum_redundancy :: "int option"
  cf_credentials :: credentials

record config_error =
  ce_variable :: string
  ce_code :: string

definition error_text :: "config_error \<Rightarrow> string" where
  "error_text e = (if ce_variable e = [] then ''configuration invalid: '' @ ce_code e
     else ''configuration invalid: '' @ ce_variable e @ '': '' @ ce_code e)"

record config_env =
  en_getenv :: "string \<Rightarrow> string"
  en_lookup :: "string \<Rightarrow> string option"
  en_parse_url :: "string \<Rightarrow> url option"
  en_parse_duration :: "string \<Rightarrow> int option"
  en_read_file :: "string \<Rightarrow> opened"
  en_json_valid :: "string \<Rightarrow> bool"
  en_has_certificate :: "string \<Rightarrow> bool"
  en_provider_order :: "provider list"

definition no_secret :: secret where "no_secret = Secret []"

definition no_credentials :: credentials where
  "no_credentials =
     \<lparr>cd_mode = CredentialUnset, cd_access_key = no_secret, cd_secret_key = no_secret,
      cd_session_token = no_secret, cd_region = [], cd_role_arn = [], cd_web_identity_file = [],
      cd_azure_account = [], cd_azure_connection = no_secret, cd_azure_key = no_secret,
      cd_azure_sas = no_secret, cd_google_json = no_secret\<rparr>"

definition secret_values :: "config \<Rightarrow> string list" where
  "secret_values c =
     (let d = cf_credentials c in
      map secret_bytes (filter (\<lambda>s. \<not> secret_empty s)
        [cf_cipher c, cd_access_key d, cd_secret_key d, cd_session_token d, cd_azure_connection d,
         cd_azure_key d, cd_azure_sas d, cd_google_json d]))"

section \<open>Errors\<close>

definition config_fail :: "string \<Rightarrow> string \<Rightarrow> config_error + 'a" where
  "config_fail variable code = Inl \<lparr>ce_variable = variable, ce_code = code\<rparr>"

definition bind_config :: "config_error + 'a \<Rightarrow> ('a \<Rightarrow> config_error + 'b) \<Rightarrow> config_error + 'b" where
  "bind_config r f = (case r of Inl e \<Rightarrow> Inl e | Inr x \<Rightarrow> f x)"

definition reject_if :: "bool \<Rightarrow> string \<Rightarrow> string \<Rightarrow> config_error + unit" where
  "reject_if bad variable code = (if bad then config_fail variable code else Inr ())"

section \<open>Texts\<close>

text \<open>\<open>fmt\<close>'s \<open>%d\<close> of a natural number, and \<open>Duration.String\<close> of a whole number of seconds.\<close>

function decimal_text :: "nat \<Rightarrow> string" where
  "decimal_text n = (if n < 10 then [char_of (48 + n)] else decimal_text (n div 10) @ [char_of (48 + n mod 10)])"
  by pat_completeness auto
termination by (relation "measure id") auto

declare decimal_text.simps [simp del]

definition nanoseconds :: int where "nanoseconds = 1000000000"

definition duration_text :: "int \<Rightarrow> string" where
  "duration_text d =
     (let s = nat (d div nanoseconds); h = s div 3600; m = s div 60 mod 60; r = s mod 60 in
      if 0 < h then decimal_text h @ ''h'' @ decimal_text m @ ''m'' @ decimal_text r @ ''s''
      else if 0 < m then decimal_text m @ ''m'' @ decimal_text r @ ''s''
      else decimal_text r @ ''s'')"

text \<open>\<open>strconv.ParseBool\<close>.\<close>

definition go_parse_bool :: "string \<Rightarrow> bool option" where
  "go_parse_bool s =
     (if s \<in> {''1'', ''t'', ''T'', ''TRUE'', ''true'', ''True''} then Some True
      else if s \<in> {''0'', ''f'', ''F'', ''FALSE'', ''false'', ''False''} then Some False else None)"

text \<open>\<open>net.SplitHostPort\<close>, of which the code uses the port.\<close>

definition split_port :: "string \<Rightarrow> string option" where
  "split_port s =
     (case last_from (CHR '':'') s of None \<Rightarrow> None
      | Some tail \<Rightarrow>
          let i = length s - length tail in
          if s \<noteq> [] \<and> hd s = CHR ''['' then
            (case cut_at '']'' s of None \<Rightarrow> None
             | Some (before_bracket, after_bracket) \<Rightarrow>
                 let close = length before_bracket in
                 if close + 1 \<noteq> i then None
                 else if CHR ''['' \<in> set (drop 1 s) \<or> CHR '']'' \<in> set after_bracket then None
                 else Some (drop 1 tail))
          else if CHR '':'' \<in> set (take i s) \<or> CHR ''['' \<in> set s \<or> CHR '']'' \<in> set s then None
          else Some (drop 1 tail))"

text \<open>\<open>filepath.Clean\<close> of an absolute path.\<close>

definition push_part :: "string list \<Rightarrow> string \<Rightarrow> string list" where
  "push_part st p = (if p = [] \<or> p = ''.'' then st else if p = ''..'' then butlast st else st @ [p])"

definition clean_absolute :: "string \<Rightarrow> string" where
  "clean_absolute s =
     (let parts = foldl push_part [] (split_on (CHR ''/'') s)
      in if parts = [] then ''/'' else concat (map (\<lambda>p. CHR ''/'' # p) parts))"

definition valid_absolute_path :: "string \<Rightarrow> bool" where
  "valid_absolute_path path \<longleftrightarrow> has_prefix path ''/'' \<and> clean_absolute path = path"

definition invalid_identity :: "string \<Rightarrow> nat \<Rightarrow> bool \<Rightarrow> bool" where
  "invalid_identity value maximum required \<longleftrightarrow>
     (required \<and> value = []) \<or> maximum < length value \<or> has_control value"

definition valid_aws_role_arn :: "string \<Rightarrow> bool" where
  "valid_aws_role_arn value \<longleftrightarrow> \<not> invalid_identity value 2048 True
     \<and> (case split_n 6 (CHR '':'') value of
          [a, b, c, d, e, f] \<Rightarrow> a = ''arn'' \<and> b \<noteq> [] \<and> c = ''iam'' \<and> d = [] \<and> length e = 12
             \<and> has_prefix f ''role/'' \<and> length f \<noteq> length ''role/'' \<and> list_all is_digit e
        | _ \<Rightarrow> False)"

definition header_char :: "char \<Rightarrow> bool" where
  "header_char c \<longleftrightarrow> (65 \<le> byte c \<and> byte c \<le> 90) \<or> (97 \<le> byte c \<and> byte c \<le> 122) \<or> is_digit c
     \<or> byte c \<in> {33, 35, 36, 37, 38, 39, 42, 43, 45, 46, 94, 95, 96, 124, 126}"

definition valid_header_name :: "string \<Rightarrow> bool" where
  "valid_header_name value \<longleftrightarrow> value \<noteq> [] \<and> list_all header_char value"

section \<open>Parsers\<close>

definition parse_runtime_mode :: "string \<Rightarrow> config_error + runtime_mode" where
  "parse_runtime_mode raw =
     (if raw = [] then Inr RuntimeStandalone
      else if raw = ''pgconsole-sidecar'' then Inr RuntimePGConsoleSidecar
      else config_fail ''RUNTIME_MODE'' ''must be pgconsole-sidecar or empty'')"

definition parse_format :: "string \<Rightarrow> config_error + repository_format" where
  "parse_format raw =
     (if raw = ''barman-cloud'' then Inr FormatBarmanCloud
      else if raw = ''pgbackrest'' then Inr FormatPGBackRest
      else config_fail ''REPOSITORY_FORMAT'' ''must be barman-cloud or pgbackrest'')"

definition parse_provider :: "string \<Rightarrow> config_error + provider" where
  "parse_provider raw =
     (if raw = ''s3'' then Inr ProviderS3 else if raw = ''azure'' then Inr ProviderAzure
      else if raw = ''gcs'' then Inr ProviderGCS
      else config_fail ''PROVIDER'' ''must be s3, azure, or gcs'')"

fun expected_scheme :: "provider \<Rightarrow> string" where
  "expected_scheme ProviderS3 = ''s3''"
| "expected_scheme ProviderAzure = ''azure''"
| "expected_scheme ProviderGCS = ''gs''"

definition parse_destination :: "config_env \<Rightarrow> provider \<Rightarrow> string \<Rightarrow> config_error + url" where
  "parse_destination env provider raw =
     (if raw = [] then config_fail ''DESTINATION_PATH'' ''required''
      else case en_parse_url env raw of
        None \<Rightarrow> config_fail ''DESTINATION_PATH'' ''must be a credential-free object-store URI''
      | Some u \<Rightarrow>
          if ur_opaque u \<noteq> [] \<or> ur_host u = [] \<or> ur_user u \<or> ur_raw_query u \<noteq> [] \<or> ur_fragment u \<noteq> []
          then config_fail ''DESTINATION_PATH'' ''must be a credential-free object-store URI''
          else if ur_scheme u \<noteq> expected_scheme provider
          then config_fail ''DESTINATION_PATH'' ''scheme does not match PROVIDER''
          else if contains_str (ur_escaped_path u) ''//'' \<or> has_control raw
          then config_fail ''DESTINATION_PATH'' ''contains an invalid prefix''
          else Inr u)"

definition parse_endpoint :: "config_env \<Rightarrow> string \<Rightarrow> config_error + url" where
  "parse_endpoint env raw =
     (case en_parse_url env raw of
        None \<Rightarrow> config_fail ''ENDPOINT_URL'' ''must be a credential-free http or https origin''
      | Some u \<Rightarrow>
          if ur_host u = [] \<or> ur_user u \<or> ur_raw_query u \<noteq> [] \<or> ur_fragment u \<noteq> [] \<or> ur_opaque u \<noteq> []
             \<or> (ur_path u \<noteq> [] \<and> ur_path u \<noteq> ''/'') \<or> ur_raw_path u \<noteq> [] \<or> has_control raw
             \<or> (ur_scheme u \<noteq> ''http'' \<and> ur_scheme u \<noteq> ''https'')
          then config_fail ''ENDPOINT_URL'' ''must be a credential-free http or https origin''
          else Inr u)"

definition validate_listen_addr :: "string \<Rightarrow> config_error + unit" where
  "validate_listen_addr raw =
     (case split_port raw of None \<Rightarrow> config_fail ''LISTEN_ADDR'' ''must be host:port''
      | Some port \<Rightarrow>
          if port = [] then config_fail ''LISTEN_ADDR'' ''must be host:port''
          else (case parse_int64 port of
             None \<Rightarrow> config_fail ''LISTEN_ADDR'' ''port must be between 1 and 65535''
           | Some v \<Rightarrow> if v < 1 \<or> 65535 < v
               then config_fail ''LISTEN_ADDR'' ''port must be between 1 and 65535'' else Inr ()))"

definition maxConfiguredScopes :: nat where "maxConfiguredScopes = 1000"

definition bad_scope_name :: "string \<Rightarrow> bool" where
  "bad_scope_name name \<longleftrightarrow> name = [] \<or> 128 < length name \<or> name = ''.'' \<or> name = ''..''
     \<or> list_ex (\<lambda>c. c = CHR ''/'' \<or> c = CHR 0x5C) name \<or> has_control name"

fun collect_names :: "string \<Rightarrow> string list \<Rightarrow> string list \<Rightarrow> config_error + string list" where
  "collect_names variable seen [] = Inr seen"
| "collect_names variable seen (item # items) =
     (let name = trim_space item in
      if bad_scope_name name then config_fail variable ''contains an invalid scope name''
      else let seen = (if name \<in> set seen then seen else name # seen) in
        if maxConfiguredScopes < length seen then config_fail variable ''contains too many scope names''
        else collect_names variable seen items)"

definition parse_names :: "string \<Rightarrow> string \<Rightarrow> config_error + string list" where
  "parse_names variable raw =
     (if raw = [] then Inr []
      else bind_config (collect_names variable [] (split_on (CHR '','') raw)) (\<lambda>names. Inr (sort names)))"

definition parse_bool :: "string \<Rightarrow> bool \<Rightarrow> string \<Rightarrow> config_error + bool" where
  "parse_bool raw fallback variable =
     (if raw = [] then Inr fallback
      else case go_parse_bool raw of None \<Rightarrow> config_fail variable ''must be true or false''
        | Some b \<Rightarrow> Inr b)"

definition parse_duration :: "config_env \<Rightarrow> string \<Rightarrow> int \<Rightarrow> int \<Rightarrow> int \<Rightarrow> string \<Rightarrow> config_error + int" where
  "parse_duration env raw fallback minimum maximum variable =
     (if raw = [] then Inr fallback
      else let bad = config_fail variable
                 (''must be between '' @ duration_text minimum @ '' and '' @ duration_text maximum)
        in case en_parse_duration env raw of None \<Rightarrow> bad
           | Some v \<Rightarrow> if v < minimum \<or> maximum < v then bad else Inr v)"

definition parse_int :: "string \<Rightarrow> int \<Rightarrow> nat \<Rightarrow> nat \<Rightarrow> string \<Rightarrow> config_error + int" where
  "parse_int raw fallback minimum maximum variable =
     (if raw = [] then Inr fallback
      else let bad = config_fail variable
                 (''must be between '' @ decimal_text minimum @ '' and '' @ decimal_text maximum)
        in case parse_int64 raw of None \<Rightarrow> bad
           | Some v \<Rightarrow> if v < int minimum \<or> int maximum < v then bad else Inr v)"

definition maxSecretFileBytes :: nat where "maxSecretFileBytes = 64 * 1024"
definition maxConfigFileBytes :: nat where "maxConfigFileBytes = 1024 * 1024"

text \<open>The limited reader returns one byte more than the limit of a file that is too long.\<close>

definition read_bounded_file ::
  "config_env \<Rightarrow> string \<Rightarrow> string \<Rightarrow> nat \<Rightarrow> bool \<Rightarrow> config_error + string" where
  "read_bounded_file env variable path maximum trim_newline =
     (case en_read_file env path of
        OpenFailed \<Rightarrow> config_fail variable ''file cannot be opened''
      | ReadFailed \<Rightarrow> config_fail variable ''file cannot be read''
      | Content data \<Rightarrow>
          let v = take (maximum + 1) data in
          if maximum < length v then config_fail variable ''file exceeds the size limit''
          else let v = (if trim_newline then trim_suffix (trim_suffix v [CHR 0x0A]) [CHR 0x0D] else v)
            in if v = [] then config_fail variable ''file is empty'' else Inr v)"

section \<open>Formats and runtime\<close>

definition load_format_config :: "config_env \<Rightarrow> config \<Rightarrow> config_error + config" where
  "load_format_config env cfg =
     bind_config (parse_names ''BARMAN_SERVER_NAMES'' (en_getenv env ''BARMAN_SERVER_NAMES'')) (\<lambda>barman.
     bind_config (parse_names ''PGBACKREST_STANZAS'' (en_getenv env ''PGBACKREST_STANZAS'')) (\<lambda>stanzas.
     let cipher_path = en_getenv env ''PGBACKREST_CIPHER_PASS_FILE'' in
     case cf_format cfg of
       FormatBarmanCloud \<Rightarrow>
         bind_config (reject_if (stanzas \<noteq> []) ''PGBACKREST_STANZAS'' ''does not apply to barman-cloud'') (\<lambda>_.
         bind_config (reject_if (cipher_path \<noteq> []) ''PGBACKREST_CIPHER_PASS_FILE'' ''does not apply to barman-cloud'')
           (\<lambda>_. Inr (cfg\<lparr>cf_servers := barman\<rparr>)))
     | FormatPGBackRest \<Rightarrow>
         bind_config (reject_if (barman \<noteq> []) ''BARMAN_SERVER_NAMES'' ''does not apply to pgbackrest'') (\<lambda>_.
         let cfg = cfg\<lparr>cf_stanzas := stanzas\<rparr> in
         if cipher_path \<noteq> []
         then bind_config (read_bounded_file env ''PGBACKREST_CIPHER_PASS_FILE'' cipher_path maxSecretFileBytes True)
           (\<lambda>v. Inr (cfg\<lparr>cf_cipher := Secret v\<rparr>))
         else Inr cfg)))"

definition sidecar_variables :: "string list" where
  "sidecar_variables =
     [''EVIDENCE_TOKEN_FILE'', ''CNPG_CLUSTER_NAMESPACE'', ''CNPG_CLUSTER_UID'', ''CNPG_CLUSTER_NAME'',
      ''STORE_CREDENTIAL_MODE'']"

text \<open>The first variable of a list that is set.\<close>

definition first_set :: "config_env \<Rightarrow> string list \<Rightarrow> string option" where
  "first_set env variables = find (\<lambda>v. en_getenv env v \<noteq> []) variables"

definition load_runtime_config :: "config_env \<Rightarrow> config \<Rightarrow> config_error + config" where
  "load_runtime_config env cfg =
     (if cf_runtime cfg = RuntimeStandalone
      then (case first_set env sidecar_variables of
              Some v \<Rightarrow> config_fail v ''requires pgconsole-sidecar''
            | None \<Rightarrow> Inr cfg)
      else
        bind_config (reject_if (cf_format cfg \<noteq> FormatBarmanCloud) ''REPOSITORY_FORMAT''
          ''pgconsole-sidecar requires barman-cloud'') (\<lambda>_.
        bind_config (reject_if (cf_provider cfg \<noteq> ProviderS3) ''PROVIDER''
          ''pgconsole-sidecar requires s3'') (\<lambda>_.
        bind_config (reject_if (length (cf_servers cfg) \<noteq> 1) ''BARMAN_SERVER_NAMES''
          ''pgconsole-sidecar requires exactly one server'') (\<lambda>_.
        let cfg = cfg\<lparr>cf_token_file := en_getenv env ''EVIDENCE_TOKEN_FILE''\<rparr> in
        bind_config (reject_if (\<not> valid_absolute_path (cf_token_file cfg)) ''EVIDENCE_TOKEN_FILE''
          ''must be an absolute clean path'') (\<lambda>_.
        let cfg = cfg\<lparr>cf_namespace := en_getenv env ''CNPG_CLUSTER_NAMESPACE'',
                      cf_uid := en_getenv env ''CNPG_CLUSTER_UID'',
                      cf_cluster_name := en_getenv env ''CNPG_CLUSTER_NAME''\<rparr> in
        bind_config (reject_if (invalid_identity (cf_namespace cfg) 63 True) ''CNPG_CLUSTER_NAMESPACE''
          ''must be a bounded non-empty identifier'') (\<lambda>_.
        bind_config (reject_if (invalid_identity (cf_uid cfg) 128 True) ''CNPG_CLUSTER_UID''
          ''must be a bounded non-empty identifier'') (\<lambda>_.
        bind_config (reject_if (invalid_identity (cf_cluster_name cfg) 253 False) ''CNPG_CLUSTER_NAME''
          ''must be a bounded identifier or empty'') (\<lambda>_. Inr cfg))))))))"

section \<open>Credentials\<close>

definition set_credentials :: "(credentials \<Rightarrow> credentials) \<Rightarrow> config \<Rightarrow> config" where
  "set_credentials f cfg = cfg\<lparr>cf_credentials := f (cf_credentials cfg)\<rparr>"

definition load_static_files :: "config_env \<Rightarrow> config \<Rightarrow> config_error + config" where
  "load_static_files env cfg =
     (let access_path = en_getenv env ''AWS_ACCESS_KEY_ID_FILE'';
          secret_path = en_getenv env ''AWS_SECRET_ACCESS_KEY_FILE'';
          token_path = en_getenv env ''AWS_SESSION_TOKEN_FILE'' in
      if access_path = [] then Inr (set_credentials (cd_mode_update (\<lambda>_. CredentialAmbient)) cfg)
      else
        bind_config (read_bounded_file env ''AWS_ACCESS_KEY_ID_FILE'' access_path maxSecretFileBytes True) (\<lambda>access.
        bind_config (read_bounded_file env ''AWS_SECRET_ACCESS_KEY_FILE'' secret_path maxSecretFileBytes True) (\<lambda>secret.
        let cfg = set_credentials (\<lambda>d. d\<lparr>cd_mode := CredentialStaticFiles, cd_access_key := Secret access,
                cd_secret_key := Secret secret\<rparr>) cfg in
        if token_path \<noteq> []
        then bind_config (read_bounded_file env ''AWS_SESSION_TOKEN_FILE'' token_path maxSecretFileBytes True)
          (\<lambda>token. Inr (set_credentials (\<lambda>d. d\<lparr>cd_session_token := Secret token\<rparr>) cfg))
        else Inr cfg)))"

definition load_web_identity :: "config_env \<Rightarrow> config \<Rightarrow> config_error + config" where
  "load_web_identity env cfg =
     (let path = en_getenv env ''AWS_WEB_IDENTITY_TOKEN_FILE''; role = en_getenv env ''AWS_ROLE_ARN'' in
      bind_config (reject_if (en_getenv env ''AWS_ACCESS_KEY_ID_FILE'' \<noteq> []
            \<or> en_getenv env ''AWS_SECRET_ACCESS_KEY_FILE'' \<noteq> [] \<or> en_getenv env ''AWS_SESSION_TOKEN_FILE'' \<noteq> [])
          ''STORE_CREDENTIAL_MODE'' ''aws-web-identity cannot use static credential files'') (\<lambda>_.
      bind_config (reject_if (\<not> valid_absolute_path path) ''AWS_WEB_IDENTITY_TOKEN_FILE''
          ''must be an absolute clean path'') (\<lambda>_.
      bind_config (reject_if (\<not> valid_aws_role_arn role) ''AWS_ROLE_ARN'' ''must be a bounded AWS role ARN'') (\<lambda>_.
      bind_config (reject_if (cd_region (cf_credentials cfg) = []) ''AWS_REGION'' ''required with aws-web-identity'') (\<lambda>_.
      Inr (set_credentials (\<lambda>d. d\<lparr>cd_mode := CredentialAWSWebIdentity, cd_web_identity_file := path,
             cd_role_arn := role\<rparr>) cfg))))))"

definition load_s3_credentials :: "config_env \<Rightarrow> config \<Rightarrow> config_error + config" where
  "load_s3_credentials env cfg =
     (let access_path = en_getenv env ''AWS_ACCESS_KEY_ID_FILE'';
          secret_path = en_getenv env ''AWS_SECRET_ACCESS_KEY_FILE'';
          token_path = en_getenv env ''AWS_SESSION_TOKEN_FILE'';
          region = en_getenv env ''AWS_REGION'' in
      bind_config (reject_if ((access_path = []) \<noteq> (secret_path = [])) ''AWS_ACCESS_KEY_ID_FILE''
          ''access-key and secret-key files must be configured together'') (\<lambda>_.
      bind_config (reject_if (token_path \<noteq> [] \<and> access_path = []) ''AWS_SESSION_TOKEN_FILE''
          ''requires access-key and secret-key files'') (\<lambda>_.
      let cfg = set_credentials (\<lambda>d. d\<lparr>cd_region := region\<rparr>) cfg in
      bind_config (reject_if (128 < length region \<or> has_control region) ''AWS_REGION''
          ''must be at most 128 characters without control characters'') (\<lambda>_.
      if cf_runtime cfg = RuntimePGConsoleSidecar
      then let mode = en_getenv env ''STORE_CREDENTIAL_MODE'' in
        if mode = ''static-files''
        then bind_config (reject_if (access_path = [] \<or> en_getenv env ''AWS_WEB_IDENTITY_TOKEN_FILE'' \<noteq> []
                \<or> en_getenv env ''AWS_ROLE_ARN'' \<noteq> []) ''STORE_CREDENTIAL_MODE''
                ''static-files requires only the static credential files'') (\<lambda>_. load_static_files env cfg)
        else if mode = ''aws-web-identity'' then load_web_identity env cfg
        else config_fail ''STORE_CREDENTIAL_MODE'' ''must be static-files or aws-web-identity''
      else load_static_files env cfg))))"

definition load_azure_credentials :: "config_env \<Rightarrow> config \<Rightarrow> config_error + config" where
  "load_azure_credentials env cfg =
     (let connection_path = en_getenv env ''AZURE_STORAGE_CONNECTION_STRING_FILE'';
          account = en_getenv env ''AZURE_STORAGE_ACCOUNT'';
          key_path = en_getenv env ''AZURE_STORAGE_ACCOUNT_KEY_FILE'';
          sas_path = en_getenv env ''AZURE_STORAGE_SAS_TOKEN_FILE'' in
      bind_config (reject_if (256 < length account \<or> has_control account) ''AZURE_STORAGE_ACCOUNT''
          ''must be at most 256 characters without control characters'') (\<lambda>_.
      if connection_path \<noteq> [] then
        bind_config (reject_if (account \<noteq> [] \<or> key_path \<noteq> [] \<or> sas_path \<noteq> [])
          ''AZURE_STORAGE_CONNECTION_STRING_FILE'' ''cannot be combined with account credentials'') (\<lambda>_.
        bind_config (read_bounded_file env ''AZURE_STORAGE_CONNECTION_STRING_FILE'' connection_path
          maxSecretFileBytes True) (\<lambda>v.
        Inr (set_credentials (\<lambda>d. d\<lparr>cd_mode := CredentialConnectionFile, cd_azure_connection := Secret v\<rparr>) cfg)))
      else
        bind_config (reject_if (key_path \<noteq> [] \<and> sas_path \<noteq> []) ''AZURE_STORAGE_ACCOUNT_KEY_FILE''
          ''account-key and SAS-token files are mutually exclusive'') (\<lambda>_.
        bind_config (reject_if ((key_path \<noteq> [] \<or> sas_path \<noteq> []) \<and> account = []) ''AZURE_STORAGE_ACCOUNT''
          ''required with account-key or SAS-token file'') (\<lambda>_.
        let cfg = set_credentials (\<lambda>d. d\<lparr>cd_azure_account := account\<rparr>) cfg in
        if key_path = [] \<and> sas_path = []
        then Inr (set_credentials (\<lambda>d. d\<lparr>cd_mode := CredentialAmbient\<rparr>) cfg)
        else if key_path \<noteq> []
        then bind_config (read_bounded_file env ''AZURE_STORAGE_ACCOUNT_KEY_FILE'' key_path maxSecretFileBytes True)
          (\<lambda>v. Inr (set_credentials (\<lambda>d. d\<lparr>cd_mode := CredentialAccountKeyFile, cd_azure_key := Secret v\<rparr>) cfg))
        else bind_config (read_bounded_file env ''AZURE_STORAGE_SAS_TOKEN_FILE'' sas_path maxSecretFileBytes True)
          (\<lambda>v. Inr (set_credentials (\<lambda>d. d\<lparr>cd_mode := CredentialSASTokenFile, cd_azure_sas := Secret v\<rparr>) cfg))))))"

definition load_gcs_credentials :: "config_env \<Rightarrow> config \<Rightarrow> config_error + config" where
  "load_gcs_credentials env cfg =
     (let path = en_getenv env ''GOOGLE_APPLICATION_CREDENTIALS'' in
      if path = [] then Inr (set_credentials (\<lambda>d. d\<lparr>cd_mode := CredentialAmbient\<rparr>) cfg)
      else
        bind_config (read_bounded_file env ''GOOGLE_APPLICATION_CREDENTIALS'' path maxConfigFileBytes True) (\<lambda>v.
        bind_config (reject_if (\<not> en_json_valid env v) ''GOOGLE_APPLICATION_CREDENTIALS''
          ''must contain valid JSON'') (\<lambda>_.
        Inr (set_credentials (\<lambda>d. d\<lparr>cd_mode := CredentialJSONFile, cd_google_json := Secret v\<rparr>) cfg))))"

fun provider_files :: "provider \<Rightarrow> string list" where
  "provider_files ProviderS3 =
     [''AWS_ACCESS_KEY_ID_FILE'', ''AWS_SECRET_ACCESS_KEY_FILE'', ''AWS_SESSION_TOKEN_FILE'',
      ''AWS_WEB_IDENTITY_TOKEN_FILE'', ''AWS_ROLE_ARN'']"
| "provider_files ProviderAzure =
     [''AZURE_STORAGE_CONNECTION_STRING_FILE'', ''AZURE_STORAGE_ACCOUNT_KEY_FILE'', ''AZURE_STORAGE_SAS_TOKEN_FILE'']"
| "provider_files ProviderGCS = [''GOOGLE_APPLICATION_CREDENTIALS'']"

definition load_credentials :: "config_env \<Rightarrow> config \<Rightarrow> config_error + config" where
  "load_credentials env cfg =
     bind_config (reject_if (en_getenv env ''AWS_ACCESS_KEY_ID'' \<noteq> [] \<or> en_getenv env ''AWS_SECRET_ACCESS_KEY'' \<noteq> []
          \<or> en_getenv env ''AWS_SESSION_TOKEN'' \<noteq> []) ''AWS_ACCESS_KEY_ID''
          ''direct static credentials are prohibited; use credential files or workload identity'') (\<lambda>_.
     case first_set env (concat (map provider_files
            (filter (\<lambda>p. p \<noteq> cf_provider cfg) (en_provider_order env)))) of
       Some v \<Rightarrow> config_fail v ''does not apply to selected provider''
     | None \<Rightarrow>
         (case cf_provider cfg of
            ProviderS3 \<Rightarrow> load_s3_credentials env cfg
          | ProviderAzure \<Rightarrow> load_azure_credentials env cfg
          | ProviderGCS \<Rightarrow> load_gcs_credentials env cfg))"

section \<open>Loading\<close>

definition seconds :: "int \<Rightarrow> int" where "seconds n = n * nanoseconds"

definition initial_config :: "runtime_mode \<Rightarrow> config" where
  "initial_config mode =
     \<lparr>cf_runtime = mode, cf_format = FormatBarmanCloud, cf_provider = ProviderS3, cf_destination = None,
      cf_endpoint = None, cf_ca_bundle = [], cf_servers = [], cf_stanzas = [], cf_cipher = no_secret,
      cf_listen_addr = (if mode = RuntimeStandalone then '':3000'' else []),
      cf_user_header = (if mode = RuntimeStandalone then ''X-Forwarded-User'' else []),
      cf_allow_download = False, cf_token_file = [], cf_namespace = [], cf_uid = [], cf_cluster_name = [],
      cf_refresh_interval = seconds 300, cf_request_timeout = seconds 10, cf_concurrency = 4,
      cf_max_objects = 1000000, cf_page_size = 200, cf_retention_policy = [], cf_minimum_redundancy = None,
      cf_credentials = no_credentials\<rparr>"

text \<open>
  The repository: format, provider, destination and the S3 endpoint. The format and the
  provider of the zero configuration are empty strings, which this first stage overwrites.
\<close>

definition load_repository :: "config_env \<Rightarrow> config \<Rightarrow> config_error + config" where
  "load_repository env cfg =
     bind_config (parse_format (en_getenv env ''REPOSITORY_FORMAT'')) (\<lambda>format.
     bind_config (parse_provider (en_getenv env ''PROVIDER'')) (\<lambda>provider.
     bind_config (parse_destination env provider (en_getenv env ''DESTINATION_PATH'')) (\<lambda>destination.
     Inr (cfg\<lparr>cf_format := format, cf_provider := provider, cf_destination := Some destination\<rparr>))))"

definition load_endpoint :: "config_env \<Rightarrow> config \<Rightarrow> config_error + config" where
  "load_endpoint env cfg =
     (let raw = en_getenv env ''ENDPOINT_URL'' in
      if raw = [] then Inr cfg
      else bind_config (reject_if (cf_provider cfg \<noteq> ProviderS3) ''ENDPOINT_URL'' ''supported only for s3'') (\<lambda>_.
        bind_config (parse_endpoint env raw) (\<lambda>u. Inr (cfg\<lparr>cf_endpoint := Some u\<rparr>))))"

definition load_ca_bundle :: "config_env \<Rightarrow> config \<Rightarrow> config_error + config" where
  "load_ca_bundle env cfg =
     (let path = en_getenv env ''ENDPOINT_CA_FILE'' in
      if path = [] then Inr cfg
      else bind_config (reject_if (cf_provider cfg \<noteq> ProviderS3) ''ENDPOINT_CA_FILE'' ''supported only for s3'') (\<lambda>_.
        bind_config (read_bounded_file env ''ENDPOINT_CA_FILE'' path maxConfigFileBytes False) (\<lambda>v.
        bind_config (reject_if (\<not> en_has_certificate env v) ''ENDPOINT_CA_FILE''
          ''must contain at least one PEM certificate'') (\<lambda>_. Inr (cfg\<lparr>cf_ca_bundle := v\<rparr>)))))"

definition load_listener :: "config_env \<Rightarrow> config \<Rightarrow> config_error + config" where
  "load_listener env cfg =
     (if cf_runtime cfg = RuntimePGConsoleSidecar
      then bind_config (reject_if (en_lookup env ''LISTEN_ADDR'' \<noteq> None) ''LISTEN_ADDR''
             ''does not apply to pgconsole-sidecar'') (\<lambda>_.
           bind_config (reject_if (en_lookup env ''TRUSTED_USER_HEADER'' \<noteq> None) ''TRUSTED_USER_HEADER''
             ''does not apply to pgconsole-sidecar'') (\<lambda>_. Inr cfg))
      else let raw = en_getenv env ''LISTEN_ADDR'';
               cfg = (if raw \<noteq> [] then cfg\<lparr>cf_listen_addr := raw\<rparr> else cfg) in
           bind_config (validate_listen_addr (cf_listen_addr cfg)) (\<lambda>_.
           let cfg = (case en_lookup env ''TRUSTED_USER_HEADER'' of None \<Rightarrow> cfg
                      | Some h \<Rightarrow> cfg\<lparr>cf_user_header := h\<rparr>) in
           bind_config (reject_if (cf_user_header cfg \<noteq> [] \<and> \<not> valid_header_name (cf_user_header cfg))
             ''TRUSTED_USER_HEADER'' ''must be an HTTP field name or empty'') (\<lambda>_. Inr cfg)))"

definition load_limits :: "config_env \<Rightarrow> config \<Rightarrow> config_error + config" where
  "load_limits env cfg =
     bind_config (parse_bool (en_getenv env ''ALLOW_DOWNLOAD'') False ''ALLOW_DOWNLOAD'') (\<lambda>allow.
     bind_config (reject_if (cf_runtime cfg = RuntimePGConsoleSidecar \<and> allow) ''ALLOW_DOWNLOAD''
       ''must be false in pgconsole-sidecar'') (\<lambda>_.
     bind_config (parse_duration env (en_getenv env ''CATALOG_REFRESH_INTERVAL'') (seconds 300) (seconds 30)
       (seconds 86400) ''CATALOG_REFRESH_INTERVAL'') (\<lambda>refresh.
     bind_config (parse_duration env (en_getenv env ''STORE_REQUEST_TIMEOUT'') (seconds 10) (seconds 1)
       (seconds 300) ''STORE_REQUEST_TIMEOUT'') (\<lambda>timeout.
     bind_config (parse_int (en_getenv env ''SCAN_CONCURRENCY'') 4 1 64 ''SCAN_CONCURRENCY'') (\<lambda>concurrency.
     bind_config (parse_int (en_getenv env ''MAX_OBJECTS_PER_SCAN'') 1000000 1000 10000000
       ''MAX_OBJECTS_PER_SCAN'') (\<lambda>objects.
     bind_config (parse_int (en_getenv env ''WAL_PAGE_SIZE'') 200 1 1000 ''WAL_PAGE_SIZE'') (\<lambda>pages.
     Inr (cfg\<lparr>cf_allow_download := allow, cf_refresh_interval := refresh, cf_request_timeout := timeout,
       cf_concurrency := concurrency, cf_max_objects := objects, cf_page_size := pages\<rparr>))))))))"

definition load_expectations :: "config_env \<Rightarrow> config \<Rightarrow> config_error + config" where
  "load_expectations env cfg =
     (let policy = en_getenv env ''EXPECTED_RETENTION_POLICY'';
          raw = en_getenv env ''EXPECTED_MINIMUM_REDUNDANCY'' in
      bind_config (reject_if (256 < length policy \<or> has_control policy) ''EXPECTED_RETENTION_POLICY''
        ''must be at most 256 characters without control characters'') (\<lambda>_.
      let cfg = cfg\<lparr>cf_retention_policy := policy\<rparr> in
      if raw = [] then Inr cfg
      else bind_config (parse_int raw 0 0 100000 ''EXPECTED_MINIMUM_REDUNDANCY'')
        (\<lambda>v. Inr (cfg\<lparr>cf_minimum_redundancy := Some v\<rparr>))))"

definition load_config :: "config_env \<Rightarrow> config_error + config" where
  "load_config env =
     bind_config (parse_runtime_mode (en_getenv env ''RUNTIME_MODE'')) (\<lambda>mode.
     bind_config (load_repository env (initial_config mode)) (\<lambda>cfg.
     bind_config (load_endpoint env cfg) (\<lambda>cfg.
     bind_config (load_ca_bundle env cfg) (\<lambda>cfg.
     bind_config (load_listener env cfg) (\<lambda>cfg.
     bind_config (load_limits env cfg) (\<lambda>cfg.
     bind_config (load_expectations env cfg) (\<lambda>cfg.
     bind_config (load_format_config env cfg) (\<lambda>cfg.
     bind_config (load_runtime_config env cfg) (\<lambda>cfg.
     load_credentials env cfg)))))))))"

text \<open>\<open>Load\<close> looks a variable up with the function that reads it; \<open>LoadOS\<close> uses the process.\<close>

definition load_injected :: "config_env \<Rightarrow> config_error + config" where
  "load_injected env =
     load_config (env\<lparr>en_lookup := (\<lambda>k. if en_getenv env k = [] then None else Some (en_getenv env k))\<rparr>)"

section \<open>Reading the stages\<close>

lemma bind_config_Inr: "bind_config r f = Inr y \<longleftrightarrow> (\<exists>x. r = Inr x \<and> f x = Inr y)"
  by (cases r) (simp_all add: bind_config_def)

lemma bind_config_Inl: "bind_config r f = Inl e \<longleftrightarrow> r = Inl e \<or> (\<exists>x. r = Inr x \<and> f x = Inl e)"
  by (cases r) (simp_all add: bind_config_def)

lemma reject_if_Inr [simp]: "reject_if bad v c = Inr u \<longleftrightarrow> \<not> bad"
  by (simp add: reject_if_def config_fail_def)

lemma reject_if_Inl: "reject_if bad v c = Inl e \<longleftrightarrow> bad \<and> config_fail v c = (Inl e :: config_error + unit)"
  by (simp add: reject_if_def)

lemma config_fail_Inr [simp]: "config_fail v c \<noteq> Inr x"
  by (simp add: config_fail_def)

lemma config_fail_Inl: "config_fail v c = Inl e \<longleftrightarrow> e = \<lparr>ce_variable = v, ce_code = c\<rparr>"
  by (auto simp: config_fail_def)

lemmas config_stages = bind_config_Inr

section \<open>Errors name a variable and a fixed text\<close>

definition file_variables :: "string list" where
  "file_variables =
     [''ENDPOINT_CA_FILE'', ''PGBACKREST_CIPHER_PASS_FILE'', ''AWS_ACCESS_KEY_ID_FILE'',
      ''AWS_SECRET_ACCESS_KEY_FILE'', ''AWS_SESSION_TOKEN_FILE'', ''AZURE_STORAGE_CONNECTION_STRING_FILE'',
      ''AZURE_STORAGE_ACCOUNT_KEY_FILE'', ''AZURE_STORAGE_SAS_TOKEN_FILE'', ''GOOGLE_APPLICATION_CREDENTIALS'']"

definition file_codes :: "string list" where
  "file_codes = [''file cannot be opened'', ''file cannot be read'', ''file exceeds the size limit'', ''file is empty'']"

definition name_codes :: "string list" where
  "name_codes = [''contains an invalid scope name'', ''contains too many scope names'']"

text \<open>Every error the loader can return: the variable and the code, none of which depends on a value.\<close>

definition repository_errors :: "(string \<times> string) list" where
  "repository_errors =
     [(''RUNTIME_MODE'', ''must be pgconsole-sidecar or empty''),
      (''REPOSITORY_FORMAT'', ''must be barman-cloud or pgbackrest''),
      (''PROVIDER'', ''must be s3, azure, or gcs''),
      (''DESTINATION_PATH'', ''required''),
      (''DESTINATION_PATH'', ''must be a credential-free object-store URI''),
      (''DESTINATION_PATH'', ''scheme does not match PROVIDER''),
      (''DESTINATION_PATH'', ''contains an invalid prefix''),
      (''ENDPOINT_URL'', ''supported only for s3''),
      (''ENDPOINT_URL'', ''must be a credential-free http or https origin''),
      (''ENDPOINT_CA_FILE'', ''supported only for s3''),
      (''ENDPOINT_CA_FILE'', ''must contain at least one PEM certificate'')]"

definition surface_errors :: "(string \<times> string) list" where
  "surface_errors =
     [(''LISTEN_ADDR'', ''does not apply to pgconsole-sidecar''),
      (''LISTEN_ADDR'', ''must be host:port''),
      (''LISTEN_ADDR'', ''port must be between 1 and 65535''),
      (''TRUSTED_USER_HEADER'', ''does not apply to pgconsole-sidecar''),
      (''TRUSTED_USER_HEADER'', ''must be an HTTP field name or empty''),
      (''ALLOW_DOWNLOAD'', ''must be true or false''),
      (''ALLOW_DOWNLOAD'', ''must be false in pgconsole-sidecar''),
      (''EXPECTED_RETENTION_POLICY'', ''must be at most 256 characters without control characters''),
      (''PGBACKREST_STANZAS'', ''does not apply to barman-cloud''),
      (''PGBACKREST_CIPHER_PASS_FILE'', ''does not apply to barman-cloud''),
      (''BARMAN_SERVER_NAMES'', ''does not apply to pgbackrest''),
      (''REPOSITORY_FORMAT'', ''pgconsole-sidecar requires barman-cloud''),
      (''PROVIDER'', ''pgconsole-sidecar requires s3''),
      (''BARMAN_SERVER_NAMES'', ''pgconsole-sidecar requires exactly one server''),
      (''EVIDENCE_TOKEN_FILE'', ''must be an absolute clean path''),
      (''CNPG_CLUSTER_NAMESPACE'', ''must be a bounded non-empty identifier''),
      (''CNPG_CLUSTER_UID'', ''must be a bounded non-empty identifier''),
      (''CNPG_CLUSTER_NAME'', ''must be a bounded identifier or empty'')]"

definition limit_errors :: "(string \<times> string) list" where
  "limit_errors =
     [(''CATALOG_REFRESH_INTERVAL'',
         ''must be between '' @ duration_text (seconds 30) @ '' and '' @ duration_text (seconds 86400)),
      (''STORE_REQUEST_TIMEOUT'',
         ''must be between '' @ duration_text (seconds 1) @ '' and '' @ duration_text (seconds 300)),
      (''SCAN_CONCURRENCY'', ''must be between '' @ decimal_text 1 @ '' and '' @ decimal_text 64),
      (''MAX_OBJECTS_PER_SCAN'', ''must be between '' @ decimal_text 1000 @ '' and '' @ decimal_text 10000000),
      (''WAL_PAGE_SIZE'', ''must be between '' @ decimal_text 1 @ '' and '' @ decimal_text 1000),
      (''EXPECTED_MINIMUM_REDUNDANCY'', ''must be between '' @ decimal_text 0 @ '' and '' @ decimal_text 100000)]"

definition credential_errors :: "(string \<times> string) list" where
  "credential_errors =
     [(''AWS_ACCESS_KEY_ID'', ''direct static credentials are prohibited; use credential files or workload identity''),
      (''AWS_ACCESS_KEY_ID_FILE'', ''access-key and secret-key files must be configured together''),
      (''AWS_SESSION_TOKEN_FILE'', ''requires access-key and secret-key files''),
      (''AWS_REGION'', ''must be at most 128 characters without control characters''),
      (''AWS_REGION'', ''required with aws-web-identity''),
      (''STORE_CREDENTIAL_MODE'', ''static-files requires only the static credential files''),
      (''STORE_CREDENTIAL_MODE'', ''aws-web-identity cannot use static credential files''),
      (''STORE_CREDENTIAL_MODE'', ''must be static-files or aws-web-identity''),
      (''AWS_WEB_IDENTITY_TOKEN_FILE'', ''must be an absolute clean path''),
      (''AWS_ROLE_ARN'', ''must be a bounded AWS role ARN''),
      (''AZURE_STORAGE_ACCOUNT'', ''must be at most 256 characters without control characters''),
      (''AZURE_STORAGE_CONNECTION_STRING_FILE'', ''cannot be combined with account credentials''),
      (''AZURE_STORAGE_ACCOUNT_KEY_FILE'', ''account-key and SAS-token files are mutually exclusive''),
      (''AZURE_STORAGE_ACCOUNT'', ''required with account-key or SAS-token file''),
      (''GOOGLE_APPLICATION_CREDENTIALS'', ''must contain valid JSON'')]"

definition scope_variables :: "string list" where
  "scope_variables = [''BARMAN_SERVER_NAMES'', ''PGBACKREST_STANZAS'']"

definition provider_variables :: "string list" where
  "provider_variables = concat (map provider_files [ProviderS3, ProviderAzure, ProviderGCS])"

definition config_errors :: "(string \<times> string) list" where
  "config_errors =
     repository_errors @ surface_errors @ limit_errors @ credential_errors
     @ List.product file_variables file_codes
     @ List.product scope_variables name_codes
     @ List.product sidecar_variables [''requires pgconsole-sidecar'']
     @ List.product provider_variables [''does not apply to selected provider'']"

definition listed_error :: "config_error \<Rightarrow> bool" where
  "listed_error e \<longleftrightarrow> (ce_variable e, ce_code e) \<in> set config_errors"

text \<open>A result is redacted when its error, if it is one, is listed.\<close>

definition redacted :: "config_error + 'a \<Rightarrow> bool" where
  "redacted r \<longleftrightarrow> (\<forall>e. r = Inl e \<longrightarrow> listed_error e)"

lemma redacted_Inr: "redacted (Inr x)"
  by (simp add: redacted_def)

lemma redacted_bind:
  "redacted r \<Longrightarrow> (\<And>x. redacted (f x)) \<Longrightarrow> redacted (bind_config r f)"
  by (auto simp: redacted_def bind_config_Inl)

lemma redacted_if: "(c \<Longrightarrow> redacted a) \<Longrightarrow> (\<not> c \<Longrightarrow> redacted b) \<Longrightarrow> redacted (if c then a else b)"
  by simp

lemma redacted_let: "redacted (f x) \<Longrightarrow> redacted (let y = x in f y)"
  by simp

lemma redacted_option:
  "redacted a \<Longrightarrow> (\<And>x. redacted (f x)) \<Longrightarrow> redacted (case r of None \<Rightarrow> a | Some x \<Rightarrow> f x)"
  by (cases r) simp_all

lemmas redacted_intros = redacted_Inr redacted_bind redacted_if redacted_let redacted_option

lemma redacted_fail: "(v, c) \<in> set config_errors \<Longrightarrow> redacted (config_fail v c)"
  by (simp add: redacted_def listed_error_def config_fail_Inl)

lemma redacted_reject: "redacted (config_fail v c :: config_error + unit) \<Longrightarrow> redacted (reject_if bad v c)"
  by (simp add: reject_if_def redacted_Inr)

lemma listed_groups:
  "set repository_errors \<subseteq> set config_errors" "set surface_errors \<subseteq> set config_errors"
  "set limit_errors \<subseteq> set config_errors" "set credential_errors \<subseteq> set config_errors"
  by (auto simp: config_errors_def)

lemmas redacted_repository = redacted_fail [OF subsetD [OF listed_groups(1)]]
lemmas redacted_surface = redacted_fail [OF subsetD [OF listed_groups(2)]]
lemmas redacted_limit = redacted_fail [OF subsetD [OF listed_groups(3)]]
lemmas redacted_credential = redacted_fail [OF subsetD [OF listed_groups(4)]]

lemma redacted_file: "v \<in> set file_variables \<Longrightarrow> c \<in> set file_codes \<Longrightarrow> redacted (config_fail v c)"
  by (rule redacted_fail) (simp add: config_errors_def mem_Times_iff image_iff)

lemma redacted_names:
  "v \<in> set scope_variables \<Longrightarrow> c \<in> set name_codes \<Longrightarrow>
     redacted (config_fail v c)"
  by (rule redacted_fail) (simp add: config_errors_def mem_Times_iff image_iff)

lemma redacted_sidecar: "v \<in> set sidecar_variables \<Longrightarrow> redacted (config_fail v ''requires pgconsole-sidecar'')"
  by (rule redacted_fail) (simp add: config_errors_def mem_Times_iff image_iff)

lemma provider_files_listed: "set (provider_files p) \<subseteq> set provider_variables"
  by (cases p) (auto simp: provider_variables_def)

lemma redacted_provider:
  "v \<in> set (provider_files p) \<Longrightarrow> redacted (config_fail v ''does not apply to selected provider'')"
  using provider_files_listed by (intro redacted_fail) (auto simp: config_errors_def)

lemma redacted_read_file:
  assumes "v \<in> set file_variables"
  shows "redacted (read_bounded_file env v path n trim)"
  unfolding read_bounded_file_def using redacted_file [OF assms]
  by (auto simp: Let_def file_codes_def redacted_Inr split: opened.split)

lemma redacted_collect_names:
  "v \<in> set scope_variables \<Longrightarrow> redacted (collect_names v seen items)"
  by (induction v seen items rule: collect_names.induct)
    (auto simp: Let_def redacted_Inr intro!: redacted_names simp: name_codes_def)

lemma redacted_parse_names:
  "v \<in> set scope_variables \<Longrightarrow> redacted (parse_names v raw)"
  unfolding parse_names_def by (intro redacted_intros redacted_collect_names)

lemma redacted_parse_duration:
  "redacted (config_fail v (''must be between '' @ duration_text lo @ '' and '' @ duration_text hi) :: config_error + int)
     \<Longrightarrow> redacted (parse_duration env raw fallback lo hi v)"
  unfolding parse_duration_def Let_def by (intro redacted_intros)

lemma redacted_parse_int:
  "redacted (config_fail v (''must be between '' @ decimal_text lo @ '' and '' @ decimal_text hi) :: config_error + int)
     \<Longrightarrow> redacted (parse_int raw fallback lo hi v)"
  unfolding parse_int_def Let_def by (intro redacted_intros)

lemma first_set_Some: "first_set env vs = Some v \<Longrightarrow> v \<in> set vs \<and> en_getenv env v \<noteq> []"
  by (auto simp: first_set_def find_Some_iff)

lemma first_set_None: "first_set env vs = None \<longleftrightarrow> (\<forall>v\<in>set vs. en_getenv env v = [])"
  by (auto simp: first_set_def find_None_iff)

section \<open>Every stage is redacted\<close>

lemma redacted_parsers:
  "redacted (parse_runtime_mode raw)" "redacted (parse_format raw)" "redacted (parse_provider raw)"
  "redacted (parse_destination env p raw)" "redacted (parse_endpoint env raw)"
  unfolding parse_runtime_mode_def parse_format_def parse_provider_def parse_destination_def parse_endpoint_def
  by (intro redacted_intros redacted_repository; simp add: repository_errors_def)+

lemma redacted_load_repository: "redacted (load_repository env cfg)"
  unfolding load_repository_def by (intro redacted_intros redacted_parsers)

lemma redacted_load_endpoint: "redacted (load_endpoint env cfg)"
  unfolding load_endpoint_def
  by (intro redacted_intros redacted_parsers redacted_reject redacted_repository) (simp add: repository_errors_def)

lemma redacted_load_ca_bundle: "redacted (load_ca_bundle env cfg)"
  unfolding load_ca_bundle_def
  by (intro redacted_intros redacted_read_file redacted_reject redacted_repository)
    (simp_all add: repository_errors_def file_variables_def)

lemma redacted_validate_listen_addr: "redacted (validate_listen_addr raw)"
  unfolding validate_listen_addr_def
  by (intro redacted_intros redacted_surface; simp add: surface_errors_def)

lemma redacted_load_listener: "redacted (load_listener env cfg)"
  unfolding load_listener_def
  by (intro redacted_intros redacted_validate_listen_addr redacted_reject redacted_surface)
    (simp_all add: surface_errors_def)

lemma redacted_parse_bool:
  "redacted (config_fail v ''must be true or false'' :: config_error + bool) \<Longrightarrow> redacted (parse_bool raw b v)"
  unfolding parse_bool_def by (intro redacted_intros)

lemma redacted_load_limits: "redacted (load_limits env cfg)"
  unfolding load_limits_def
  by (intro redacted_intros redacted_parse_bool redacted_parse_duration redacted_parse_int
      redacted_reject; (rule redacted_surface, (simp add: surface_errors_def; fail))?;
      (rule redacted_limit, (simp add: limit_errors_def; fail))?)

lemma redacted_load_expectations: "redacted (load_expectations env cfg)"
  unfolding load_expectations_def
  by (intro redacted_intros redacted_parse_int redacted_reject; (rule redacted_surface, (simp add: surface_errors_def; fail))?;
      (rule redacted_limit, (simp add: limit_errors_def; fail))?)

lemma redacted_load_format_config: "redacted (load_format_config env cfg)"
  unfolding load_format_config_def
  by (cases "cf_format cfg"; simp only: repository_format.case;
      intro redacted_intros redacted_parse_names redacted_read_file redacted_reject;
      (rule redacted_surface)?; simp add: surface_errors_def scope_variables_def file_variables_def)

lemma redacted_first_set:
  assumes "\<And>v. v \<in> set vs \<Longrightarrow> redacted (config_fail v c :: config_error + 'a)" and "redacted r"
  shows "redacted (case first_set env vs of None \<Rightarrow> r | Some v \<Rightarrow> (config_fail v c :: config_error + 'a))"
  using assms by (cases "first_set env vs") (auto dest!: first_set_Some)

lemma redacted_load_runtime_config: "redacted (load_runtime_config env cfg)"
  unfolding load_runtime_config_def
  by (rule redacted_if, rule redacted_first_set, rule redacted_sidecar, assumption,
      (intro redacted_intros redacted_reject; (rule redacted_surface, (simp add: surface_errors_def; fail))?)+)

lemma redacted_load_static_files: "redacted (load_static_files env cfg)"
  unfolding load_static_files_def
  by (intro redacted_intros redacted_read_file; simp add: file_variables_def)

lemma redacted_load_web_identity: "redacted (load_web_identity env cfg)"
  unfolding load_web_identity_def
  by (intro redacted_intros redacted_reject redacted_credential; simp add: credential_errors_def)

lemma redacted_load_s3_credentials: "redacted (load_s3_credentials env cfg)"
  unfolding load_s3_credentials_def
  by (intro redacted_intros redacted_load_static_files redacted_load_web_identity redacted_reject redacted_credential;
      simp add: credential_errors_def)

lemma redacted_load_azure_credentials: "redacted (load_azure_credentials env cfg)"
  unfolding load_azure_credentials_def
  by (intro redacted_intros redacted_read_file redacted_reject; (rule redacted_credential)?;
      simp add: credential_errors_def file_variables_def)

lemma redacted_load_gcs_credentials: "redacted (load_gcs_credentials env cfg)"
  unfolding load_gcs_credentials_def
  by (intro redacted_intros redacted_read_file redacted_reject; (rule redacted_credential)?;
      simp add: credential_errors_def file_variables_def)

lemma redacted_load_credentials: "redacted (load_credentials env cfg)"
proof -
  have provider: "redacted (case cf_provider cfg of
            ProviderS3 \<Rightarrow> load_s3_credentials env cfg
          | ProviderAzure \<Rightarrow> load_azure_credentials env cfg
          | ProviderGCS \<Rightarrow> load_gcs_credentials env cfg)"
    by (cases "cf_provider cfg")
      (simp_all add: redacted_load_s3_credentials redacted_load_azure_credentials redacted_load_gcs_credentials)
  have other: "redacted (config_fail v ''does not apply to selected provider'' :: config_error + config)"
    if "v \<in> set (concat (map provider_files ps))" for v ps
    using that by (auto intro: redacted_provider)
  show ?thesis unfolding load_credentials_def
    by (intro redacted_bind redacted_reject redacted_first_set provider; (erule other)?)
      (rule redacted_credential, simp add: credential_errors_def)
qed

lemma variables_named: "(v, c) \<in> set config_errors \<Longrightarrow> v \<noteq> []"
  by (auto simp: config_errors_def repository_errors_def surface_errors_def limit_errors_def credential_errors_def
      file_variables_def scope_variables_def sidecar_variables_def provider_variables_def)

text \<open>
  C31. No refusal of a configuration carries a value or a path of the environment: every error
  the loader returns is one of a fixed list of pairs of a variable name and a text, and its
  message is built from the two.
\<close>

theorem config_errors_redacted:
  assumes "load_config env = Inl e"
  shows "(ce_variable e, ce_code e) \<in> set config_errors
     \<and> error_text e = ''configuration invalid: '' @ ce_variable e @ '': '' @ ce_code e"
proof -
  have "redacted (load_config env)"
    unfolding load_config_def
    by (intro redacted_intros redacted_parsers redacted_load_repository redacted_load_endpoint
        redacted_load_ca_bundle redacted_load_listener redacted_load_limits redacted_load_expectations
        redacted_load_format_config redacted_load_runtime_config redacted_load_credentials)
  then have "listed_error e" using assms by (simp add: redacted_def)
  moreover from this have "ce_variable e \<noteq> []"
    using variables_named by (auto simp: listed_error_def)
  ultimately show ?thesis by (simp add: listed_error_def error_text_def)
qed

section \<open>An environment\<close>

definition ex_url :: url where
  "ex_url = \<lparr>ur_scheme = ''s3'', ur_opaque = [], ur_user = False, ur_host = ''backups'', ur_hostname = ''backups'',
     ur_port = [], ur_path = ''/pg'', ur_raw_path = [], ur_escaped_path = ''/pg'', ur_raw_query = [],
     ur_fragment = []\<rparr>"

definition ex_variables :: "(string \<times> string) list" where
  "ex_variables =
     [(''RUNTIME_MODE'', ''pgconsole-sidecar''), (''REPOSITORY_FORMAT'', ''barman-cloud''), (''PROVIDER'', ''s3''),
      (''DESTINATION_PATH'', ''s3://backups/pg''), (''BARMAN_SERVER_NAMES'', ''pg-1''),
      (''EVIDENCE_TOKEN_FILE'', ''/run/token''), (''CNPG_CLUSTER_NAMESPACE'', ''db''), (''CNPG_CLUSTER_UID'', ''u1''),
      (''STORE_CREDENTIAL_MODE'', ''static-files''), (''AWS_ACCESS_KEY_ID_FILE'', ''/id''),
      (''AWS_SECRET_ACCESS_KEY_FILE'', ''/key'')]"

definition ex_config_env :: "(string \<times> string) list \<Rightarrow> config_env" where
  "ex_config_env vs =
     \<lparr>en_getenv = (\<lambda>k. case map_of vs k of None \<Rightarrow> [] | Some v \<Rightarrow> v), en_lookup = map_of vs,
      en_parse_url = (\<lambda>u. Some ex_url), en_parse_duration = (\<lambda>d. None),
      en_read_file = (\<lambda>p. if p = ''/id'' then Content ''AKIA'' else if p = ''/key'' then Content ''secret'' else OpenFailed),
      en_json_valid = (\<lambda>d. False), en_has_certificate = (\<lambda>d. False),
      en_provider_order = [ProviderGCS, ProviderAzure, ProviderS3]\<rparr>"


lemma ex_leaves:
  "parse_names ''BARMAN_SERVER_NAMES'' ''pg-1'' = Inr [''pg-1'']"
  "valid_absolute_path ''/run/token''" 
  "\<not> invalid_identity ''db'' 63 True" "\<not> invalid_identity ''u1'' 128 True" "\<not> invalid_identity [] 253 False"
  "parse_destination (ex_config_env vs) ProviderS3 ''s3://backups/pg'' = Inr ex_url"
proof -
  show "parse_names ''BARMAN_SERVER_NAMES'' ''pg-1'' = Inr [''pg-1'']" by code_simp
  show "valid_absolute_path ''/run/token''" by code_simp
  show "\<not> invalid_identity ''db'' 63 True" by code_simp
  show "\<not> invalid_identity ''u1'' 128 True" by code_simp
  show "\<not> invalid_identity [] 253 False" by code_simp
  have "\<not> contains_str ''/pg'' ''//''" "\<not> has_control ''s3://backups/pg''" by code_simp+
  then show "parse_destination (ex_config_env vs) ProviderS3 ''s3://backups/pg'' = Inr ex_url"
   by (simp add: parse_destination_def ex_config_env_def ex_url_def)
qed

lemma ex_env_fields:
  "en_read_file (ex_config_env vs) ''/id'' = Content ''AKIA''" "en_read_file (ex_config_env vs) ''/key'' = Content ''secret''"
  "en_lookup (ex_config_env vs) = map_of vs" "en_provider_order (ex_config_env vs) = [ProviderGCS, ProviderAzure, ProviderS3]"
  by (simp_all add: ex_config_env_def)

lemma ex_getenv: "en_getenv (ex_config_env vs) k = (case map_of vs k of None \<Rightarrow> [] | Some v \<Rightarrow> v)"
  by (simp add: ex_config_env_def)

definition ex_config :: config where
  "ex_config = (initial_config RuntimePGConsoleSidecar)\<lparr>cf_destination := Some ex_url, cf_servers := [''pg-1''],
     cf_token_file := ''/run/token'', cf_namespace := ''db'', cf_uid := ''u1'',
     cf_credentials := no_credentials\<lparr>cd_mode := CredentialStaticFiles, cd_access_key := Secret ''AKIA'',
       cd_secret_key := Secret ''secret''\<rparr>\<rparr>"

lemma ex_config_read:
  "read_bounded_file (ex_config_env vs) v ''/id'' maxSecretFileBytes True = Inr ''AKIA''"
  "read_bounded_file (ex_config_env vs) v ''/key'' maxSecretFileBytes True = Inr ''secret''"
  by (simp_all add: read_bounded_file_def ex_env_fields maxSecretFileBytes_def trim_suffix_def has_suffix_def)

lemma ex_config_loads: "load_config (ex_config_env ex_variables) = Inr ex_config"
  by (simp add: load_config_def load_repository_def parse_runtime_mode_def load_endpoint_def load_ca_bundle_def load_listener_def
    load_limits_def load_expectations_def load_format_config_def load_runtime_config_def load_credentials_def
    load_s3_credentials_def load_static_files_def set_credentials_def first_set_def sidecar_variables_def
    parse_format_def parse_provider_def parse_bool_def parse_duration_def parse_int_def initial_config_def
    bind_config_def reject_if_def ex_leaves ex_env_fields ex_getenv ex_variables_def ex_config_read ex_config_def Let_def no_credentials_def
    parse_names_def [of "''PGBACKREST_STANZAS''"])

text \<open>A listen address in sidecar mode is refused.\<close>

lemma ex_config_refused:
  "load_config (ex_config_env ((''LISTEN_ADDR'', ''10.0.0.1:80'') # ex_variables))
     = Inl \<lparr>ce_variable = ''LISTEN_ADDR'', ce_code = ''does not apply to pgconsole-sidecar''\<rparr>"
  by (simp add: load_config_def load_repository_def parse_runtime_mode_def load_endpoint_def load_ca_bundle_def
      load_listener_def parse_format_def parse_provider_def initial_config_def bind_config_def reject_if_def
      config_fail_def ex_leaves ex_env_fields ex_getenv ex_variables_def Let_def)

lemma config_errors_redacted_witness:
  "(''LISTEN_ADDR'', ''does not apply to pgconsole-sidecar'') \<in> set config_errors"
  using config_errors_redacted [OF ex_config_refused] by simp

end
