(* ===== verification/Config_Contract.thy ===== *)
theory Config_Contract
  imports Configuration
begin

text \<open>
  What the loader of \<open>internal/config/config.go\<close> promises of a configuration it returns: the
  contract of each stage, and the composition of the stages.
\<close>

section \<open>What a loaded configuration promises\<close>

definition destination_ok :: "provider \<Rightarrow> url \<Rightarrow> bool" where
  "destination_ok p u \<longleftrightarrow> ur_scheme u = expected_scheme p \<and> ur_host u \<noteq> [] \<and> \<not> ur_user u
     \<and> ur_opaque u = [] \<and> ur_raw_query u = [] \<and> ur_fragment u = [] \<and> \<not> contains_str (ur_escaped_path u) ''//''"

definition endpoint_ok :: "url \<Rightarrow> bool" where
  "endpoint_ok u \<longleftrightarrow> (ur_scheme u = ''http'' \<or> ur_scheme u = ''https'') \<and> ur_host u \<noteq> [] \<and> \<not> ur_user u
     \<and> ur_opaque u = [] \<and> ur_raw_query u = [] \<and> ur_fragment u = [] \<and> ur_raw_path u = []
     \<and> (ur_path u = [] \<or> ur_path u = ''/'')"

definition names_ok :: "string list \<Rightarrow> bool" where
  "names_ok names \<longleftrightarrow> sorted names \<and> distinct names \<and> length names \<le> maxConfiguredScopes
     \<and> list_all (\<lambda>n. \<not> bad_scope_name n) names"

definition limits_ok :: "config \<Rightarrow> bool" where
  "limits_ok c \<longleftrightarrow> seconds 30 \<le> cf_refresh_interval c \<and> cf_refresh_interval c \<le> seconds 86400
     \<and> seconds 1 \<le> cf_request_timeout c \<and> cf_request_timeout c \<le> seconds 300
     \<and> 1 \<le> cf_concurrency c \<and> cf_concurrency c \<le> 64
     \<and> 1000 \<le> cf_max_objects c \<and> cf_max_objects c \<le> 10000000
     \<and> 1 \<le> cf_page_size c \<and> cf_page_size c \<le> 1000
     \<and> (cf_runtime c = RuntimePGConsoleSidecar \<longrightarrow> \<not> cf_allow_download c)"

definition expectations_ok :: "config \<Rightarrow> bool" where
  "expectations_ok c \<longleftrightarrow> length (cf_retention_policy c) \<le> 256 \<and> \<not> has_control (cf_retention_policy c)
     \<and> (\<forall>n. cf_minimum_redundancy c = Some n \<longrightarrow> 0 \<le> n \<and> n \<le> 100000)"

definition listener_ok :: "config \<Rightarrow> bool" where
  "listener_ok c \<longleftrightarrow> (case cf_runtime c of
       RuntimeStandalone \<Rightarrow> (\<exists>port v. split_port (cf_listen_addr c) = Some port \<and> parse_int64 port = Some v
          \<and> 1 \<le> v \<and> v \<le> 65535) \<and> (cf_user_header c = [] \<or> valid_header_name (cf_user_header c))
     | RuntimePGConsoleSidecar \<Rightarrow> cf_listen_addr c = [] \<and> cf_user_header c = [])"

text \<open>A secret that was read is not empty and within the limit of its file.\<close>

definition read_secret :: "secret \<Rightarrow> nat \<Rightarrow> bool" where
  "read_secret s n \<longleftrightarrow> secret_bytes s \<noteq> [] \<and> length (secret_bytes s) \<le> n"

definition scopes_ok :: "config \<Rightarrow> bool" where
  "scopes_ok c \<longleftrightarrow> names_ok (cf_servers c) \<and> names_ok (cf_stanzas c) \<and> (case cf_format c of
       FormatBarmanCloud \<Rightarrow> cf_stanzas c = [] \<and> cf_cipher c = no_secret
     | FormatPGBackRest \<Rightarrow> cf_servers c = []
         \<and> (cf_cipher c = no_secret \<or> read_secret (cf_cipher c) maxSecretFileBytes))"

fun mode_credentials :: "credential_mode \<Rightarrow> credentials \<Rightarrow> bool" where
  "mode_credentials CredentialUnset d = False"
| "mode_credentials CredentialAmbient d =
     (d = no_credentials\<lparr>cd_mode := CredentialAmbient, cd_region := cd_region d, cd_azure_account := cd_azure_account d\<rparr>)"
| "mode_credentials CredentialStaticFiles d =
     (read_secret (cd_access_key d) maxSecretFileBytes \<and> read_secret (cd_secret_key d) maxSecretFileBytes
      \<and> (cd_session_token d = no_secret \<or> read_secret (cd_session_token d) maxSecretFileBytes)
      \<and> d = no_credentials\<lparr>cd_mode := CredentialStaticFiles, cd_region := cd_region d, cd_access_key := cd_access_key d,
          cd_secret_key := cd_secret_key d, cd_session_token := cd_session_token d\<rparr>)"
| "mode_credentials CredentialAWSWebIdentity d =
     (valid_absolute_path (cd_web_identity_file d) \<and> valid_aws_role_arn (cd_role_arn d) \<and> cd_region d \<noteq> []
      \<and> d = no_credentials\<lparr>cd_mode := CredentialAWSWebIdentity, cd_region := cd_region d,
          cd_web_identity_file := cd_web_identity_file d, cd_role_arn := cd_role_arn d\<rparr>)"
| "mode_credentials CredentialConnectionFile d =
     (read_secret (cd_azure_connection d) maxSecretFileBytes
      \<and> d = no_credentials\<lparr>cd_mode := CredentialConnectionFile, cd_azure_connection := cd_azure_connection d\<rparr>)"
| "mode_credentials CredentialAccountKeyFile d =
     (cd_azure_account d \<noteq> [] \<and> read_secret (cd_azure_key d) maxSecretFileBytes
      \<and> d = no_credentials\<lparr>cd_mode := CredentialAccountKeyFile, cd_azure_account := cd_azure_account d,
          cd_azure_key := cd_azure_key d\<rparr>)"
| "mode_credentials CredentialSASTokenFile d =
     (cd_azure_account d \<noteq> [] \<and> read_secret (cd_azure_sas d) maxSecretFileBytes
      \<and> d = no_credentials\<lparr>cd_mode := CredentialSASTokenFile, cd_azure_account := cd_azure_account d,
          cd_azure_sas := cd_azure_sas d\<rparr>)"
| "mode_credentials CredentialJSONFile d =
     (read_secret (cd_google_json d) maxConfigFileBytes
      \<and> d = no_credentials\<lparr>cd_mode := CredentialJSONFile, cd_google_json := cd_google_json d\<rparr>)"

fun provider_modes :: "runtime_mode \<Rightarrow> provider \<Rightarrow> credential_mode set" where
  "provider_modes RuntimeStandalone ProviderS3 = {CredentialAmbient, CredentialStaticFiles}"
| "provider_modes RuntimePGConsoleSidecar ProviderS3 = {CredentialStaticFiles, CredentialAWSWebIdentity}"
| "provider_modes m ProviderAzure =
     {CredentialAmbient, CredentialConnectionFile, CredentialAccountKeyFile, CredentialSASTokenFile}"
| "provider_modes m ProviderGCS = {CredentialAmbient, CredentialJSONFile}"

definition credentials_ok :: "runtime_mode \<Rightarrow> provider \<Rightarrow> credentials \<Rightarrow> bool" where
  "credentials_ok m p d \<longleftrightarrow> cd_mode d \<in> provider_modes m p \<and> mode_credentials (cd_mode d) d
     \<and> length (cd_region d) \<le> 128 \<and> \<not> has_control (cd_region d) \<and> length (cd_azure_account d) \<le> 256
     \<and> \<not> has_control (cd_azure_account d) \<and> (p \<noteq> ProviderS3 \<longrightarrow> cd_region d = [])
     \<and> (p \<noteq> ProviderAzure \<longrightarrow> cd_azure_account d = [])"

definition config_ok :: "config \<Rightarrow> bool" where
  "config_ok c \<longleftrightarrow> (\<exists>u. cf_destination c = Some u \<and> destination_ok (cf_provider c) u)
     \<and> (\<forall>u. cf_endpoint c = Some u \<longrightarrow> cf_provider c = ProviderS3 \<and> endpoint_ok u)
     \<and> (cf_ca_bundle c \<noteq> [] \<longrightarrow> cf_provider c = ProviderS3 \<and> length (cf_ca_bundle c) \<le> maxConfigFileBytes)
     \<and> scopes_ok c \<and> listener_ok c \<and> limits_ok c \<and> expectations_ok c
     \<and> credentials_ok (cf_runtime c) (cf_provider c) (cf_credentials c)"

section \<open>The stages, one by one\<close>

lemma parse_destination_Inr: "parse_destination env p raw = Inr u \<Longrightarrow> destination_ok p u"
  by (auto simp: parse_destination_def destination_ok_def split: if_splits option.splits)

lemma parse_endpoint_Inr: "parse_endpoint env raw = Inr u \<Longrightarrow> endpoint_ok u"
  by (auto simp: parse_endpoint_def endpoint_ok_def split: if_splits option.splits)

lemma length_trim_suffix: "length (trim_suffix a b) \<le> length a"
  by (simp add: trim_suffix_def)

lemma read_bounded_file_Inr:
  assumes "read_bounded_file env v path n trim = Inr x"
  shows "x \<noteq> [] \<and> length x \<le> n"
proof -
  define trimmed where "trimmed = (\<lambda>w. if trim then trim_suffix (trim_suffix w [CHR 0x0A]) [CHR 0x0D] else w)"
  have len: "length (trimmed w) \<le> length w" for w
    unfolding trimmed_def
    using order_trans [OF length_trim_suffix length_trim_suffix, of w "[CHR 0x0A]" "[CHR 0x0D]"] by (cases trim) simp_all
  obtain data where "en_read_file env path = Content data"
    using assms by (auto simp: read_bounded_file_def split: opened.splits)
  with assms have "\<not> n < length (take (n + 1) data)" "x = trimmed (take (n + 1) data)" "x \<noteq> []"
    by (simp_all add: read_bounded_file_def Let_def trimmed_def split: if_split_asm)
  with len [of "take (n + 1) data"] show ?thesis by simp
qed

lemma read_secret_Inr: "read_bounded_file env v path n trim = Inr x \<Longrightarrow> read_secret (Secret x) n"
  using read_bounded_file_Inr by (auto simp: read_secret_def)

lemma collect_names_Inr:
  "collect_names v seen items = Inr names \<Longrightarrow> distinct seen \<Longrightarrow> list_all (\<lambda>n. \<not> bad_scope_name n) seen
     \<Longrightarrow> length seen \<le> maxConfiguredScopes \<Longrightarrow>
     distinct names \<and> list_all (\<lambda>n. \<not> bad_scope_name n) names \<and> length names \<le> maxConfiguredScopes"
  by (induction v seen items rule: collect_names.induct) (auto simp: Let_def not_less split: if_splits)

lemma parse_names_Inr:
  assumes "parse_names v raw = Inr names"
  shows "names_ok names"
proof (cases "raw = []")
  case True
  with assms show ?thesis by (simp add: parse_names_def names_ok_def)
next
  case False
  with assms obtain xs where "collect_names v [] (split_on (CHR '','') raw) = Inr xs" "names = sort xs"
    by (auto simp: parse_names_def bind_config_Inr)
  with collect_names_Inr [OF this(1)] show ?thesis
    by (simp add: names_ok_def list_all_iff)
qed

lemma parse_int_Inr:
  "parse_int raw d lo hi v = Inr x \<Longrightarrow> int lo \<le> d \<Longrightarrow> d \<le> int hi \<Longrightarrow> int lo \<le> x \<and> x \<le> int hi"
  by (auto simp: parse_int_def Let_def split: if_splits option.splits)

lemma parse_duration_Inr:
  "parse_duration env raw d lo hi v = Inr x \<Longrightarrow> lo \<le> d \<Longrightarrow> d \<le> hi \<Longrightarrow> lo \<le> x \<and> x \<le> hi"
  by (auto simp: parse_duration_def Let_def split: if_splits option.splits)


lemma load_repository_Inr:
  assumes "load_repository env c = Inr c'"
  shows "\<exists>f p u. c' = c\<lparr>cf_format := f, cf_provider := p, cf_destination := Some u\<rparr> \<and> destination_ok p u"
  using assms parse_destination_Inr by (fastforce simp: load_repository_def bind_config_Inr)

lemma load_endpoint_Inr:
  assumes "load_endpoint env c = Inr c'" "cf_endpoint c = None"
  shows "\<exists>u. c' = c\<lparr>cf_endpoint := u\<rparr> \<and> (\<forall>x. u = Some x \<longrightarrow> cf_provider c = ProviderS3 \<and> endpoint_ok x)"
proof (cases "en_getenv env ''ENDPOINT_URL'' = []")
  case True
  then have "c' = c\<lparr>cf_endpoint := None\<rparr>" using assms by (simp add: load_endpoint_def)
  then show ?thesis by blast
next
  case False
  with assms(1) obtain u where "cf_provider c = ProviderS3" "parse_endpoint env (en_getenv env ''ENDPOINT_URL'') = Inr u"
    "c' = c\<lparr>cf_endpoint := Some u\<rparr>" by (auto simp: load_endpoint_def Let_def bind_config_Inr)
  with parse_endpoint_Inr show ?thesis by blast
qed

lemma load_ca_bundle_Inr:
  assumes "load_ca_bundle env c = Inr c'" "cf_ca_bundle c = []"
  shows "\<exists>b. c' = c\<lparr>cf_ca_bundle := b\<rparr>
     \<and> (b \<noteq> [] \<longrightarrow> cf_provider c = ProviderS3 \<and> length b \<le> maxConfigFileBytes \<and> en_has_certificate env b)"
proof (cases "en_getenv env ''ENDPOINT_CA_FILE'' = []")
  case True
  then have "c' = c\<lparr>cf_ca_bundle := []\<rparr>" using assms by (simp add: load_ca_bundle_def)
  then show ?thesis by blast
next
  case False
  with assms(1) obtain b where "cf_provider c = ProviderS3" "c' = c\<lparr>cf_ca_bundle := b\<rparr>"
    "read_bounded_file env ''ENDPOINT_CA_FILE'' (en_getenv env ''ENDPOINT_CA_FILE'') maxConfigFileBytes False = Inr b"
    "en_has_certificate env b"
    by (auto simp: load_ca_bundle_def Let_def bind_config_Inr)
  with read_bounded_file_Inr show ?thesis by blast
qed

lemma validate_listen_addr_Inr:
  "validate_listen_addr raw = Inr u \<Longrightarrow>
     \<exists>port v. split_port raw = Some port \<and> parse_int64 port = Some v \<and> 1 \<le> v \<and> v \<le> 65535"
  by (auto simp: validate_listen_addr_def not_less split: option.splits if_splits)

lemma load_listener_Inr:
  assumes "load_listener env c = Inr c'"
    and "cf_runtime c = RuntimePGConsoleSidecar \<Longrightarrow> cf_listen_addr c = [] \<and> cf_user_header c = []"
  shows "\<exists>l h. c' = c\<lparr>cf_listen_addr := l, cf_user_header := h\<rparr> \<and> listener_ok c'"
proof (cases "cf_runtime c")
  case RuntimePGConsoleSidecar
  then have "c' = c\<lparr>cf_listen_addr := [], cf_user_header := []\<rparr>"
    using assms by (auto simp: load_listener_def bind_config_Inr)
  with RuntimePGConsoleSidecar show ?thesis by (intro exI conjI) (simp_all add: listener_ok_def)
next
  case RuntimeStandalone
  define l where "l = (if en_getenv env ''LISTEN_ADDR'' \<noteq> [] then en_getenv env ''LISTEN_ADDR'' else cf_listen_addr c)"
  define h where "h = (case en_lookup env ''TRUSTED_USER_HEADER'' of None \<Rightarrow> cf_user_header c | Some h \<Rightarrow> h)"
  have "validate_listen_addr l = Inr () \<and> c' = c\<lparr>cf_listen_addr := l, cf_user_header := h\<rparr>
     \<and> (h = [] \<or> valid_header_name h)"
    using assms(1) RuntimeStandalone
    by (cases "en_lookup env ''TRUSTED_USER_HEADER''")
      (auto simp: load_listener_def Let_def bind_config_Inr l_def h_def split: if_splits)
  with RuntimeStandalone validate_listen_addr_Inr [of l] show ?thesis
    by (intro exI conjI) (auto simp: listener_ok_def)
qed

lemma load_limits_Inr:
  assumes "load_limits env c = Inr c'"
  shows "\<exists>a r t n m p. c' = c\<lparr>cf_allow_download := a, cf_refresh_interval := r, cf_request_timeout := t,
       cf_concurrency := n, cf_max_objects := m, cf_page_size := p\<rparr> \<and> limits_ok c'"
proof -
  obtain a r t n m p where c': "c' = c\<lparr>cf_allow_download := a, cf_refresh_interval := r, cf_request_timeout := t,
       cf_concurrency := n, cf_max_objects := m, cf_page_size := p\<rparr>"
    and a: "\<not> (cf_runtime c = RuntimePGConsoleSidecar \<and> a)"
    and r: "parse_duration env (en_getenv env ''CATALOG_REFRESH_INTERVAL'') (seconds 300) (seconds 30)
       (seconds 86400) ''CATALOG_REFRESH_INTERVAL'' = Inr r"
    and t: "parse_duration env (en_getenv env ''STORE_REQUEST_TIMEOUT'') (seconds 10) (seconds 1)
       (seconds 300) ''STORE_REQUEST_TIMEOUT'' = Inr t"
    and n: "parse_int (en_getenv env ''SCAN_CONCURRENCY'') 4 1 64 ''SCAN_CONCURRENCY'' = Inr n"
    and m: "parse_int (en_getenv env ''MAX_OBJECTS_PER_SCAN'') 1000000 1000 10000000 ''MAX_OBJECTS_PER_SCAN'' = Inr m"
    and p: "parse_int (en_getenv env ''WAL_PAGE_SIZE'') 200 1 1000 ''WAL_PAGE_SIZE'' = Inr p"
    using assms by (auto simp: load_limits_def bind_config_Inr)
  have "limits_ok c'"
    using a parse_duration_Inr [OF r] parse_duration_Inr [OF t] parse_int_Inr [OF n] parse_int_Inr [OF m]
      parse_int_Inr [OF p]
    by (simp add: c' limits_ok_def seconds_def nanoseconds_def)
  with c' show ?thesis by blast
qed

lemma load_expectations_Inr:
  assumes "load_expectations env c = Inr c'" "cf_minimum_redundancy c = None"
  shows "\<exists>p n. c' = c\<lparr>cf_retention_policy := p, cf_minimum_redundancy := n\<rparr> \<and> expectations_ok c'"
proof -
  let ?p = "en_getenv env ''EXPECTED_RETENTION_POLICY''"
  let ?raw = "en_getenv env ''EXPECTED_MINIMUM_REDUNDANCY''"
  have p: "length ?p \<le> 256" "\<not> has_control ?p"
    using assms(1) by (auto simp: load_expectations_def bind_config_Inr Let_def)
  show ?thesis
  proof (cases "?raw = []")
    case True
    then have "c' = c\<lparr>cf_retention_policy := ?p, cf_minimum_redundancy := None\<rparr>"
      using assms by (auto simp: load_expectations_def bind_config_Inr Let_def)
    with p show ?thesis by (intro exI conjI) (simp_all add: expectations_ok_def)
  next
    case False
    with assms(1) obtain n where "parse_int ?raw 0 0 100000 ''EXPECTED_MINIMUM_REDUNDANCY'' = Inr n"
      "c' = c\<lparr>cf_retention_policy := ?p, cf_minimum_redundancy := Some n\<rparr>"
      by (auto simp: load_expectations_def bind_config_Inr Let_def)
    with p parse_int_Inr [OF this(1)] show ?thesis
      by (intro exI conjI) (simp_all add: expectations_ok_def)
  qed
qed


lemma load_format_config_Inr:
  assumes "load_format_config env c = Inr c'" "cf_servers c = []" "cf_stanzas c = []" "cf_cipher c = no_secret"
  shows "\<exists>b s k. c' = c\<lparr>cf_servers := b, cf_stanzas := s, cf_cipher := k\<rparr> \<and> scopes_ok c'"
proof -
  let ?path = "en_getenv env ''PGBACKREST_CIPHER_PASS_FILE''"
  obtain b s where b: "parse_names ''BARMAN_SERVER_NAMES'' (en_getenv env ''BARMAN_SERVER_NAMES'') = Inr b"
    and s: "parse_names ''PGBACKREST_STANZAS'' (en_getenv env ''PGBACKREST_STANZAS'') = Inr s"
    using assms(1) by (auto simp: load_format_config_def bind_config_Inr)
  note ok = parse_names_Inr [OF b] parse_names_Inr [OF s]
  have nil: "names_ok []" by (simp add: names_ok_def)
  show ?thesis
  proof (cases "cf_format c")
    case FormatBarmanCloud
    then have "c' = c\<lparr>cf_servers := b, cf_stanzas := [], cf_cipher := no_secret\<rparr>"
      using assms b s by (auto simp: load_format_config_def bind_config_Inr Let_def)
    with FormatBarmanCloud ok nil show ?thesis by (intro exI conjI) (simp_all add: scopes_ok_def)
  next
    case FormatPGBackRest
    have "\<exists>k. c' = c\<lparr>cf_servers := [], cf_stanzas := s, cf_cipher := k\<rparr>
      \<and> (k = no_secret \<or> read_secret k maxSecretFileBytes)"
    proof (cases "?path = []")
      case True
      then have "c' = c\<lparr>cf_servers := [], cf_stanzas := s, cf_cipher := no_secret\<rparr>"
        using assms b s FormatPGBackRest by (auto simp: load_format_config_def bind_config_Inr Let_def)
      then show ?thesis by blast
    next
      case False
      with assms b s FormatPGBackRest obtain x where
        "c' = c\<lparr>cf_servers := [], cf_stanzas := s, cf_cipher := Secret x\<rparr>"
        "read_bounded_file env ''PGBACKREST_CIPHER_PASS_FILE'' ?path maxSecretFileBytes True = Inr x"
        by (auto simp: load_format_config_def bind_config_Inr Let_def)
      with read_secret_Inr show ?thesis by blast
    qed
    then obtain k where "c' = c\<lparr>cf_servers := [], cf_stanzas := s, cf_cipher := k\<rparr>"
      "k = no_secret \<or> read_secret k maxSecretFileBytes" by blast
    with FormatPGBackRest ok nil show ?thesis by (intro exI conjI) (simp_all add: scopes_ok_def)
  qed
qed

text \<open>The sidecar runs for one named Barman server on S3, with a token file and an identity.\<close>

definition sidecar_ok :: "config \<Rightarrow> bool" where
  "sidecar_ok c \<longleftrightarrow> cf_format c = FormatBarmanCloud \<and> cf_provider c = ProviderS3 \<and> length (cf_servers c) = 1
     \<and> valid_absolute_path (cf_token_file c) \<and> cf_namespace c \<noteq> [] \<and> length (cf_namespace c) \<le> 63
     \<and> cf_uid c \<noteq> [] \<and> length (cf_uid c) \<le> 128 \<and> length (cf_cluster_name c) \<le> 253
     \<and> \<not> has_control (cf_namespace c) \<and> \<not> has_control (cf_uid c) \<and> \<not> has_control (cf_cluster_name c)"

lemma load_runtime_config_Inr:
  assumes "load_runtime_config env c = Inr c'"
  shows "\<exists>t n u m. c' = c\<lparr>cf_token_file := t, cf_namespace := n, cf_uid := u, cf_cluster_name := m\<rparr>
     \<and> (cf_runtime c = RuntimePGConsoleSidecar \<longrightarrow> sidecar_ok c')
     \<and> (cf_runtime c = RuntimeStandalone \<longrightarrow> c' = c \<and> (\<forall>v\<in>set sidecar_variables. en_getenv env v = []))"
proof (cases "cf_runtime c")
  case RuntimeStandalone
  then have "c' = c" "first_set env sidecar_variables = None"
    using assms by (auto simp: load_runtime_config_def split: option.splits)
  moreover from this have "c' = c\<lparr>cf_token_file := cf_token_file c, cf_namespace := cf_namespace c,
      cf_uid := cf_uid c, cf_cluster_name := cf_cluster_name c\<rparr>" by simp
  moreover have "cf_runtime c \<noteq> RuntimePGConsoleSidecar" using RuntimeStandalone by simp
  ultimately show ?thesis unfolding first_set_None by blast
next
  case RuntimePGConsoleSidecar
  then have "c' = c\<lparr>cf_token_file := en_getenv env ''EVIDENCE_TOKEN_FILE'',
       cf_namespace := en_getenv env ''CNPG_CLUSTER_NAMESPACE'', cf_uid := en_getenv env ''CNPG_CLUSTER_UID'',
       cf_cluster_name := en_getenv env ''CNPG_CLUSTER_NAME''\<rparr>" "sidecar_ok c'"
    using assms by (auto simp: load_runtime_config_def bind_config_Inr Let_def sidecar_ok_def invalid_identity_def)
  moreover have "cf_runtime c \<noteq> RuntimeStandalone" using RuntimePGConsoleSidecar by simp
  ultimately show ?thesis by blast
qed

section \<open>Credentials\<close>

lemma load_static_files_Inr:
  assumes "load_static_files env c = Inr c'" "cf_credentials c = no_credentials\<lparr>cd_region := r\<rparr>"
  shows "\<exists>d. c' = c\<lparr>cf_credentials := d\<rparr> \<and> mode_credentials (cd_mode d) d \<and> cd_region d = r
     \<and> cd_azure_account d = []
     \<and> cd_mode d = (if en_getenv env ''AWS_ACCESS_KEY_ID_FILE'' = [] then CredentialAmbient else CredentialStaticFiles)"
proof -
  let ?a = "en_getenv env ''AWS_ACCESS_KEY_ID_FILE''" and ?s = "en_getenv env ''AWS_SECRET_ACCESS_KEY_FILE''"
  let ?t = "en_getenv env ''AWS_SESSION_TOKEN_FILE''"
  note no = no_credentials_def
  show ?thesis
  proof (cases "?a = []")
    case True
    then have "c' = c\<lparr>cf_credentials := no_credentials\<lparr>cd_region := r, cd_mode := CredentialAmbient\<rparr>\<rparr>"
      using assms by (simp add: load_static_files_def set_credentials_def)
    with True show ?thesis by (intro exI [of _ "no_credentials\<lparr>cd_region := r, cd_mode := CredentialAmbient\<rparr>"]) (simp add: no)
  next
    case False
    with assms(1) obtain a s where a: "read_bounded_file env ''AWS_ACCESS_KEY_ID_FILE'' ?a maxSecretFileBytes True = Inr a"
      and s: "read_bounded_file env ''AWS_SECRET_ACCESS_KEY_FILE'' ?s maxSecretFileBytes True = Inr s"
      by (auto simp: load_static_files_def bind_config_Inr Let_def)
    have "\<exists>t. c' = c\<lparr>cf_credentials := no_credentials\<lparr>cd_region := r, cd_mode := CredentialStaticFiles,
            cd_access_key := Secret a, cd_secret_key := Secret s, cd_session_token := t\<rparr>\<rparr>
        \<and> (t = no_secret \<or> read_secret t maxSecretFileBytes)"
    proof (cases "?t = []")
      case True
      then have "c' = c\<lparr>cf_credentials := no_credentials\<lparr>cd_region := r, cd_mode := CredentialStaticFiles,
            cd_access_key := Secret a, cd_secret_key := Secret s, cd_session_token := no_secret\<rparr>\<rparr>"
        using assms False a s by (simp add: load_static_files_def bind_config_def Let_def set_credentials_def no)
      then show ?thesis by blast
    next
      case t: False
      with assms False a s obtain x where
        "read_bounded_file env ''AWS_SESSION_TOKEN_FILE'' ?t maxSecretFileBytes True = Inr x"
        "c' = c\<lparr>cf_credentials := no_credentials\<lparr>cd_region := r, cd_mode := CredentialStaticFiles,
            cd_access_key := Secret a, cd_secret_key := Secret s, cd_session_token := Secret x\<rparr>\<rparr>"
        by (auto simp: load_static_files_def bind_config_Inr Let_def set_credentials_def no)
      with read_secret_Inr show ?thesis by blast
    qed
    then obtain t where "c' = c\<lparr>cf_credentials := no_credentials\<lparr>cd_region := r, cd_mode := CredentialStaticFiles,
            cd_access_key := Secret a, cd_secret_key := Secret s, cd_session_token := t\<rparr>\<rparr>"
      "t = no_secret \<or> read_secret t maxSecretFileBytes" by blast
    with False read_secret_Inr [OF a] read_secret_Inr [OF s] show ?thesis
      by (intro exI [of _ "no_credentials\<lparr>cd_region := r, cd_mode := CredentialStaticFiles,
            cd_access_key := Secret a, cd_secret_key := Secret s, cd_session_token := t\<rparr>"]) (simp add: no)
  qed
qed

lemma load_web_identity_Inr:
  assumes "load_web_identity env c = Inr c'" "cf_credentials c = no_credentials\<lparr>cd_region := r\<rparr>"
  shows "\<exists>d. c' = c\<lparr>cf_credentials := d\<rparr> \<and> mode_credentials (cd_mode d) d \<and> cd_region d = r
     \<and> cd_azure_account d = [] \<and> cd_mode d = CredentialAWSWebIdentity"
proof -
  let ?path = "en_getenv env ''AWS_WEB_IDENTITY_TOKEN_FILE''" and ?role = "en_getenv env ''AWS_ROLE_ARN''"
  have "valid_absolute_path ?path" "valid_aws_role_arn ?role" "r \<noteq> []"
    "c' = c\<lparr>cf_credentials := no_credentials\<lparr>cd_region := r, cd_mode := CredentialAWSWebIdentity,
        cd_web_identity_file := ?path, cd_role_arn := ?role\<rparr>\<rparr>"
    using assms by (auto simp: load_web_identity_def Let_def bind_config_Inr set_credentials_def)
  then show ?thesis by (intro exI [of _ "no_credentials\<lparr>cd_region := r, cd_mode := CredentialAWSWebIdentity,
        cd_web_identity_file := ?path, cd_role_arn := ?role\<rparr>"]) (simp add: no_credentials_def)
qed

lemma load_s3_credentials_Inr:
  assumes "load_s3_credentials env c = Inr c'" "cf_credentials c = no_credentials"
  shows "\<exists>d. c' = c\<lparr>cf_credentials := d\<rparr> \<and> credentials_ok (cf_runtime c) ProviderS3 d"
proof -
  let ?r = "en_getenv env ''AWS_REGION''" and ?mode = "en_getenv env ''STORE_CREDENTIAL_MODE''"
  let ?c = "set_credentials (\<lambda>d. d\<lparr>cd_region := ?r\<rparr>) c"
  have c: "cf_credentials ?c = no_credentials\<lparr>cd_region := ?r\<rparr>" "?c\<lparr>cf_credentials := d\<rparr> = c\<lparr>cf_credentials := d\<rparr>" for d
    using assms(2) by (simp_all add: set_credentials_def)
  have region: "length ?r \<le> 128" "\<not> has_control ?r"
    using assms(1) by (auto simp: load_s3_credentials_def Let_def bind_config_Inr)
  have no_control: "\<not> has_control []" by simp
  show ?thesis
  proof (cases "cf_runtime c = RuntimePGConsoleSidecar")
    case sidecar: True
    show ?thesis
    proof (cases "?mode = ''static-files''")
      case True
      with sidecar assms(1) have "en_getenv env ''AWS_ACCESS_KEY_ID_FILE'' \<noteq> []" "load_static_files env ?c = Inr c'"
        by (auto simp: load_s3_credentials_def Let_def bind_config_Inr set_credentials_def)
      with load_static_files_Inr [OF this(2) c(1)] region no_control sidecar show ?thesis
        unfolding c(2) by (auto simp: credentials_ok_def)
    next
      case False
      with sidecar assms(1) have "load_web_identity env ?c = Inr c'"
        by (auto simp: load_s3_credentials_def Let_def bind_config_Inr set_credentials_def split: if_splits)
      with load_web_identity_Inr [OF this c(1)] region no_control sidecar show ?thesis
        unfolding c(2) by (auto simp: credentials_ok_def)
    qed
  next
    case False
    with assms(1) have "load_static_files env ?c = Inr c'"
      by (auto simp: load_s3_credentials_def Let_def bind_config_Inr set_credentials_def)
    moreover have "cf_runtime c = RuntimeStandalone" using False by (cases "cf_runtime c") simp_all
    moreover obtain d where "c' = c\<lparr>cf_credentials := d\<rparr>" "mode_credentials (cd_mode d) d" "cd_region d = ?r"
      "cd_azure_account d = []" "cd_mode d \<in> {CredentialAmbient, CredentialStaticFiles}"
      using load_static_files_Inr [OF calculation(1) c(1)] unfolding c(2) by (auto split: if_splits)
    ultimately show ?thesis using region no_control
      by (intro exI [of _ d]) (simp add: credentials_ok_def)
  qed
qed


lemma load_azure_credentials_Inr:
  assumes "load_azure_credentials env c = Inr c'" "cf_credentials c = no_credentials"
  shows "\<exists>d. c' = c\<lparr>cf_credentials := d\<rparr> \<and> credentials_ok (cf_runtime c) ProviderAzure d"
proof -
  let ?conn = "en_getenv env ''AZURE_STORAGE_CONNECTION_STRING_FILE''"
  let ?acc = "en_getenv env ''AZURE_STORAGE_ACCOUNT''"
  let ?key = "en_getenv env ''AZURE_STORAGE_ACCOUNT_KEY_FILE''"
  let ?sas = "en_getenv env ''AZURE_STORAGE_SAS_TOKEN_FILE''"
  note no = no_credentials_def
  have modes: "provider_modes (cf_runtime c) ProviderAzure =
     {CredentialAmbient, CredentialConnectionFile, CredentialAccountKeyFile, CredentialSASTokenFile}"
    by (cases "cf_runtime c") simp_all
  have acc: "length ?acc \<le> 256" "\<not> has_control ?acc"
    using assms(1) by (auto simp: load_azure_credentials_def Let_def bind_config_Inr)
  note unfold = load_azure_credentials_def Let_def bind_config_Inr set_credentials_def
  consider (conn) "?conn \<noteq> []" | (ambient) "?conn = []" "?key = []" "?sas = []"
    | (key) "?conn = []" "?key \<noteq> []" | (sas) "?conn = []" "?key = []" "?sas \<noteq> []" by blast
  then show ?thesis
  proof cases
    case conn
    with assms obtain x where
      "read_bounded_file env ''AZURE_STORAGE_CONNECTION_STRING_FILE'' ?conn maxSecretFileBytes True = Inr x"
      "c' = c\<lparr>cf_credentials := no_credentials\<lparr>cd_mode := CredentialConnectionFile, cd_azure_connection := Secret x\<rparr>\<rparr>"
      by (auto simp: unfold)
    with read_secret_Inr [OF this(1)] show ?thesis
      by (intro exI [of _ "no_credentials\<lparr>cd_mode := CredentialConnectionFile, cd_azure_connection := Secret x\<rparr>"])
        (simp add: credentials_ok_def modes no)
  next
    case ambient
    with assms have "c' = c\<lparr>cf_credentials := no_credentials\<lparr>cd_mode := CredentialAmbient, cd_azure_account := ?acc\<rparr>\<rparr>"
      by (auto simp: unfold)
    with acc show ?thesis
      by (intro exI [of _ "no_credentials\<lparr>cd_mode := CredentialAmbient, cd_azure_account := ?acc\<rparr>"])
        (simp add: credentials_ok_def modes no)
  next
    case key
    with assms obtain x where "?acc \<noteq> []"
      "read_bounded_file env ''AZURE_STORAGE_ACCOUNT_KEY_FILE'' ?key maxSecretFileBytes True = Inr x"
      "c' = c\<lparr>cf_credentials := no_credentials\<lparr>cd_mode := CredentialAccountKeyFile, cd_azure_account := ?acc,
          cd_azure_key := Secret x\<rparr>\<rparr>"
      by (auto simp: unfold)
    with acc read_secret_Inr [OF this(2)] show ?thesis
      by (intro exI [of _ "no_credentials\<lparr>cd_mode := CredentialAccountKeyFile, cd_azure_account := ?acc,
          cd_azure_key := Secret x\<rparr>"]) (simp add: credentials_ok_def modes no)
  next
    case sas
    with assms obtain x where "?acc \<noteq> []"
      "read_bounded_file env ''AZURE_STORAGE_SAS_TOKEN_FILE'' ?sas maxSecretFileBytes True = Inr x"
      "c' = c\<lparr>cf_credentials := no_credentials\<lparr>cd_mode := CredentialSASTokenFile, cd_azure_account := ?acc,
          cd_azure_sas := Secret x\<rparr>\<rparr>"
      by (auto simp: unfold)
    with acc read_secret_Inr [OF this(2)] show ?thesis
      by (intro exI [of _ "no_credentials\<lparr>cd_mode := CredentialSASTokenFile, cd_azure_account := ?acc,
          cd_azure_sas := Secret x\<rparr>"]) (simp add: credentials_ok_def modes no)
  qed
qed

lemma load_gcs_credentials_Inr:
  assumes "load_gcs_credentials env c = Inr c'" "cf_credentials c = no_credentials"
  shows "\<exists>d. c' = c\<lparr>cf_credentials := d\<rparr> \<and> credentials_ok (cf_runtime c) ProviderGCS d"
proof -
  let ?path = "en_getenv env ''GOOGLE_APPLICATION_CREDENTIALS''"
  have modes: "provider_modes (cf_runtime c) ProviderGCS = {CredentialAmbient, CredentialJSONFile}"
    by (cases "cf_runtime c") simp_all
  note unfold = load_gcs_credentials_def Let_def bind_config_Inr set_credentials_def
  show ?thesis
  proof (cases "?path = []")
    case True
    with assms have "c' = c\<lparr>cf_credentials := no_credentials\<lparr>cd_mode := CredentialAmbient\<rparr>\<rparr>"
      by (auto simp: unfold)
    then show ?thesis
      by (intro exI [of _ "no_credentials\<lparr>cd_mode := CredentialAmbient\<rparr>"])
        (simp add: credentials_ok_def modes no_credentials_def)
  next
    case False
    with assms obtain x where
      "read_bounded_file env ''GOOGLE_APPLICATION_CREDENTIALS'' ?path maxConfigFileBytes True = Inr x"
      "c' = c\<lparr>cf_credentials := no_credentials\<lparr>cd_mode := CredentialJSONFile, cd_google_json := Secret x\<rparr>\<rparr>"
      by (auto simp: unfold)
    with read_secret_Inr [OF this(1)] show ?thesis
      by (intro exI [of _ "no_credentials\<lparr>cd_mode := CredentialJSONFile, cd_google_json := Secret x\<rparr>"])
        (simp add: credentials_ok_def modes no_credentials_def)
  qed
qed

lemma load_gcs_json:
  assumes "load_gcs_credentials env c = Inr c'" "cd_mode (cf_credentials c') = CredentialJSONFile"
  shows "en_getenv env ''GOOGLE_APPLICATION_CREDENTIALS'' \<noteq> []
     \<and> en_json_valid env (secret_bytes (cd_google_json (cf_credentials c')))"
  using assms by (auto simp: load_gcs_credentials_def Let_def bind_config_Inr set_credentials_def split: if_splits)

lemma load_credentials_Inr:
  assumes "load_credentials env c = Inr c'" "cf_credentials c = no_credentials"
  shows "\<exists>d. c' = c\<lparr>cf_credentials := d\<rparr> \<and> credentials_ok (cf_runtime c) (cf_provider c) d"
    and "en_getenv env ''AWS_ACCESS_KEY_ID'' = [] \<and> en_getenv env ''AWS_SECRET_ACCESS_KEY'' = []
      \<and> en_getenv env ''AWS_SESSION_TOKEN'' = []"
    and "p \<in> set (en_provider_order env) \<Longrightarrow> p \<noteq> cf_provider c \<Longrightarrow> v \<in> set (provider_files p) \<Longrightarrow>
      en_getenv env v = []"
proof -
  let ?vs = "concat (map provider_files (filter (\<lambda>p. p \<noteq> cf_provider c) (en_provider_order env)))"
  have *: "first_set env ?vs = None"
    "en_getenv env ''AWS_ACCESS_KEY_ID'' = [] \<and> en_getenv env ''AWS_SECRET_ACCESS_KEY'' = []
      \<and> en_getenv env ''AWS_SESSION_TOKEN'' = []"
    using assms(1) by (auto simp: load_credentials_def bind_config_Inr split: option.splits)
  then show "en_getenv env ''AWS_ACCESS_KEY_ID'' = [] \<and> en_getenv env ''AWS_SECRET_ACCESS_KEY'' = []
      \<and> en_getenv env ''AWS_SESSION_TOKEN'' = []" by blast
  show "p \<in> set (en_provider_order env) \<Longrightarrow> p \<noteq> cf_provider c \<Longrightarrow> v \<in> set (provider_files p) \<Longrightarrow>
      en_getenv env v = []" using *(1) unfolding first_set_None by fastforce
  have "(case cf_provider c of ProviderS3 \<Rightarrow> load_s3_credentials env c | ProviderAzure \<Rightarrow> load_azure_credentials env c
      | ProviderGCS \<Rightarrow> load_gcs_credentials env c) = Inr c'"
    using assms(1) * by (simp add: load_credentials_def bind_config_def reject_if_def)
  with load_s3_credentials_Inr [OF _ assms(2)] load_azure_credentials_Inr [OF _ assms(2)]
    load_gcs_credentials_Inr [OF _ assms(2)]
  show "\<exists>d. c' = c\<lparr>cf_credentials := d\<rparr> \<and> credentials_ok (cf_runtime c) (cf_provider c) d"
    by (cases "cf_provider c") auto
qed

lemma load_credentials_json:
  assumes "load_credentials env c = Inr c'" "cf_credentials c = no_credentials"
    and "cd_mode (cf_credentials c') = CredentialJSONFile"
  shows "en_json_valid env (secret_bytes (cd_google_json (cf_credentials c')))"
proof -
  obtain d where d: "c' = c\<lparr>cf_credentials := d\<rparr>" "credentials_ok (cf_runtime c) (cf_provider c) d"
    using load_credentials_Inr(1) [OF assms(1,2)] by blast
  then have "CredentialJSONFile \<in> provider_modes (cf_runtime c) (cf_provider c)"
    using assms(3) by (auto simp: credentials_ok_def)
  then have "cf_provider c = ProviderGCS" by (cases "cf_provider c"; cases "cf_runtime c") simp_all
  then have "load_gcs_credentials env c = Inr c'"
    using assms(1) by (auto simp: load_credentials_def bind_config_Inr split: option.splits)
  then show ?thesis using load_gcs_json assms(3) by blast
qed

section \<open>The composition\<close>

text \<open>No later stage touches what an earlier contract is about.\<close>

lemma contract_frames:
  "listener_ok (c\<lparr>cf_allow_download := a, cf_refresh_interval := r, cf_request_timeout := t,
     cf_concurrency := n, cf_max_objects := m, cf_page_size := p\<rparr>) = listener_ok c"
  "listener_ok (c\<lparr>cf_retention_policy := q, cf_minimum_redundancy := o'\<rparr>) = listener_ok c"
  "listener_ok (c\<lparr>cf_servers := b, cf_stanzas := s, cf_cipher := k\<rparr>) = listener_ok c"
  "listener_ok (c\<lparr>cf_token_file := f, cf_namespace := g, cf_uid := u, cf_cluster_name := h\<rparr>) = listener_ok c"
  "listener_ok (c\<lparr>cf_credentials := d\<rparr>) = listener_ok c"
  "limits_ok (c\<lparr>cf_retention_policy := q, cf_minimum_redundancy := o'\<rparr>) = limits_ok c"
  "limits_ok (c\<lparr>cf_servers := b, cf_stanzas := s, cf_cipher := k\<rparr>) = limits_ok c"
  "limits_ok (c\<lparr>cf_token_file := f, cf_namespace := g, cf_uid := u, cf_cluster_name := h\<rparr>) = limits_ok c"
  "limits_ok (c\<lparr>cf_credentials := d\<rparr>) = limits_ok c"
  "expectations_ok (c\<lparr>cf_servers := b, cf_stanzas := s, cf_cipher := k\<rparr>) = expectations_ok c"
  "expectations_ok (c\<lparr>cf_token_file := f, cf_namespace := g, cf_uid := u, cf_cluster_name := h\<rparr>) = expectations_ok c"
  "expectations_ok (c\<lparr>cf_credentials := d\<rparr>) = expectations_ok c"
  "scopes_ok (c\<lparr>cf_token_file := f, cf_namespace := g, cf_uid := u, cf_cluster_name := h\<rparr>) = scopes_ok c"
  "scopes_ok (c\<lparr>cf_credentials := d\<rparr>) = scopes_ok c"
  "sidecar_ok (c\<lparr>cf_credentials := d\<rparr>) = sidecar_ok c"
  by (simp_all add: listener_ok_def limits_ok_def expectations_ok_def scopes_ok_def sidecar_ok_def
      split: runtime_mode.split repository_format.split)

lemma load_config_stages:
  assumes "load_config env = Inr c"
  obtains mode f p u e b l h c5 c6 c7 c8 where
    "c5 = (initial_config mode)\<lparr>cf_format := f, cf_provider := p, cf_destination := Some u, cf_endpoint := e,
       cf_ca_bundle := b, cf_listen_addr := l, cf_user_header := h\<rparr>"
    and "destination_ok p u" and "\<And>x. e = Some x \<Longrightarrow> p = ProviderS3 \<and> endpoint_ok x"
    and "b \<noteq> [] \<Longrightarrow> p = ProviderS3 \<and> length b \<le> maxConfigFileBytes \<and> en_has_certificate env b"
    and "listener_ok c5"
    and "load_limits env c5 = Inr c6" "load_expectations env c6 = Inr c7" "load_format_config env c7 = Inr c8"
    and "bind_config (load_runtime_config env c8) (load_credentials env) = Inr c"
proof -
  obtain mode c1 c2 c3 c5 c6 c7 c8 where
    s1: "load_repository env (initial_config mode) = Inr c1" and
    s2: "load_endpoint env c1 = Inr c2" and s3: "load_ca_bundle env c2 = Inr c3" and
    s4: "load_listener env c3 = Inr c5" and
    rest: "load_limits env c5 = Inr c6" "load_expectations env c6 = Inr c7" "load_format_config env c7 = Inr c8"
      "bind_config (load_runtime_config env c8) (load_credentials env) = Inr c"
    using assms by (auto simp: load_config_def bind_config_Inr)
  obtain f p u where c1: "c1 = (initial_config mode)\<lparr>cf_format := f, cf_provider := p, cf_destination := Some u\<rparr>"
    and u: "destination_ok p u" using load_repository_Inr [OF s1] by blast
  have init: "cf_endpoint (initial_config mode) = None" "cf_ca_bundle (initial_config mode) = []"
    "cf_runtime (initial_config mode) = mode"
    "mode = RuntimePGConsoleSidecar \<Longrightarrow> cf_listen_addr (initial_config mode) = [] \<and> cf_user_header (initial_config mode) = []"
    by (simp_all add: initial_config_def)
  obtain e where c2: "c2 = c1\<lparr>cf_endpoint := e\<rparr>" and e: "\<And>x. e = Some x \<Longrightarrow> p = ProviderS3 \<and> endpoint_ok x"
    using load_endpoint_Inr [OF s2] by (auto simp: c1 init)
  obtain b where c3: "c3 = c2\<lparr>cf_ca_bundle := b\<rparr>" and b: "b \<noteq> [] \<Longrightarrow> p = ProviderS3 \<and> length b \<le> maxConfigFileBytes \<and> en_has_certificate env b"
    using load_ca_bundle_Inr [OF s3] by (auto simp: c1 c2 init)
  have "cf_runtime c3 = RuntimePGConsoleSidecar \<Longrightarrow> cf_listen_addr c3 = [] \<and> cf_user_header c3 = []"
    using init(3,4) by (simp add: c1 c2 c3)
  from load_listener_Inr [OF s4 this]
  obtain l h where c5: "c5 = c3\<lparr>cf_listen_addr := l, cf_user_header := h\<rparr>" and ok: "listener_ok c5" by blast
  show thesis
    by (rule that [OF _ u e b ok rest]) (simp_all add: c5 c3 c2 c1)
qed

text \<open>The tail of the chain, from the limits to the credentials.\<close>

lemma load_config_tail:
  assumes "load_limits env c5 = Inr c6" "load_expectations env c6 = Inr c7" "load_format_config env c7 = Inr c8"
    and "bind_config (load_runtime_config env c8) (load_credentials env) = Inr c"
    and "listener_ok c5" "cf_minimum_redundancy c5 = None" "cf_servers c5 = []" "cf_stanzas c5 = []"
    and "cf_cipher c5 = no_secret" "cf_credentials c5 = no_credentials"
  shows "listener_ok c \<and> limits_ok c \<and> expectations_ok c \<and> scopes_ok c
     \<and> credentials_ok (cf_runtime c) (cf_provider c) (cf_credentials c)"
    and "cf_runtime c = cf_runtime c5 \<and> cf_format c = cf_format c5 \<and> cf_provider c = cf_provider c5
     \<and> cf_destination c = cf_destination c5 \<and> cf_endpoint c = cf_endpoint c5 \<and> cf_ca_bundle c = cf_ca_bundle c5"
    and "cf_runtime c = RuntimePGConsoleSidecar \<Longrightarrow> sidecar_ok c"
    and "cf_runtime c = RuntimeStandalone \<Longrightarrow> cf_token_file c = cf_token_file c5
     \<and> (\<forall>v\<in>set sidecar_variables. en_getenv env v = [])"
    and "en_getenv env ''AWS_ACCESS_KEY_ID'' = [] \<and> en_getenv env ''AWS_SECRET_ACCESS_KEY'' = []
      \<and> en_getenv env ''AWS_SESSION_TOKEN'' = []"
    and "cd_mode (cf_credentials c) = CredentialJSONFile \<Longrightarrow>
      en_json_valid env (secret_bytes (cd_google_json (cf_credentials c)))"
proof -
  obtain a r t n m p where c6: "c6 = c5\<lparr>cf_allow_download := a, cf_refresh_interval := r, cf_request_timeout := t,
       cf_concurrency := n, cf_max_objects := m, cf_page_size := p\<rparr>" and limits: "limits_ok c6"
    using load_limits_Inr [OF assms(1)] by blast
  obtain q k where c7: "c7 = c6\<lparr>cf_retention_policy := q, cf_minimum_redundancy := k\<rparr>" and expectations: "expectations_ok c7"
    using load_expectations_Inr [OF assms(2)] assms(6) by (auto simp: c6)
  obtain b s ck where c8: "c8 = c7\<lparr>cf_servers := b, cf_stanzas := s, cf_cipher := ck\<rparr>" and scopes: "scopes_ok c8"
    using load_format_config_Inr [OF assms(3)] assms(7-9) by (auto simp: c6 c7)
  obtain c9 where s9: "load_runtime_config env c8 = Inr c9" and s10: "load_credentials env c9 = Inr c"
    using assms(4) by (auto simp: bind_config_Inr)
  obtain f g u h where c9: "c9 = c8\<lparr>cf_token_file := f, cf_namespace := g, cf_uid := u, cf_cluster_name := h\<rparr>"
    and sidecar: "cf_runtime c8 = RuntimePGConsoleSidecar \<longrightarrow> sidecar_ok c9"
    and alone: "cf_runtime c8 = RuntimeStandalone \<longrightarrow> c9 = c8 \<and> (\<forall>v\<in>set sidecar_variables. en_getenv env v = [])"
    using load_runtime_config_Inr [OF s9] by blast
  have none: "cf_credentials c9 = no_credentials" using assms(10) by (simp add: c9 c8 c7 c6)
  note creds = load_credentials_Inr [OF s10 none]
  obtain d where c: "c = c9\<lparr>cf_credentials := d\<rparr>" and d: "credentials_ok (cf_runtime c9) (cf_provider c9) d"
    using creds(1) by blast
  show "listener_ok c \<and> limits_ok c \<and> expectations_ok c \<and> scopes_ok c
     \<and> credentials_ok (cf_runtime c) (cf_provider c) (cf_credentials c)"
    using assms(5) limits expectations scopes d unfolding c c9 c8 c7 c6 contract_frames by simp
  show same: "cf_runtime c = cf_runtime c5 \<and> cf_format c = cf_format c5 \<and> cf_provider c = cf_provider c5
     \<and> cf_destination c = cf_destination c5 \<and> cf_endpoint c = cf_endpoint c5 \<and> cf_ca_bundle c = cf_ca_bundle c5"
    by (simp add: c c9 c8 c7 c6)
  have runtime: "cf_runtime c8 = cf_runtime c" by (simp add: c c9)
  show "sidecar_ok c" if "cf_runtime c = RuntimePGConsoleSidecar"
    using that sidecar unfolding runtime by (simp add: c contract_frames)
  show "cf_token_file c = cf_token_file c5 \<and> (\<forall>v\<in>set sidecar_variables. en_getenv env v = [])"
    if "cf_runtime c = RuntimeStandalone"
  proof -
    have "c9 = c8" "\<forall>v\<in>set sidecar_variables. en_getenv env v = []" using that alone unfolding runtime by blast+
    then show ?thesis by (simp add: c c8 c7 c6)
  qed
  show "en_getenv env ''AWS_ACCESS_KEY_ID'' = [] \<and> en_getenv env ''AWS_SECRET_ACCESS_KEY'' = []
      \<and> en_getenv env ''AWS_SESSION_TOKEN'' = []" by (rule creds(2))
  show "cd_mode (cf_credentials c) = CredentialJSONFile \<Longrightarrow>
      en_json_valid env (secret_bytes (cd_google_json (cf_credentials c)))"
    by (rule load_credentials_json [OF s10 none])
qed


lemma load_config_contract:
  assumes "load_config env = Inr c"
  shows "config_ok c" and "cf_runtime c = RuntimePGConsoleSidecar \<Longrightarrow> sidecar_ok c"
    and "cf_ca_bundle c \<noteq> [] \<Longrightarrow> en_has_certificate env (cf_ca_bundle c)"
    and "cd_mode (cf_credentials c) = CredentialJSONFile \<Longrightarrow>
      en_json_valid env (secret_bytes (cd_google_json (cf_credentials c)))"
proof -
  from assms obtain mode f p u e b l h c5 c6 c7 c8 where
    c5: "c5 = (initial_config mode)\<lparr>cf_format := f, cf_provider := p, cf_destination := Some u, cf_endpoint := e,
       cf_ca_bundle := b, cf_listen_addr := l, cf_user_header := h\<rparr>"
    and u: "destination_ok p u" and e: "\<And>x. e = Some x \<Longrightarrow> p = ProviderS3 \<and> endpoint_ok x"
    and b: "b \<noteq> [] \<Longrightarrow> p = ProviderS3 \<and> length b \<le> maxConfigFileBytes \<and> en_has_certificate env b" and ok: "listener_ok c5"
    and rest: "load_limits env c5 = Inr c6" "load_expectations env c6 = Inr c7" "load_format_config env c7 = Inr c8"
      "bind_config (load_runtime_config env c8) (load_credentials env) = Inr c"
    by (rule load_config_stages) blast
  have "cf_minimum_redundancy c5 = None" "cf_servers c5 = []" "cf_stanzas c5 = []" "cf_cipher c5 = no_secret"
    "cf_credentials c5 = no_credentials" by (simp_all add: c5 initial_config_def)
  note tail = load_config_tail [OF rest ok this]
  have "cf_destination c = Some u" "cf_endpoint c = e" "cf_ca_bundle c = b" "cf_provider c = p"
    using tail(2) by (simp_all add: c5)
  then show "config_ok c" unfolding config_ok_def using tail(1) u e b by simp
  show "cf_runtime c = RuntimePGConsoleSidecar \<Longrightarrow> sidecar_ok c" by (rule tail(3))
  show "cf_ca_bundle c \<noteq> [] \<Longrightarrow> en_has_certificate env (cf_ca_bundle c)"
    using b \<open>cf_ca_bundle c = b\<close> by blast
  show "cd_mode (cf_credentials c) = CredentialJSONFile \<Longrightarrow>
      en_json_valid env (secret_bytes (cd_google_json (cf_credentials c)))" by (rule tail(6))
qed

text \<open>
  C30. Every configuration the loader returns satisfies its contract: a credential-free
  destination of the selected provider, an endpoint and a certificate bundle only for S3, the
  bundle with a certificate in it, scopes only for the selected format (sorted, distinct, valid
  and bounded), a usable listen address and header, limits in their ranges, and credentials of
  one mode that the provider and the runtime allow, bounded and with nothing of another mode:
  keys, tokens and files of a mode are present and Google credentials are JSON. The one thing
  the loader does not ask for is the account of ambient Azure credentials, which the store asks
  for when the program starts.
\<close>

theorem loaded_config_valid:
  assumes "load_config env = Inr c"
  shows "config_ok c
     \<and> (cf_ca_bundle c \<noteq> [] \<longrightarrow> en_has_certificate env (cf_ca_bundle c))
     \<and> (cd_mode (cf_credentials c) = CredentialJSONFile \<longrightarrow>
          en_json_valid env (secret_bytes (cd_google_json (cf_credentials c))))
     \<and> (cf_provider c = ProviderAzure \<and> cd_azure_account (cf_credentials c) = [] \<longrightarrow>
          cd_mode (cf_credentials c) \<in> {CredentialAmbient, CredentialConnectionFile})"
proof -
  note ok = load_config_contract [OF assms]
  have "cd_mode (cf_credentials c) \<in> {CredentialAmbient, CredentialConnectionFile}"
    if "cf_provider c = ProviderAzure" "cd_azure_account (cf_credentials c) = []"
    using ok(1) that by (cases "cf_runtime c") (auto simp: config_ok_def credentials_ok_def)
  then show ?thesis using ok by blast
qed



lemma loaded_config_valid_witness:
  "config_ok ex_config \<and> names_ok [''pg-1'']"
  using loaded_config_valid [OF ex_config_loads] by (simp add: config_ok_def scopes_ok_def ex_config_def)


end
