(* ===== verification/Viewer_Texts.thy ===== *)
theory Viewer_Texts
  imports Scanner Configuration Wire_Types
begin

text \<open>
  What the pages of the viewer show of a snapshot: the texts of \<open>internal/web/handler.go\<close>, the
  summaries of \<open>internal/web/wal.go\<close> and the recovery views of \<open>internal/web/recovery.go\<close>.

  The library functions behind them are here as the code uses them: \<open>strconv.FormatInt\<close>,
  \<open>time.Time.Format\<close> with \<open>RFC3339\<close> on a UTC time, and \<open>strings.Map\<close> over UTF-8.
\<close>

section \<open>Numbers and times\<close>

definition int_text :: "int \<Rightarrow> string" where
  "int_text v = (if v < 0 then ''-'' @ decimal_text (nat (- v)) else decimal_text (nat v))"

definition padded :: "nat \<Rightarrow> nat \<Rightarrow> string" where
  "padded width n = replicate (width - length (decimal_text n)) (CHR ''0'') @ decimal_text n"

text \<open>
  Year, month and day of a number of days since January 1 of year 1, counted in years that
  start in March: a year has 365 days, a leap day every 4 years, none every 100 and one every 400.
\<close>

definition civil_date :: "int \<Rightarrow> int \<times> nat \<times> nat" where
  "civil_date days =
     (let z = days + 306; era = z div 146097; doe = nat (z mod 146097);
          yoe = (doe - doe div 1460 + doe div 36524 - doe div 146096) div 365;
          doy = doe - (365 * yoe + yoe div 4 - yoe div 100);
          mp = (5 * doy + 2) div 153;
          d = doy - (153 * mp + 2) div 5 + 1;
          m = (if mp < 10 then mp + 3 else mp - 9)
      in (int yoe + era * 400 + (if m \<le> 2 then 1 else 0), m, d))"

definition rfc3339 :: "gotime \<Rightarrow> string" where
  "rfc3339 t =
     (let secs = t_ns t div nanoseconds; (y, m, d) = civil_date (secs div 86400); s = nat (secs mod 86400)
      in (if y < 0 then ''-'' @ padded 4 (nat (- y)) else padded 4 (nat y)) @ ''-'' @ padded 2 m @ ''-'' @ padded 2 d
         @ ''T'' @ padded 2 (s div 3600) @ '':'' @ padded 2 (s div 60 mod 60) @ '':'' @ padded 2 (s mod 60) @ ''Z'')"

definition human_bytes :: "int \<Rightarrow> string" where
  "human_bytes v =
     (case find (\<lambda>(name, factor). factor \<le> v)
         [(''PiB'', 2 ^ 50), (''TiB'', 2 ^ 40), (''GiB'', 2 ^ 30), (''MiB'', 2 ^ 20), (''KiB'', 2 ^ 10)] of
        Some (name, factor) \<Rightarrow>
          int_text (v div factor) @ ''.'' @ int_text (v mod factor * 10 div factor) @ '' '' @ name
      | None \<Rightarrow> int_text v @ '' B'')"

definition bytes_text :: "bool \<Rightarrow> int \<Rightarrow> string" where
  "bytes_text known v =
     (if \<not> known then ''unknown'' else int_text v @ '' bytes ('' @ human_bytes v @ '')'')"

definition total_text :: "bool \<Rightarrow> int \<Rightarrow> string" where
  "total_text known v = (if \<not> known then ''unknown'' else int_text v)"

definition unknown_text :: "string \<Rightarrow> string" where
  "unknown_text v = (if v = [] then ''unknown'' else v)"

definition generation_text :: "evidence_snapshot \<Rightarrow> string" where
  "generation_text e = (if es_generation e = 0 then ''none'' else decimal_text (unat (es_generation e)))"

definition completed_at_text :: "evidence_snapshot \<Rightarrow> string" where
  "completed_at_text e = (if time_is_zero (es_completed e) then ''never'' else rfc3339 (time_utc (es_completed e)))"

text \<open>The age is at most what a \<open>Duration\<close> can hold, and cut to whole seconds.\<close>

definition evidence_age_text :: "evidence_snapshot \<Rightarrow> gotime \<Rightarrow> string" where
  "evidence_age_text e now =
     (if time_is_zero (es_completed e) \<or> time_after (es_completed e) now then ''unknown''
      else duration_text (time_sub now (time_utc (es_completed e))))"

definition bool_text :: "bool \<Rightarrow> string" where
  "bool_text b = (if b then ''true'' else ''false'')"

definition stale_text :: "evidence_snapshot \<Rightarrow> string" where
  "stale_text e = (if time_is_zero (es_completed e) then ''not applicable'' else bool_text (es_stale e))"

definition refresh_text :: "snapshot \<Rightarrow> string" where
  "refresh_text s =
     (if in_failure s \<noteq> FaultNone then ''failed: '' @ fault_text (in_failure s)
      else if in_generation s = 0 then ''not attempted'' else ''complete'')"

definition archive_receipt_text :: "gotime \<Rightarrow> string" where
  "archive_receipt_text t = (if time_is_zero t then ''unknown'' else rfc3339 (time_utc t))"

definition time_text :: "gotime \<Rightarrow> string" where
  "time_text t = (if time_is_zero t then ''unknown'' else rfc3339 (time_utc t))"

definition timeline_text :: "u32 \<Rightarrow> string" where
  "timeline_text t = (if t = 0 then ''unknown'' else decimal_text (unat t))"

text \<open>\<open>%X\<close> of a number.\<close>

function hex_text :: "nat \<Rightarrow> string" where
  "hex_text n = (if n < 16 then [hex_digit n] else hex_text (n div 16) @ [hex_digit (n mod 16)])"
  by pat_completeness auto
termination by (relation "measure id") auto

declare hex_text.simps [simp del]

definition format_lsn :: "u64 \<Rightarrow> string" where
  "format_lsn v = hex_text (unat (drop_bit 32 v)) @ ''/'' @ hex_text (unat (v AND 0xFFFFFFFF))"

section \<open>Views\<close>

record backup_view =
  bv_server :: string
  bv_id :: string
  bv_status :: string
  bv_type :: string
  bv_state :: string
  bv_reason :: string
  bv_logical :: string
  bv_deduplicated :: string
  bv_stored :: string
  bv_compression :: string
  bv_encryption :: string

definition backup_view_of :: "backup \<Rightarrow> backup_view" where
  "backup_view_of b =
     \<lparr>bv_server = bk_server b, bv_id = bk_id b, bv_status = bk_status b, bv_type = unknown_text (bk_type b),
      bv_state = state_text (bk_state b), bv_reason = bk_reason b, bv_logical = bytes_text True (bk_logical_bytes b),
      bv_deduplicated = (case bk_dedup_bytes b of None \<Rightarrow> ''unknown'' | Some n \<Rightarrow> bytes_text True n),
      bv_stored = bytes_text True (bk_stored_bytes b), bv_compression = unknown_text (bk_compression b),
      bv_encryption = unknown_text (bk_encryption b)\<rparr>"

record recent_object_view =
  ov_key :: string
  ov_scope :: string
  ov_size :: string
  ov_last_modified :: string

definition recent_object_view_of :: "recent_object \<Rightarrow> recent_object_view" where
  "recent_object_view_of ob =
     \<lparr>ov_key = rc_key ob, ov_scope = rc_scope ob, ov_size = bytes_text True (rc_size ob),
      ov_last_modified = (if time_is_zero (rc_last_modified ob) then ''unknown''
        else rfc3339 (time_utc (rc_last_modified ob)))\<rparr>"

record wal_summary_view =
  wv_server :: string
  wv_state :: string
  wv_reason :: string
  wv_version :: string
  wv_segment_size :: string
  wv_segments :: string
  wv_ranges :: string
  wv_candidate_gaps :: string
  wv_confirmed_gaps :: string
  wv_latest_receipt :: string

definition wal_summary_view_of :: "server_wal \<Rightarrow> wal_summary_view" where
  "wal_summary_view_of s =
     \<lparr>wv_server = sw_server s, wv_state = state_text (sw_state s), wv_reason = sw_reason s,
      wv_version = (if 0 < sw_version s then int_text (sw_version s) else ''unknown''),
      wv_segment_size = (if 0 < sw_segment_size s then bytes_text True (sw_segment_size s) else ''unknown''),
      wv_segments = int_text (ct_segments (sw_counts s)), wv_ranges = decimal_text (length (sw_ranges s)),
      wv_candidate_gaps = decimal_text (length (filter (\<lambda>g. wg_status g = GapCandidate) (sw_gaps s))),
      wv_confirmed_gaps = decimal_text (length (filter (\<lambda>g. wg_status g = GapConfirmed) (sw_gaps s))),
      wv_latest_receipt = archive_receipt_text (sw_latest_receipt s)\<rparr>"

record timeline_view =
  tv_timeline :: string
  tv_parent :: string
  tv_child :: string
  tv_switch_lsn :: string
  tv_switch_wal :: string
  tv_state :: string
  tv_reason :: string

record recovery_path_view =
  pv_backup_id :: string
  pv_target :: string
  pv_state :: string
  pv_stop :: string
  pv_lower_bound :: string
  pv_start_wal :: string
  pv_frontier_wal :: string
  pv_frontier_receipt :: string
  pv_reason :: string
  pv_assumptions :: string

record retention_view =
  nv_visible :: string
  nv_usable :: string
  nv_oldest :: string
  nv_newest :: string
  nv_expected_minimum :: string
  nv_policy :: string
  nv_state :: string
  nv_reason :: string

record recovery_server_view =
  yv_server :: string
  yv_timeline_state :: string
  yv_timeline_reason :: string
  yv_coverage_state :: string
  yv_coverage_reason :: string
  yv_histories :: "timeline_view list"
  yv_paths :: "recovery_path_view list"
  yv_retention :: retention_view

text \<open>A history without edges has one line, any other one line for each edge.\<close>

definition timeline_views :: "timeline_history \<Rightarrow> timeline_view list" where
  "timeline_views h =
     (let t = timeline_text (th_timeline h); st = state_text (th_state h) in
      if th_edges h = []
      then [\<lparr>tv_timeline = t, tv_parent = ''unknown'', tv_child = t, tv_switch_lsn = ''unknown'',
             tv_switch_wal = ''unknown'', tv_state = st, tv_reason = th_reason h\<rparr>]
      else map (\<lambda>e. \<lparr>tv_timeline = t, tv_parent = timeline_text (he_parent e), tv_child = timeline_text (he_child e),
             tv_switch_lsn = format_lsn (he_switch_lsn e), tv_switch_wal = he_switch_wal e, tv_state = st,
             tv_reason = th_reason h\<rparr>) (th_edges h))"

fun stop_text :: "coverage_stop \<Rightarrow> string" where
  "stop_text CoverageFrontier = ''frontier''"
| "stop_text CoverageCandidateLimited = ''candidate-limited''"
| "stop_text CoverageGapLimited = ''gap-limited''"
| "stop_text CoverageUnknownLimited = ''unknown-limited''"
| "stop_text (OtherStop s) = s"

definition joined :: "string \<Rightarrow> string list \<Rightarrow> string" where
  "joined sep xs = (case xs of [] \<Rightarrow> [] | x # rest \<Rightarrow> x @ concat (map (\<lambda>y. sep @ y) rest))"

definition recovery_path_view_of :: "recovery_path \<Rightarrow> recovery_path_view" where
  "recovery_path_view_of p =
     \<lparr>pv_backup_id = rp_backup_id p, pv_target = timeline_text (rp_target p), pv_state = state_text (rp_state p),
      pv_stop = stop_text (rp_stop p), pv_lower_bound = time_text (rp_lower_bound p),
      pv_start_wal = unknown_text (rp_start_wal p), pv_frontier_wal = unknown_text (rp_frontier_wal p),
      pv_frontier_receipt = archive_receipt_text (rp_frontier_receipt p), pv_reason = rp_reason p,
      pv_assumptions = joined ''; '' (rp_assumptions p)\<rparr>"

definition retention_view_of :: "retention \<Rightarrow> retention_view" where
  "retention_view_of r =
     \<lparr>nv_visible = int_text (rs_visible r), nv_usable = int_text (rs_usable r), nv_oldest = time_text (rs_oldest r),
      nv_newest = time_text (rs_newest r),
      nv_expected_minimum = (if rs_minimum_configured r then int_text (rs_minimum_redundancy r) else ''not configured''),
      nv_policy = (if rs_policy_configured r then ''configured but not interpreted'' else ''not configured''),
      nv_state = state_text (rs_state r), nv_reason = rs_reason r\<rparr>"

definition recovery_server_view_of :: "server_recovery \<Rightarrow> recovery_server_view" where
  "recovery_server_view_of s =
     \<lparr>yv_server = sr_server s, yv_timeline_state = state_text (sr_timeline_state s),
      yv_timeline_reason = sr_timeline_reason s, yv_coverage_state = state_text (sr_coverage_state s),
      yv_coverage_reason = sr_coverage_reason s, yv_histories = concat (map timeline_views (sr_histories s)),
      yv_paths = map recovery_path_view_of (sr_paths s), yv_retention = retention_view_of (sr_retention s)\<rparr>"

section \<open>The displayed user\<close>

text \<open>
  \<open>strings.Map\<close> with the function that drops control characters: the bytes of a code point
  stay together, a byte that begins no code point becomes U+FFFD, and the control characters
  are U+0000 to U+001F and U+007F to U+009F. The latter 32 have two bytes.
\<close>

definition replacement :: string where
  "replacement = [CHR 0xEF, CHR 0xBF, CHR 0xBD]"

definition latin_control :: "char \<Rightarrow> char \<Rightarrow> bool" where
  "latin_control c d \<longleftrightarrow> byte c = 194 \<and> 128 \<le> byte d \<and> byte d \<le> 159"

fun drop_controls :: "string \<Rightarrow> string" where
  "drop_controls [] = []"
| "drop_controls (c # cs) =
     (if byte c < 128 then (if ascii_control c then [] else [c]) @ drop_controls cs
      else case cs of
        d # ds \<Rightarrow>
          if utf8_two c d then (if latin_control c d then [] else [c, d]) @ drop_controls ds
          else (case ds of
            e # es \<Rightarrow>
              if utf8_three c d e then [c, d, e] @ drop_controls es
              else (case es of
                f # fs \<Rightarrow>
                  if utf8_four c d e f then [c, d, e, f] @ drop_controls fs
                  else replacement @ drop_controls cs
              | [] \<Rightarrow> replacement @ drop_controls cs)
          | [] \<Rightarrow> replacement @ drop_controls cs)
      | [] \<Rightarrow> replacement @ drop_controls cs)"

text \<open>The loop that shortens a text until it is UTF-8; the empty text is, so it ends.\<close>

function cut_valid :: "string \<Rightarrow> string" where
  "cut_valid s = (if valid_utf8 s then s else cut_valid (butlast s))"
  by pat_completeness auto
termination
proof (relation "measure length")
  fix s :: string
  assume "\<not> valid_utf8 s"
  then have "s \<noteq> []" by auto
  then show "(butlast s, s) \<in> measure length" by simp
qed simp

declare cut_valid.simps [simp del]

definition maxDisplayedUserBytes :: nat where "maxDisplayedUserBytes = 256"

definition displayed_user :: "string \<Rightarrow> bool \<Rightarrow> string" where
  "displayed_user v enabled =
     (if \<not> enabled then []
      else let s = drop_controls v in
        if length s \<le> maxDisplayedUserBytes then s else cut_valid (take maxDisplayedUserBytes s))"

lemma valid_utf8_cons: "byte c < 128 \<Longrightarrow> valid_utf8 (c # s) = valid_utf8 s"
  by (cases "c # s" rule: valid_utf8.cases) auto

lemma utf8_ascii:
  "byte c < 128 \<Longrightarrow> \<not> utf8_two c d \<and> \<not> utf8_three c d e \<and> \<not> utf8_four c d e f"
  by (simp add: utf8_two_def utf8_three_def utf8_four_def)

lemma utf8_first:
  "utf8_two c d \<Longrightarrow> 194 \<le> byte c \<and> byte c \<le> 223 \<and> 128 \<le> byte d"
  "utf8_three c d e \<Longrightarrow> 224 \<le> byte c \<and> byte c \<le> 239 \<and> 128 \<le> byte d \<and> 128 \<le> byte e"
  "utf8_four c d e f \<Longrightarrow> 240 \<le> byte c \<and> 128 \<le> byte d \<and> 128 \<le> byte e \<and> 128 \<le> byte f"
  by (simp_all add: utf8_two_def utf8_three_def utf8_four_def utf8_cont_def)

lemma valid_utf8_two: "utf8_two c d \<Longrightarrow> valid_utf8 (c # d # s) = valid_utf8 s"
  using utf8_first(1) [of c d] by (cases "c # d # s" rule: valid_utf8.cases) auto

lemma valid_utf8_three: "utf8_three c d e \<Longrightarrow> valid_utf8 (c # d # e # s) = valid_utf8 s"
  using utf8_first(1) [of c d] utf8_first(2) [of c d e]
  by (cases "c # d # e # s" rule: valid_utf8.cases) auto

lemma valid_utf8_four: "utf8_four c d e f \<Longrightarrow> valid_utf8 (c # d # e # f # s) = valid_utf8 s"
  using utf8_first(1) [of c d] utf8_first(2) [of c d e] utf8_first(3) [of c d e f] by auto

lemmas valid_utf8_runes = valid_utf8_two valid_utf8_three valid_utf8_four

lemma valid_utf8_replacement: "valid_utf8 (replacement @ s) = valid_utf8 s"
  unfolding replacement_def by (simp add: valid_utf8_three utf8_three_def utf8_cont_def)

lemma drop_controls_valid: "valid_utf8 (drop_controls s)"
  using valid_utf8_replacement [of "[]"]
  by (induction s rule: drop_controls.induct)
    (auto simp: valid_utf8_cons valid_utf8_runes valid_utf8_replacement split: list.splits)

lemma has_control_ascii: "byte c < 128 \<Longrightarrow> has_control (c # s) \<longleftrightarrow> ascii_control c \<or> has_control s"
  by (cases s) auto

lemma has_control_high: "128 \<le> byte c \<Longrightarrow> byte c \<noteq> 194 \<Longrightarrow> has_control (c # s) = has_control s"
  by (cases s) (auto simp: ascii_control_def)

lemma has_control_two: "utf8_two c d \<Longrightarrow> has_control (c # d # s) \<longleftrightarrow> latin_control c d \<or> has_control s"
proof -
  assume u: "utf8_two c d"
  then have "byte d \<noteq> 194" "128 \<le> byte d" "194 \<le> byte c" by (auto simp: utf8_two_def utf8_cont_def)
  then show ?thesis using has_control_high [of d s] by (auto simp: latin_control_def ascii_control_def)
qed

lemma has_control_three: "utf8_three c d e \<Longrightarrow> has_control (c # d # e # s) = has_control s"
  using has_control_high [of c "d # e # s"] has_control_high [of d "e # s"] has_control_high [of e s]
  by (auto simp: utf8_three_def utf8_cont_def simp del: has_control.simps)

lemma has_control_four: "utf8_four c d e f \<Longrightarrow> has_control (c # d # e # f # s) = has_control s"
  using has_control_high [of c "d # e # f # s"] has_control_high [of d "e # f # s"]
    has_control_high [of e "f # s"] has_control_high [of f s]
  by (auto simp: utf8_four_def utf8_cont_def simp del: has_control.simps)

lemma has_control_replacement: "has_control (replacement @ s) = has_control s"
  unfolding replacement_def by (simp add: has_control_three utf8_three_def utf8_cont_def del: has_control.simps(3))

lemmas has_control_runes = has_control_ascii has_control_two has_control_three has_control_four

lemma drop_controls_clean: "\<not> has_control (drop_controls s)"
  using has_control_replacement [of "[]"]
  by (induction s rule: drop_controls.induct)
    (auto simp: has_control_runes has_control_replacement simp del: has_control.simps(2,3) split: list.splits)

lemma valid_utf8_cases:
  "valid_utf8 s \<Longrightarrow> s = [] \<or> (\<exists>c t. s = c # t \<and> byte c < 128 \<and> valid_utf8 t)
     \<or> (\<exists>c d t. s = c # d # t \<and> utf8_two c d \<and> valid_utf8 t)
     \<or> (\<exists>c d e t. s = c # d # e # t \<and> utf8_three c d e \<and> valid_utf8 t)
     \<or> (\<exists>c d e f t. s = c # d # e # f # t \<and> utf8_four c d e f \<and> valid_utf8 t)"
  by (cases s rule: valid_utf8.cases) (auto split: if_splits)

text \<open>A UTF-8 text is built from its code points.\<close>

lemma valid_utf8_induct [consumes 1, case_names empty one two three four]:
  assumes "valid_utf8 s" and "P []"
    and "\<And>c t. byte c < 128 \<Longrightarrow> valid_utf8 t \<Longrightarrow> P t \<Longrightarrow> P (c # t)"
    and "\<And>c d t. utf8_two c d \<Longrightarrow> valid_utf8 t \<Longrightarrow> P t \<Longrightarrow> P (c # d # t)"
    and "\<And>c d e t. utf8_three c d e \<Longrightarrow> valid_utf8 t \<Longrightarrow> P t \<Longrightarrow> P (c # d # e # t)"
    and "\<And>c d e f t. utf8_four c d e f \<Longrightarrow> valid_utf8 t \<Longrightarrow> P t \<Longrightarrow> P (c # d # e # f # t)"
  shows "P s"
  using assms(1)
proof (induction s rule: length_induct)
  case (1 s)
  then have ih: "length t < length s \<Longrightarrow> valid_utf8 t \<Longrightarrow> P t" for t by blast
  from valid_utf8_cases [OF 1(2)] show ?case
    by (elim disjE exE conjE) (use assms(2-) ih in \<open>simp_all\<close>)
qed

lemma drop_controls_id: "valid_utf8 s \<Longrightarrow> \<not> has_control s \<Longrightarrow> drop_controls s = s"
proof (induction s rule: valid_utf8_induct)
  case (one c t)
  then show ?case by (simp add: has_control_ascii del: has_control.simps)
next
  case (two c d t)
  then show ?case using utf8_first(1) [of c d] by (simp add: has_control_two del: has_control.simps)
next
  case (three c d e t)
  then show ?case using utf8_first(1) [of c d] utf8_first(2) [of c d e]
    by (auto simp: has_control_three simp del: has_control.simps)
next
  case (four c d e f t)
  then show ?case using utf8_first(1) [of c d] utf8_first(2) [of c d e] utf8_first(3) [of c d e f]
    by (auto simp: has_control_four simp del: has_control.simps)
qed simp

lemma has_control_prefix: "has_control s \<Longrightarrow> has_control (s @ t)"
proof (induction s rule: has_control.induct)
  case (2 c)
  then show ?case by (cases t) auto
qed auto

lemma has_control_take: "has_control (take n s) \<Longrightarrow> has_control s"
  using has_control_prefix [of "take n s" "drop n s"] by simp

text \<open>The bytes of a cut code point are at most three.\<close>

lemma cut_after:
  assumes "\<And>u. valid_utf8 (p @ u) = valid_utf8 u" "length p = m" "m \<le> 4" "\<exists>k\<le>3. valid_utf8 (take (n - m - k) t)"
  shows "\<exists>k\<le>3. valid_utf8 (take (n - k) (p @ t))"
proof (cases "n < length p")
  case True
  then show ?thesis using assms(2,3) by (intro exI [of _ n]) simp
next
  case False
  from assms(2,4) obtain k where k: "k \<le> 3" "valid_utf8 (take (n - length p - k) t)" by blast
  let ?k = "min k (n - length p)"
  have "n - ?k - length p = n - length p - k" "length p \<le> n - ?k" using False by auto
  then have "valid_utf8 (take (n - ?k) (p @ t))" using k(2) assms(1) by simp
  with k(1) show ?thesis by (intro exI [of _ ?k]) simp
qed

lemma valid_utf8_cut: "valid_utf8 s \<Longrightarrow> \<exists>k\<le>3. valid_utf8 (take (n - k) s)"
proof (induction s arbitrary: n rule: valid_utf8_induct)
  case (one c t)
  then show ?case using cut_after [of "[c]" 1 n t, OF _ _ _ one(3) [of "n - 1"]] by (simp add: valid_utf8_cons)
next
  case (two c d t)
  then show ?case using cut_after [of "[c, d]" 2 n t, OF _ _ _ two(3) [of "n - 2"]] by (simp add: valid_utf8_two del: valid_utf8.simps)
next
  case (three c d e t)
  then show ?case using cut_after [of "[c, d, e]" 3 n t, OF _ _ _ three(3) [of "n - 3"]] by (simp add: valid_utf8_three del: valid_utf8.simps)
next
  case (four c d e f t)
  then show ?case using cut_after [of "[c, d, e, f]" 4 n t, OF _ _ _ four(3) [of "n - 4"]] by (simp add: valid_utf8_four del: valid_utf8.simps)
qed (auto intro: exI [of _ 0])

lemma cut_valid_spec:
  "valid_utf8 (cut_valid s) \<and> (\<exists>n. cut_valid s = take n s)
   \<and> (\<forall>n. valid_utf8 (take n s) \<longrightarrow> length (take n s) \<le> length (cut_valid s))"
proof (induction s rule: cut_valid.induct)
  case (1 s)
  show ?case
  proof (cases "valid_utf8 s")
    case True
    then show ?thesis by (auto simp: cut_valid.simps [of s] intro: exI [of _ "length s"])
  next
    case False
    then have eq: "cut_valid s = cut_valid (butlast s)" by (simp add: cut_valid.simps [of s])
    have inner: "take n (butlast s) = take (min n (length s - 1)) s" for n
      by (simp add: butlast_conv_take min.commute)
    obtain n where n: "cut_valid (butlast s) = take n (butlast s)" using 1 [OF False] by blast
    have "length (take m s) \<le> length (cut_valid (butlast s))" if "valid_utf8 (take m s)" for m
    proof -
      from that False have "m < length s" by (cases "m < length s") auto
      then have "take m s = take m (butlast s)" using inner [of m] by simp
      with that 1 [OF False] show ?thesis by simp
    qed
    with n 1 [OF False] show ?thesis unfolding eq inner by blast
  qed
qed

text \<open>
  The displayed user has no control character, is UTF-8 of at most 256 bytes; it is a cleaned
  header cut after its last whole code point, and a clean header within the bound itself.
\<close>

lemma displayed_user_spec:
  fixes v :: string
  defines "s \<equiv> drop_controls v"
  shows "valid_utf8 (displayed_user v enabled)" "\<not> has_control (displayed_user v enabled)"
    and "length (displayed_user v enabled) \<le> 256"
    and "length s \<le> 256 \<Longrightarrow> displayed_user v True = s"
    and "256 < length s \<Longrightarrow> \<exists>n\<ge>253. displayed_user v True = take n s"
proof -
  note cut = cut_valid_spec [of "take 256 s"]
  have s: "valid_utf8 s" "\<not> has_control s" unfolding s_def by (rule drop_controls_valid drop_controls_clean)+
  have eq: "displayed_user v enabled = (if \<not> enabled then [] else if length s \<le> 256 then s else cut_valid (take 256 s))"
    for enabled by (simp add: displayed_user_def s_def Let_def maxDisplayedUserBytes_def)
  obtain n where n: "cut_valid (take 256 s) = take n (take 256 s)" using cut by blast
  show "valid_utf8 (displayed_user v enabled)" using eq s(1) cut by simp
  show "\<not> has_control (displayed_user v enabled)" using s(2) has_control_take [of 256 s] has_control_take [of n "take 256 s"] n
    by (auto simp: eq simp del: take_take)
  show "length (displayed_user v enabled) \<le> 256" using n by (simp add: eq)
  show "length s \<le> 256 \<Longrightarrow> displayed_user v True = s" by (simp add: eq)
  assume long: "256 < length s"
  obtain k where k: "k \<le> 3" "valid_utf8 (take (256 - k) s)" using valid_utf8_cut [OF s(1), of 256] by blast
  then have "take (256 - k) (take 256 s) = take (256 - k) s" by simp
  then have "256 - k \<le> length (cut_valid (take 256 s))"
    using cut [THEN conjunct2, THEN conjunct2, rule_format, of "256 - k"] k(2) long by simp
  then have "253 \<le> min n 256" using k(1) n long by simp
  moreover have "cut_valid (take 256 s) = take (min n 256) s" using n by simp
  ultimately show "\<exists>n\<ge>253. displayed_user v True = take n s" using long by (intro exI [of _ "min n 256"]) (simp add: eq)
qed

section \<open>Properties\<close>

text \<open>
  C40. The user that a page shows from the header of the authenticating proxy is harmless text:
  whatever bytes the header has, what is shown is UTF-8 without control characters, of at most
  256 bytes. It is the cleaned header, cut only where it is too long and then by no more than
  the three bytes of a split code point below the bound; a header that is clean and short is
  shown as it is, and nothing is shown where no header is trusted.
\<close>

theorem displayed_user_safe:
  "valid_utf8 (displayed_user v enabled) \<and> \<not> has_control (displayed_user v enabled)
   \<and> length (displayed_user v enabled) \<le> 256 \<and> displayed_user v False = []
   \<and> (displayed_user v True = drop_controls v \<or> (\<exists>n\<ge>253. displayed_user v True = take n (drop_controls v)))
   \<and> (valid_utf8 v \<longrightarrow> \<not> has_control v \<longrightarrow> length v \<le> 256 \<longrightarrow> displayed_user v True = v)"
proof -
  have "displayed_user v True = drop_controls v \<or> (\<exists>n\<ge>253. displayed_user v True = take n (drop_controls v))"
    using displayed_user_spec(4,5) [of v] by (cases "length (drop_controls v) \<le> 256") auto
  moreover have "displayed_user v False = []" by (simp add: displayed_user_def)
  ultimately show ?thesis
    using displayed_user_spec(1-3) [of v enabled] displayed_user_spec(4) [of v] drop_controls_id [of v] by metis
qed

theorem displayed_user_safe_witness:
  "displayed_user ''dba@example'' True = ''dba@example''
   \<and> valid_utf8 (displayed_user (''dba'' @ [CHR 0x1B, CHR 0xFF]) True)"
  using displayed_user_safe [of "''dba@example''" True]
    displayed_user_safe [of "''dba'' @ [CHR 0x1B, CHR 0xFF]" True]
  by (simp add: valid_utf8_cons has_control_ascii ascii_control_def del: has_control.simps(3) valid_utf8.simps(3-))

end
