(* ===== verification/Object_Stores.thy ===== *)
theory Object_Stores
  imports Scanner Cursor Configuration
begin

text \<open>
  The provider adapters behind the store boundary: \<open>internal/provider/s3/store.go\<close>,
  \<open>internal/provider/azure/store.go\<close> and \<open>internal/provider/gcs/store.go\<close>.

  The SDKs are parameters: a function per call that gets the request the adapter builds and
  answers it or fails. A failure comes with the state of the request context, which the adapters
  look at first. The HMAC of the continuation tokens is a parameter as in \<open>Cursor\<close>. Constructing
  the SDK clients is not modelled.
\<close>

section \<open>Common parts\<close>

datatype ctx_state = CtxLive | CtxCanceled | CtxExpired

text \<open>An answer of an SDK: the context when it failed and what the adapter looks for in the error.\<close>

datatype ('f, 'a) call = Failed ctx_state 'f | Answer 'a

definition provider_error :: "fault \<Rightarrow> go_error" where
  "provider_error kind = \<lparr>err_canceled = False, err_deadline = False, err_category = Some kind\<rparr>"

text \<open>\<open>store.ErrInvalidRequest\<close>.\<close>

definition invalid_request :: go_error where "invalid_request = plain_error"

fun context_failure :: "ctx_state \<Rightarrow> go_error option" where
  "context_failure CtxLive = None"
| "context_failure CtxCanceled = Some (plain_error\<lparr>err_canceled := True\<rparr>)"
| "context_failure CtxExpired = Some (plain_error\<lparr>err_deadline := True\<rparr>)"

definition rooted :: "string \<Rightarrow> string" where
  "rooted prefix = (let p = trim_slashes prefix in if p \<noteq> [] then p @ ''/'' else p)"

definition relative_key :: "string \<Rightarrow> string \<Rightarrow> string \<Rightarrow> string \<times> bool" where
  "relative_key root full requested =
     (if \<not> has_prefix full root then ([], False)
      else let r = trim_prefix full root in (r, has_prefix r requested))"

definition bounded_etag :: "string option \<Rightarrow> string" where
  "bounded_etag e = (case e of Some t \<Rightarrow> if length t \<le> 512 then t else [] | None \<Rightarrow> [])"

definition utc_modified :: "gotime option \<Rightarrow> gotime" where
  "utc_modified m = (case m of Some t \<Rightarrow> time_utc t | None \<Rightarrow> zero_time)"

definition leading_slash :: "string \<Rightarrow> bool" where
  "leading_slash s \<longleftrightarrow> has_prefix s ''/''"

section \<open>S3\<close>

record s3_object =
  sj_key :: "string option"
  sj_size :: "int option"
  sj_modified :: "gotime option"
  sj_etag :: "string option"

record s3_listing =
  sl_contents :: "s3_object list"
  sl_truncated :: "bool option"
  sl_next :: "string option"

record s3_list_input =
  li_bucket :: string
  li_prefix :: string
  li_max_keys :: int
  li_token :: "string option"

record s3_head =
  sh_length :: "int option"
  sh_modified :: "gotime option"
  sh_etag :: "string option"

text \<open>The code of an API error, or none; the body of an object is what reading it yields.\<close>

record s3_api =
  sa_list :: "nat \<Rightarrow> s3_list_input \<Rightarrow> (string option, s3_listing option) call"
  sa_get :: "string \<Rightarrow> string \<Rightarrow> (string option, opened option) call"
  sa_head :: "string \<Rightarrow> string \<Rightarrow> (string option, s3_head option) call"

record s3_options =
  op_bucket :: string
  op_prefix :: string
  op_endpoint :: "url option"
  op_ca_bundle :: string
  op_region :: string
  op_access_key :: string
  op_secret_key :: string
  op_session_token :: string
  op_web_identity_file :: string
  op_role_arn :: string
  op_timeout :: int

record s3_store =
  st_api :: s3_api
  st_bucket :: string
  st_root :: string
  st_timeout :: int
  st_key :: string

definition maxRequestTimeout :: int where "maxRequestTimeout = 300 * nanoseconds"

definition invalid_options :: "s3_options \<Rightarrow> bool" where
  "invalid_options o' =
     (if op_bucket o' = [] \<or> 255 < length (op_bucket o') \<or> has_control (op_bucket o')
         \<or> op_timeout o' \<le> 0 \<or> maxRequestTimeout < op_timeout o' \<or> MaxKeyBytes < length (op_prefix o')
         \<or> 128 < length (op_region o') \<or> has_control (op_region o') \<or> 1024 * 1024 < length (op_ca_bundle o')
         \<or> 64 * 1024 < length (op_access_key o') \<or> 64 * 1024 < length (op_secret_key o')
         \<or> 64 * 1024 < length (op_session_token o') \<or> 4096 < length (op_web_identity_file o')
         \<or> 2048 < length (op_role_arn o') \<or> has_control (op_web_identity_file o') \<or> has_control (op_role_arn o')
         \<or> (op_access_key o' = []) \<noteq> (op_secret_key o' = [])
         \<or> (op_session_token o' \<noteq> [] \<and> op_access_key o' = [])
         \<or> (op_web_identity_file o' = []) \<noteq> (op_role_arn o' = [])
         \<or> (op_access_key o' \<noteq> [] \<and> op_web_identity_file o' \<noteq> [])
      then True
      else case op_endpoint o' of None \<Rightarrow> False
      | Some u \<Rightarrow> ur_host u = [] \<or> ur_user u \<or> ur_raw_query u \<noteq> [] \<or> ur_fragment u \<noteq> [] \<or> ur_opaque u \<noteq> []
          \<or> (ur_path u \<noteq> [] \<and> ur_path u \<noteq> ''/'') \<or> ur_raw_path u \<noteq> []
          \<or> (ur_scheme u \<noteq> ''http'' \<and> ur_scheme u \<noteq> ''https''))"

definition new_with_api :: "s3_api \<Rightarrow> s3_options \<Rightarrow> string \<Rightarrow> go_error + s3_store" where
  "new_with_api api o' key =
     (if invalid_options o' \<or> length key < 32 then Inl (provider_error InvalidConfig)
      else Inr \<lparr>st_api = api, st_bucket = op_bucket o', st_root = rooted (op_prefix o'),
        st_timeout = op_timeout o', st_key = key\<rparr>)"

definition category_for_code :: "string \<Rightarrow> fault" where
  "category_for_code code =
     (if code \<in> {''AccessDenied'', ''AllAccessDisabled''} then Authorization
      else if code \<in> {''ExpiredToken'', ''InvalidAccessKeyId'', ''InvalidToken'', ''SignatureDoesNotMatch''}
      then Authentication
      else if code \<in> {''NoSuchBucket'', ''NoSuchKey'', ''NotFound''} then NotFound
      else if code \<in> {''SlowDown'', ''Throttling'', ''ThrottlingException'', ''TooManyRequestsException''}
      then Throttled else Unavailable)"

definition s3_safe_error :: "ctx_state \<Rightarrow> string option \<Rightarrow> go_error" where
  "s3_safe_error ctx code =
     (case context_failure ctx of Some e \<Rightarrow> e
      | None \<Rightarrow> (case code of Some c \<Rightarrow> provider_error (category_for_code c)
                 | None \<Rightarrow> provider_error Unavailable))"

text \<open>The signed cursors of this adapter; a length that is too large for 32 bits cannot occur.\<close>

definition s3_encode_cursor ::
  "(string \<Rightarrow> string \<Rightarrow> string) \<Rightarrow> string \<Rightarrow> string \<Rightarrow> string \<Rightarrow> go_error + string" where
  "s3_encode_cursor hmac key prefix token =
     (if MaxKeyBytes < length prefix \<or> MaxCursorBytes - hash_size - 4 < length token
      then Inl (provider_error SafetyLimit)
      else let body = cursor_body prefix token; encoded = b64_encode (body @ hmac key body) in
        if MaxCursorBytes < length encoded then Inl (provider_error SafetyLimit) else Inr encoded)"

definition s3_decode_cursor ::
  "(string \<Rightarrow> string \<Rightarrow> string) \<Rightarrow> string \<Rightarrow> string \<Rightarrow> string \<Rightarrow> go_error + string" where
  "s3_decode_cursor hmac key prefix encoded =
     (if encoded = [] then Inr []
      else case b64_decode encoded of None \<Rightarrow> Inl invalid_request
      | Some decoded \<Rightarrow>
          if length decoded < 4 + hash_size then Inl invalid_request
          else let body = take (length decoded - hash_size) decoded;
                   signature = drop (length decoded - hash_size) decoded in
            if signature \<noteq> hmac key body then Inl invalid_request
            else let n = from_be32 (take 4 body) in
              if length body - 4 < n \<or> take n (drop 4 body) \<noteq> prefix then Inl invalid_request
              else Inr (drop (4 + n) body))"

fun s3_objects :: "string \<Rightarrow> string \<Rightarrow> s3_object list \<Rightarrow> go_error + object list" where
  "s3_objects root requested [] = Inr []"
| "s3_objects root requested (x # xs) =
     (case (sj_key x, sj_size x) of
        (Some full, Some n) \<Rightarrow>
          if n < 0 then Inl (provider_error Unavailable)
          else let (key, ok) = relative_key root full requested in
            if \<not> ok \<or> key = [] \<or> MaxKeyBytes < length key then Inl (provider_error SafetyLimit)
            else (case s3_objects root requested xs of Inl e \<Rightarrow> Inl e
              | Inr obs \<Rightarrow> Inr (\<lparr>ob_key = key, ob_size = n, ob_last_modified = utc_modified (sj_modified x),
                  ob_etag = bounded_etag (sj_etag x)\<rparr> # obs))
      | _ \<Rightarrow> Inl (provider_error Unavailable))"

definition s3_list ::
  "(string \<Rightarrow> string \<Rightarrow> string) \<Rightarrow> s3_store \<Rightarrow> nat \<Rightarrow> list_request \<Rightarrow> go_error + page" where
  "s3_list hmac s k r =
     (if validate_list_request r \<noteq> None \<or> leading_slash (lr_prefix r) then Inl invalid_request
      else case s3_decode_cursor hmac (st_key s) (lr_prefix r) (lr_cursor r) of Inl e \<Rightarrow> Inl e
      | Inr continuation \<Rightarrow>
        (case sa_list (st_api s) k
            \<lparr>li_bucket = st_bucket s, li_prefix = st_root s @ lr_prefix r, li_max_keys = lr_limit r,
             li_token = (if continuation \<noteq> [] then Some continuation else None)\<rparr> of
           Failed ctx code \<Rightarrow> Inl (s3_safe_error ctx code)
         | Answer None \<Rightarrow> Inl (provider_error Unavailable)
         | Answer (Some out) \<Rightarrow>
             if lr_limit r < int (length (sl_contents out)) then Inl (provider_error Unavailable)
             else case s3_objects (st_root s) (lr_prefix r) (sl_contents out) of Inl e \<Rightarrow> Inl e
             | Inr obs \<Rightarrow>
                 if sl_truncated out = Some True then
                   (case sl_next out of
                      None \<Rightarrow> Inl (provider_error Unavailable)
                    | Some next \<Rightarrow>
                        if next = [] then Inl (provider_error Unavailable)
                        else (case s3_encode_cursor hmac (st_key s) (lr_prefix r) next of Inl e \<Rightarrow> Inl e
                          | Inr c \<Rightarrow> Inr \<lparr>pg_objects = obs, pg_next_cursor = c\<rparr>))
                 else Inr \<lparr>pg_objects = obs, pg_next_cursor = []\<rparr>))"

text \<open>The body behind the limited reader.\<close>

definition limited_body :: "int \<Rightarrow> opened \<Rightarrow> opened" where
  "limited_body n b = (case b of Content data \<Rightarrow> Content (take (nat n) data) | OpenFailed \<Rightarrow> OpenFailed | ReadFailed \<Rightarrow> ReadFailed)"

definition s3_open :: "s3_store \<Rightarrow> open_request \<Rightarrow> go_error + opened" where
  "s3_open s r =
     (if validate_open_request r \<noteq> None \<or> leading_slash (or_key r) then Inl invalid_request
      else case sa_get (st_api s) (st_bucket s) (st_root s @ or_key r) of
        Failed ctx code \<Rightarrow> Inl (s3_safe_error ctx code)
      | Answer None \<Rightarrow> Inl (provider_error Unavailable)
      | Answer (Some body) \<Rightarrow> Inr (limited_body (or_max_bytes r) body))"

definition s3_stat :: "s3_store \<Rightarrow> stat_request \<Rightarrow> go_error + object" where
  "s3_stat s r =
     (if validate_stat_request r \<noteq> None \<or> leading_slash (sr_key r) then Inl invalid_request
      else case sa_head (st_api s) (st_bucket s) (st_root s @ sr_key r) of
        Failed ctx code \<Rightarrow> Inl (s3_safe_error ctx code)
      | Answer None \<Rightarrow> Inl (provider_error Unavailable)
      | Answer (Some h) \<Rightarrow>
          (case sh_length h of None \<Rightarrow> Inl (provider_error Unavailable)
           | Some n \<Rightarrow>
               if n < 0 then Inl (provider_error Unavailable)
               else Inr \<lparr>ob_key = sr_key r, ob_size = n, ob_last_modified = utc_modified (sh_modified h),
                      ob_etag = bounded_etag (sh_etag h)\<rparr>))"


section \<open>Constructing an S3 store\<close>

text \<open>
  What the SDK is configured with: the region, the credentials, the certificates and the
  endpoint, which is addressed path-style. \<open>connect\<close> stands for \<open>LoadDefaultConfig\<close> and
  \<open>NewFromConfig\<close>, \<open>accept_ca\<close> for the pool of certificates, \<open>rand\<close> for \<open>crypto/rand\<close>.
\<close>

datatype s3_credentials = DefaultChain | StaticKeys string string string | WebIdentity string string

record s3_client =
  sc_region :: "string option"
  sc_credentials :: s3_credentials
  sc_ca :: "string option"
  sc_endpoint :: "url option"

definition s3_client_of :: "s3_options \<Rightarrow> s3_client" where
  "s3_client_of o' =
     (let region = (if op_region o' = [] \<and> op_endpoint o' \<noteq> None then ''us-east-1'' else op_region o')
      in \<lparr>sc_region = (if region \<noteq> [] then Some region else None),
          sc_credentials =
            (if op_access_key o' \<noteq> []
             then StaticKeys (op_access_key o') (op_secret_key o') (op_session_token o')
             else if op_web_identity_file o' \<noteq> []
             then WebIdentity (op_web_identity_file o') (op_role_arn o') else DefaultChain),
          sc_ca = (if op_ca_bundle o' \<noteq> [] then Some (op_ca_bundle o') else None),
          sc_endpoint = op_endpoint o'\<rparr>)"

definition s3_new ::
  "(string \<Rightarrow> bool) \<Rightarrow> (s3_client \<Rightarrow> s3_api option) \<Rightarrow> (nat \<Rightarrow> string option) \<Rightarrow> s3_options \<Rightarrow> go_error + s3_store"
  where
  "s3_new accept_ca connect rand o' =
     (if invalid_options o' then Inl (provider_error InvalidConfig)
      else if op_ca_bundle o' \<noteq> [] \<and> \<not> accept_ca (op_ca_bundle o') then Inl (provider_error InvalidConfig)
      else case connect (s3_client_of o') of None \<Rightarrow> Inl (provider_error InvalidConfig)
      | Some api \<Rightarrow>
          (case rand 32 of None \<Rightarrow> Inl (provider_error Unavailable)
           | Some key \<Rightarrow> new_with_api api o' key))"

section \<open>Azure\<close>

text \<open>The properties of a listed blob are never nil, as the SDK documents.\<close>

record azure_item =
  ai_name :: "string option"
  ai_length :: "int option"
  ai_modified :: "gotime option"
  ai_etag :: "string option"

record azure_listing =
  al_segment :: "azure_item list option"
  al_next :: "string option"

record azure_list_input =
  an_container :: string
  an_prefix :: string
  an_max_results :: int
  an_marker :: "string option"

record azure_properties =
  ap_length :: "int option"
  ap_modified :: "gotime option"
  ap_etag :: "string option"

text \<open>The status code of a response error, or none.\<close>

record azure_api =
  aa_list :: "nat \<Rightarrow> azure_list_input \<Rightarrow> (int option, azure_listing) call"
  aa_download :: "string \<Rightarrow> string \<Rightarrow> (int option, opened) call"
  aa_properties :: "string \<Rightarrow> string \<Rightarrow> (int option, azure_properties) call"

record azure_options =
  ao_container :: string
  ao_prefix :: string
  ao_account :: string
  ao_connection_string :: string
  ao_account_key :: string
  ao_sas_token :: string
  ao_timeout :: int

record azure_store =
  as_api :: azure_api
  as_container :: string
  as_prefix :: string
  as_timeout :: int
  as_key :: string

datatype azure_client = ConnectionString string | SharedKey string string string
  | SignedUrl string | DefaultCredential string

definition azure_client_of :: "azure_options \<Rightarrow> azure_client option" where
  "azure_client_of o' =
     (let host = ''https://'' @ ao_account o' @ ''.blob.core.windows.net/'' in
      if ao_connection_string o' \<noteq> [] then Some (ConnectionString (ao_connection_string o'))
      else if ao_account o' \<noteq> [] \<and> ao_account_key o' \<noteq> []
      then Some (SharedKey (ao_account o') (ao_account_key o') host)
      else if ao_account o' \<noteq> [] \<and> ao_sas_token o' \<noteq> []
      then Some (SignedUrl (host @ ''?'' @ trim_prefix (ao_sas_token o') ''?''))
      else if ao_account o' = [] then None else Some (DefaultCredential host))"

definition azure_new ::
  "(azure_client \<Rightarrow> azure_api option) \<Rightarrow> (nat \<Rightarrow> string option) \<Rightarrow> azure_options \<Rightarrow> go_error + azure_store"
  where
  "azure_new connect rand o' =
     (if ao_container o' = [] \<or> ao_timeout o' \<le> 0 \<or> maxRequestTimeout < ao_timeout o'
      then Inl (provider_error InvalidConfig)
      else case azure_client_of o' of None \<Rightarrow> Inl (provider_error InvalidConfig)
      | Some client \<Rightarrow>
        (case connect client of None \<Rightarrow> Inl (provider_error InvalidConfig)
         | Some api \<Rightarrow>
           (case rand hash_size of None \<Rightarrow> Inl (provider_error Unavailable)
            | Some key \<Rightarrow> Inr \<lparr>as_api = api, as_container = ao_container o', as_prefix = rooted (ao_prefix o'),
                as_timeout = ao_timeout o', as_key = key\<rparr>)))"

definition status_category :: "int option \<Rightarrow> fault" where
  "status_category status =
     (if status = Some 401 then Authentication else if status = Some 403 then Authorization
      else if status = Some 404 then NotFound else if status = Some 429 then Throttled else Unavailable)"

definition status_error :: "ctx_state \<Rightarrow> int option \<Rightarrow> go_error" where
  "status_error ctx status =
     (case context_failure ctx of Some e \<Rightarrow> e | None \<Rightarrow> provider_error (status_category status))"

fun azure_objects :: "string \<Rightarrow> string \<Rightarrow> azure_item list \<Rightarrow> go_error + object list" where
  "azure_objects root requested [] = Inr []"
| "azure_objects root requested (x # xs) =
     (case (ai_name x, ai_length x) of
        (Some full, Some n) \<Rightarrow>
          if n < 0 then Inl (provider_error Unavailable)
          else let (key, ok) = relative_key root full requested in
            if \<not> ok \<or> key = [] \<or> MaxKeyBytes < length key then Inl (provider_error SafetyLimit)
            else (case azure_objects root requested xs of Inl e \<Rightarrow> Inl e
              | Inr obs \<Rightarrow> Inr (\<lparr>ob_key = key, ob_size = n, ob_last_modified = utc_modified (ai_modified x),
                  ob_etag = bounded_etag (ai_etag x)\<rparr> # obs))
      | _ \<Rightarrow> Inl (provider_error Unavailable))"

text \<open>The cursor of the next page, as the Azure and the Google adapter make it.\<close>

definition next_page ::
  "(string \<Rightarrow> string \<Rightarrow> string) \<Rightarrow> string \<Rightarrow> string \<Rightarrow> string \<Rightarrow> object list \<Rightarrow> go_error + page" where
  "next_page hmac key prefix token obs =
     (if token = [] then Inr \<lparr>pg_objects = obs, pg_next_cursor = []\<rparr>
      else case cursor_encode hmac key prefix token of Inl e \<Rightarrow> Inl (provider_error SafetyLimit)
      | Inr c \<Rightarrow> Inr \<lparr>pg_objects = obs, pg_next_cursor = c\<rparr>)"

definition azure_list ::
  "(string \<Rightarrow> string \<Rightarrow> string) \<Rightarrow> azure_store \<Rightarrow> nat \<Rightarrow> list_request \<Rightarrow> go_error + page" where
  "azure_list hmac s k r =
     (if validate_list_request r \<noteq> None \<or> leading_slash (lr_prefix r) then Inl invalid_request
      else case (if lr_cursor r = [] then Inr None
                 else map_sum id Some (cursor_decode hmac (as_key s) (lr_prefix r) (lr_cursor r))) of
        Inl e \<Rightarrow> Inl invalid_request
      | Inr marker \<Rightarrow>
        (case aa_list (as_api s) k
            \<lparr>an_container = as_container s, an_prefix = as_prefix s @ lr_prefix r,
             an_max_results = lr_limit r, an_marker = marker\<rparr> of
           Failed ctx status \<Rightarrow> Inl (status_error ctx status)
         | Answer response \<Rightarrow>
             (case al_segment response of None \<Rightarrow> Inl (provider_error Unavailable)
              | Some items \<Rightarrow>
                  if lr_limit r < int (length items) then Inl (provider_error Unavailable)
                  else (case azure_objects (as_prefix s) (lr_prefix r) items of Inl e \<Rightarrow> Inl e
                    | Inr obs \<Rightarrow> next_page hmac (as_key s) (lr_prefix r)
                        (case al_next response of None \<Rightarrow> [] | Some n \<Rightarrow> n) obs))))"

definition azure_open :: "azure_store \<Rightarrow> open_request \<Rightarrow> go_error + opened" where
  "azure_open s r =
     (if validate_open_request r \<noteq> None \<or> leading_slash (or_key r) then Inl invalid_request
      else case aa_download (as_api s) (as_container s) (as_prefix s @ or_key r) of
        Failed ctx status \<Rightarrow> Inl (status_error ctx status)
      | Answer body \<Rightarrow> Inr (limited_body (or_max_bytes r) body))"

definition azure_stat :: "azure_store \<Rightarrow> stat_request \<Rightarrow> go_error + object" where
  "azure_stat s r =
     (if validate_stat_request r \<noteq> None \<or> leading_slash (sr_key r) then Inl invalid_request
      else case aa_properties (as_api s) (as_container s) (as_prefix s @ sr_key r) of
        Failed ctx status \<Rightarrow> Inl (status_error ctx status)
      | Answer h \<Rightarrow>
          (case ap_length h of None \<Rightarrow> Inl (provider_error Unavailable)
           | Some n \<Rightarrow>
               if n < 0 then Inl (provider_error Unavailable)
               else Inr \<lparr>ob_key = sr_key r, ob_size = n, ob_last_modified = utc_modified (ap_modified h),
                      ob_etag = bounded_etag (ap_etag h)\<rparr>))"

section \<open>Google Cloud Storage\<close>

record gcs_attrs =
  ga_name :: string
  ga_size :: int
  ga_updated :: gotime
  ga_etag :: string

record gcs_list_input =
  gn_bucket :: string
  gn_prefix :: string
  gn_page_size :: int
  gn_token :: string

text \<open>A page is its objects and the token of the next one.\<close>

record gcs_api =
  gc_page :: "nat \<Rightarrow> gcs_list_input \<Rightarrow> (int option, gcs_attrs list \<times> string) call"
  gc_reader :: "string \<Rightarrow> string \<Rightarrow> (int option, opened) call"
  gc_attrs :: "string \<Rightarrow> string \<Rightarrow> (int option, gcs_attrs) call"

record gcs_options =
  go_bucket :: string
  go_prefix :: string
  go_endpoint :: string
  go_credentials :: string
  go_timeout :: int

record gcs_store =
  gs_api :: gcs_api
  gs_bucket :: string
  gs_prefix :: string
  gs_timeout :: int
  gs_key :: string

datatype gcs_client_option = JSONReads | WithEndpoint string | WithoutAuthentication | WithCredentials string

definition gcs_client_options :: "gcs_options \<Rightarrow> gcs_client_option list" where
  "gcs_client_options o' =
     [JSONReads] @ (if go_endpoint o' \<noteq> [] then [WithEndpoint (go_endpoint o'), WithoutAuthentication] else [])
       @ (if go_credentials o' \<noteq> [] then [WithCredentials (go_credentials o')] else [])"

definition gcs_new ::
  "(gcs_client_option list \<Rightarrow> gcs_api option) \<Rightarrow> (nat \<Rightarrow> string option) \<Rightarrow> gcs_options \<Rightarrow> go_error + gcs_store"
  where
  "gcs_new connect rand o' =
     (if go_bucket o' = [] \<or> go_timeout o' \<le> 0 \<or> maxRequestTimeout < go_timeout o'
      then Inl (provider_error InvalidConfig)
      else case connect (gcs_client_options o') of None \<Rightarrow> Inl (provider_error InvalidConfig)
      | Some api \<Rightarrow>
          (case rand hash_size of None \<Rightarrow> Inl (provider_error Unavailable)
           | Some key \<Rightarrow> Inr \<lparr>gs_api = api, gs_bucket = go_bucket o', gs_prefix = rooted (go_prefix o'),
               gs_timeout = go_timeout o', gs_key = key\<rparr>))"

fun gcs_objects :: "string \<Rightarrow> string \<Rightarrow> gcs_attrs list \<Rightarrow> go_error + object list" where
  "gcs_objects root requested [] = Inr []"
| "gcs_objects root requested (a # as) =
     (let (key, ok) = relative_key root (ga_name a) requested in
      if \<not> ok \<or> key = [] \<or> MaxKeyBytes < length key \<or> ga_size a < 0 then Inl (provider_error SafetyLimit)
      else case gcs_objects root requested as of Inl e \<Rightarrow> Inl e
      | Inr obs \<Rightarrow> Inr (\<lparr>ob_key = key, ob_size = ga_size a, ob_last_modified = time_utc (ga_updated a),
          ob_etag = (if 512 < length (ga_etag a) then [] else ga_etag a)\<rparr> # obs))"

definition gcs_list ::
  "(string \<Rightarrow> string \<Rightarrow> string) \<Rightarrow> gcs_store \<Rightarrow> nat \<Rightarrow> list_request \<Rightarrow> go_error + page" where
  "gcs_list hmac s k r =
     (if validate_list_request r \<noteq> None \<or> leading_slash (lr_prefix r) then Inl invalid_request
      else case (if lr_cursor r = [] then Inr []
                 else cursor_decode hmac (gs_key s) (lr_prefix r) (lr_cursor r)) of
        Inl e \<Rightarrow> Inl invalid_request
      | Inr native \<Rightarrow>
        (case gc_page (gs_api s) k
            \<lparr>gn_bucket = gs_bucket s, gn_prefix = gs_prefix s @ lr_prefix r, gn_page_size = lr_limit r,
             gn_token = native\<rparr> of
           Failed ctx status \<Rightarrow> Inl (status_error ctx status)
         | Answer (objects, next) \<Rightarrow>
             if lr_limit r < int (length objects) then Inl (provider_error Unavailable)
             else (case gcs_objects (gs_prefix s) (lr_prefix r) objects of Inl e \<Rightarrow> Inl e
               | Inr obs \<Rightarrow> next_page hmac (gs_key s) (lr_prefix r) next obs)))"

definition gcs_open :: "gcs_store \<Rightarrow> open_request \<Rightarrow> go_error + opened" where
  "gcs_open s r =
     (if validate_open_request r \<noteq> None \<or> leading_slash (or_key r) then Inl invalid_request
      else case gc_reader (gs_api s) (gs_bucket s) (gs_prefix s @ or_key r) of
        Failed ctx status \<Rightarrow> Inl (status_error ctx status)
      | Answer body \<Rightarrow> Inr (limited_body (or_max_bytes r) body))"

definition gcs_stat :: "gcs_store \<Rightarrow> stat_request \<Rightarrow> go_error + object" where
  "gcs_stat s r =
     (if validate_stat_request r \<noteq> None \<or> leading_slash (sr_key r) then Inl invalid_request
      else case gc_attrs (gs_api s) (gs_bucket s) (gs_prefix s @ sr_key r) of
        Failed ctx status \<Rightarrow> Inl (status_error ctx status)
      | Answer a \<Rightarrow>
          if ga_size a < 0 then Inl (provider_error Unavailable)
          else Inr \<lparr>ob_key = sr_key r, ob_size = ga_size a, ob_last_modified = time_utc (ga_updated a),
                 ob_etag = (if 512 < length (ga_etag a) then [] else ga_etag a)\<rparr>)"

section \<open>A store, whichever\<close>

datatype cloud_store = S3Store s3_store | AzureStore azure_store | GCSStore gcs_store

fun store_list ::
  "(string \<Rightarrow> string \<Rightarrow> string) \<Rightarrow> cloud_store \<Rightarrow> nat \<Rightarrow> list_request \<Rightarrow> go_error + page" where
  "store_list hmac (S3Store s) k r = s3_list hmac s k r"
| "store_list hmac (AzureStore s) k r = azure_list hmac s k r"
| "store_list hmac (GCSStore s) k r = gcs_list hmac s k r"

fun store_open :: "cloud_store \<Rightarrow> open_request \<Rightarrow> go_error + opened" where
  "store_open (S3Store s) r = s3_open s r"
| "store_open (AzureStore s) r = azure_open s r"
| "store_open (GCSStore s) r = gcs_open s r"

fun store_stat :: "cloud_store \<Rightarrow> stat_request \<Rightarrow> go_error + object" where
  "store_stat (S3Store s) r = s3_stat s r"
| "store_stat (AzureStore s) r = azure_stat s r"
| "store_stat (GCSStore s) r = gcs_stat s r"

text \<open>The reader a scan works with: the callers treat every failure to open alike.\<close>

definition store_reader :: "(string \<Rightarrow> string \<Rightarrow> string) \<Rightarrow> cloud_store \<Rightarrow> reader" where
  "store_reader hmac s =
     \<lparr>rd_list = store_list hmac s,
      rd_open = (\<lambda>r. case store_open s r of Inl e \<Rightarrow> OpenFailed | Inr b \<Rightarrow> b),
      rd_stat = store_stat s\<rparr>"


section \<open>What a store promises\<close>

text \<open>A failure that a refresh publishes: it has a category of the contract, unless it is a cancellation.\<close>

definition reported :: "go_error \<Rightarrow> bool" where
  "reported e \<longleftrightarrow> err_canceled e \<or> valid_failure_category (categorize (Some e))"

definition object_confined :: "string \<Rightarrow> object \<Rightarrow> bool" where
  "object_confined prefix ob \<longleftrightarrow> ob_key ob \<noteq> [] \<and> length (ob_key ob) \<le> MaxKeyBytes
     \<and> has_prefix (ob_key ob) prefix \<and> 0 \<le> ob_size ob \<and> length (ob_etag ob) \<le> 512"

definition page_confined :: "list_request \<Rightarrow> page \<Rightarrow> bool" where
  "page_confined r p \<longleftrightarrow> validate_list_request r = None \<and> int (length (pg_objects p)) \<le> lr_limit r
     \<and> length (pg_next_cursor p) \<le> MaxCursorBytes \<and> list_all (object_confined (lr_prefix r)) (pg_objects p)"

locale bounded_store =
  fixes ls :: "'s \<Rightarrow> nat \<Rightarrow> list_request \<Rightarrow> go_error + page"
    and wf :: "'s \<Rightarrow> bool"
    and accepts :: "'s \<Rightarrow> string \<Rightarrow> string \<Rightarrow> bool"
  assumes confined: "wf s \<Longrightarrow> ls s k r = Inr p \<Longrightarrow> page_confined r p"
    and resumes: "wf s \<Longrightarrow> ls s k r = Inr p \<Longrightarrow> accepts s (lr_prefix r) (pg_next_cursor p)"
    and starts: "wf s \<Longrightarrow> accepts s prefix []"
    and fails: "wf s \<Longrightarrow> validate_list_request r = None \<Longrightarrow> \<not> leading_slash (lr_prefix r) \<Longrightarrow>
      accepts s (lr_prefix r) (lr_cursor r) \<Longrightarrow> ls s k r = Inl e \<Longrightarrow> reported e"
begin

text \<open>Every page of a listing is accepted by the page loop, whose failures are all reported.\<close>

lemma take_page_reported:
  assumes "wf s" "ls s k r = Inr p"
  shows "take_page opts m r b p = add_objects m (b\<lparr>bd_pages := bd_pages b + 1\<rparr>) (pg_objects p)"
  using confined [OF assms] by (simp add: take_page_def page_confined_def not_less)

end

lemma scan_error_reported: "c \<noteq> FaultNone \<Longrightarrow> c \<noteq> FaultUnknown \<Longrightarrow> reported (scan_error c)"
  by (cases c) (simp_all add: reported_def scan_error_def categorize_def valid_failure_category_def)

lemma provider_error_reported: "c \<noteq> FaultNone \<Longrightarrow> c \<noteq> FaultUnknown \<Longrightarrow> reported (provider_error c)"
  using scan_error_reported by (simp add: provider_error_def scan_error_def)

lemma context_failure_reported: "context_failure ctx = Some e \<Longrightarrow> reported e"
  by (cases ctx)
    (auto simp: reported_def plain_error_def categorize_def valid_failure_category_def)

lemma s3_safe_error_reported: "reported (s3_safe_error ctx code)"
  using context_failure_reported [of ctx]
  by (auto simp: s3_safe_error_def category_for_code_def provider_error_reported split: option.split)

lemma status_error_reported: "reported (status_error ctx status)"
  using context_failure_reported [of ctx]
  by (auto simp: status_error_def status_category_def provider_error_reported split: option.split)

lemma add_object_reported: "add_object b ob m = Inl e \<Longrightarrow> reported e"
  by (auto simp: add_object_def count_scope_def add_barman_def Let_def scan_error_reported
      split: if_splits option.splits sum.splits)

lemma add_objects_reported: "add_objects m b obs = Inl e \<Longrightarrow> reported e"
  by (induction m b obs rule: add_objects.induct) (auto dest: add_object_reported split: sum.splits)

context bounded_store begin

lemma scan_pages_reported:
  assumes "wf s" "rd_list (sv_reader env) = ls s" "\<forall>n e. sv_ctx env n = Some e \<longrightarrow> reported e"
    and "1 \<le> so_page_size opts" "so_page_size opts \<le> MaxPageObjects"
    and "accepts s [] cursor" "length cursor \<le> MaxCursorBytes"
    and "scan_pages opts env m k cursor b = Inl e"
  shows "reported e"
  using assms
proof (induction opts env m k cursor b rule: scan_pages.induct)
  case (1 opts env m k cursor b)
  let ?req = "page_request opts cursor b"
  note unfold = scan_pages.simps [of opts env m k cursor b]
  have limit: "reported (scan_error SafetyLimit)" by (simp add: scan_error_reported)
  show ?case
  proof (cases "sv_ctx env k = None \<and> \<not> max_pages opts \<le> int k \<and> \<not> so_max_objects opts - bd_object_count b \<le> 0")
    case False
    then show ?thesis using 1(4,9) limit unfolding unfold by (auto split: option.splits if_splits)
  next
    case go: True
    then have req: "validate_list_request ?req = None" "lr_prefix ?req = []" "lr_cursor ?req = cursor"
      using page_request_valid [OF 1(5,6,8)] by (auto simp: page_request_def)
    show ?thesis
    proof (cases "ls s k ?req")
      case (Inl e')
      then have "e = e'" using go 1(3,9) unfolding unfold by (simp add: Let_def)
      then show ?thesis using fails [OF 1(2) req(1) _ _ Inl] 1(7) req by (simp add: leading_slash_def has_prefix_def)
    next
      case (Inr p)
      note p = Inr and ok = confined [OF 1(2) Inr, unfolded page_confined_def]
      have rd: "rd_list (sv_reader env) k ?req = Inr p" using 1(3) p by simp
      show ?thesis
      proof (cases "take_page opts m ?req b p")
        case (Inl e')
        then have "e = e'" using go rd 1(9) unfolding unfold by (simp add: Let_def)
        then show ?thesis
          using Inl add_objects_reported unfolding take_page_reported [OF 1(2) p] by blast
      next
        case (Inr b1)
        have next': "accepts s [] (pg_next_cursor p)" using resumes [OF 1(2) p] req(2) by simp
        show ?thesis
        proof (cases "pg_next_cursor p = [] \<or> so_max_objects opts \<le> bd_object_count b1 \<or> pg_next_cursor p = cursor")
          case True
          then show ?thesis using go rd Inr 1(9) limit unfolding unfold by (auto simp: Let_def split: if_splits)
        next
          case False
          then have "scan_pages opts env m (Suc k) (pg_next_cursor p) b1 = Inl e"
            using go rd Inr 1(9) unfolding unfold by (simp add: Let_def)
          moreover have "sv_ctx env k = None" "\<not> max_pages opts \<le> int k"
            "\<not> so_max_objects opts - bd_object_count b \<le> 0" "length (pg_next_cursor p) \<le> MaxCursorBytes"
            "pg_next_cursor p \<noteq> []"
            "\<not> (so_max_objects opts \<le> bd_object_count b1 \<or> pg_next_cursor p = cursor)"
            using False go ok by auto
          ultimately show ?thesis by (intro 1(1) [OF _ _ _ refl rd Inr _ _ 1(2-6) next'])
        qed
      qed
    qed
  qed
qed

end


section \<open>The three stores keep the promise\<close>

definition hmac_ok :: "(string \<Rightarrow> string \<Rightarrow> string) \<Rightarrow> bool" where
  "hmac_ok hmac \<longleftrightarrow> (\<forall>k b. length (hmac k b) = hash_size)"

lemma relative_key_ok:
  "relative_key root full requested = (key, True) \<Longrightarrow> has_prefix key requested \<and> full = root @ key"
  by (auto simp: relative_key_def Let_def trim_prefix_def has_prefix_def split: if_splits)
    (metis append_take_drop_id)

lemma etag_bounded: "length (bounded_etag e) \<le> 512"
  by (simp add: bounded_etag_def split: option.split)

lemma s3_objects_Inr:
  "s3_objects root requested xs = Inr obs \<Longrightarrow> list_all (object_confined requested) obs
     \<and> map (\<lambda>o'. Some (root @ ob_key o')) obs = map sj_key xs"
  by (induction root requested xs arbitrary: obs rule: s3_objects.induct)
    (auto simp: object_confined_def etag_bounded not_less dest!: relative_key_ok
      split: option.splits prod.splits if_splits sum.splits)

lemma azure_objects_Inr:
  "azure_objects root requested xs = Inr obs \<Longrightarrow> list_all (object_confined requested) obs
     \<and> map (\<lambda>o'. Some (root @ ob_key o')) obs = map ai_name xs"
  by (induction root requested xs arbitrary: obs rule: azure_objects.induct)
    (auto simp: object_confined_def etag_bounded not_less dest!: relative_key_ok
      split: option.splits prod.splits if_splits sum.splits)

lemma gcs_objects_Inr:
  "gcs_objects root requested xs = Inr obs \<Longrightarrow> list_all (object_confined requested) obs
     \<and> map (\<lambda>o'. root @ ob_key o') obs = map ga_name xs"
  by (induction root requested xs arbitrary: obs rule: gcs_objects.induct)
    (auto simp: object_confined_def not_less dest!: relative_key_ok
      split: option.splits prod.splits if_splits sum.splits)

lemma objects_reported:
  "s3_objects root requested xs = Inl e \<Longrightarrow> reported e"
  "azure_objects root requested ys = Inl e \<Longrightarrow> reported e"
  "gcs_objects root requested zs = Inl e \<Longrightarrow> reported e"
proof -
  show "s3_objects root requested xs = Inl e \<Longrightarrow> reported e"
    by (induction root requested xs rule: s3_objects.induct)
      (auto simp: provider_error_reported Let_def split: option.splits prod.splits if_splits sum.splits)
  show "azure_objects root requested ys = Inl e \<Longrightarrow> reported e"
    by (induction root requested ys rule: azure_objects.induct)
      (auto simp: provider_error_reported Let_def split: option.splits prod.splits if_splits sum.splits)
  show "gcs_objects root requested zs = Inl e \<Longrightarrow> reported e"
    by (induction root requested zs rule: gcs_objects.induct)
      (auto simp: provider_error_reported Let_def split: option.splits prod.splits if_splits sum.splits)
qed

lemma s3_decode_encode:
  assumes enc: "s3_encode_cursor hmac key prefix token = Inr v" and mac: "hmac_ok hmac"
  shows "v \<noteq> [] \<and> length v \<le> MaxCursorBytes \<and> s3_decode_cursor hmac key prefix v = Inr token"
proof -
  let ?body = "cursor_body prefix token"
  let ?raw = "?body @ hmac key ?body"
  have v: "v = b64_encode ?raw" and small: "length prefix \<le> MaxKeyBytes" "length v \<le> MaxCursorBytes"
    using enc by (auto simp: s3_encode_cursor_def Let_def split: if_splits)
  have len: "length ?raw = 36 + length prefix + length token"
    using mac by (simp add: cursor_body_parts hash_size_def hmac_ok_def)
  have ne: "v \<noteq> []" using length_b64_encode [of ?raw] len v by auto
  have cut: "take (length ?raw - hash_size) ?raw = ?body" "drop (length ?raw - hash_size) ?raw = hmac key ?body"
    using mac by (simp_all add: hmac_ok_def)
  have n: "from_be32 (take 4 ?body) = length prefix"
    using small by (simp add: cursor_body_parts from_be32_be32 MaxKeyBytes_def)
  have "s3_decode_cursor hmac key prefix v = Inr token"
    using ne len
    unfolding s3_decode_cursor_def v b64_decode_encode option.case cut Let_def n drop_add_4
    by (simp add: cursor_body_parts hash_size_def)
  with ne small show ?thesis by simp
qed

lemma s3_encode_reported: "s3_encode_cursor hmac key prefix token = Inl e \<Longrightarrow> reported e"
  by (auto simp: s3_encode_cursor_def Let_def provider_error_reported split: if_splits)

lemma next_page_Inr:
  assumes "next_page hmac key prefix token obs = Inr p" "hmac_ok hmac"
  shows "pg_objects p = obs \<and> length (pg_next_cursor p) \<le> MaxCursorBytes
     \<and> (\<exists>t. cursor_decode hmac key prefix (pg_next_cursor p) = Inr t)"
proof (cases "token = []")
  case True
  with assms show ?thesis by (auto simp: next_page_def cursor_decode_def)
next
  case False
  then obtain c where c: "cursor_encode hmac key prefix token = Inr c" "p = \<lparr>pg_objects = obs, pg_next_cursor = c\<rparr>"
    using assms(1) by (auto simp: next_page_def split: sum.splits)
  then have "length c \<le> MaxCursorBytes"
    by (auto simp: cursor_encode_def Let_def maxEncodedBytes_def MaxCursorBytes_def split: if_splits)
  with c show ?thesis using cursor_decode_encode(2) [OF c(1)] assms(2) by (auto simp: hmac_ok_def)
qed

lemma next_page_reported: "next_page hmac key prefix token obs = Inl e \<Longrightarrow> reported e"
  by (auto simp: next_page_def provider_error_reported split: if_splits sum.splits)

lemma s3_list_Inr:
  assumes "s3_list hmac s k r = Inr p"
  shows "validate_list_request r = None
     \<and> (\<exists>out :: s3_listing. int (length (sl_contents out)) \<le> lr_limit r
          \<and> s3_objects (st_root s) (lr_prefix r) (sl_contents out) = Inr (pg_objects p))
     \<and> (pg_next_cursor p = []
          \<or> (\<exists>n. s3_encode_cursor hmac (st_key s) (lr_prefix r) n = Inr (pg_next_cursor p)))"
  using assms
  by (fastforce simp: s3_list_def not_less split: if_splits sum.splits call.splits option.splits)

lemma empty_cursor [simp]:
  "s3_decode_cursor hmac key prefix [] = Inr []" "cursor_decode hmac key prefix [] = Inr []"
  by (simp_all add: s3_decode_cursor_def cursor_decode_def)

lemma s3_list_page:
  assumes "s3_list hmac s k r = Inr p" "hmac_ok hmac"
  shows "page_confined r p \<and> (\<exists>t. s3_decode_cursor hmac (st_key s) (lr_prefix r) (pg_next_cursor p) = Inr t)"
proof -
  note page = s3_list_Inr [OF assms(1)]
  then obtain out :: s3_listing where out: "int (length (sl_contents out)) \<le> lr_limit r"
    "s3_objects (st_root s) (lr_prefix r) (sl_contents out) = Inr (pg_objects p)" by blast
  then have "list_all (object_confined (lr_prefix r)) (pg_objects p)"
    "length (pg_objects p) = length (sl_contents out)"
    using s3_objects_Inr map_eq_imp_length_eq by blast+
  with page out s3_decode_encode [OF _ assms(2)] show ?thesis
    by (auto simp: page_confined_def)
qed

lemma s3_list_reported:
  assumes "s3_list hmac s k r = Inl e" "validate_list_request r = None" "\<not> leading_slash (lr_prefix r)"
    and "s3_decode_cursor hmac (st_key s) (lr_prefix r) (lr_cursor r) = Inr t"
  shows "reported e"
  using assms
  by (auto simp: s3_list_def s3_safe_error_reported provider_error_reported objects_reported s3_encode_reported
      split: if_splits call.splits option.splits sum.splits)

lemma azure_list_page:
  assumes "azure_list hmac s k r = Inr p" "hmac_ok hmac"
  shows "page_confined r p \<and> (\<exists>t. cursor_decode hmac (as_key s) (lr_prefix r) (pg_next_cursor p) = Inr t)"
proof -
  obtain items token obs where page: "validate_list_request r = None" "int (length items) \<le> lr_limit r"
    "azure_objects (as_prefix s) (lr_prefix r) items = Inr obs"
    "next_page hmac (as_key s) (lr_prefix r) token obs = Inr p"
    using assms(1) by (fastforce simp: azure_list_def not_less split: if_splits sum.splits call.splits option.splits)
  then have "list_all (object_confined (lr_prefix r)) obs" "length obs = length items"
    using azure_objects_Inr map_eq_imp_length_eq by blast+
  with page next_page_Inr [OF page(4) assms(2)] show ?thesis by (simp add: page_confined_def)
qed

lemma azure_list_reported:
  assumes "azure_list hmac s k r = Inl e" "validate_list_request r = None" "\<not> leading_slash (lr_prefix r)"
    and "cursor_decode hmac (as_key s) (lr_prefix r) (lr_cursor r) = Inr t"
  shows "reported e"
  using assms
  by (auto simp: azure_list_def status_error_reported provider_error_reported objects_reported
      split: if_splits call.splits option.splits sum.splits dest: next_page_reported)

lemma gcs_list_page:
  assumes "gcs_list hmac s k r = Inr p" "hmac_ok hmac"
  shows "page_confined r p \<and> (\<exists>t. cursor_decode hmac (gs_key s) (lr_prefix r) (pg_next_cursor p) = Inr t)"
proof -
  obtain items token obs where page: "validate_list_request r = None" "int (length items) \<le> lr_limit r"
    "gcs_objects (gs_prefix s) (lr_prefix r) items = Inr obs"
    "next_page hmac (gs_key s) (lr_prefix r) token obs = Inr p"
    using assms(1) by (fastforce simp: gcs_list_def not_less split: if_splits sum.splits call.splits prod.splits)
  then have "list_all (object_confined (lr_prefix r)) obs" "length obs = length items"
    using gcs_objects_Inr map_eq_imp_length_eq by blast+
  with page next_page_Inr [OF page(4) assms(2)] show ?thesis by (simp add: page_confined_def)
qed

lemma gcs_list_reported:
  assumes "gcs_list hmac s k r = Inl e" "validate_list_request r = None" "\<not> leading_slash (lr_prefix r)"
    and "cursor_decode hmac (gs_key s) (lr_prefix r) (lr_cursor r) = Inr t"
  shows "reported e"
  using assms
  by (auto simp: gcs_list_def status_error_reported provider_error_reported objects_reported
      split: if_splits call.splits sum.splits prod.splits dest: next_page_reported)

text \<open>Whether a store accepts a cursor for a prefix.\<close>

fun store_accepts :: "(string \<Rightarrow> string \<Rightarrow> string) \<Rightarrow> cloud_store \<Rightarrow> string \<Rightarrow> string \<Rightarrow> bool" where
  "store_accepts hmac (S3Store s) prefix c = (case s3_decode_cursor hmac (st_key s) prefix c of Inl e \<Rightarrow> False | Inr t \<Rightarrow> True)"
| "store_accepts hmac (AzureStore s) prefix c = (case cursor_decode hmac (as_key s) prefix c of Inl e \<Rightarrow> False | Inr t \<Rightarrow> True)"
| "store_accepts hmac (GCSStore s) prefix c = (case cursor_decode hmac (gs_key s) prefix c of Inl e \<Rightarrow> False | Inr t \<Rightarrow> True)"

lemma store_list_page:
  "store_list hmac s k r = Inr p \<Longrightarrow> hmac_ok hmac \<Longrightarrow>
     page_confined r p \<and> store_accepts hmac s (lr_prefix r) (pg_next_cursor p)"
  by (cases s) (auto dest: s3_list_page azure_list_page gcs_list_page)

lemma store_list_reported:
  "store_list hmac s k r = Inl e \<Longrightarrow> validate_list_request r = None \<Longrightarrow> \<not> leading_slash (lr_prefix r) \<Longrightarrow>
     store_accepts hmac s (lr_prefix r) (lr_cursor r) \<Longrightarrow> reported e"
  by (cases s) (auto intro: s3_list_reported azure_list_reported gcs_list_reported split: sum.splits)

interpretation cloud: bounded_store "\<lambda>(h, s). store_list h s" "\<lambda>(h, s). hmac_ok h" "\<lambda>(h, s). store_accepts h s"
proof (unfold_locales, goal_cases)
  case (3 hs prefix)
  then show ?case by (cases "snd hs") (auto split: prod.splits)
qed (auto dest: store_list_page store_list_reported)


section \<open>What a store answers\<close>

lemma limited_body_length: "limited_body n b = Content d \<Longrightarrow> int (length d) \<le> max 0 n"
  by (cases b) (auto simp: limited_body_def)

lemma store_open_bounded:
  "store_open s r = Inr (Content d) \<Longrightarrow> validate_open_request r = None \<and> int (length d) \<le> or_max_bytes r"
  by (cases s)
    (auto simp: s3_open_def azure_open_def gcs_open_def validate_open_request_def dest: limited_body_length
      split: if_splits call.splits option.splits)

lemma store_stat_confined:
  "store_stat s r = Inr ob \<Longrightarrow> ob_key ob = sr_key r \<and> object_confined [] ob"
  by (cases s)
    (auto simp: s3_stat_def azure_stat_def gcs_stat_def validate_stat_request_def object_confined_def
      has_prefix_def etag_bounded split: if_splits call.splits option.splits)

text \<open>
  C33. Whatever the SDK of the provider answers, a store returns only what was asked for: the
  pages of a valid request have at most as many objects as its limit, each with a bounded
  non-empty key under the requested prefix and a size, and a bounded next cursor, which the
  store accepts again for that prefix; an opened object yields at most the bytes requested and
  a stat names the key requested.
\<close>

theorem stores_confined:
  assumes "hmac_ok hmac"
  shows "(store_list hmac s k r = Inr p \<longrightarrow>
       page_confined r p \<and> store_accepts hmac s (lr_prefix r) (pg_next_cursor p))
     \<and> (store_open s q = Inr (Content d) \<longrightarrow> int (length d) \<le> or_max_bytes q)
     \<and> (store_stat s t = Inr ob \<longrightarrow> ob_key ob = sr_key t \<and> object_confined [] ob)"
  using cloud.confined [of "(hmac, s)" k r p] cloud.resumes [of "(hmac, s)" k r p] assms
    store_open_bounded store_stat_confined by auto

definition ex_s3_api :: s3_api where
  "ex_s3_api =
     \<lparr>sa_list = (\<lambda>k i. Answer (Some \<lparr>sl_contents = [\<lparr>sj_key = Some (li_prefix i @ ''data.tar''), sj_size = Some 7,
          sj_modified = None, sj_etag = Some ''e''\<rparr>], sl_truncated = None, sl_next = None\<rparr>)),
      sa_get = (\<lambda>b key. Answer (Some (Content ''content''))),
      sa_head = (\<lambda>b key. Answer (Some \<lparr>sh_length = Some 7, sh_modified = None, sh_etag = None\<rparr>))\<rparr>"

definition ex_s3_store :: cloud_store where
  "ex_s3_store = S3Store \<lparr>st_api = ex_s3_api, st_bucket = ''bucket'', st_root = ''root/'', st_timeout = 5, st_key = ex_key\<rparr>"

definition ex_stored :: object where
  "ex_stored = \<lparr>ob_key = ''pg/data.tar'', ob_size = 7, ob_last_modified = zero_time, ob_etag = ''e''\<rparr>"

lemma ex_hmac_ok: "hmac_ok ex_mac"
  by (simp add: hmac_ok_def ex_mac_def hash_size_def)

lemma ex_store_list:
  "store_list ex_mac ex_s3_store k \<lparr>lr_prefix = ''pg/'', lr_cursor = [], lr_limit = 5\<rparr>
     = Inr \<lparr>pg_objects = [ex_stored], pg_next_cursor = []\<rparr>"
  by (simp add: ex_s3_store_def ex_s3_api_def s3_list_def validate_list_request_def MaxPageObjects_def
      MaxKeyBytes_def leading_slash_def has_prefix_def relative_key_def trim_prefix_def utc_modified_def
      bounded_etag_def ex_stored_def Let_def)

lemma stores_confined_witness:
  "\<exists>p. store_list ex_mac ex_s3_store 0 \<lparr>lr_prefix = ''pg/'', lr_cursor = [], lr_limit = 5\<rparr> = Inr p
     \<and> pg_objects p = [ex_stored] \<and> page_confined \<lparr>lr_prefix = ''pg/'', lr_cursor = [], lr_limit = 5\<rparr> p"
  using stores_confined [OF ex_hmac_ok, of ex_s3_store 0 "\<lparr>lr_prefix = ''pg/'', lr_cursor = [], lr_limit = 5\<rparr>"]
    ex_store_list [of 0] by fastforce

end
