(* ===== verification/Api_Token.thy ===== *)
theory Api_Token
  imports Cursor Configuration
begin

text \<open>
  The bearer token of the evidence API (\<open>internal/evidenceapi/token.go\<close>): how it is read from
  its file and which texts are tokens.

  What the file system answers is a parameter: \<open>os.Lstat\<close> of a path, and \<open>os.Open\<close> with the
  \<open>Stat\<close> of the opened file and the bytes it holds. \<open>os.SameFile\<close> compares identities.
\<close>

section \<open>Tokens\<close>

definition decodedTokenBytes :: nat where "decodedTokenBytes = 32"
definition encodedTokenBytes :: nat where "encodedTokenBytes = 43"
definition maximumTokenFile :: nat where "maximumTokenFile = 128"

text \<open>A token is its encoded bytes; the zero value is an array of zero bytes.\<close>

datatype token = Token (token_encoded: string)

definition zero_token :: token where
  "zero_token = Token (replicate encodedTokenBytes (CHR 0x00))"

definition token_string :: "token \<Rightarrow> string" where
  "token_string t = ''[REDACTED]''"

definition token_valid :: "token \<Rightarrow> bool" where
  "token_valid t \<longleftrightarrow> t \<noteq> zero_token"

definition parse_token :: "string \<Rightarrow> token option" where
  "parse_token encoded =
     (if length encoded \<noteq> encodedTokenBytes then None
      else case b64_decode encoded of None \<Rightarrow> None
      | Some decoded \<Rightarrow>
          if length decoded \<noteq> decodedTokenBytes \<or> b64_encode decoded \<noteq> encoded then None
          else Some (Token encoded))"

section \<open>The token file\<close>

record file_info =
  fi_regular :: bool
  fi_perm :: nat
  fi_special :: bool
  fi_identity :: nat

record opened_file =
  of_info :: "file_info option"
  of_data :: "string option"

record file_system =
  fs_lstat :: "string \<Rightarrow> file_info option"
  fs_open :: "string \<Rightarrow> opened_file option"

text \<open>Mode \<open>0440\<close>, a regular file, none of setuid, setgid and sticky.\<close>

definition valid_token_mode :: "file_info \<Rightarrow> bool" where
  "valid_token_mode i \<longleftrightarrow> fi_regular i \<and> fi_perm i = 288 \<and> \<not> fi_special i"

text \<open>What is read through the limited reader, without its last newline.\<close>

definition token_content :: "string \<Rightarrow> token option" where
  "token_content data =
     (let v = take (maximumTokenFile + 1) data in
      if maximumTokenFile < length v then None else parse_token (trim_suffix v [CHR 0x0A]))"

definition load_token_file :: "file_system \<Rightarrow> string \<Rightarrow> token option" where
  "load_token_file fs path =
     (if \<not> valid_absolute_path path then None
      else case fs_lstat fs path of None \<Rightarrow> None
      | Some listed \<Rightarrow>
          if \<not> valid_token_mode listed then None
          else case fs_open fs path of None \<Rightarrow> None
          | Some file \<Rightarrow>
              (case of_info file of None \<Rightarrow> None
               | Some info \<Rightarrow>
                   if \<not> valid_token_mode info \<or> fi_identity listed \<noteq> fi_identity info then None
                   else Option.bind (of_data file) token_content))"

section \<open>What a token is\<close>

lemma length_token: "length raw = decodedTokenBytes \<Longrightarrow> length (b64_encode raw) = encodedTokenBytes"
  by (simp add: b64_encode_def length_to_sextets_exact decodedTokenBytes_def encodedTokenBytes_def)

lemma parse_token_exact:
  "parse_token s = Some t \<longleftrightarrow> t = Token s \<and> (\<exists>raw. length raw = decodedTokenBytes \<and> s = b64_encode raw)"
  using length_token by (auto simp: parse_token_def b64_decode_encode split: option.splits if_splits)

text \<open>Characters of a base64 text, which are neither a zero byte nor a newline.\<close>

lemma b64_encode_plain: "CHR 0x00 \<notin> set (b64_encode s)" "CHR 0x0A \<notin> set (b64_encode s)"
  using b64_encode_chars [of "CHR 0x00" s] b64_encode_chars [of "CHR 0x0A" s] by (auto simp: b64_value_def)

lemma token_not_zero: "length raw = decodedTokenBytes \<Longrightarrow> token_valid (Token (b64_encode raw))"
  using b64_encode_plain(1) [of raw] length_token [of raw]
  by (auto simp: token_valid_def zero_token_def encodedTokenBytes_def)

lemma trim_newline: "s = [] \<or> last s \<noteq> CHR 0x0A \<Longrightarrow> trim_suffix (s @ [CHR 0x0A]) [CHR 0x0A] = s"
  by (simp add: trim_suffix_def has_suffix_def)

lemma trim_newline_eq:
  assumes "CHR 0x0A \<notin> set s" "s \<noteq> []"
  shows "trim_suffix v [CHR 0x0A] = s \<longleftrightarrow> v = s \<or> v = s @ [CHR 0x0A]"
proof (cases v rule: rev_cases)
  case Nil
  then show ?thesis using assms by (auto simp: trim_suffix_def has_suffix_def)
next
  case (snoc w c)
  then show ?thesis using assms by (auto simp: trim_suffix_def has_suffix_def)
qed

lemma token_text_trim:
  assumes "length raw = decodedTokenBytes"
  shows "trim_suffix v [CHR 0x0A] = b64_encode raw \<longleftrightarrow> v = b64_encode raw \<or> v = b64_encode raw @ [CHR 0x0A]"
    and "trim_suffix (b64_encode raw) [CHR 0x0A] = b64_encode raw"
    and "trim_suffix (b64_encode raw @ [CHR 0x0A]) [CHR 0x0A] = b64_encode raw"
    and "length (b64_encode raw) = 43"
proof -
  show len: "length (b64_encode raw) = 43" using length_token [OF assms] by (simp add: encodedTokenBytes_def)
  then have "b64_encode raw \<noteq> []" by auto
  note eq = trim_newline_eq [OF b64_encode_plain(2) this]
  show "trim_suffix v [CHR 0x0A] = b64_encode raw \<longleftrightarrow> v = b64_encode raw \<or> v = b64_encode raw @ [CHR 0x0A]"
    by (rule eq)
  show "trim_suffix (b64_encode raw) [CHR 0x0A] = b64_encode raw"
    "trim_suffix (b64_encode raw @ [CHR 0x0A]) [CHR 0x0A] = b64_encode raw" unfolding eq by simp_all
qed

lemma token_content_exact:
  "token_content data = Some t \<longleftrightarrow> (\<exists>raw. length raw = decodedTokenBytes \<and> t = Token (b64_encode raw)
     \<and> (data = b64_encode raw \<or> data = b64_encode raw @ [CHR 0x0A]))" (is "_ = ?rhs")
proof -
  have "token_content data = Some t \<longleftrightarrow> length data \<le> maximumTokenFile
      \<and> (\<exists>raw. length raw = decodedTokenBytes \<and> t = Token (b64_encode raw) \<and> trim_suffix data [CHR 0x0A] = b64_encode raw)"
    unfolding token_content_def Let_def by (auto simp: parse_token_exact)
  also have "\<dots> \<longleftrightarrow> ?rhs"
  proof -
    have "length data \<le> maximumTokenFile \<and> trim_suffix data [CHR 0x0A] = b64_encode raw
        \<longleftrightarrow> data = b64_encode raw \<or> data = b64_encode raw @ [CHR 0x0A]"
      if "length raw = decodedTokenBytes" for raw
      unfolding token_text_trim(1) [OF that] using token_text_trim(4) [OF that]
      by (auto simp: maximumTokenFile_def)
    then show ?thesis by blast
  qed
  finally show ?thesis .
qed

text \<open>
  A token is loaded exactly from a file that is named by a clean absolute path, is regular
  with mode 0440 before and after it is opened and is the same file both times, and that holds
  the canonical base64 text of 32 bytes, followed by at most one newline; such a token is valid.
\<close>

lemma token_file_exact:
  "load_token_file fs path = Some t \<longleftrightarrow>
     valid_absolute_path path
     \<and> (\<exists>listed file info raw data. fs_lstat fs path = Some listed \<and> valid_token_mode listed
         \<and> fs_open fs path = Some file \<and> of_info file = Some info \<and> valid_token_mode info
         \<and> fi_identity listed = fi_identity info \<and> of_data file = Some data
         \<and> length raw = decodedTokenBytes \<and> t = Token (b64_encode raw) \<and> token_valid t
         \<and> (data = b64_encode raw \<or> data = b64_encode raw @ [CHR 0x0A]))"
  unfolding load_token_file_def
  by (auto simp: bind_eq_Some_conv token_content_exact token_not_zero split: option.splits)

definition ex_token_text :: string where "ex_token_text = b64_encode ex_key"

definition ex_token_files :: file_system where
  "ex_token_files =
     (let i = \<lparr>fi_regular = True, fi_perm = 288, fi_special = False, fi_identity = 7\<rparr> in
      \<lparr>fs_lstat = (\<lambda>p. Some i),
       fs_open = (\<lambda>p. Some \<lparr>of_info = Some i, of_data = Some (ex_token_text @ [CHR 0x0A])\<rparr>)\<rparr>)"

lemma ex_token_file: "load_token_file ex_token_files ''/run/token'' = Some (Token ex_token_text)"
proof -
  have key: "length ex_key = decodedTokenBytes" by (simp add: ex_key_def decodedTokenBytes_def)
  then have "parse_token ex_token_text = Some (Token ex_token_text)"
    unfolding parse_token_exact ex_token_text_def by blast
  then show ?thesis
    using token_text_trim(3,4) [OF key]
    by (simp add: load_token_file_def token_content_def ex_leaves ex_token_files_def Let_def valid_token_mode_def
        maximumTokenFile_def ex_token_text_def)
qed

end
