(* ===== verification/Api_Handler.thy ===== *)
theory Api_Handler
  imports Engine Api_Token
begin

text \<open>
  The HTTP handler of the evidence API (\<open>internal/evidenceapi/handler.go\<close>): authentication, the
  bound on concurrent requests, the closed route set, the parsing of page requests and the
  replies.

  Of a request the model keeps what the handler reads: the values of the Authorization header,
  the method, the path and query of the URL, the declared content, and whether its context is
  over when the source is asked and when the reply is due. JSON encoding is a parameter;
  \<open>url.ParseQuery\<close> is modelled. The result of the readiness probe is a field of the handler.
\<close>

section \<open>Requests and replies\<close>

datatype context_error = ContextCanceled | ContextDeadlineExceeded

record http_request =
  rq_authorization :: "string list"
  rq_method :: string
  rq_path :: string
  rq_raw_query :: string
  rq_content_length :: int
  rq_transfer_encoding :: "string list"
  rq_context :: "context_error option"
  rq_finished :: "context_error option"

datatype reply_body = StatusBody service_status | SnapshotBody wire_snapshot
  | BackupsBody barman_backup_page | RangesBody barman_wal_range_page
  | GapsBody barman_wal_gap_page | PathsBody barman_recovery_path_page | ErrorBody api_error

record reply =
  ry_status :: int
  ry_body :: string
  ry_code :: "error_code option"
  ry_headers :: "(string \<times> string) list"

record handler_env =
  he_engine :: engine_env
  he_marshal :: "reply_body \<Rightarrow> string option"

record handler =
  ha_engine :: engine
  ha_ready :: bool
  ha_token :: token
  ha_in_flight :: nat
  ha_requests :: u64
  ha_max_snapshot :: nat
  ha_max_collection :: nat
  ha_max_concurrent :: nat

definition MediaType :: string where
  "MediaType = ''application/vnd.objectstoreviewer.evidence.v1alpha1+json''"

definition MaximumSnapshotBytes :: nat where "MaximumSnapshotBytes = 256 * 1024"
definition MaximumCollectionBytes :: nat where "MaximumCollectionBytes = 1024 * 1024"
definition MaximumConcurrentRequests :: nat where "MaximumConcurrentRequests = 16"
definition maximumQueryBytes :: nat where "maximumQueryBytes = MaximumCursorBytes + 256"

text \<open>\<open>NewHandler\<close> with the production limits.\<close>

definition new_handler :: "engine \<Rightarrow> bool \<Rightarrow> token \<Rightarrow> handler result" where
  "new_handler e ready token =
     (if \<not> token_valid token then Inl ''evidence API handler configuration is invalid''
      else Inr \<lparr>ha_engine = e, ha_ready = ready, ha_token = token, ha_in_flight = 0, ha_requests = 0,
        ha_max_snapshot = MaximumSnapshotBytes, ha_max_collection = MaximumCollectionBytes,
        ha_max_concurrent = MaximumConcurrentRequests\<rparr>)"

fun error_message :: "error_code \<Rightarrow> string" where
  "error_message ErrorInvalidRequest = ''invalid evidence request''"
| "error_message ErrorUnauthenticated = ''authentication required''"
| "error_message ErrorNotFound = ''evidence route not found''"
| "error_message ErrorMethodNotAllowed = ''method not allowed''"
| "error_message ErrorPublicationChanged = ''repository evidence changed; restart from snapshot''"
| "error_message ErrorResponseLimit = ''evidence response exceeds safety limit''"
| "error_message ErrorBusy = ''evidence API is busy; retry later''"
| "error_message ErrorInvalidPublication = ''repository evidence unavailable''"
| "error_message (OtherErrorCode c) = []"

definition error_body :: "error_code \<Rightarrow> api_error" where
  "error_body code =
     \<lparr>ae_api_version = APIVersion, ae_kind = ErrorKind, ae_code = code, ae_message = error_message code\<rparr>"

definition error_reply :: "handler_env \<Rightarrow> int \<Rightarrow> error_code \<Rightarrow> reply" where
  "error_reply env status code =
     \<lparr>ry_status = status,
      ry_body = (case he_marshal env (ErrorBody (error_body code)) of None \<Rightarrow> [] | Some b \<Rightarrow> b),
      ry_code = Some code, ry_headers = []\<rparr>"

definition json_reply :: "handler_env \<Rightarrow> int \<Rightarrow> reply_body \<Rightarrow> nat \<Rightarrow> reply" where
  "json_reply env status body maximum =
     (case he_marshal env body of None \<Rightarrow> error_reply env 500 ErrorInvalidPublication
      | Some b \<Rightarrow>
          if maximum < length b then error_reply env 413 ErrorResponseLimit
          else \<lparr>ry_status = status, ry_body = b, ry_code = None, ry_headers = []\<rparr>)"

section \<open>Queries\<close>

text \<open>\<open>url.QueryUnescape\<close> and \<open>url.ParseQuery\<close>; any error of the latter is \<open>None\<close>.\<close>

fun query_unescape :: "string \<Rightarrow> string option" where
  "query_unescape [] = Some []"
| "query_unescape (c # cs) =
     (if c = CHR ''%'' then
        (case cs of a # b # rest \<Rightarrow>
             if hex_char a \<and> hex_char b
             then map_option (\<lambda>s. char_of (16 * hex_val a + hex_val b) # s) (query_unescape rest) else None
         | _ \<Rightarrow> None)
      else map_option (\<lambda>s. (if c = CHR ''+'' then CHR '' '' else c) # s) (query_unescape cs))"

definition cut_byte :: "char \<Rightarrow> string \<Rightarrow> string \<times> string" where
  "cut_byte c s = (takeWhile (\<lambda>x. x \<noteq> c) s, drop 1 (dropWhile (\<lambda>x. x \<noteq> c) s))"

fun add_query_part :: "string \<Rightarrow> (string \<times> string list) list \<Rightarrow> (string \<times> string list) list option" where
  "add_query_part part q =
     (if CHR '';'' \<in> set part then None
      else if part = [] then Some q
      else let (k, v) = cut_byte (CHR ''='') part in
        case (query_unescape k, query_unescape v) of
          (Some k, Some v) \<Rightarrow> Some (group_add k v q)
        | _ \<Rightarrow> None)"

fun add_query_parts :: "string list \<Rightarrow> (string \<times> string list) list \<Rightarrow> (string \<times> string list) list option" where
  "add_query_parts [] q = Some q"
| "add_query_parts (p # ps) q = Option.bind (add_query_part p q) (add_query_parts ps)"

definition parse_query :: "string \<Rightarrow> (string \<times> string list) list option" where
  "parse_query raw = add_query_parts (split_on (CHR ''&'') raw) []"

text \<open>\<open>singleDecimal\<close>: \<open>None\<close> where its second result is false.\<close>

definition single_decimal :: "(string \<times> string list) list \<Rightarrow> string \<Rightarrow> bool \<Rightarrow> nat option" where
  "single_decimal q key required =
     (case map_of q key of None \<Rightarrow> if required then None else Some 0
      | Some [v] \<Rightarrow> if v = [] \<or> \<not> list_all is_digit v then None else parse_uint 64 v
      | Some vs \<Rightarrow> None)"

definition query_cursor :: "(string \<times> string list) list \<Rightarrow> string option" where
  "query_cursor q =
     (case map_of q ''cursor'' of None \<Rightarrow> Some []
      | Some [v] \<Rightarrow> if v = [] \<or> MaximumCursorBytes < length v then None else Some v
      | Some vs \<Rightarrow> None)"

definition parse_page_request :: "string \<Rightarrow> evidence_request option" where
  "parse_page_request raw =
     (case parse_query raw of None \<Rightarrow> None
      | Some q \<Rightarrow>
          if list_ex (\<lambda>(k, vs). k \<notin> {''revision'', ''limit'', ''cursor''} \<or> length vs \<noteq> 1) q then None
          else case single_decimal q ''revision'' True of None \<Rightarrow> None
          | Some revision \<Rightarrow>
              if revision = 0 then None
              else case single_decimal q ''limit'' False of None \<Rightarrow> None
              | Some limit \<Rightarrow>
                  if nat MaximumPageSize < limit then None
                  else case query_cursor q of None \<Rightarrow> None
                  | Some cursor \<Rightarrow>
                      Some \<lparr>er_revision = of_nat revision, er_limit = int limit, er_cursor = cursor\<rparr>)"

section \<open>Dispatch\<close>

definition collection_paths :: "string list" where
  "collection_paths =
     [''/api/v1alpha1/backups'', ''/api/v1alpha1/wal-ranges'', ''/api/v1alpha1/wal-gaps'',
      ''/api/v1alpha1/recovery-paths'']"

definition route_name :: "string \<Rightarrow> string" where
  "route_name path =
     (if path = ''/healthz'' then ''healthz'' else if path = ''/readyz'' then ''readyz''
      else if path = ''/api/v1alpha1/snapshot'' then ''snapshot''
      else if path = ''/api/v1alpha1/backups'' then ''backups''
      else if path = ''/api/v1alpha1/wal-ranges'' then ''wal-ranges''
      else if path = ''/api/v1alpha1/wal-gaps'' then ''wal-gaps''
      else if path = ''/api/v1alpha1/recovery-paths'' then ''recovery-paths'' else ''not-found'')"

text \<open>
  The engine behind the source interface: every method returns the error of an ended context
  before it asks the engine.
\<close>

datatype source_error = SourceContext context_error | SourceEngine engine_error

definition from_source :: "context_error option \<Rightarrow> (engine_error + 'a) \<Rightarrow> source_error + 'a" where
  "from_source ctx r =
     (case ctx of Some e \<Rightarrow> Inl (SourceContext e)
      | None \<Rightarrow> (case r of Inl e \<Rightarrow> Inl (SourceEngine e) | Inr x \<Rightarrow> Inr x))"

text \<open>The reply to what a collection method returned; \<open>validateCollection\<close> is the validator of its page type.\<close>

definition collection_reply ::
  "handler_env \<Rightarrow> handler \<Rightarrow> ('a wire_page \<Rightarrow> reply_body) \<Rightarrow> ('a wire_page \<Rightarrow> string option)
     \<Rightarrow> (source_error + 'a wire_page) \<Rightarrow> reply" where
  "collection_reply env h body valid result =
     (case result of
        Inl (SourceEngine ErrInvalidRequest) \<Rightarrow> error_reply env 400 ErrorInvalidRequest
      | Inl (SourceEngine ErrPublicationChanged) \<Rightarrow> error_reply env 409 ErrorPublicationChanged
      | Inl _ \<Rightarrow> error_reply env 500 ErrorInvalidPublication
      | Inr pg \<Rightarrow>
          if valid pg \<noteq> None then error_reply env 500 ErrorInvalidPublication
          else json_reply env 200 (body pg) (ha_max_collection h))"

definition collection :: "handler_env \<Rightarrow> handler \<Rightarrow> http_request \<Rightarrow> evidence_request \<Rightarrow> reply" where
  "collection env h rq req =
     (let ee = he_engine env; e = ha_engine h; ctx = rq_context rq in
      if rq_path rq = ''/api/v1alpha1/backups''
      then collection_reply env h BackupsBody validate_backup_page (from_source ctx (backups_page ee e req))
      else if rq_path rq = ''/api/v1alpha1/wal-ranges''
      then collection_reply env h RangesBody validate_range_page (from_source ctx (ranges_page ee e req))
      else if rq_path rq = ''/api/v1alpha1/wal-gaps''
      then collection_reply env h GapsBody validate_gap_page (from_source ctx (gaps_page ee e req))
      else collection_reply env h PathsBody validate_path_page (from_source ctx (paths_page ee e req)))"

definition status_body :: "string \<Rightarrow> string \<Rightarrow> reply_body" where
  "status_body kind status = StatusBody \<lparr>ss_api_version = APIVersion, ss_kind = kind, ss_status = status\<rparr>"

text \<open>
  \<open>dispatch\<close>: the reply and the revision for the log. An engine without a publication returns
  the zero snapshot, which is not valid.
\<close>

definition dispatch :: "handler_env \<Rightarrow> handler \<Rightarrow> http_request \<Rightarrow> reply \<times> u64" where
  "dispatch env h rq =
     (let bad = (error_reply env 400 ErrorInvalidRequest, 0); path = rq_path rq in
      if path = ''/healthz''
      then (if rq_raw_query rq \<noteq> [] then bad
            else (json_reply env 200 (status_body HealthKind HealthLive) (ha_max_snapshot h), 0))
      else if path = ''/readyz''
      then (if rq_raw_query rq \<noteq> [] then bad
            else (json_reply env (if ha_ready h then 200 else 503)
              (status_body ReadinessKind (if ha_ready h then ReadinessReady else ReadinessNotReady))
              (ha_max_snapshot h), 0))
      else if path = ''/api/v1alpha1/snapshot''
      then (if rq_raw_query rq \<noteq> [] then bad
            else let failed = (error_reply env 500 ErrorInvalidPublication, 0) in
              if rq_context rq \<noteq> None then failed
              else case en_current (ha_engine h) of None \<Rightarrow> failed
              | Some p \<Rightarrow>
                  if validate_wire_snapshot (pb_snapshot p) \<noteq> None then failed
                  else (json_reply env 200 (SnapshotBody (pb_snapshot p)) (ha_max_snapshot h),
                        ws_revision (pb_snapshot p)))
      else if path \<in> set collection_paths
      then (case parse_page_request (rq_raw_query rq) of None \<Rightarrow> bad
            | Some req \<Rightarrow> (collection env h rq req, er_revision req))
      else (error_reply env 404 ErrorNotFound, 0))"

section \<open>Serving\<close>

definition authenticated :: "handler \<Rightarrow> http_request \<Rightarrow> bool" where
  "authenticated h rq \<longleftrightarrow>
     (case rq_authorization rq of
        [v] \<Rightarrow> length v = length ''Bearer '' + encodedTokenBytes \<and> has_prefix v ''Bearer ''
          \<and> drop (length ''Bearer '') v = token_encoded (ha_token h)
      | _ \<Rightarrow> False)"

record log_entry =
  lg_id :: u64
  lg_route :: string
  lg_status :: int
  lg_revision :: "u64 option"
  lg_code :: "error_code option"

text \<open>What is written for a reply: the status, the header fields in the order they are set, the body.\<close>

definition write_reply :: "reply \<Rightarrow> int \<times> (string \<times> string) list \<times> string" where
  "write_reply r =
     (ry_status r,
      [(''Content-Type'', MediaType), (''Cache-Control'', ''no-store''),
       (''X-Content-Type-Options'', ''nosniff''), (''Referrer-Policy'', ''no-referrer''),
       (''Content-Length'', decimal_text (length (ry_body r)))] @ ry_headers r,
      ry_body r)"

definition log_reply :: "u64 \<Rightarrow> string \<Rightarrow> reply \<Rightarrow> u64 \<Rightarrow> log_entry" where
  "log_reply ident route r revision =
     \<lparr>lg_id = ident, lg_route = route, lg_status = ry_status r,
      lg_revision = (if revision \<noteq> 0 then Some revision else None), lg_code = ry_code r\<rparr>"

text \<open>
  \<open>ServeHTTP\<close> up to the concurrency channel: the request number is taken, then the request is
  refused or takes a slot. \<open>None\<close> is a request that goes on.
\<close>

definition begin_request :: "handler_env \<Rightarrow> handler \<Rightarrow> http_request \<Rightarrow> reply option \<times> handler" where
  "begin_request env h rq =
     (let h = h\<lparr>ha_requests := ha_requests h + 1\<rparr> in
      if \<not> authenticated h rq
      then (Some ((error_reply env 401 ErrorUnauthenticated)\<lparr>ry_headers := [(''WWW-Authenticate'', ''Bearer'')]\<rparr>), h)
      else if ha_in_flight h < ha_max_concurrent h
      then (None, h\<lparr>ha_in_flight := ha_in_flight h + 1\<rparr>)
      else (Some (error_reply env 429 ErrorBusy), h))"

text \<open>The rest, while the slot is held: \<open>None\<close> when the client has gone.\<close>

definition answer_request :: "handler_env \<Rightarrow> handler \<Rightarrow> http_request \<Rightarrow> (reply \<times> u64) option" where
  "answer_request env h rq =
     (if rq_method rq \<noteq> ''GET''
      then Some ((error_reply env 405 ErrorMethodNotAllowed)\<lparr>ry_headers := [(''Allow'', ''GET'')]\<rparr>, 0)
      else if route_name (rq_path rq) = ''not-found'' then Some (error_reply env 404 ErrorNotFound, 0)
      else if rq_content_length rq \<noteq> 0 \<or> rq_transfer_encoding rq \<noteq> []
         \<or> maximumQueryBytes < length (rq_raw_query rq)
      then Some (error_reply env 400 ErrorInvalidRequest, 0)
      else let r = dispatch env h rq in
        if rq_finished rq = Some ContextCanceled then None else Some r)"

definition end_request :: "handler \<Rightarrow> handler" where
  "end_request h = h\<lparr>ha_in_flight := ha_in_flight h - 1\<rparr>"

definition serve_http :: "handler_env \<Rightarrow> handler \<Rightarrow> http_request \<Rightarrow> (reply \<times> log_entry) option \<times> handler" where
  "serve_http env h rq =
     (let ident = ha_requests h + 1; route = route_name (rq_path rq) in
      case begin_request env h rq of
        (Some r, h') \<Rightarrow> (Some (r, log_reply ident route r 0), h')
      | (None, h') \<Rightarrow>
          (map_option (\<lambda>(r, revision). (r, log_reply ident route r revision)) (answer_request env h' rq),
           end_request h'))"

section \<open>Authentication\<close>

definition unauthenticated_reply :: "handler_env \<Rightarrow> reply" where
  "unauthenticated_reply env =
     (error_reply env 401 ErrorUnauthenticated)\<lparr>ry_headers := [(''WWW-Authenticate'', ''Bearer'')]\<rparr>"

lemma has_prefix_append: "has_prefix (p @ s) p"
  by (simp add: has_prefix_def)

lemma has_prefix_drop: "has_prefix v p \<Longrightarrow> v = p @ drop (length p) v"
  unfolding has_prefix_def by (metis append_take_drop_id)

lemma authenticated_exact:
  assumes "length (token_encoded (ha_token h)) = encodedTokenBytes"
  shows "authenticated h rq \<longleftrightarrow> rq_authorization rq = [''Bearer '' @ token_encoded (ha_token h)]"
proof
  assume "authenticated h rq"
  then obtain v where v: "rq_authorization rq = [v]" "has_prefix v ''Bearer ''"
    "drop (length ''Bearer '') v = token_encoded (ha_token h)"
    by (auto simp: authenticated_def split: list.splits)
  from has_prefix_drop [OF v(2)] v(1,3) show "rq_authorization rq = [''Bearer '' @ token_encoded (ha_token h)]"
    by metis
next
  assume "rq_authorization rq = [''Bearer '' @ token_encoded (ha_token h)]"
  then show "authenticated h rq"
    using assms has_prefix_append [of "''Bearer ''"] by (simp add: authenticated_def)
qed

text \<open>No reply past authentication has the status 401.\<close>

lemma error_reply_status [simp]: "ry_status (error_reply env s c) = s"
  by (simp add: error_reply_def)

lemma json_reply_status: "s \<noteq> 401 \<Longrightarrow> ry_status (json_reply env s b n) \<noteq> 401"
  by (simp add: json_reply_def split: option.split)

lemma collection_reply_status: "ry_status (collection_reply env h body valid r) \<noteq> 401"
  by (simp add: collection_reply_def json_reply_status split: sum.split source_error.split engine_error.split)

lemma dispatch_status: "ry_status (fst (dispatch env h rq)) \<noteq> 401"
proof -
  have "ry_status (collection env h rq req) \<noteq> 401" for req
    by (simp add: collection_def Let_def collection_reply_status)
  then show ?thesis
    by (simp add: dispatch_def Let_def json_reply_status split: option.split)
qed

lemma answer_status: "answer_request env h rq = Some (r, v) \<Longrightarrow> ry_status r \<noteq> 401"
  using dispatch_status [of env h rq] by (auto simp: answer_request_def Let_def split: if_splits)

text \<open>
  C34. Nothing is served without the token: a request whose Authorization header is not exactly
  one value \<open>Bearer\<close> followed by the token gets the same reply 401 whatever the path, the query,
  the engine and the readiness are, and changes nothing but the request number; a request with
  that header is never answered 401.
\<close>

theorem token_required:
  assumes "length (token_encoded (ha_token h)) = encodedTokenBytes"
  defines "header \<equiv> ''Bearer '' @ token_encoded (ha_token h)"
  shows "(rq_authorization rq \<noteq> [header] \<longrightarrow>
        serve_http env h rq =
          (Some (unauthenticated_reply env,
             log_reply (ha_requests h + 1) (route_name (rq_path rq)) (unauthenticated_reply env) 0),
           h\<lparr>ha_requests := ha_requests h + 1\<rparr>))
     \<and> (rq_authorization rq = [header] \<longrightarrow>
        (\<forall>r l h'. serve_http env h rq = (Some (r, l), h') \<longrightarrow> ry_status r \<noteq> 401))"
proof -
  have auth: "authenticated h rq \<longleftrightarrow> rq_authorization rq = [header]"
    unfolding header_def by (rule authenticated_exact [OF assms(1)])
  have same: "authenticated (h\<lparr>ha_requests := n\<rparr>) rq = authenticated h rq" for n
    by (simp add: authenticated_def split: list.split)
  have "serve_http env h rq =
          (Some (unauthenticated_reply env,
             log_reply (ha_requests h + 1) (route_name (rq_path rq)) (unauthenticated_reply env) 0),
           h\<lparr>ha_requests := ha_requests h + 1\<rparr>)" if "\<not> authenticated h rq"
    using that by (simp add: serve_http_def begin_request_def Let_def same unauthenticated_reply_def)
  moreover have "ry_status r \<noteq> 401" if "authenticated h rq" "serve_http env h rq = (Some (r, l), h')" for r l h'
    using that answer_status
    by (fastforce simp: serve_http_def begin_request_def Let_def same split: if_splits)
  ultimately show ?thesis using auth by blast
qed

section \<open>Collections over HTTP\<close>

text \<open>
  What a request asks for: its limit, 100 if it states none, from the start of the collection or
  from the position in its cursor, which was signed for this collection, revision, generation and
  limit.
\<close>

definition page_requested ::
  "engine_env \<Rightarrow> engine \<Rightarrow> publication \<Rightarrow> route \<Rightarrow> evidence_request \<Rightarrow> nat \<Rightarrow> nat \<Rightarrow> bool" where
  "page_requested env e p route req start n \<longleftrightarrow>
     0 \<le> er_limit req \<and> er_limit req \<le> 200 \<and> n = (if er_limit req = 0 then 100 else nat (er_limit req))
     \<and> (if er_cursor req = [] then start = 0
        else \<exists>c. decode_cursor env (en_key e) (er_cursor req) = Some c \<and> cp_version c = cursorVersion
          \<and> cp_route c = route \<and> cp_revision c = er_revision req
          \<and> cp_generation c = ws_evidence_generation (pb_snapshot p) \<and> cp_limit c = of_nat n
          \<and> cp_position c \<noteq> 0 \<and> start = unat (cp_position c))"

text \<open>
  A reply that carries the page of a collection of the current publication that was requested: it
  is valid, and it names a next page exactly if items are left.
\<close>

definition collection_page ::
  "handler_env \<Rightarrow> handler \<Rightarrow> http_request \<Rightarrow> (publication \<Rightarrow> 'a list) \<Rightarrow> ('a wire_page \<Rightarrow> reply_body)
     \<Rightarrow> ('a wire_page \<Rightarrow> string option) \<Rightarrow> route \<Rightarrow> reply \<Rightarrow> bool" where
  "collection_page env h rq items body valid route r \<longleftrightarrow>
     (\<exists>p req pg start n. en_current (ha_engine h) = Some p \<and> parse_page_request (rq_raw_query rq) = Some req
        \<and> er_revision req = ws_revision (pb_snapshot p)
        \<and> page_requested (he_engine env) (ha_engine h) p route req start n
        \<and> wp_items pg = Some (take n (drop start (items p)))
        \<and> ph_revision (wp_header pg) = ws_revision (pb_snapshot p)
        \<and> ph_evidence_generation (wp_header pg) = ws_evidence_generation (pb_snapshot p)
        \<and> ph_total_items (wp_header pg) = Some (of_nat (length (items p)))
        \<and> (ph_next_cursor (wp_header pg) = None \<longleftrightarrow> length (items p) \<le> start + n)
        \<and> valid pg = None
        \<and> he_marshal env (body pg) = Some (ry_body r) \<and> length (ry_body r) \<le> ha_max_collection h)"

lemma engine_page_requested:
  assumes "engine_page env e req route = Inr (p, start, n)"
  shows "en_current e = Some p \<and> er_revision req = ws_revision (pb_snapshot p) \<and> page_requested env e p route req start n"
proof -
  let ?limit = "if er_limit req = 0 then 100 else er_limit req"
  have lim: "0 \<le> er_limit req" "er_limit req \<le> 200"
    using assms by (simp_all add: engine_page_def MaximumPageSize_def not_less split: if_splits)
  have n: "n = nat ?limit" and p: "en_current e = Some p" "er_revision req = ws_revision (pb_snapshot p)"
    using assms by (auto simp: engine_page_def Let_def DefaultPageSize_def split: if_splits option.splits)
  have word: "(of_int ?limit :: u64) = of_nat n" using n lim by simp
  have "if er_cursor req = [] then start = 0
      else \<exists>c. decode_cursor env (en_key e) (er_cursor req) = Some c \<and> payload_accepted c p req ?limit route
        \<and> start = unat (cp_position c)"
    using assms by (auto simp: engine_page_def Let_def DefaultPageSize_def split: if_splits option.splits)
  then show ?thesis
    using lim n p unfolding page_requested_def payload_accepted_def word by auto
qed

lemma take_min_drop: "take (min (a + n) (length xs) - a) (drop a xs) = take n (drop a xs)"
  by (simp add: min_def)

lemma serve_page_Inr:
  assumes "serve_page items valid route env e req = Inr pg"
  shows "\<exists>p start n. en_current e = Some p \<and> er_revision req = ws_revision (pb_snapshot p)
     \<and> page_requested env e p route req start n
     \<and> wp_items pg = Some (take n (drop start (items p))) \<and> ph_revision (wp_header pg) = ws_revision (pb_snapshot p)
     \<and> ph_evidence_generation (wp_header pg) = ws_evidence_generation (pb_snapshot p)
     \<and> ph_total_items (wp_header pg) = Some (of_nat (length (items p)))
     \<and> (ph_next_cursor (wp_header pg) = None \<longleftrightarrow> length (items p) \<le> start + n) \<and> valid pg = None"
proof -
  obtain p start limit hd where page: "engine_page env e req route = Inr (p, start, limit)"
    and header: "make_page_header env e p route (min (start + limit) (length (items p))) limit (length (items p)) = Inr hd"
    and pg: "pg = \<lparr>wp_header = hd, wp_items = Some (take (min (start + limit) (length (items p)) - start) (drop start (items p)))\<rparr>"
    and valid: "valid pg = None"
    using assms by (auto simp: serve_page_def Let_def split: sum.splits prod.splits option.splits)
  have h: "ph_revision hd = ws_revision (pb_snapshot p)" "ph_total_items hd = Some (of_nat (length (items p)))"
    "ph_evidence_generation hd = ws_evidence_generation (pb_snapshot p)"
    "ph_next_cursor hd = None \<longleftrightarrow> length (items p) \<le> start + limit"
    using header by (auto simp: make_page_header_def Let_def split: if_splits option.splits)
  show ?thesis
    using engine_page_requested [OF page] h valid unfolding pg take_min_drop by (intro exI [of _ p] exI [of _ start] exI [of _ limit]) simp
qed

lemma json_reply_ok:
  "ry_status (json_reply env 200 b n) = 200 \<Longrightarrow>
     he_marshal env b = Some (ry_body (json_reply env 200 b n)) \<and> length (ry_body (json_reply env 200 b n)) \<le> n"
  by (auto simp: json_reply_def split: option.splits if_splits)

lemma collection_reply_ok:
  assumes "ry_status (collection_reply env h body valid (from_source ctx (serve_page items valid route (he_engine env) (ha_engine h) req))) = 200"
    and "parse_page_request (rq_raw_query rq) = Some req"
  shows "collection_page env h rq items body valid route
     (collection_reply env h body valid (from_source ctx (serve_page items valid route (he_engine env) (ha_engine h) req)))"
proof -
  let ?r = "collection_reply env h body valid (from_source ctx (serve_page items valid route (he_engine env) (ha_engine h) req))"
  obtain pg where pg: "serve_page items valid route (he_engine env) (ha_engine h) req = Inr pg"
    "?r = json_reply env 200 (body pg) (ha_max_collection h)"
    using assms(1)
    by (auto simp: collection_reply_def from_source_def split: option.splits sum.splits source_error.splits engine_error.splits if_splits)
  note j = json_reply_ok [of env "body pg" "ha_max_collection h", folded pg(2), OF assms(1)]
  from serve_page_Inr [OF pg(1)] obtain p start n where
    "en_current (ha_engine h) = Some p" "er_revision req = ws_revision (pb_snapshot p)"
    "page_requested (he_engine env) (ha_engine h) p route req start n"
    "wp_items pg = Some (take n (drop start (items p)))" "ph_revision (wp_header pg) = ws_revision (pb_snapshot p)"
    "ph_evidence_generation (wp_header pg) = ws_evidence_generation (pb_snapshot p)"
    "ph_total_items (wp_header pg) = Some (of_nat (length (items p)))"
    "ph_next_cursor (wp_header pg) = None \<longleftrightarrow> length (items p) \<le> start + n" "valid pg = None"
    by (elim exE conjE) (rule that)
  note all = this(1) assms(2) this(2-) j [THEN conjunct1] j [THEN conjunct2]
  show ?thesis unfolding collection_page_def by (intro exI conjI) (rule all)+
qed


lemma serve_http_answer:
  assumes "serve_http env h rq = (Some (r, l), h')" "ry_status r = 200"
  obtains h0 where "fst (dispatch env h0 rq) = r" "ha_engine h0 = ha_engine h" "ha_max_collection h0 = ha_max_collection h"
proof -
  obtain h0 v where h0: "begin_request env h rq = (None, h0)" "answer_request env h0 rq = Some (r, v)"
    using assms by (fastforce simp: serve_http_def begin_request_def Let_def split: if_splits)
  have "fst (dispatch env h0 rq) = r"
    using h0(2) assms(2) by (auto simp: answer_request_def Let_def split: if_splits)
  moreover have "ha_engine h0 = ha_engine h" "ha_max_collection h0 = ha_max_collection h"
    using h0(1) by (auto simp: begin_request_def Let_def split: if_splits)
  ultimately show thesis by (rule that)
qed

lemma dispatch_collection:
  assumes "ry_status (fst (dispatch env h rq)) = 200" "rq_path rq \<in> set collection_paths"
  obtains req where "parse_page_request (rq_raw_query rq) = Some req" "fst (dispatch env h rq) = collection env h rq req"
  using assms by (cases "parse_page_request (rq_raw_query rq)") (auto simp: dispatch_def Let_def collection_paths_def)

text \<open>
  C35. A page that is served with status 200 is the valid page that was requested of the current
  publication: the request named its revision, the items are as many as its limit allows, 100
  without one and never more than 200, from the start of the collection of the path or from the
  position of the cursor, which was signed for the same collection, revision, generation and
  limit; the header carries the revision, the generation and the size of the collection and a
  next cursor exactly if items are left; the page passes its validation and the body is its
  encoding within the limit of the handler.
\<close>

theorem served_pages_current:
  assumes "serve_http env h rq = (Some (r, l), h')" "ry_status r = 200"
  shows "(rq_path rq = ''/api/v1alpha1/backups'' \<longrightarrow> collection_page env h rq pb_backups BackupsBody validate_backup_page BackupRoute r)
     \<and> (rq_path rq = ''/api/v1alpha1/wal-ranges'' \<longrightarrow> collection_page env h rq pb_ranges RangesBody validate_range_page WALRangeRoute r)
     \<and> (rq_path rq = ''/api/v1alpha1/wal-gaps'' \<longrightarrow> collection_page env h rq pb_gaps GapsBody validate_gap_page WALGapRoute r)
     \<and> (rq_path rq = ''/api/v1alpha1/recovery-paths'' \<longrightarrow> collection_page env h rq pb_paths PathsBody validate_path_page RecoveryPathRoute r)"
proof -
  obtain h0 where h0: "fst (dispatch env h0 rq) = r" "ha_engine h0 = ha_engine h"
    "ha_max_collection h0 = ha_max_collection h" by (rule serve_http_answer [OF assms])
  have same: "collection_page env h0 rq items body valid route r = collection_page env h rq items body valid route r"
    for items :: "publication \<Rightarrow> 'a list" and body valid route
    by (simp add: collection_page_def h0)
  show ?thesis
  proof (cases "rq_path rq \<in> set collection_paths")
    case False
    then show ?thesis by (auto simp: collection_paths_def)
  next
    case True
    with assms(2) h0(1) obtain req where req: "parse_page_request (rq_raw_query rq) = Some req"
      and r: "r = collection env h0 rq req" using dispatch_collection by metis
    have "rq_path rq = ''/api/v1alpha1/backups'' \<longrightarrow> collection_page env h0 rq pb_backups BackupsBody validate_backup_page BackupRoute r"
      using assms(2) by (auto simp: r collection_def backups_page_def intro!: collection_reply_ok [OF _ req])
    moreover have "rq_path rq = ''/api/v1alpha1/wal-ranges'' \<longrightarrow> collection_page env h0 rq pb_ranges RangesBody validate_range_page WALRangeRoute r"
      using assms(2) by (auto simp: r collection_def ranges_page_def intro!: collection_reply_ok [OF _ req])
    moreover have "rq_path rq = ''/api/v1alpha1/wal-gaps'' \<longrightarrow> collection_page env h0 rq pb_gaps GapsBody validate_gap_page WALGapRoute r"
      using assms(2) by (auto simp: r collection_def gaps_page_def intro!: collection_reply_ok [OF _ req])
    moreover have "rq_path rq = ''/api/v1alpha1/recovery-paths'' \<longrightarrow> collection_page env h0 rq pb_paths PathsBody validate_path_page RecoveryPathRoute r"
      using assms(2) by (auto simp: r collection_def paths_page_def intro!: collection_reply_ok [OF _ req])
    ultimately show ?thesis unfolding same by blast
  qed
qed

section \<open>Concurrent requests\<close>

text \<open>
  The handler while requests come and go: a request is refused or enters, one of those inside
  leaves, and the engine publishes in between. The list holds the requests inside.
\<close>

inductive in_service :: "handler_env \<Rightarrow> handler \<Rightarrow> http_request list \<Rightarrow> bool" for env where
  start: "new_handler e ready token = Inr h \<Longrightarrow> in_service env h []"
| refused: "in_service env h active \<Longrightarrow> begin_request env h rq = (Some r, h') \<Longrightarrow> in_service env h' active"
| admitted: "in_service env h active \<Longrightarrow> begin_request env h rq = (None, h') \<Longrightarrow> in_service env h' (rq # active)"
| leaves: "in_service env h active \<Longrightarrow> rq \<in> set active \<Longrightarrow> in_service env (end_request h) (remove1 rq active)"
| moves: "in_service env h active \<Longrightarrow> in_service env (h\<lparr>ha_engine := e, ha_ready := ready\<rparr>) active"

lemma authenticated_frame:
  "authenticated (h\<lparr>ha_requests := n\<rparr>) rq = authenticated h rq"
  "authenticated (h\<lparr>ha_requests := n, ha_in_flight := k\<rparr>) rq = authenticated h rq"
  "authenticated (h\<lparr>ha_engine := e, ha_ready := b\<rparr>) rq = authenticated h rq"
  "authenticated (end_request h) rq = authenticated h rq"
  by (simp_all add: authenticated_def end_request_def split: list.split)

lemma begin_request_cases:
  "begin_request env h rq =
     (if \<not> authenticated h rq then (Some (unauthenticated_reply env), h\<lparr>ha_requests := ha_requests h + 1\<rparr>)
      else if ha_in_flight h < ha_max_concurrent h
      then (None, h\<lparr>ha_requests := ha_requests h + 1, ha_in_flight := ha_in_flight h + 1\<rparr>)
      else (Some (error_reply env 429 ErrorBusy), h\<lparr>ha_requests := ha_requests h + 1\<rparr>))"
  by (simp add: begin_request_def Let_def authenticated_frame unauthenticated_reply_def)

lemma in_service_invariant:
  "in_service env h active \<Longrightarrow>
     length active = ha_in_flight h \<and> ha_in_flight h \<le> ha_max_concurrent h
     \<and> ha_max_concurrent h = MaximumConcurrentRequests \<and> (\<forall>rq\<in>set active. authenticated h rq)"
proof (induction rule: in_service.induct)
  case (start e ready token h)
  then show ?case by (auto simp: new_handler_def split: if_splits)
next
  case (leaves h active rq)
  then show ?case
    using set_remove1_subset [of rq active]
    by (auto simp: authenticated_frame length_remove1) (auto simp: end_request_def)
qed (auto simp: begin_request_cases authenticated_frame split: if_splits)

text \<open>
  C36. At most sixteen requests are answered at a time, all of them authenticated, and an
  authenticated request is turned away as busy exactly when there are sixteen.
\<close>

theorem concurrency_bounded:
  assumes "in_service env h active"
  shows "length active \<le> MaximumConcurrentRequests \<and> (\<forall>rq\<in>set active. authenticated h rq)
     \<and> (\<forall>rq r h'. authenticated h rq \<longrightarrow>
          (fst (begin_request env h rq) = Some (error_reply env 429 ErrorBusy) \<longleftrightarrow>
             length active = MaximumConcurrentRequests))"
  using in_service_invariant [OF assms] by (auto simp: begin_request_cases)

section \<open>Page requests as a client writes them\<close>

lemma is_digit_digit: "n < 10 \<Longrightarrow> is_digit (char_of (48 + n)) \<and> byte (char_of (48 + n)) = 48 + n"
  by (simp add: is_digit_def)

lemma dec_value_snoc: "dec_value (s @ [c]) = 10 * dec_value s + (byte c - 48)"
  by (simp add: dec_value_def)

lemma decimal_text_value: "dec_value (decimal_text n) = n \<and> list_all is_digit (decimal_text n) \<and> decimal_text n \<noteq> []"
proof (induction n rule: decimal_text.induct)
  case (1 n)
  show ?case
  proof (cases "n < 10")
    case True
    then show ?thesis using is_digit_digit [of n] by (simp add: decimal_text.simps [of n] dec_value_def)
  next
    case False
    then show ?thesis using 1 is_digit_digit [of "n mod 10"]
      by (simp add: decimal_text.simps [of n] dec_value_snoc)
  qed
qed

lemma parse_uint_decimal: "n < 2 ^ bits \<Longrightarrow> parse_uint bits (decimal_text n) = Some n"
  using decimal_text_value [of n] by (simp add: parse_uint_def)

text \<open>Texts that \<open>QueryUnescape\<close> leaves alone and \<open>ParseQuery\<close> does not split.\<close>

definition plain_char :: "char \<Rightarrow> bool" where
  "plain_char c \<longleftrightarrow> c \<notin> {CHR ''%'', CHR ''+'', CHR ''&'', CHR '';'', CHR ''=''}"

lemma query_unescape_plain: "list_all plain_char s \<Longrightarrow> query_unescape s = Some s"
  by (induction s) (auto simp: plain_char_def)

lemma cut_byte_plain: "list_all plain_char k \<Longrightarrow> cut_byte (CHR ''='') (k @ ''='' @ v) = (k, v)"
proof -
  assume "list_all plain_char k"
  then have "\<forall>x\<in>set k. x \<noteq> CHR ''=''" by (auto simp: list_all_iff plain_char_def)
  then show ?thesis by (simp add: cut_byte_def takeWhile_append dropWhile_append)
qed

lemma add_query_part_plain:
  assumes "list_all plain_char k" "list_all plain_char v"
  shows "add_query_part (k @ ''='' @ v) q = Some (group_add k v q)"
proof -
  have "CHR '';'' \<notin> set (k @ ''='' @ v)" using assms by (auto simp: list_all_iff plain_char_def)
  then show ?thesis using cut_byte_plain [OF assms(1), of v] query_unescape_plain assms
    by (simp del: append_Cons)
qed

lemma split_on_plain: "CHR ''&'' \<notin> set s \<Longrightarrow> split_on (CHR ''&'') s = [s]"
  by (induction s) auto

lemma split_on_join: "CHR ''&'' \<notin> set s \<Longrightarrow> split_on (CHR ''&'') (s @ ''&'' @ t) = s # split_on (CHR ''&'') t"
  by (induction s) auto

definition query_part :: "string \<Rightarrow> string \<Rightarrow> string" where
  "query_part k v = k @ ''='' @ v"

text \<open>The query for a page: the revision, a limit unless it is the default, a cursor unless it is the first page.\<close>

definition page_query :: "evidence_request \<Rightarrow> string" where
  "page_query req =
     query_part ''revision'' (decimal_text (unat (er_revision req)))
     @ (if er_limit req = 0 then [] else ''&'' @ query_part ''limit'' (decimal_text (nat (er_limit req))))
     @ (if er_cursor req = [] then [] else ''&'' @ query_part ''cursor'' (er_cursor req))"

lemma plain_digits: "list_all is_digit s \<Longrightarrow> list_all plain_char s"
  by (auto simp: list_all_iff is_digit_def plain_char_def)

lemma plain_cursor:
  assumes "encode_cursor env key payload = Some t"
  shows "list_all plain_char t"
proof -
  have "c \<in> set t \<Longrightarrow> b64_value c \<noteq> None \<or> c = CHR ''.''" for c
    using assms b64_encode_chars by (auto simp: encode_cursor_def)
  moreover have "\<not> plain_char c \<Longrightarrow> b64_value c = None" for c
    by (auto simp: b64_value_def plain_char_def)
  moreover have "plain_char (CHR ''.'')" by (simp add: plain_char_def)
  ultimately show ?thesis unfolding list_all_iff by blast
qed

lemma query_part_plain:
  assumes "list_all plain_char k" "list_all plain_char v"
  shows "CHR ''&'' \<notin> set (query_part k v)" "add_query_part (query_part k v) q = Some (group_add k v q)"
proof -
  have no: "list_all plain_char s \<Longrightarrow> CHR ''&'' \<notin> set s" for s
    unfolding list_all_iff plain_char_def by blast
  show "CHR ''&'' \<notin> set (query_part k v)" using no [OF assms(1)] no [OF assms(2)] by (simp add: query_part_def)
  show "add_query_part (query_part k v) q = Some (group_add k v q)"
    unfolding query_part_def by (rule add_query_part_plain [OF assms])
qed

lemma query_keys_plain: "list_all plain_char ''revision''" "list_all plain_char ''limit''" "list_all plain_char ''cursor''"
  by (simp_all add: plain_char_def)


lemma parse_page_query:
  assumes "er_revision req \<noteq> 0" "0 \<le> er_limit req" "er_limit req \<le> MaximumPageSize"
    and "list_all plain_char (er_cursor req)" "length (er_cursor req) \<le> MaximumCursorBytes"
  shows "parse_page_request (page_query req) = Some req"
proof -
  define rev where "rev = decimal_text (unat (er_revision req))"
  define lim where "lim = decimal_text (nat (er_limit req))"
  define q where "q = [(''revision'', [rev])] @ (if er_limit req = 0 then [] else [(''limit'', [lim])])
      @ (if er_cursor req = [] then [] else [(''cursor'', [er_cursor req])])"
  have plain: "list_all plain_char rev" "list_all plain_char lim" unfolding rev_def lim_def
    using decimal_text_value plain_digits by blast+
  note parts = query_part_plain [OF query_keys_plain(1) plain(1)] query_part_plain [OF query_keys_plain(2) plain(2)]
    query_part_plain [OF query_keys_plain(3) assms(4)]
  have "parse_query (page_query req) = Some q"
    using parts split_on_plain split_on_join
    by (cases "er_limit req = 0"; cases "er_cursor req = []")
      (simp_all add: parse_query_def page_query_def rev_def [symmetric] lim_def [symmetric] q_def)
  moreover have "single_decimal q ''revision'' True = Some (unat (er_revision req))"
    using decimal_text_value [of "unat (er_revision req)"] parse_uint_decimal [of "unat (er_revision req)" 64]
      unsigned_less [of "er_revision req", where ?'a = nat]
    by (simp add: single_decimal_def q_def rev_def)
  moreover have "single_decimal q ''limit'' False = Some (nat (er_limit req))"
    using decimal_text_value [of "nat (er_limit req)"] parse_uint_decimal [of "nat (er_limit req)" 64] assms(2,3)
    by (auto simp: single_decimal_def q_def lim_def MaximumPageSize_def)
  moreover have "query_cursor q = Some (er_cursor req)"
    using assms(5) by (auto simp: query_cursor_def q_def not_less)
  moreover have "\<not> list_ex (\<lambda>(k, vs). k \<notin> {''revision'', ''limit'', ''cursor''} \<or> length vs \<noteq> 1) q"
    by (simp add: q_def)
  moreover have "unat (er_revision req) \<noteq> 0" using assms(1) by (simp add: unat_eq_0)
  moreover have "\<not> nat MaximumPageSize < nat (er_limit req)" using assms(3) by simp
  ultimately show ?thesis
    using assms(2) by (simp add: parse_page_request_def)
qed

text \<open>An authenticated GET of a path with a live context.\<close>

definition page_get :: "handler \<Rightarrow> string \<Rightarrow> string \<Rightarrow> http_request" where
  "page_get h path query =
     \<lparr>rq_authorization = [''Bearer '' @ token_encoded (ha_token h)], rq_method = ''GET'', rq_path = path,
      rq_raw_query = query, rq_content_length = 0, rq_transfer_encoding = [], rq_context = None,
      rq_finished = None\<rparr>"

lemma page_request_served:
  assumes "length (token_encoded (ha_token h)) = encodedTokenBytes" "ha_in_flight h < ha_max_concurrent h"
    and "path \<in> set collection_paths" "er_revision req \<noteq> 0" "0 \<le> er_limit req" "er_limit req \<le> MaximumPageSize"
    and "er_cursor req = [] \<or> encode_cursor ee key payload = Some (er_cursor req)"
    and "length (er_cursor req) \<le> MaximumCursorBytes" "length (page_query req) \<le> maximumQueryBytes"
  shows "parse_page_request (page_query req) = Some req
     \<and> (\<exists>l h'. serve_http env h (page_get h path (page_query req))
          = (Some (collection env h (page_get h path (page_query req)) req, l), h'))"
proof -
  let ?rq = "page_get h path (page_query req)"
  let ?h = "h\<lparr>ha_requests := ha_requests h + 1, ha_in_flight := ha_in_flight h + 1\<rparr>"
  have parsed: "parse_page_request (page_query req) = Some req"
    using assms plain_cursor by (intro parse_page_query) auto
  have "authenticated h ?rq"
    unfolding authenticated_exact [OF assms(1)] by (simp add: page_get_def)
  then have entered: "begin_request env h ?rq = (None, ?h)"
    using assms(2) by (simp add: begin_request_cases)
  have same: "collection env (h\<lparr>ha_requests := a, ha_in_flight := b\<rparr>) rq req = collection env h rq req" for a b rq
    by (simp add: collection_def collection_reply_def Let_def split: sum.split source_error.split engine_error.split)
  have "fst (dispatch env ?h ?rq) = collection env h ?rq req"
  proof -
    have "path \<noteq> ''/healthz'' \<and> path \<noteq> ''/readyz'' \<and> path \<noteq> ''/api/v1alpha1/snapshot''"
      using assms(3) by (auto simp: collection_paths_def)
    moreover have "rq_path ?rq = path" "rq_raw_query ?rq = page_query req" by (simp_all add: page_get_def)
    ultimately show ?thesis using assms(3) parsed by (simp add: dispatch_def Let_def same)
  qed
  then obtain v where "dispatch env ?h ?rq = (collection env h ?rq req, v)"
    by (cases "dispatch env ?h ?rq") simp
  moreover have "route_name path \<noteq> ''not-found''" using assms(3)
    by (auto simp: route_name_def collection_paths_def)
  ultimately have "answer_request env ?h ?rq = Some (collection env h ?rq req, v)"
    using assms(9) by (simp add: answer_request_def page_get_def not_less)
  with entered parsed show ?thesis by (simp add: serve_http_def Let_def)
qed

text \<open>
  C37. What a client writes is what the engine is asked: for every collection path the request
  with the query of a page, whose cursor is absent or one the engine issued, is parsed back to
  that page, and the reply is the answer of the engine to it, as long as a slot is free.
\<close>

theorem page_request_delivered:
  assumes "length (token_encoded (ha_token h)) = encodedTokenBytes" "ha_in_flight h < ha_max_concurrent h"
    and "path \<in> set collection_paths" "er_revision req \<noteq> 0" "0 \<le> er_limit req" "er_limit req \<le> MaximumPageSize"
    and "er_cursor req = [] \<or> encode_cursor ee key payload = Some (er_cursor req)"
    and "length (er_cursor req) \<le> MaximumCursorBytes" "length (page_query req) \<le> maximumQueryBytes"
  shows "parse_page_request (page_query req) = Some req
     \<and> (\<exists>l h'. serve_http env h (page_get h path (page_query req))
          = (Some (collection env h (page_get h path (page_query req)) req, l), h'))"
  by (rule page_request_served [OF assms])

section \<open>A handler\<close>

definition ex_handler_env :: handler_env where
  "ex_handler_env = \<lparr>he_engine = ex_env,
     he_marshal = (\<lambda>b. case b of BackupsBody pg \<Rightarrow> Some ''page'' | ErrorBody e \<Rightarrow> Some (ae_message e) | _ \<Rightarrow> None)\<rparr>"

definition ex_handler :: "engine \<Rightarrow> handler" where
  "ex_handler e =
     \<lparr>ha_engine = e, ha_ready = True, ha_token = Token ex_token_text, ha_in_flight = 0, ha_requests = 0,
      ha_max_snapshot = MaximumSnapshotBytes, ha_max_collection = MaximumCollectionBytes,
      ha_max_concurrent = MaximumConcurrentRequests\<rparr>"

lemma ex_token_valid: "length ex_token_text = encodedTokenBytes" "token_valid (Token ex_token_text)"
  using length_token [of ex_key] token_not_zero [of ex_key]
  by (simp_all add: ex_token_text_def ex_key_def decodedTokenBytes_def)

lemma ex_handler_new: "new_handler e True (Token ex_token_text) = Inr (ex_handler e)"
  by (simp add: new_handler_def ex_token_valid ex_handler_def)

lemma token_required_witness:
  "\<exists>e l h'. serve_http ex_handler_env (ex_handler e) ((page_get (ex_handler e) ''/readyz'' [])\<lparr>rq_authorization := []\<rparr>)
     = (Some (unauthenticated_reply ex_handler_env, l), h')"
proof -
  have "length (token_encoded (ha_token (ex_handler e))) = encodedTokenBytes" for e
    by (simp add: ex_handler_def ex_token_valid)
  from token_required [OF this, where rq = "(page_get (ex_handler e) ''/readyz'' [])\<lparr>rq_authorization := []\<rparr>" for e]
  show ?thesis by (simp add: page_get_def)
qed

definition ex_request :: evidence_request where
  "ex_request = \<lparr>er_revision = 3, er_limit = 1, er_cursor = []\<rparr>"

lemma ex_page_query: "page_query ex_request = ''revision=3&limit=1''"
  by code_simp

lemma ex_backups_page:
  obtains e p pg where "engine_reach ex_env e" "en_current e = Some p" "backups_page ex_env e ex_request = Inr pg"
    "validate_backup_page pg = None" "length (pb_backups p) = 2"
proof -
  obtain e p where e: "engine_reach ex_env e" "en_current e = Some p"
    and p: "project (\<lambda>u. None) eg_hash eg_source eg_projection = Inr p" by (rule ex_engine)
  note f = ex_publication [OF p]
  have "validate_publication p = None" using engine_reach_valid [OF e(1)] e(2) by auto
  then have "paged_backups.serving ex_env e p 1"
    using e f by (simp add: paged_backups.serving_def ex_env_ok MaximumPageSize_def)
  moreover have "paged_backups.cursor_at ex_env e p (paged_backups.effective 1) 0 []"
    by (simp add: paged_backups.cursor_at_def)
  ultimately obtain pg where "backups_page ex_env e ex_request = Inr pg"
    using f(5) by (auto simp: served_by ex_request_def elim: paged_backups.serve_ok)
  moreover from this have "validate_backup_page pg = None"
    by (auto simp: backups_page_def serve_page_def Let_def split: sum.splits prod.splits option.splits)
  ultimately show thesis using that e f(1) by simp
qed

abbreviation ex_get :: "engine \<Rightarrow> http_request" where
  "ex_get e \<equiv> page_get (ex_handler e) ''/api/v1alpha1/backups'' (page_query ex_request)"

lemma ex_collection:
  obtains e where "engine_reach ex_env e" "collection ex_handler_env (ex_handler e) (ex_get e) ex_request
      = \<lparr>ry_status = 200, ry_body = ''page'', ry_code = None, ry_headers = []\<rparr>"
proof -
  obtain e p pg where e: "engine_reach ex_env e" "backups_page ex_env e ex_request = Inr pg"
    "validate_backup_page pg = None" by (rule ex_backups_page)
  have "collection ex_handler_env (ex_handler e) (ex_get e) ex_request
      = \<lparr>ry_status = 200, ry_body = ''page'', ry_code = None, ry_headers = []\<rparr>"
    using e(2,3) by (simp add: collection_def collection_reply_def from_source_def page_get_def ex_handler_def ex_handler_env_def
        json_reply_def MaximumCollectionBytes_def)
  with e(1) show thesis by (rule that)
qed

lemma ex_deliverable:
  "length (token_encoded (ha_token (ex_handler e))) = encodedTokenBytes"
  "ha_in_flight (ex_handler e) < ha_max_concurrent (ex_handler e)"
  "''/api/v1alpha1/backups'' \<in> set collection_paths" "er_revision ex_request \<noteq> 0" "0 \<le> er_limit ex_request"
  "er_limit ex_request \<le> MaximumPageSize" "er_cursor ex_request = []"
  "length (er_cursor ex_request) \<le> MaximumCursorBytes" "length (page_query ex_request) \<le> maximumQueryBytes"
  by (simp_all add: ex_page_query)
    (simp_all add: ex_handler_def ex_token_valid collection_paths_def ex_request_def MaximumPageSize_def
        MaximumConcurrentRequests_def maximumQueryBytes_def MaximumCursorBytes_def)

lemma page_request_delivered_witness:
  "\<exists>e l h'. engine_reach ex_env e \<and> serve_http ex_handler_env (ex_handler e) (ex_get e)
       = (Some (\<lparr>ry_status = 200, ry_body = ''page'', ry_code = None, ry_headers = []\<rparr>, l), h')"
proof -
  obtain e where e: "engine_reach ex_env e" "collection ex_handler_env (ex_handler e) (ex_get e) ex_request
      = \<lparr>ry_status = 200, ry_body = ''page'', ry_code = None, ry_headers = []\<rparr>" by (rule ex_collection)
  note d = ex_deliverable(1,2) [of e] ex_deliverable(3-9)
  from page_request_delivered [OF d(1-6) disjI1 [OF d(7)] d(8,9), where env = ex_handler_env] e
  show ?thesis by auto
qed

lemma served_pages_current_witness:
  "\<exists>e r. engine_reach ex_env e \<and> ry_status r = 200
     \<and> collection_page ex_handler_env (ex_handler e) (ex_get e) pb_backups BackupsBody validate_backup_page BackupRoute r"
proof -
  obtain e where e: "engine_reach ex_env e" "collection ex_handler_env (ex_handler e) (ex_get e) ex_request
      = \<lparr>ry_status = 200, ry_body = ''page'', ry_code = None, ry_headers = []\<rparr>" by (rule ex_collection)
  note d = ex_deliverable(1,2) [of e] ex_deliverable(3-9)
  from page_request_served [OF d(1-6) disjI1 [OF d(7)] d(8,9), where env = ex_handler_env] e(2)
  obtain r l h' where r: "serve_http ex_handler_env (ex_handler e) (ex_get e) = (Some (r, l), h')" "ry_status r = 200"
    by auto
  from served_pages_current [OF r] e(1) r(2) show ?thesis by (auto simp: page_get_def)
qed

lemma concurrency_bounded_witness:
  "\<exists>e. in_service ex_handler_env (ex_handler e) [] \<and> authenticated (ex_handler e) (page_get (ex_handler e) ''/readyz'' [])
     \<and> fst (begin_request ex_handler_env (ex_handler e) (page_get (ex_handler e) ''/readyz'' [])) = None"
proof -
  obtain e where "new_handler e True (Token ex_token_text) = Inr (ex_handler e)" using ex_handler_new by blast
  then have run: "in_service ex_handler_env (ex_handler e) []" by (rule in_service.start)
  have auth: "authenticated (ex_handler e) (page_get (ex_handler e) ''/readyz'' [])"
    using authenticated_exact [of "ex_handler e" "page_get (ex_handler e) ''/readyz'' []"]
    by (simp add: ex_handler_def ex_token_valid page_get_def)
  from concurrency_bounded [OF run] auth
  have "fst (begin_request ex_handler_env (ex_handler e) (page_get (ex_handler e) ''/readyz'' []))
      \<noteq> Some (error_reply ex_handler_env 429 ErrorBusy)"
    by (simp add: MaximumConcurrentRequests_def)
  with auth have "fst (begin_request ex_handler_env (ex_handler e) (page_get (ex_handler e) ''/readyz'' [])) = None"
    by (simp add: begin_request_cases split: if_splits)
  with run auth show ?thesis by blast
qed

end
