(* ===== verification/Application.thy ===== *)
theory Application
  imports Object_Stores Config_Contract Api_Handler
begin

text \<open>
  How the program is put together (\<open>internal/application/application.go\<close>): from a loaded
  configuration to the store of its provider, the scanner and, in sidecar mode, the reader that
  is confined to one server, the evidence engine and its handler. The last section has the
  refresh of a sidecar, whose cache publishes to the engine first.

  Everything outside the repository is in \<open>app_env\<close>: the SDKs, the entropy, the file system
  and the functions the evidence engine is given. The HTTP servers, the goroutines and the log
  are not modelled.
\<close>

section \<open>The store of a provider\<close>

record sdk =
  sd_accept_ca :: "string \<Rightarrow> bool"
  sd_s3 :: "s3_client \<Rightarrow> s3_api option"
  sd_azure :: "azure_client \<Rightarrow> azure_api option"
  sd_gcs :: "gcs_client_option list \<Rightarrow> gcs_api option"
  sd_rand :: "nat \<Rightarrow> string option"

definition s3_options_of :: "config \<Rightarrow> url \<Rightarrow> s3_options" where
  "s3_options_of cfg destination =
     (let d = cf_credentials cfg in
      \<lparr>op_bucket = ur_host destination, op_prefix = trim_slashes (ur_path destination),
       op_endpoint = cf_endpoint cfg, op_ca_bundle = cf_ca_bundle cfg, op_region = cd_region d,
       op_access_key = secret_bytes (cd_access_key d), op_secret_key = secret_bytes (cd_secret_key d),
       op_session_token = secret_bytes (cd_session_token d), op_web_identity_file = cd_web_identity_file d,
       op_role_arn = cd_role_arn d, op_timeout = cf_request_timeout cfg\<rparr>)"

definition azure_options_of :: "config \<Rightarrow> url \<Rightarrow> azure_options" where
  "azure_options_of cfg destination =
     (let d = cf_credentials cfg in
      \<lparr>ao_container = ur_host destination, ao_prefix = trim_slashes (ur_path destination),
       ao_account = cd_azure_account d, ao_connection_string = secret_bytes (cd_azure_connection d),
       ao_account_key = secret_bytes (cd_azure_key d), ao_sas_token = secret_bytes (cd_azure_sas d),
       ao_timeout = cf_request_timeout cfg\<rparr>)"

definition gcs_options_of :: "config \<Rightarrow> url \<Rightarrow> gcs_options" where
  "gcs_options_of cfg destination =
     \<lparr>go_bucket = ur_host destination, go_prefix = trim_slashes (ur_path destination), go_endpoint = [],
      go_credentials = secret_bytes (cd_google_json (cf_credentials cfg)), go_timeout = cf_request_timeout cfg\<rparr>"

text \<open>\<open>defaultReaderFactory\<close>; a configuration without a destination would be a nil dereference.\<close>

definition default_reader :: "sdk \<Rightarrow> config \<Rightarrow> url \<Rightarrow> go_error + cloud_store" where
  "default_reader sdk cfg destination =
     (case cf_provider cfg of
        ProviderS3 \<Rightarrow> map_sum id S3Store (s3_new (sd_accept_ca sdk) (sd_s3 sdk) (sd_rand sdk) (s3_options_of cfg destination))
      | ProviderAzure \<Rightarrow> map_sum id AzureStore (azure_new (sd_azure sdk) (sd_rand sdk) (azure_options_of cfg destination))
      | ProviderGCS \<Rightarrow> map_sum id GCSStore (gcs_new (sd_gcs sdk) (sd_rand sdk) (gcs_options_of cfg destination)))"

section \<open>The confined reader\<close>

definition store_confinement :: go_error where
  "store_confinement = \<lparr>err_canceled = False, err_deadline = False, err_category = Some SafetyLimit\<rparr>"

definition confinement_ok :: "string \<Rightarrow> bool" where
  "confinement_ok prefix \<longleftrightarrow> prefix \<noteq> [] \<and> has_suffix prefix ''/'' \<and> length prefix \<le> MaxKeyBytes"

definition confined_list ::
  "string \<Rightarrow> (nat \<Rightarrow> list_request \<Rightarrow> go_error + page) \<Rightarrow> nat \<Rightarrow> list_request \<Rightarrow> go_error + page" where
  "confined_list prefix ls k r =
     (if lr_prefix r \<noteq> [] \<and> \<not> has_prefix (lr_prefix r) prefix then Inl store_confinement
      else let r = (if lr_prefix r = [] then r\<lparr>lr_prefix := prefix\<rparr> else r) in
        case ls k r of Inl e \<Rightarrow> Inl e
        | Inr p \<Rightarrow> if list_ex (\<lambda>ob. \<not> has_prefix (ob_key ob) prefix) (pg_objects p) then Inl store_confinement
                   else Inr p)"

definition confined_open :: "string \<Rightarrow> (open_request \<Rightarrow> opened) \<Rightarrow> open_request \<Rightarrow> opened" where
  "confined_open prefix op r = (if \<not> has_prefix (or_key r) prefix then OpenFailed else op r)"

definition confined_stat ::
  "string \<Rightarrow> (stat_request \<Rightarrow> go_error + object) \<Rightarrow> stat_request \<Rightarrow> go_error + object" where
  "confined_stat prefix st r =
     (if \<not> has_prefix (sr_key r) prefix then Inl store_confinement
      else case st r of Inl e \<Rightarrow> Inl e
      | Inr ob \<Rightarrow> if \<not> has_prefix (ob_key ob) prefix then Inl store_confinement else Inr ob)"

definition confined_reader :: "string \<Rightarrow> reader \<Rightarrow> reader" where
  "confined_reader prefix rd =
     \<lparr>rd_list = confined_list prefix (rd_list rd), rd_open = confined_open prefix (rd_open rd),
      rd_stat = confined_stat prefix (rd_stat rd)\<rparr>"

section \<open>Starting the program\<close>

datatype app_error = AppPanic | AppFailed string | AppStore go_error | AppEngine "engine_error option" | AppToken

record app_env =
  ae_sdk :: sdk
  ae_engine :: engine_env
  ae_url_string :: "url \<Rightarrow> string"
  ae_entropy :: "string option"
  ae_files :: file_system

record application =
  ap_options :: scanner_options
  ap_reader :: reader
  ap_state :: scanner_state
  ap_handler :: "handler option"

fun format_id :: "repository_format \<Rightarrow> string" where
  "format_id FormatBarmanCloud = ''barman-cloud''"
| "format_id FormatPGBackRest = ''pgbackrest''"

definition bind_app :: "app_error + 'a \<Rightarrow> ('a \<Rightarrow> app_error + 'b) \<Rightarrow> app_error + 'b" where
  "bind_app r f = (case r of Inl e \<Rightarrow> Inl e | Inr x \<Rightarrow> f x)"

definition projection_options_of :: "app_env \<Rightarrow> config \<Rightarrow> string \<Rightarrow> url \<Rightarrow> projection_options" where
  "projection_options_of env cfg version destination =
     \<lparr>po_version = version, po_namespace = cf_namespace cfg, po_uid = cf_uid cfg,
      po_name = (if cf_cluster_name cfg \<noteq> [] then Some (cf_cluster_name cfg) else None),
      po_s3 = \<lparr>s3_endpoint = (case cf_endpoint cfg of None \<Rightarrow> [] | Some u \<Rightarrow> ae_url_string env u),
        s3_region = cd_region (cf_credentials cfg), s3_bucket = ur_host destination,
        s3_prefix = trim_slashes (ur_path destination), s3_format = format_id (cf_format cfg),
        s3_scope_kind = ''barman-server'', s3_scope_name = hd (cf_servers cfg)\<rparr>\<rparr>"

definition new_evidence_engine :: "app_env \<Rightarrow> config \<Rightarrow> string \<Rightarrow> snapshot \<Rightarrow> app_error + engine" where
  "new_evidence_engine env cfg version initial =
     (case cf_destination cfg of None \<Rightarrow> Inl (AppFailed ''invalid sidecar evidence configuration'')
      | Some destination \<Rightarrow>
          if cf_runtime cfg \<noteq> RuntimePGConsoleSidecar \<or> length (cf_servers cfg) \<noteq> 1
          then Inl (AppFailed ''invalid sidecar evidence configuration'')
          else map_sum AppEngine id (new_engine (ae_engine env)
            (projection_options_of env cfg version destination) initial (ae_entropy env)))"

definition new_evidence_handler :: "app_env \<Rightarrow> config \<Rightarrow> string \<Rightarrow> snapshot \<Rightarrow> app_error + handler" where
  "new_evidence_handler env cfg version initial =
     bind_app (new_evidence_engine env cfg version initial) (\<lambda>engine.
       case load_token_file (ae_files env) (cf_token_file cfg) of None \<Rightarrow> Inl AppToken
       | Some token \<Rightarrow> map_sum AppFailed id (new_handler engine False token))"

definition scanner_options_of :: "config \<Rightarrow> repo_format \<Rightarrow> scanner_options" where
  "scanner_options_of cfg format =
     \<lparr>so_format = format,
      so_scopes = (if cf_format cfg = FormatPGBackRest then cf_stanzas cfg else cf_servers cfg),
      so_max_objects = cf_max_objects cfg, so_page_size = MaxPageObjects,
      so_recent_limit = min (cf_page_size cfg) (int MaxRecentObjects),
      so_analyze = (cf_format cfg = FormatBarmanCloud),
      so_recovery = \<lparr>ro_retention_policy = cf_retention_policy cfg, ro_minimum_redundancy = cf_minimum_redundancy cfg\<rparr>\<rparr>"

text \<open>The page handler of the standalone mode, as far as its construction can fail.\<close>

definition new_web :: "descriptor \<Rightarrow> int \<Rightarrow> int result" where
  "new_web d page_size =
     (if d_id d = [] \<or> d_display_name d = [] \<or> d_scope_kind d = []
      then Inl ''web handler requires a repository format descriptor''
      else let n = (if page_size = 0 then 200 else page_size) in
        if n < 1 \<or> 1000 < n then Inl ''web handler requires a bounded WAL page size'' else Inr n)"

definition new_reader :: "app_env \<Rightarrow> config \<Rightarrow> app_error + reader" where
  "new_reader env cfg =
     (case cf_destination cfg of None \<Rightarrow> Inl AppPanic
      | Some destination \<Rightarrow>
          bind_app (map_sum AppStore id (default_reader (ae_sdk env) cfg destination)) (\<lambda>st.
          let rd = store_reader (ev_hmac (ae_engine env)) st in
          if cf_runtime cfg = RuntimePGConsoleSidecar
          then (let prefix = hd (cf_servers cfg) @ ''/'' in
            if confinement_ok prefix then Inr (confined_reader prefix rd)
            else Inl (AppFailed ''invalid sidecar store confinement''))
          else Inr rd))"

definition new_application :: "app_env \<Rightarrow> config \<Rightarrow> string \<Rightarrow> app_error + application" where
  "new_application env cfg version =
     bind_app (map_sum AppFailed id builtins) (\<lambda>registry.
     bind_app (map_sum AppFailed id (select_format registry (format_id (cf_format cfg)))) (\<lambda>format.
     let d = format_descriptor format; initial = initial_inventory d;
         sidecar = (cf_runtime cfg = RuntimePGConsoleSidecar) in
     bind_app (map_sum AppFailed id (new_cache initial)) (\<lambda>cache.
     if sidecar \<and> length (cf_servers cfg) \<noteq> 1 then Inl (AppFailed ''invalid sidecar evidence configuration'')
     else bind_app (new_reader env cfg) (\<lambda>rd.
     bind_app (if sidecar then map_sum id Some (new_evidence_handler env cfg version (cache_load cache)) else Inr None)
       (\<lambda>handler.
     bind_app (map_sum AppFailed id (new_scanner (cf_refresh_interval cfg) (scanner_options_of cfg format)))
       (\<lambda>opts.
     bind_app (if sidecar then Inr 0 else map_sum AppFailed id (new_web d (cf_page_size cfg))) (\<lambda>_.
     Inr \<lparr>ap_options = opts, ap_reader = rd,
       ap_state = \<lparr>ss_cache = cache, ss_generation = 0,
         ss_readiness = new_probe_state True (i64 (i64 (2 * cf_refresh_interval cfg) + cf_request_timeout cfg))\<rparr>,
       ap_handler = handler\<rparr>)))))))"

section \<open>The cache of a sidecar\<close>

text \<open>\<open>evidencePublishingCache.Publish\<close>: the engine first, then the cache.\<close>

datatype publish_error = EngineRefused engine_error | CacheRefused string

definition evidence_publish ::
  "engine_env \<Rightarrow> snapshot \<Rightarrow> engine \<times> snapshot option \<Rightarrow> publish_error option \<times> engine \<times> snapshot option" where
  "evidence_publish env s c =
     (case publish env s (fst c) of
        (Some e, engine) \<Rightarrow> (Some (EngineRefused e), engine, snd c)
      | (None, engine) \<Rightarrow>
          (case cache_publish s (snd c) of
             (Some e, cache) \<Rightarrow> (Some (CacheRefused e), engine, cache)
           | (None, cache) \<Rightarrow> (None, engine, cache)))"

text \<open>\<open>Scanner.Refresh\<close> with that cache.\<close>

definition sidecar_refresh ::
  "engine_env \<Rightarrow> scanner_options \<Rightarrow> scan_env \<Rightarrow> gotime \<Rightarrow> gotime \<Rightarrow> scanner_state \<times> engine \<Rightarrow> scanner_state \<times> engine" where
  "sidecar_refresh ee opts env t0 t1 c =
     (let st = fst c; generation = ss_generation st + 1; started = time_utc t0;
          publishing = (\<lambda>s. case evidence_publish ee s (snd c, ss_cache st) of
            (_, engine, cache) \<Rightarrow> (st\<lparr>ss_generation := generation, ss_cache := cache\<rparr>, engine))
      in case scan opts env (ss_cache st) generation started t1 of
        Inr s \<Rightarrow> publishing s
      | Inl e \<Rightarrow>
          if err_canceled e then (st\<lparr>ss_generation := generation\<rparr>, snd c)
          else publishing (failure_snapshot opts (ss_cache st) generation started (time_utc t1)
            (categorize (Some e))))"


section \<open>What a loaded configuration gives\<close>

lemma bind_app_Inl: "bind_app r f = Inl e \<longleftrightarrow> r = Inl e \<or> (\<exists>x. r = Inr x \<and> f x = Inl e)"
  by (auto simp: bind_app_def split: sum.split)

lemma bind_app_Inr: "bind_app r f = Inr y \<longleftrightarrow> (\<exists>x. r = Inr x \<and> f x = Inr y)"
  by (auto simp: bind_app_def split: sum.split)

lemma map_sum_Inl: "map_sum f g r = Inl e \<longleftrightarrow> (\<exists>x. r = Inl x \<and> e = f x)"
  by (cases r) auto

lemma map_sum_Inr: "map_sum f g r = Inr y \<longleftrightarrow> (\<exists>x. r = Inr x \<and> y = g x)"
  by (cases r) auto

lemmas app_split = bind_app_Inl bind_app_Inr map_sum_Inl map_sum_Inr

lemma scope_name_valid: "valid_discovered_name n \<longleftrightarrow> \<not> bad_scope_name n"
  by (auto simp: valid_discovered_name_def bad_scope_name_def list_ex_iff not_less)

lemma names_ok_matcher:
  assumes "names_ok names" "f = BarmanFormat \<or> f = PgBackRestFormat"
  obtains m where "new_scope_matcher f names = Inr m" "matcher_wf m" "initial_scopes m = names"
proof -
  have names: "distinct names" "\<forall>n\<in>set names. valid_discovered_name n"
    using assms(1) by (auto simp: names_ok_def list_all_iff scope_name_valid)
  have "\<exists>m. new_scope_matcher f names = Inr m"
    using assms(2) configured_set_complete [OF names(1), of "{}" valid_discovered_name] names(2)
    by (auto simp: barman_new_matcher_def pgbackrest_new_matcher_def pg_valid_eq [abs_def])
  with that new_scope_matcher_wf names show thesis by blast
qed

lemma builtins_select:
  obtains r where "builtins = Inr r" "select_format r (format_id FormatBarmanCloud) = Inr BarmanFormat"
    "select_format r (format_id FormatPGBackRest) = Inr PgBackRestFormat"
proof -
  have "builtins = Inr [(''pgbackrest'', PgBackRestFormat), (''barman-cloud'', BarmanFormat)]" by code_simp
  from that [OF this] show thesis by (simp add: select_format_def)
qed

definition format_of :: "repository_format \<Rightarrow> repo_format" where
  "format_of f = (case f of FormatBarmanCloud \<Rightarrow> BarmanFormat | FormatPGBackRest \<Rightarrow> PgBackRestFormat)"

lemma initial_cache:
  "new_cache (initial_inventory (format_descriptor (format_of f))) =
     Inr (Some (initial_inventory (format_descriptor (format_of f))))"
proof -
  have "validate_snapshot (initial_inventory pgbackrest_descriptor) = None" by code_simp
  then show ?thesis
    by (cases f) (simp_all add: new_cache_def cache_publish_def initial_inventory_valid format_of_def)
qed

lemma loaded_scanner:
  assumes "config_ok cfg"
  shows "new_scanner (cf_refresh_interval cfg) (scanner_options_of cfg format) = Inr (scanner_options_of cfg format)"
proof -
  have "0 < cf_refresh_interval cfg" "1 \<le> cf_max_objects cfg" "1 \<le> cf_page_size cfg"
    "length (cf_servers cfg) \<le> 1000" "length (cf_stanzas cfg) \<le> 1000"
    using assms by (simp_all add: config_ok_def limits_ok_def seconds_def nanoseconds_def scopes_ok_def names_ok_def
        maxConfiguredScopes_def)
  then show ?thesis
    by (simp add: new_scanner_def scanner_options_of_def MaxPageObjects_def MaxRecentObjects_def MaxScopes_def)
qed

lemma loaded_web: "config_ok cfg \<Longrightarrow> \<exists>n. new_web (format_descriptor (format_of f)) (cf_page_size cfg) = Inr n"
  by (cases f)
    (auto simp: config_ok_def limits_ok_def new_web_def Let_def format_of_def barman_descriptor_def
      pgbackrest_descriptor_def)

lemma sidecar_confinement:
  assumes "config_ok cfg" "sidecar_ok cfg"
  obtains n where "cf_servers cfg = [n]" "valid_discovered_name n" "confinement_ok (n @ ''/'')"
proof -
  obtain n where n: "cf_servers cfg = [n]" using assms(2) by (auto simp: sidecar_ok_def length_Suc_conv)
  then have "valid_discovered_name n" using assms(1) by (simp add: config_ok_def scopes_ok_def names_ok_def scope_name_valid)
  moreover from this have "confinement_ok (n @ ''/'')"
    by (simp add: confinement_ok_def valid_discovered_name_def has_suffix_def MaxKeyBytes_def)
  ultimately show thesis using that n by blast
qed

text \<open>The S3 credentials of a loaded configuration: a pair of keys, a web identity, or none.\<close>

definition s3_credentials_ok :: "credentials \<Rightarrow> bool" where
  "s3_credentials_ok d \<longleftrightarrow>
     (let access = secret_bytes (cd_access_key d); key = secret_bytes (cd_secret_key d);
          session = secret_bytes (cd_session_token d) in
      length access \<le> 65536 \<and> length key \<le> 65536 \<and> length session \<le> 65536
      \<and> (access = []) = (key = []) \<and> (session \<noteq> [] \<longrightarrow> access \<noteq> [])
      \<and> (cd_web_identity_file d = []) = (cd_role_arn d = [])
      \<and> (cd_web_identity_file d \<noteq> [] \<longrightarrow> access = [])
      \<and> length (cd_role_arn d) \<le> 2048 \<and> \<not> has_control (cd_role_arn d))"

lemma loaded_s3_credentials:
  assumes "mode_credentials (cd_mode d) d" "cd_mode d \<in> {CredentialAmbient, CredentialStaticFiles, CredentialAWSWebIdentity}"
  shows "s3_credentials_ok d"
proof -
  note field = arg_cong [where f = cd_access_key] arg_cong [where f = cd_secret_key]
    arg_cong [where f = cd_session_token] arg_cong [where f = cd_web_identity_file] arg_cong [where f = cd_role_arn]
  have ctrl: "\<not> has_control []" by simp
  from assms(2) consider (ambient) "cd_mode d = CredentialAmbient" | (static) "cd_mode d = CredentialStaticFiles"
    | (web) "cd_mode d = CredentialAWSWebIdentity" by blast
  then show ?thesis
  proof cases
    case ambient
    then have e: "d = no_credentials\<lparr>cd_mode := CredentialAmbient, cd_region := cd_region d, cd_azure_account := cd_azure_account d\<rparr>"
      using assms(1) by simp
    show ?thesis using field [OF e] ctrl by (simp add: s3_credentials_ok_def no_credentials_def no_secret_def)
  next
    case static
    then have e: "d = no_credentials\<lparr>cd_mode := CredentialStaticFiles, cd_region := cd_region d, cd_access_key := cd_access_key d,
          cd_secret_key := cd_secret_key d, cd_session_token := cd_session_token d\<rparr>"
      and r: "read_secret (cd_access_key d) maxSecretFileBytes" "read_secret (cd_secret_key d) maxSecretFileBytes"
        "cd_session_token d = no_secret \<or> read_secret (cd_session_token d) maxSecretFileBytes"
      using assms(1) by simp_all
    show ?thesis using field(4,5) [OF e] r ctrl
      by (auto simp: s3_credentials_ok_def no_credentials_def no_secret_def read_secret_def maxSecretFileBytes_def)
  next
    case web
    then have e: "d = no_credentials\<lparr>cd_mode := CredentialAWSWebIdentity, cd_region := cd_region d,
          cd_web_identity_file := cd_web_identity_file d, cd_role_arn := cd_role_arn d\<rparr>"
      and r: "valid_absolute_path (cd_web_identity_file d)" "valid_aws_role_arn (cd_role_arn d)"
      using assms(1) by simp_all
    have "cd_web_identity_file d \<noteq> []" using r(1) by (auto simp: valid_absolute_path_def has_prefix_def)
    moreover have "cd_role_arn d \<noteq> []" "length (cd_role_arn d) \<le> 2048" "\<not> has_control (cd_role_arn d)"
      using r(2) by (auto simp: valid_aws_role_arn_def invalid_identity_def)
    ultimately show ?thesis using field(1-3) [OF e]
      by (simp add: s3_credentials_ok_def no_credentials_def no_secret_def)
  qed
qed

text \<open>
  The options of the S3 store: what the loader accepted the adapter accepts again, except that
  the loader does not bound the bucket, the prefix and the web identity file.
\<close>

lemma loaded_s3_options:
  assumes "config_ok cfg" "cf_destination cfg = Some u" "cf_provider cfg = ProviderS3"
  shows "invalid_options (s3_options_of cfg u) \<longleftrightarrow>
     255 < length (ur_host u) \<or> has_control (ur_host u) \<or> MaxKeyBytes < length (trim_slashes (ur_path u))
     \<or> 4096 < length (cd_web_identity_file (cf_credentials cfg))
     \<or> has_control (cd_web_identity_file (cf_credentials cfg))"
proof -
  let ?d = "cf_credentials cfg"
  have "\<exists>v. cf_destination cfg = Some v \<and> destination_ok (cf_provider cfg) v" using assms(1) by (simp add: config_ok_def)
  then have host: "ur_host u \<noteq> []" using assms(2) by (simp add: destination_ok_def)
  have time: "\<not> cf_request_timeout cfg \<le> 0" "\<not> maxRequestTimeout < cf_request_timeout cfg"
    using assms(1) by (simp_all add: config_ok_def limits_ok_def seconds_def maxRequestTimeout_def nanoseconds_def)
  have region: "length (cd_region ?d) \<le> 128" "\<not> has_control (cd_region ?d)"
    using assms(1) by (simp_all add: config_ok_def credentials_ok_def)
  have ca: "length (cf_ca_bundle cfg) \<le> 1024 * 1024"
    using assms(1) by (cases "cf_ca_bundle cfg = []") (auto simp: config_ok_def maxConfigFileBytes_def)
  have endpoint: "case cf_endpoint cfg of None \<Rightarrow> True | Some x \<Rightarrow> endpoint_ok x"
    using assms(1) by (auto simp: config_ok_def split: option.split)
  have "cd_mode ?d \<in> {CredentialAmbient, CredentialStaticFiles, CredentialAWSWebIdentity}"
    "mode_credentials (cd_mode ?d) ?d"
    using assms(1,3) by (cases "cf_runtime cfg"; auto simp: config_ok_def credentials_ok_def)+
  then have "s3_credentials_ok ?d" by (intro loaded_s3_credentials)
  then show ?thesis
    using host time region ca endpoint
    by (auto simp: invalid_options_def s3_options_of_def Let_def s3_credentials_ok_def endpoint_ok_def not_less
        simp del: has_control.simps split: option.split)
qed


section \<open>Confining a store\<close>

context bounded_store begin

text \<open>A bounded store that is confined to a prefix is a bounded store again.\<close>

lemma confine:
  "bounded_store (\<lambda>(prefix, s). confined_list prefix (ls s))
     (\<lambda>(prefix, s). wf s \<and> confinement_ok prefix \<and> \<not> leading_slash prefix)
     (\<lambda>(prefix, s) p c. accepts s (if p = [] then prefix else p) c)"
proof (unfold_locales, goal_cases)
  case (1 ps k r p)
  obtain prefix s where ps: "ps = (prefix, s)" by (rule prod.exhaust)
  let ?r = "if lr_prefix r = [] then r\<lparr>lr_prefix := prefix\<rparr> else r"
  have "ls s k ?r = Inr p" using 1(2) by (auto simp: ps confined_list_def Let_def split: if_splits sum.splits)
  then have "page_confined ?r p" using confined [of s k ?r p] 1(1) ps by blast
  then show ?case
    by (auto simp: page_confined_def validate_list_request_def object_confined_def has_prefix_def list_all_iff
        split: if_splits)
next
  case (2 ps k r p)
  obtain prefix s where ps: "ps = (prefix, s)" by (rule prod.exhaust)
  let ?r = "if lr_prefix r = [] then r\<lparr>lr_prefix := prefix\<rparr> else r"
  have "ls s k ?r = Inr p" using 2(2) by (auto simp: ps confined_list_def Let_def split: if_splits sum.splits)
  then have "accepts s (lr_prefix ?r) (pg_next_cursor p)" using resumes [of s k ?r p] 2(1) ps by blast
  then show ?case by (simp add: ps split: if_splits)
next
  case (3 ps prefix')
  then show ?case using starts by (auto split: prod.splits)
next
  case (4 ps r k e)
  obtain prefix s where ps: "ps = (prefix, s)" by (rule prod.exhaust)
  let ?r = "if lr_prefix r = [] then r\<lparr>lr_prefix := prefix\<rparr> else r"
  have escape: "reported store_confinement"
    using scan_error_reported [of SafetyLimit] by (simp add: store_confinement_def scan_error_def)
  have "validate_list_request ?r = None" "\<not> leading_slash (lr_prefix ?r)" "accepts s (lr_prefix ?r) (lr_cursor ?r)"
    using 4(1-4) by (auto simp: ps validate_list_request_def confinement_ok_def split: if_splits)
  then have "ls s k ?r = Inl e' \<Longrightarrow> reported e'" for e' using fails 4(1) ps by auto
  then show ?case
    using 4(5) escape by (auto simp: ps confined_list_def Let_def split: if_splits sum.splits)
qed

lemma scan_reported:
  assumes "wf s" "rd_list (sv_reader env) = ls s" "\<forall>n e. sv_ctx env n = Some e \<longrightarrow> reported e"
    and "1 \<le> so_page_size opts" "so_page_size opts \<le> MaxPageObjects"
    and "new_scope_matcher (so_format opts) (so_scopes opts) = Inr m"
    and "scan opts env cache generation t0 t1 = Inl e"
  shows "reported e"
proof -
  have map: "initial_scope_map scopes ns = Inl e' \<Longrightarrow> reported e'" for scopes ns e'
    by (induction scopes ns rule: initial_scope_map.induct) (auto simp: scan_error_reported split: if_splits)
  have builder: "new_builder d initial limit barman = Inl e' \<Longrightarrow> reported e'" for d initial limit barman e'
    using map by (auto simp: new_builder_def scan_error_reported split: if_splits sum.splits)
  have pages: "scan_pages opts env m 0 [] b = Inl e' \<Longrightarrow> reported e'" for b e'
    using scan_pages_reported [OF assms(1-5) starts [OF assms(1)]] by simp
  have analysis: "analyze_snapshot opts env previous g b s = Inl e' \<Longrightarrow> reported e'" for previous g b s e'
    using assms(3) by (auto simp: analyze_snapshot_def Let_def split: option.splits prod.splits)
  show ?thesis
    using assms(7) builder pages analysis unfolding scan_def assms(6)
    by (auto simp: Let_def split: sum.splits if_splits)
qed

end

interpretation confined: bounded_store
  "\<lambda>(prefix, h, s). confined_list prefix (store_list h s)"
  "\<lambda>(prefix, h, s). hmac_ok h \<and> confinement_ok prefix \<and> \<not> leading_slash prefix"
  "\<lambda>(prefix, h, s) p c. store_accepts h s (if p = [] then prefix else p) c"
  using cloud.confine by (simp add: case_prod_unfold)

section \<open>Starting the program\<close>

lemma load_config_destination:
  assumes "config_ok cfg"
  obtains u where "cf_destination cfg = Some u" "destination_ok (cf_provider cfg) u"
  using assms by (auto simp: config_ok_def)

text \<open>What a started program consists of.\<close>

lemma new_application_Inr:
  assumes "new_application env cfg version = Inr app" and "config_ok cfg"
  shows "ap_options app = scanner_options_of cfg (format_of (cf_format cfg))"
    and "new_reader env cfg = Inr (ap_reader app)"
    and "ap_state app = \<lparr>ss_cache = Some (initial_inventory (format_descriptor (format_of (cf_format cfg)))),
       ss_generation = 0,
       ss_readiness = new_probe_state True (i64 (i64 (2 * cf_refresh_interval cfg) + cf_request_timeout cfg))\<rparr>"
    and "cf_runtime cfg = RuntimePGConsoleSidecar \<Longrightarrow> \<exists>h. ap_handler app = Some h
       \<and> new_evidence_handler env cfg version (initial_inventory (format_descriptor (format_of (cf_format cfg)))) = Inr h"
proof -
  obtain reg where reg: "builtins = Inr reg" "select_format reg (format_id (cf_format cfg)) = Inr (format_of (cf_format cfg))"
    by (rule builtins_select) (cases "cf_format cfg"; simp add: format_of_def)
  note app = assms(1) [unfolded new_application_def bind_app_Inr map_sum_Inr Let_def reg(1)]
  note cache = initial_cache [of "cf_format cfg"] and scanner = loaded_scanner [OF assms(2)]
  show "ap_options app = scanner_options_of cfg (format_of (cf_format cfg))"
    "new_reader env cfg = Inr (ap_reader app)"
    "ap_state app = \<lparr>ss_cache = Some (initial_inventory (format_descriptor (format_of (cf_format cfg)))),
       ss_generation = 0,
       ss_readiness = new_probe_state True (i64 (i64 (2 * cf_refresh_interval cfg) + cf_request_timeout cfg))\<rparr>"
    "cf_runtime cfg = RuntimePGConsoleSidecar \<Longrightarrow> \<exists>h. ap_handler app = Some h
       \<and> new_evidence_handler env cfg version (initial_inventory (format_descriptor (format_of (cf_format cfg)))) = Inr h"
    using app by (auto simp: reg cache scanner cache_load_def bind_app_Inr map_sum_Inr split: if_splits)
qed


section \<open>A concrete start\<close>

definition ex_sdk :: sdk where
  "ex_sdk = \<lparr>sd_accept_ca = (\<lambda>c. True), sd_s3 = (\<lambda>c. Some ex_s3_api), sd_azure = (\<lambda>c. None), sd_gcs = (\<lambda>o'. None),
     sd_rand = (\<lambda>n. Some (replicate n (CHR ''k'')))\<rparr>"

definition ex_app_env :: app_env where
  "ex_app_env = \<lparr>ae_sdk = ex_sdk, ae_engine = ex_env, ae_url_string = (\<lambda>u. []), ae_entropy = Some ex_key,
     ae_files = ex_token_files\<rparr>"

definition ex_identity_s3 :: s3_input where
  "ex_identity_s3 = \<lparr>s3_endpoint = [], s3_region = [], s3_bucket = ''backups'', s3_prefix = ''pg'',
     s3_format = ''barman-cloud'', s3_scope_kind = ''barman-server'', s3_scope_name = ''pg-1''\<rparr>"

definition ex_projection :: projection_options where
  "ex_projection = \<lparr>po_version = ''1'', po_namespace = ''db'', po_uid = ''u1'', po_name = None, po_s3 = ex_identity_s3\<rparr>"

lemma ex_projection_options: "projection_options_of ex_app_env ex_config ''1'' ex_url = ex_projection"
  by code_simp

lemma ex_initial_canonical: "canonical_s3 parse_url ex_identity_s3 = Inr ex_identity_s3"
proof -
  have "trim_slashes ''pg'' = ''pg''" "valid_barman_server ''pg-1''"
    "\<not> list_ex s3_field_bad [([], 128, False), (''backups'', 255, True), (''pg'', 1024, False), (''pg-1'', 256, True)]"
    by code_simp+
  then show ?thesis
    by (simp add: canonical_s3_def canonical_endpoint_def ex_identity_s3_def)
qed

lemma ex_initial_fingerprint: "fingerprint_s3 parse_url eg_hash ex_identity_s3 = Inr eg_print"
  by (simp add: fingerprint_s3_def ex_initial_canonical eg_hash_def eg_print_def)

abbreviation ex_initial :: snapshot where
  "ex_initial \<equiv> initial_inventory barman_descriptor"

definition ex_initial_wire :: wire_snapshot where
  "ex_initial_wire = project_snapshot ex_initial ex_projection ex_identity_s3 eg_print (project_collections ex_initial ''pg-1'')"

lemma ex_initial_collections:
  "project_backups ex_initial n = []" "project_wal ex_initial n = ([], [])" "project_paths ex_initial n = []"
  by (simp_all add: project_backups_def project_wal_def project_paths_def initial_inventory_def zero_snapshot_def)

text \<open>The initial snapshot of the wire, part by part.\<close>

lemma ex_initial_evidence:
  "in_evidence ex_initial = set_inventory_capability Unknown ''no completed scan''
     (initial_snapshot ''barman-cloud'' ''server'' barman_capabilities)"
  "in_totals_known ex_initial = False" "in_failure ex_initial = FaultNone" "in_generation ex_initial = 0"
  "in_last_attempt ex_initial = zero_time"
  by (simp_all add: initial_inventory_def barman_descriptor_def zero_snapshot_def)

lemma ex_initial_identity:
  "validate_identity
     \<lparr>wi_cluster = \<lparr>ci_namespace = ''db'', ci_uid = ''u1'', ci_name = None\<rparr>,
      wi_repository = \<lparr>ri_provider = ''s3'', ri_format = ''barman-cloud'', ri_fingerprint = eg_print,
        ri_scope = \<lparr>si_kind = ''barman-server'', si_name = ''pg-1''\<rparr>\<rparr>\<rparr> = None"
  "\<not> invalid_wire_text ''1'' 64" "\<not> invalid_reason (typed_reason ''snapshot-unknown'' ''no completed scan'')"
  by code_simp+

definition ex_initial_capabilities :: "wire_capability list" where
  "ex_initial_capabilities = project_capabilities (es_capabilities (in_evidence ex_initial))"

lemma ex_initial_capabilities_valid:
  "check_capabilities False capability_ids ex_initial_capabilities = None"
  "length ex_initial_capabilities = length capability_ids"
proof -
  show "check_capabilities False capability_ids ex_initial_capabilities = None"
    unfolding ex_initial_capabilities_def ex_initial_evidence by code_simp
  show "length ex_initial_capabilities = length capability_ids"
    by (simp add: ex_initial_capabilities_def project_capabilities_def ex_initial_evidence set_inventory_capability_def
        set_capability_def initial_snapshot_def barman_capabilities_def capability_ids_def)
qed

definition ex_initial_summary :: details where
  "ex_initial_summary = project_details zero_snapshot ''pg-1'' \<lparr>pb_backups = [], pb_ranges = [], pb_gaps = [], pb_paths = []\<rparr>"

lemma ex_initial_details: "project_details ex_initial ''pg-1'' c = ex_initial_summary"
  by (simp add: ex_initial_summary_def project_details_def Let_def initial_inventory_def zero_snapshot_def)

lemma ex_initial_details_valid:
  "validate_details ex_initial_summary = None" "\<forall>b\<in>set_option (dt_barman ex_initial_summary). \<not> has_generation_counts b"
  by code_simp+

lemma ex_initial_wire_valid: "validate_wire_snapshot ex_initial_wire = None"
proof -
  have inv: "project_inventory ex_initial = project_inventory zero_snapshot" and "time_is_zero zero_time"
    by (simp_all add: project_inventory_def initial_inventory_def zero_snapshot_def time_is_zero_def zero_time_def)
  then have wire: "ex_initial_wire =
    \<lparr>ws_api_version = APIVersion, ws_kind = SnapshotKind, ws_producer = \<lparr>pd_name = ProducerName, pd_version = ''1''\<rparr>,
     ws_identity = \<lparr>wi_cluster = \<lparr>ci_namespace = ''db'', ci_uid = ''u1'', ci_name = None\<rparr>,
      wi_repository = \<lparr>ri_provider = ''s3'', ri_format = ''barman-cloud'', ri_fingerprint = eg_print,
        ri_scope = \<lparr>si_kind = ''barman-server'', si_name = ''pg-1''\<rparr>\<rparr>\<rparr>,
     ws_revision = 0, ws_evidence_generation = 0, ws_started = None, ws_completed = None, ws_last_attempt = None,
     ws_completeness = Unscanned, ws_stale = False, ws_state = Unknown,
     ws_reason = typed_reason ''snapshot-unknown'' ''no completed scan'', ws_capabilities = ex_initial_capabilities,
     ws_inventory = project_inventory zero_snapshot, ws_details = ex_initial_summary\<rparr>"
    by (simp add: ex_initial_wire_def project_snapshot_def Let_def ex_initial_details ex_initial_capabilities_def
        ex_initial_evidence ex_projection_def ex_identity_s3_def set_inventory_capability_def initial_snapshot_def
        time_pointer_def inv)
  have inventory: "validate_inventory_summary (project_inventory zero_snapshot) = None"
    "iv_failure (project_inventory zero_snapshot) = None" by code_simp+
  show ?thesis
    using ex_initial_details_valid
    by (simp add: wire inventory validate_wire_snapshot_def ex_initial_identity ex_initial_capabilities_valid generation_error_def
        valid_completeness_def valid_optional_time_def)
qed

lemma ex_initial_project: "\<exists>p. project parse_url eg_hash ex_initial ex_projection = Inr p"
proof -
  have "s3_format ex_identity_s3 = es_format (in_evidence ex_initial)"
    "scope_kind (es_scope (in_evidence ex_initial)) = ''server''" "\<not> in_totals_known ex_initial"
    "validate_source_profile ex_initial (s3_scope_name ex_identity_s3) = None"
    by (simp_all add: ex_identity_s3_def ex_initial_evidence set_inventory_capability_def initial_snapshot_def
        validate_source_profile_def) (simp add: initial_inventory_def zero_snapshot_def)
  moreover have "validate_publication (project_publication ex_initial ex_projection ex_identity_s3 eg_print) = None"
  proof -
    have "s3_scope_name ex_identity_s3 = ''pg-1''" "ws_completeness ex_initial_wire = Unscanned"
      by (simp_all add: ex_identity_s3_def ex_initial_wire_def project_snapshot_def Let_def ex_initial_evidence set_inventory_capability_def initial_snapshot_def)
    then show ?thesis
      by (simp add: validate_publication_def check_collection_def ex_initial_collections ex_initial_wire_valid
          flip: ex_initial_wire_def)
  qed
  moreover have "po_s3 ex_projection = ex_identity_s3" by (simp add: ex_projection_def)
  ultimately show ?thesis
    by (simp add: project_def initial_inventory_valid ex_initial_canonical ex_initial_fingerprint Let_def)
qed


lemma ex_config_ok: "config_ok ex_config" "cf_runtime ex_config = RuntimePGConsoleSidecar" "sidecar_ok ex_config"
proof -
  show "config_ok ex_config" using ex_config_loads by (rule load_config_contract)
  show run: "cf_runtime ex_config = RuntimePGConsoleSidecar" by (simp add: ex_config_def initial_config_def)
  show "sidecar_ok ex_config" using ex_config_loads run by (rule load_config_contract)
qed

lemma ex_app_fields:
  "ae_sdk ex_app_env = ex_sdk" "ae_engine ex_app_env = ex_env" "ae_entropy ex_app_env = Some ex_key"
  "ae_files ex_app_env = ex_token_files" "ev_hmac ex_env = ex_mac" "ev_parse_url ex_env = (\<lambda>u. None)"
  "ev_sha256 ex_env = eg_hash" "po_s3 ex_projection = ex_identity_s3"
  "sd_accept_ca ex_sdk c" "sd_s3 ex_sdk k = Some ex_s3_api" "sd_rand ex_sdk n = Some (replicate n (CHR ''k''))"
  by (simp_all add: ex_app_env_def ex_env_def ex_projection_def ex_sdk_def)

lemma ex_config_fields:
  "cf_format ex_config = FormatBarmanCloud" "cf_servers ex_config = [''pg-1'']" "cf_provider ex_config = ProviderS3"
  "cf_destination ex_config = Some ex_url" "cf_token_file ex_config = ''/run/token''"
  by (simp_all add: ex_config_def initial_config_def)

definition ex_cloud_store :: cloud_store where
  "ex_cloud_store = S3Store \<lparr>st_api = ex_s3_api, st_bucket = ''backups'', st_root = ''pg/'',
     st_timeout = cf_request_timeout ex_config, st_key = ex_key\<rparr>"

definition ex_app_reader :: reader where
  "ex_app_reader = confined_reader ''pg-1/'' (store_reader ex_mac ex_cloud_store)"

lemma ex_new_reader: "new_reader ex_app_env ex_config = Inr ex_app_reader"
proof -
  have "\<not> has_control ''backups''" by (simp add: ascii_control_def)
  then have valid: "\<not> invalid_options (s3_options_of ex_config ex_url)"
    using loaded_s3_options [OF ex_config_ok(1), of ex_url]
    by (simp add: ex_config_fields ex_url_def trim_slashes_def MaxKeyBytes_def)
      (simp add: ex_config_def no_credentials_def)
  have options: "op_bucket (s3_options_of ex_config ex_url) = ''backups''" "op_prefix (s3_options_of ex_config ex_url) = ''pg''"
    "op_timeout (s3_options_of ex_config ex_url) = cf_request_timeout ex_config" "rooted ''pg'' = ''pg/''"
    by (simp_all add: s3_options_of_def Let_def ex_url_def trim_slashes_def rooted_def)
  have "default_reader ex_sdk ex_config ex_url = Inr ex_cloud_store"
    by (simp add: default_reader_def ex_config_fields s3_new_def new_with_api_def valid ex_app_fields options
        ex_cloud_store_def ex_key_def)
  then show ?thesis
    by (simp add: new_reader_def ex_app_fields ex_config_fields ex_config_ok(2) bind_app_def ex_app_reader_def
        confinement_ok_def has_suffix_def MaxKeyBytes_def)
qed

lemma ex_start:
  obtains app where "new_application ex_app_env ex_config ''1'' = Inr app"
proof -
  obtain p where p: "project (\<lambda>u. None) eg_hash ex_initial ex_projection = Inr p"
    using ex_initial_project by blast
  have "publish ex_env ex_initial \<lparr>en_projection = ex_projection, en_key = ex_key, en_current = None\<rparr>
      = (None, \<lparr>en_projection = ex_projection, en_key = ex_key, en_current = Some p\<rparr>)"
    by (simp add: publish_def ex_app_fields p)
  then have "\<exists>h. new_evidence_handler ex_app_env ex_config ''1'' ex_initial = Inr h"
    by (simp add: new_evidence_handler_def new_evidence_engine_def ex_config_fields ex_config_ok(2) ex_projection_options
        new_engine_def ex_app_fields bind_app_def new_handler_def ex_token_file ex_token_valid)
  then obtain h where h: "new_evidence_handler ex_app_env ex_config ''1'' ex_initial = Inr h" by blast
  obtain reg where reg: "builtins = Inr reg" "select_format reg (format_id FormatBarmanCloud) = Inr BarmanFormat"
    by (rule builtins_select)
  have cache: "new_cache ex_initial = Inr (Some ex_initial)"
    using initial_cache [of FormatBarmanCloud] by (simp add: format_of_def)
  have "\<exists>app. new_application ex_app_env ex_config ''1'' = Inr app"
    unfolding new_application_def ex_config_fields(1)
    using reg(2)
    by (simp add: reg(1) bind_app_def cache cache_load_def ex_config_ok(2) ex_config_fields(2) ex_new_reader h
        loaded_scanner [OF ex_config_ok(1)] Let_def)
  with that show thesis by blast
qed


section \<open>What can go wrong at the start\<close>










section \<open>The sidecar sees one server\<close>

definition stores_agree :: "string \<Rightarrow> reader \<Rightarrow> reader \<Rightarrow> bool" where
  "stores_agree prefix rd rd' \<longleftrightarrow>
     (\<forall>k r. has_prefix (lr_prefix r) prefix \<longrightarrow> rd_list rd k r = rd_list rd' k r)
     \<and> (\<forall>r. has_prefix (or_key r) prefix \<longrightarrow> rd_open rd r = rd_open rd' r)
     \<and> (\<forall>r. has_prefix (sr_key r) prefix \<longrightarrow> rd_stat rd r = rd_stat rd' r)"

lemma confined_agree:
  assumes "stores_agree prefix rd rd'"
  shows "confined_reader prefix rd = confined_reader prefix rd'"
proof -
  have self: "has_prefix prefix prefix" by (simp add: has_prefix_def)
  have "confined_list prefix (rd_list rd) k r = confined_list prefix (rd_list rd') k r" for k r
    using assms self by (auto simp: confined_list_def stores_agree_def Let_def)
  moreover have "confined_open prefix (rd_open rd) r = confined_open prefix (rd_open rd') r" for r
    using assms by (simp add: confined_open_def stores_agree_def)
  moreover have "confined_stat prefix (rd_stat rd) r = confined_stat prefix (rd_stat rd') r" for r
    using assms by (simp add: confined_stat_def stores_agree_def)
  ultimately show ?thesis by (simp add: confined_reader_def fun_eq_iff)
qed

lemma confined_page:
  "confined_list prefix ls k r = Inr p \<Longrightarrow> list_all (\<lambda>ob. has_prefix (ob_key ob) prefix) (pg_objects p)"
  by (auto simp: confined_list_def Let_def list_ex_iff list_all_iff split: if_splits sum.splits)

lemma sidecar_reader:
  assumes "config_ok cfg" "sidecar_ok cfg" "cf_runtime cfg = RuntimePGConsoleSidecar"
    and "new_reader env cfg = Inr rd"
  obtains n u st where "cf_servers cfg = [n]" "cf_destination cfg = Some u" "valid_discovered_name n"
    "default_reader (ae_sdk env) cfg u = Inr st"
    "rd = confined_reader (n @ ''/'') (store_reader (ev_hmac (ae_engine env)) st)"
proof -
  obtain n where n: "cf_servers cfg = [n]" "valid_discovered_name n" by (rule sidecar_confinement [OF assms(1,2)])
  with that assms(3,4) show thesis
    by (auto simp: new_reader_def bind_app_Inr map_sum_Inr Let_def split: option.splits if_splits)
qed

text \<open>
  C1. A sidecar depends on nothing but its own server: whatever the credential can read, another
  store that answers the requests under the prefix of the server alike leads to the same
  snapshot and the same publication, and every object that reaches a scan is under that prefix.
\<close>

theorem sidecar_noninterference:
  assumes "load_config cenv = Inr cfg" and "cf_runtime cfg = RuntimePGConsoleSidecar"
    and "new_application env cfg version = Inr app"
  shows "\<exists>n u st. cf_servers cfg = [n] \<and> cf_destination cfg = Some u \<and> default_reader (ae_sdk env) cfg u = Inr st
     \<and> (\<forall>rd'. stores_agree (n @ ''/'') (store_reader (ev_hmac (ae_engine env)) st) rd' \<longrightarrow>
          sidecar_refresh (ae_engine env) (ap_options app) (senv\<lparr>sv_reader := ap_reader app\<rparr>) t0 t1 c
          = sidecar_refresh (ae_engine env) (ap_options app)
              (senv\<lparr>sv_reader := confined_reader (n @ ''/'') rd'\<rparr>) t0 t1 c)
     \<and> (\<forall>k r p. rd_list (ap_reader app) k r = Inr p \<longrightarrow>
          list_all (\<lambda>ob. has_prefix (ob_key ob) (n @ ''/'')) (pg_objects p))"
proof -
  note ok = load_config_contract [OF assms(1)]
  obtain n u st where n: "cf_servers cfg = [n]" "cf_destination cfg = Some u"
    "default_reader (ae_sdk env) cfg u = Inr st"
    and rd: "ap_reader app = confined_reader (n @ ''/'') (store_reader (ev_hmac (ae_engine env)) st)"
    using sidecar_reader [OF ok(1) ok(2) [OF assms(2)] assms(2) new_application_Inr(2) [OF assms(3) ok(1)]] by blast
  have "list_all (\<lambda>ob. has_prefix (ob_key ob) (n @ ''/'')) (pg_objects p)" if "rd_list (ap_reader app) k r = Inr p" for k r p
    using that confined_page by (simp add: rd confined_reader_def)
  with n show ?thesis using confined_agree rd by metis
qed

lemma sidecar_noninterference_witness:
  "\<exists>app n. new_application ex_app_env ex_config ''1'' = Inr app \<and> cf_servers ex_config = [n]
     \<and> list_all (\<lambda>ob. has_prefix (ob_key ob) (n @ ''/''))
         (case rd_list (ap_reader app) 0 \<lparr>lr_prefix = [], lr_cursor = [], lr_limit = 5\<rparr> of Inr p \<Rightarrow> pg_objects p | Inl e \<Rightarrow> [])"
proof -
  obtain app where app: "new_application ex_app_env ex_config ''1'' = Inr app" by (rule ex_start)
  from sidecar_noninterference [OF ex_config_loads ex_config_ok(2) app, of "ex_scan_env None" zero_time zero_time
      "(ap_state app, ha_engine (the (ap_handler app)))"] app
  show ?thesis by (auto split: sum.split)
qed

section \<open>What is served is what was scanned\<close>

text \<open>The states of a sidecar: it refreshes and probes, whatever the provider and the clock answer.\<close>

inductive sidecar_reach :: "app_env \<Rightarrow> application \<Rightarrow> scanner_state \<Rightarrow> engine \<Rightarrow> bool" for env app where
  start: "ap_handler app = Some h \<Longrightarrow> sidecar_reach env app (ap_state app) (ha_engine h)"
| refreshed: "sidecar_reach env app st e \<Longrightarrow> ss_generation st \<noteq> max_u64 \<Longrightarrow>
     sidecar_refresh (ae_engine env) (ap_options app) senv t0 t1 (st, e) = (st', e') \<Longrightarrow> sidecar_reach env app st' e'"
| probed: "sidecar_reach env app st e \<Longrightarrow> probe answer now st = (f, st') \<Longrightarrow> sidecar_reach env app st' e"

definition served :: "engine_env \<Rightarrow> projection_options \<Rightarrow> scanner_state \<Rightarrow> engine \<Rightarrow> bool" where
  "served ee opts st e \<longleftrightarrow> (\<exists>s p. ss_cache st = Some s \<and> en_current e = Some p
     \<and> project (ev_parse_url ee) (ev_sha256 ee) s opts = Inr p \<and> en_projection e = opts
     \<and> validate_snapshot s = None \<and> engine_reach ee e)"

lemma project_snapshot_valid: "project u h s opts = Inr p \<Longrightarrow> validate_snapshot s = None"
  by (simp add: project_def split: option.splits)

lemma evidence_publish_served:
  assumes "served ee opts st e" "evidence_publish ee s (e, ss_cache st) = (r, e', c')"
  shows "served ee opts (st\<lparr>ss_generation := g, ss_cache := c'\<rparr>) e'"
proof -
  obtain v p where v: "ss_cache st = Some v" "en_current e = Some p" "en_projection e = opts" "engine_reach ee e"
    "project (ev_parse_url ee) (ev_sha256 ee) v opts = Inr p" "validate_snapshot v = None"
    using assms(1) by (auto simp: served_def)
  show ?thesis
  proof (cases "publish ee s e")
    case (Pair x e1)
    show ?thesis
    proof (cases x)
      case (Some err)
      then have "e1 = e" using Pair v(2) by (auto simp: publish_def Let_def split: sum.splits if_splits)
      then show ?thesis using assms Pair Some by (auto simp: evidence_publish_def served_def)
    next
      case None
      have "\<exists>q. en_current e1 = Some q \<and> project (ev_parse_url ee) (ev_sha256 ee) s opts = Inr q \<and> en_projection e1 = opts"
        using Pair None v(2,3) by (auto simp: publish_def Let_def split: sum.splits if_splits)
      moreover from this have valid: "validate_snapshot s = None" using project_snapshot_valid by blast
      moreover have "engine_reach ee e1" using engine_reach.step [OF v(4)] Pair None by blast
      moreover have "e' = e1" "c' = Some s"
        using assms(2) Pair None by (simp_all add: evidence_publish_def cache_publish_Some [OF valid])
      ultimately show ?thesis by (simp add: served_def)
    qed
  qed
qed

lemma sidecar_reach_served:
  assumes "sidecar_reach env app st e" and "config_ok cfg" "sidecar_ok cfg" "cf_runtime cfg = RuntimePGConsoleSidecar"
    and "new_application env cfg version = Inr app" "cf_destination cfg = Some u"
  shows "served (ae_engine env) (projection_options_of env cfg version u) st e"
  using assms(1)
proof (induction rule: sidecar_reach.induct)
  case (start h)
  note app = new_application_Inr [OF assms(5,2)]
  have barman: "format_of (cf_format cfg) = BarmanFormat" using assms(3) by (simp add: sidecar_ok_def format_of_def)
  have "new_evidence_handler env cfg version (initial_inventory barman_descriptor) = Inr h"
    using app(4) [OF assms(4)] start barman by simp
  then obtain e where e: "new_engine (ae_engine env) (projection_options_of env cfg version u)
      (initial_inventory barman_descriptor) (ae_entropy env) = Inr e" and h: "ha_engine h = e"
    by (auto simp: new_evidence_handler_def new_evidence_engine_def bind_app_Inr map_sum_Inr new_handler_def assms(6)
        split: option.splits if_splits)
  from e obtain p where "en_current e = Some p" "en_projection e = projection_options_of env cfg version u"
    "project (ev_parse_url (ae_engine env)) (ev_sha256 (ae_engine env)) (initial_inventory barman_descriptor)
      (projection_options_of env cfg version u) = Inr p"
    by (auto simp: new_engine_def publish_def split: option.splits sum.splits)
  then show ?case
    using engine_reach.start [OF e] app(3) barman initial_inventory_valid h by (simp add: served_def)
next
  case (refreshed st e senv t0 t1 st' e')
  have same: "served ee opts (st\<lparr>ss_generation := g\<rparr>) x = served ee opts st x" for ee opts g x by (simp add: served_def)
  show ?case
    using refreshed(3) evidence_publish_served [OF refreshed(4)] refreshed(4)
    by (auto simp: sidecar_refresh_def Let_def same split: sum.splits if_splits prod.splits)
next
  case (probed st e answer now f st')
  then show ?case using probe_published by (simp add: served_def)
qed

text \<open>
  C2. In every state a sidecar can reach, what the evidence API serves is what was scanned: the
  publication of the engine is the projection of the snapshot in the cache, which is valid, and
  the engine is in a state of its own contract. No refusal by the engine or the cache can
  separate the two.
\<close>

theorem served_is_scanned:
  assumes "load_config cenv = Inr cfg" and "cf_runtime cfg = RuntimePGConsoleSidecar"
    and "new_application env cfg version = Inr app" and "sidecar_reach env app st e"
  shows "\<exists>u s p. cf_destination cfg = Some u \<and> ss_cache st = Some s \<and> validate_snapshot s = None
     \<and> en_current e = Some p \<and> engine_reach (ae_engine env) e
     \<and> project (ev_parse_url (ae_engine env)) (ev_sha256 (ae_engine env)) s
         (projection_options_of env cfg version u) = Inr p"
proof -
  note ok = load_config_contract [OF assms(1)]
  obtain u where u: "cf_destination cfg = Some u" using load_config_destination [OF ok(1)] .
  from sidecar_reach_served [OF assms(4) ok(1) ok(2) [OF assms(2)] assms(2,3) u] u show ?thesis
    by (auto simp: served_def)
qed

lemma served_is_scanned_witness:
  "\<exists>app h p. new_application ex_app_env ex_config ''1'' = Inr app \<and> ap_handler app = Some h
     \<and> sidecar_reach ex_app_env app (ap_state app) (ha_engine h) \<and> en_current (ha_engine h) = Some p"
proof -
  obtain app where app: "new_application ex_app_env ex_config ''1'' = Inr app" by (rule ex_start)
  then obtain h where h: "ap_handler app = Some h"
    using new_application_Inr(4) [OF app ex_config_ok(1,2)] by blast
  note reach = sidecar_reach.start [where env = ex_app_env, OF h]
  from served_is_scanned [OF ex_config_loads ex_config_ok(2) app reach] app h reach show ?thesis by blast
qed


section \<open>Failed scans are published\<close>

lemma reported_cases: "reported e \<Longrightarrow> \<not> err_canceled e \<Longrightarrow> valid_failure_category (categorize (Some e))"
  by (simp add: reported_def)

lemma loaded_matcher:
  assumes "config_ok cfg"
  obtains m where "new_scope_matcher (format_of (cf_format cfg)) (so_scopes (scanner_options_of cfg f)) = Inr m"
proof -
  have "names_ok (so_scopes (scanner_options_of cfg f))"
    using assms by (simp add: config_ok_def scopes_ok_def scanner_options_of_def)
  then show thesis by (rule names_ok_matcher [where f = "format_of (cf_format cfg)"])
      (auto simp: format_of_def that split: repository_format.split)
qed

lemma refresh_ScanFailed:
  assumes "refresh opts env t0 t1 st = (Some (ScanFailed e), st')"
  shows "scan opts env (ss_cache st) (ss_generation st + 1) (time_utc t0) t1 = Inl e"
proof (cases "scan opts env (ss_cache st) (ss_generation st + 1) (time_utc t0) t1")
  case (Inr s)
  then show ?thesis using assms refresh_success [OF Inr] by (simp split: option.splits)
next
  case (Inl e')
  then show ?thesis using assms refresh_failure [OF Inl] by simp
qed

text \<open>The scans of a started program fail only with what a refresh publishes.\<close>

lemma started_scan_reported:
  assumes "config_ok cfg" "cf_runtime cfg = RuntimePGConsoleSidecar \<Longrightarrow> sidecar_ok cfg"
    and "new_application env cfg version = Inr app" "hmac_ok (ev_hmac (ae_engine env))"
    and "sv_reader senv = ap_reader app" "\<forall>n e. sv_ctx senv n = Some e \<longrightarrow> reported e"
    and "scan (ap_options app) senv cache g t0 t1 = Inl e"
  shows "reported e"
proof -
  note app = new_application_Inr [OF assms(3,1)]
  have page: "1 \<le> so_page_size (ap_options app)" "so_page_size (ap_options app) \<le> MaxPageObjects"
    by (simp_all add: app(1) scanner_options_of_def MaxPageObjects_def)
  obtain m where m: "new_scope_matcher (so_format (ap_options app)) (so_scopes (ap_options app)) = Inr m"
    using loaded_matcher [OF assms(1)] by (auto simp: app(1) scanner_options_of_def)
  show ?thesis
  proof (cases "cf_runtime cfg")
    case RuntimeStandalone
    then obtain st where st: "store_reader (ev_hmac (ae_engine env)) st = ap_reader app"
      using app(2) by (auto simp: new_reader_def bind_app_Inr Let_def split: option.splits)
    show ?thesis
      by (rule cloud.scan_reported [of "(ev_hmac (ae_engine env), st)", OF _ _ assms(6) page m assms(7)])
        (simp_all add: assms(4,5) st [symmetric] store_reader_def)
  next
    case side: RuntimePGConsoleSidecar
    obtain n st where n: "valid_discovered_name n"
      and st: "ap_reader app = confined_reader (n @ ''/'') (store_reader (ev_hmac (ae_engine env)) st)"
      using sidecar_reader [OF assms(1) assms(2) [OF side] side app(2)] by metis
    have "confinement_ok (n @ ''/'')" "\<not> leading_slash (n @ ''/'')"
      using n by (cases n; auto simp: confinement_ok_def valid_discovered_name_def has_suffix_def MaxKeyBytes_def
        leading_slash_def has_prefix_def)+
    then show ?thesis
      by (intro confined.scan_reported [of "(n @ ''/'', ev_hmac (ae_engine env), st)", OF _ _ assms(6) page m assms(7)])
        (simp_all add: assms(4,5) st store_reader_def confined_reader_def)
  qed
qed

text \<open>A snapshot that names a failure of the contract: stale and unknown.\<close>

definition names_failure :: "fault \<Rightarrow> u64 \<Rightarrow> snapshot \<Rightarrow> bool" where
  "names_failure f g s \<longleftrightarrow> es_state (in_evidence s) = Unknown \<and> es_stale (in_evidence s)
     \<and> in_failure s = f \<and> valid_failure_category f \<and> in_generation s = g"

lemma failure_snapshot_names:
  "valid_failure_category f \<Longrightarrow> names_failure f g (failure_snapshot opts c g t0 t1 f)"
  by (simp add: names_failure_def failure_snapshot_def Let_def failed_snapshot_def stale_snapshot_def
      initial_inventory_def set_inventory_capability_def initial_snapshot_def zero_snapshot_def)

text \<open>The engine keeps its state when it refuses a snapshot.\<close>

lemma publish_refused: "publish ee s e = (Some err, e') \<Longrightarrow> e' = e"
  by (auto simp: publish_def Let_def split: sum.splits option.splits if_splits)

lemma publish_valid: "publish ee s e = (None, e') \<Longrightarrow> validate_snapshot s = None"
  by (auto simp: publish_def split: sum.splits dest: project_snapshot_valid)

text \<open>A refresh of a sidecar whose scan fails offers the snapshot of the failure to the engine.\<close>

lemma sidecar_failure:
  assumes "scan opts senv (ss_cache st) (ss_generation st + 1) (time_utc t0) t1 = Inl x"
    and "\<not> err_canceled x" "valid_failure_category (categorize (Some x))"
    and "sidecar_refresh ee opts senv t0 t1 (st, e) = (st', e')"
  shows "\<exists>s. names_failure (categorize (Some x)) (ss_generation st') s
     \<and> (publish ee s e = (None, e') \<and> ss_cache st' = Some s \<and> validate_snapshot s = None
        \<or> (\<exists>err. publish ee s e = (Some err, e')) \<and> e' = e \<and> ss_cache st' = ss_cache st)"
proof -
  let ?s = "failure_snapshot opts (ss_cache st) (ss_generation st + 1) (time_utc t0) (time_utc t1) (categorize (Some x))"
  obtain r e1 where p: "publish ee ?s e = (r, e1)" by (cases "publish ee ?s e")
  have st': "(st', e') = (case evidence_publish ee ?s (e, ss_cache st) of
      (_, engine, cache) \<Rightarrow> (st\<lparr>ss_generation := ss_generation st + 1, ss_cache := cache\<rparr>, engine))"
    using assms(1,2,4) by (simp add: sidecar_refresh_def Let_def)
  show ?thesis
  proof (cases r)
    case None
    then have valid: "validate_snapshot ?s = None" using p publish_valid by blast
    have "evidence_publish ee ?s (e, ss_cache st) = (None, e1, Some ?s)"
      using p None by (simp add: evidence_publish_def cache_publish_Some [OF valid])
    then show ?thesis
      using st' p None valid failure_snapshot_names [OF assms(3)] by (intro exI [of _ ?s]) simp
  next
    case (Some err)
    then have "evidence_publish ee ?s (e, ss_cache st) = (Some (EngineRefused err), e1, ss_cache st)"
      using p by (simp add: evidence_publish_def)
    moreover have "e1 = e" using p Some publish_refused by blast
    ultimately show ?thesis
      using st' p Some failure_snapshot_names [OF assms(3)] by (intro exI [of _ ?s]) simp
  qed
qed

text \<open>
  C3. The failure of a scan is published. With the stores of the program, and a context that
  only ends by cancellation or its deadline, a scan of either mode that is not cancelled fails
  with a category of the contract: the stores never produce an error without one. In standalone
  mode, if the clock does not go back during the refresh, such a failure replaces the published
  snapshot by a valid one of the new generation that is stale and unknown and names the failure.
  In sidecar mode that snapshot is offered to the
  evidence engine and, unless the engine refuses it, published in the engine and the cache. A
  completed scan whose snapshot is refused is not a failed scan: the refresh returns an error
  and what is published stays as it was.
\<close>

theorem failures_published:
  assumes "load_config cenv = Inr cfg" and "new_application env cfg version = Inr app"
    and "hmac_ok (ev_hmac (ae_engine env))" and "sv_reader senv = ap_reader app"
    and "\<And>n e. sv_ctx senv n = Some e \<Longrightarrow> err_canceled e \<or> err_deadline e"
    and "scanner_reach (ap_options app) st" and "\<not> time_before t1 t0"
  shows "(scan (ap_options app) senv cache g a b = Inl e' \<longrightarrow>
        err_canceled e' \<or> valid_failure_category (categorize (Some e')))
     \<and> (cf_runtime cfg = RuntimeStandalone
          \<and> refresh (ap_options app) senv t0 t1 st = (Some (ScanFailed e), st') \<and> \<not> err_canceled e \<longrightarrow>
        (\<exists>s. ss_cache st' = Some s \<and> validate_snapshot s = None
          \<and> names_failure (categorize (Some e)) (ss_generation st') s))
     \<and> (refresh (ap_options app) senv t0 t1 st = (Some (PublishFailed msg), st') \<longrightarrow> ss_cache st' = ss_cache st)
     \<and> (scan (ap_options app) senv (ss_cache sst) (ss_generation sst + 1) (time_utc t0) t1 = Inl e
          \<and> \<not> err_canceled e
          \<and> sidecar_refresh (ae_engine env) (ap_options app) senv t0 t1 (sst, en) = (sst', en') \<longrightarrow>
        (\<exists>s. names_failure (categorize (Some e)) (ss_generation sst') s
          \<and> (publish (ae_engine env) s en = (None, en') \<and> ss_cache sst' = Some s \<and> validate_snapshot s = None
             \<or> (\<exists>err. publish (ae_engine env) s en = (Some err, en')) \<and> en' = en \<and> ss_cache sst' = ss_cache sst)))"
proof -
  note ok = load_config_contract [OF assms(1)] and app = new_application_Inr [OF assms(2)]
  have ctx: "\<forall>n e. sv_ctx senv n = Some e \<longrightarrow> reported e"
    using assms(5) by (auto simp: reported_def categorize_def valid_failure_category_def)
  have scan: "scan (ap_options app) senv c n x y = Inl z \<Longrightarrow>
      err_canceled z \<or> valid_failure_category (categorize (Some z))" for c n x y z
    using started_scan_reported [OF ok(1,2) assms(2-4) ctx] by (auto simp: reported_def)
  have format: "so_format (ap_options app) = BarmanFormat \<or> so_format (ap_options app) = PgBackRestFormat"
    using app(1) [OF ok(1)] by (cases "cf_format cfg") (simp_all add: scanner_options_of_def format_of_def)
  have alone: "\<exists>s. ss_cache st' = Some s \<and> validate_snapshot s = None
      \<and> names_failure (categorize (Some e)) (ss_generation st') s"
    if r: "refresh (ap_options app) senv t0 t1 st = (Some (ScanFailed e), st')" and live: "\<not> err_canceled e"
  proof -
    have cat: "valid_failure_category (categorize (Some e))"
      using scan [OF refresh_ScanFailed [OF r]] live by simp
    from refresh_failure_published [OF assms(6) r live cat format assms(7)] cat show ?thesis
      by (auto simp: names_failure_def)
  qed
  have refused: "ss_cache st' = ss_cache st"
    if "refresh (ap_options app) senv t0 t1 st = (Some (PublishFailed msg), st')"
    using that by (auto simp: refresh_def Let_def cache_publish_def split: sum.splits option.splits if_splits)
  show ?thesis
    using scan alone refused sidecar_failure [of "ap_options app" senv sst t0 t1 e "ae_engine env" en sst' en']
    by blast
qed

definition ex_alone_variables :: "(string \<times> string) list" where
  "ex_alone_variables =
     [(''REPOSITORY_FORMAT'', ''barman-cloud''), (''PROVIDER'', ''s3''), (''DESTINATION_PATH'', ''s3://backups/pg'')]"

definition ex_alone :: config where
  "ex_alone = (initial_config RuntimeStandalone)\<lparr>cf_destination := Some ex_url,
     cf_credentials := no_credentials\<lparr>cd_mode := CredentialAmbient\<rparr>\<rparr>"

lemma ex_alone_leaves: "validate_listen_addr '':3000'' = Inr ()" "valid_header_name ''X-Forwarded-User''"
  by code_simp+

lemma ex_alone_loads: "load_config (ex_config_env ex_alone_variables) = Inr ex_alone"
  by (simp add: load_config_def load_repository_def parse_runtime_mode_def load_endpoint_def load_ca_bundle_def load_listener_def
    load_limits_def load_expectations_def load_format_config_def load_runtime_config_def load_credentials_def
    load_s3_credentials_def load_static_files_def set_credentials_def first_set_def sidecar_variables_def
    parse_format_def parse_provider_def parse_bool_def parse_duration_def parse_int_def initial_config_def
    bind_config_def reject_if_def ex_leaves ex_env_fields ex_getenv ex_alone_variables_def ex_alone_leaves ex_alone_def Let_def no_credentials_def
    parse_names_def)

lemma ex_alone_start:
  obtains app where "new_application ex_app_env ex_alone ''1'' = Inr app"
    and "ap_options app = scanner_options_of ex_alone BarmanFormat"
    and "scanner_reach (ap_options app) (ap_state app)"
proof -
  have ok: "config_ok ex_alone" using load_config_contract(1) [OF ex_alone_loads] .
  have fields: "cf_runtime ex_alone = RuntimeStandalone" "cf_format ex_alone = FormatBarmanCloud"
    "cf_provider ex_alone = ProviderS3" "cf_destination ex_alone = Some ex_url" "cf_page_size ex_alone = 200"
    by (simp_all add: ex_alone_def initial_config_def)
  have "\<not> has_control ''backups''" by (simp add: ascii_control_def)
  then have valid: "\<not> invalid_options (s3_options_of ex_alone ex_url)"
    using loaded_s3_options [OF ok, of ex_url]
    by (simp add: fields ex_url_def trim_slashes_def MaxKeyBytes_def) (simp add: ex_alone_def no_credentials_def)
  obtain st where st: "default_reader ex_sdk ex_alone ex_url = Inr st"
    using valid by (simp add: default_reader_def fields s3_new_def new_with_api_def ex_app_fields)
  obtain reg where reg: "builtins = Inr reg" "select_format reg (format_id FormatBarmanCloud) = Inr BarmanFormat"
    by (rule builtins_select)
  have cache: "new_cache ex_initial = Inr (Some ex_initial)"
    using initial_cache [of FormatBarmanCloud] by (simp add: format_of_def)
  obtain n where web: "new_web barman_descriptor 200 = Inr n"
    using loaded_web [OF ok, of FormatBarmanCloud] by (auto simp: fields format_of_def)
  have "\<exists>app. new_application ex_app_env ex_alone ''1'' = Inr app"
    unfolding new_application_def fields(2)
    using reg(2)
    by (simp add: reg(1) bind_app_def cache new_reader_def fields st ex_app_fields loaded_scanner [OF ok] Let_def web)
  then obtain app where app: "new_application ex_app_env ex_alone ''1'' = Inr app" by blast
  note started = new_application_Inr [OF app ok]
  have "scanner_reach (ap_options app) (ap_state app)"
    using scanner_reach.start [of "ap_options app" "Some ex_initial"] cache started(1,3)
    by (simp add: scanner_options_of_def fields format_of_def)
  with that app started(1) show thesis by (simp add: fields format_of_def)
qed

lemma failures_published_witness:
  "\<exists>app senv st' s. new_application ex_app_env ex_alone ''1'' = Inr app
     \<and> refresh (ap_options app) senv zero_time zero_time (ap_state app)
         = (Some (ScanFailed (plain_error\<lparr>err_deadline := True\<rparr>)), st')
     \<and> ss_cache st' = Some s \<and> in_failure s = Timeout \<and> es_stale (in_evidence s)"
proof -
  obtain app where app: "new_application ex_app_env ex_alone ''1'' = Inr app"
    "ap_options app = scanner_options_of ex_alone BarmanFormat" "scanner_reach (ap_options app) (ap_state app)"
    by (rule ex_alone_start)
  let ?e = "plain_error\<lparr>err_deadline := True\<rparr>"
  define senv where "senv = (ex_scan_env (Some ?e))\<lparr>sv_reader := ap_reader app\<rparr>"
  have env: "sv_reader senv = ap_reader app" "\<And>n e. sv_ctx senv n = Some e \<Longrightarrow> err_canceled e \<or> err_deadline e"
    "sv_ctx senv n = Some ?e" for n
    by (auto simp: senv_def ex_scan_env_def)
  have "scan (ap_options app) senv c g a b = Inl ?e" for c g a b
    by (simp add: scan_def app(2) scanner_options_of_def ex_alone_def initial_config_def barman_new_matcher_def
        new_builder_def scan_pages.simps env MaxScopes_def Let_def)
  from refresh_failure [OF this] obtain st' where
    r: "refresh (ap_options app) senv zero_time zero_time (ap_state app) = (Some (ScanFailed ?e), st')" by blast
  have mac: "hmac_ok (ev_hmac (ae_engine ex_app_env))" using ex_hmac_ok by (simp add: ex_app_fields)
  have clock: "\<not> time_before zero_time zero_time" by (simp add: time_before_def)
  have run: "cf_runtime ex_alone = RuntimeStandalone" by (simp add: ex_alone_def initial_config_def)
  from failures_published [OF ex_alone_loads app(1) mac env(1,2) app(3) clock] r run app(1)
  show ?thesis by (fastforce simp: plain_error_def categorize_def names_failure_def)
qed

end
