(* ===== verification/Viewer.thy ===== *)
theory Viewer
  imports Viewer_Texts Application
begin

text \<open>
  The pages of the standalone viewer: the filter, the rows and the links of the WAL page
  (\<open>internal/web/wal.go\<close>), and the handlers and routes of \<open>internal/web/handler.go\<close>.

  A page is the data its template is given. The templates, the request identifiers and the log
  lines are not modelled. A request is its method, its path as the multiplexer matches it (it
  redirects a path that is not clean first), its raw query and the header of the trusted user.
  \<open>sort.Slice\<close> is the stable sort: where its order ties, any order of the rows is the code's.
\<close>

section \<open>The query of a URL\<close>

text \<open>
  \<open>URL.Query\<close> drops the parts that do not parse, and everything where the parts are too many.
  The values of a key are kept in order.
\<close>

definition maxQueryParts :: nat where "maxQueryParts = 10000"

definition add_parsed_part :: "(string \<times> string list) list \<Rightarrow> string \<Rightarrow> (string \<times> string list) list" where
  "add_parsed_part q part = (case add_query_part part q of None \<Rightarrow> q | Some q' \<Rightarrow> q')"

definition url_query :: "string \<Rightarrow> (string \<times> string list) list" where
  "url_query raw =
     (let parts = split_on (CHR ''&'') raw in
      if maxQueryParts < length parts then [] else foldl add_parsed_part [] parts)"

definition query_get :: "(string \<times> string list) list \<Rightarrow> string \<Rightarrow> string" where
  "query_get q key = (case map_of q key of Some (v # vs) \<Rightarrow> v | _ \<Rightarrow> [])"

text \<open>\<open>url.QueryEscape\<close> and \<open>Values.Encode\<close>, whose keys come sorted.\<close>

definition unreserved :: "char \<Rightarrow> bool" where
  "unreserved c \<longleftrightarrow> is_digit c \<or> 65 \<le> byte c \<and> byte c \<le> 90 \<or> 97 \<le> byte c \<and> byte c \<le> 122
     \<or> c \<in> {CHR ''-'', CHR ''_'', CHR ''.'', CHR ''~''}"

definition escape_char :: "char \<Rightarrow> string" where
  "escape_char c =
     (if unreserved c then [c] else if c = CHR '' '' then ''+''
      else [CHR ''%'', hex_digit (byte c div 16), hex_digit (byte c mod 16)])"

definition query_escape :: "string \<Rightarrow> string" where
  "query_escape s = concat (map escape_char s)"

definition encode_values :: "(string \<times> string) list \<Rightarrow> string" where
  "encode_values kvs = joined ''&'' (map (\<lambda>(k, v). query_escape k @ ''='' @ query_escape v) (sort_key fst kvs))"

section \<open>The filter of the WAL page\<close>

record wal_filter =
  wf_server :: string
  wf_class :: string
  wf_start :: string
  wf_end :: string
  wf_timeline :: "u32 option"
  wf_page :: nat

definition filter_keys :: "string list" where
  "filter_keys = [''server'', ''class'', ''timeline'', ''start'', ''end'', ''page'']"

definition filter_classes :: "string list" where
  "filter_classes = [''all'', ''segment'', ''gap'', ''partial'', ''history'', ''backup-history'', ''unknown'', ''duplicate'']"

definition find_wal_server :: "server_wal list \<Rightarrow> string \<Rightarrow> server_wal option" where
  "find_wal_server servers name = find (\<lambda>s. sw_server s = name) servers"

text \<open>The timeline and the position of one end of a range; \<open>Inr None\<close> where it is not given.\<close>

definition range_end :: "string \<Rightarrow> int \<Rightarrow> u32 option \<Rightarrow> string \<Rightarrow> (u32 \<times> u64) option result" where
  "range_end v sz timeline err =
     (if v = [] then Inr None
      else case parse_wal_name v sz of Inl e \<Rightarrow> Inl err
      | Inr (t, position) \<Rightarrow>
          if (\<exists>t'\<in>set_option timeline. t' \<noteq> t) then Inl err else Inr (Some (t, position)))"

text \<open>The timeline of a range filter, from the part of \<open>parseWALFilter\<close> for its two ends.\<close>

fun join_ends :: "(u32 \<times> u64) option \<Rightarrow> (u32 \<times> u64) option \<Rightarrow> u32 option \<Rightarrow> u32 option result" where
  "join_ends (Some (t, p)) (Some (t', p')) timeline =
     (if t \<noteq> 0 \<and> t \<noteq> t' then Inl ''range crosses timelines''
      else if p' < p then Inl ''reversed range'' else Inr (Some t'))"
| "join_ends (Some (t, p)) None timeline = Inr (Some t)"
| "join_ends None (Some (t', p')) timeline = Inr (Some t')"
| "join_ends None None timeline = Inr timeline"

definition server_size :: "server_wal list \<Rightarrow> string \<Rightarrow> int" where
  "server_size servers name = (case find_wal_server servers name of None \<Rightarrow> 0 | Some s \<Rightarrow> sw_segment_size s)"

definition range_timeline :: "wal_filter \<Rightarrow> server_wal list \<Rightarrow> u32 option result" where
  "range_timeline f servers =
     (if wf_start f = [] \<and> wf_end f = [] then Inr (wf_timeline f)
      else if wf_server f = [] then Inl ''range requires server''
      else let sz = server_size servers (wf_server f) in
        if sz = 0 then Inl ''range context unavailable''
        else and_then (range_end (wf_start f) sz (wf_timeline f) ''invalid start'') (\<lambda>first.
             and_then (range_end (wf_end f) sz (wf_timeline f) ''invalid end'') (\<lambda>last.
               join_ends first last (wf_timeline f))))"

definition parse_filter_timeline :: "string \<Rightarrow> u32 option result" where
  "parse_filter_timeline raw =
     (if raw = [] then Inr None
      else case parse_uint 32 raw of None \<Rightarrow> Inl ''invalid timeline''
      | Some n \<Rightarrow> if n = 0 then Inl ''invalid timeline'' else Inr (Some (of_nat n)))"

definition parse_filter_page :: "string \<Rightarrow> nat result" where
  "parse_filter_page raw =
     (if raw = [] then Inr 1
      else case parse_int64 raw of None \<Rightarrow> Inl ''invalid page''
      | Some n \<Rightarrow> if n < 1 \<or> 1000000 < n then Inl ''invalid page'' else Inr (nat n))"

definition parse_wal_filter :: "(string \<times> string list) list \<Rightarrow> server_wal list \<Rightarrow> wal_filter result" where
  "parse_wal_filter q servers =
     (if \<not> list_all (\<lambda>(k, vs). k \<in> set filter_keys \<and> length vs = 1) q then Inl ''unsupported filter''
      else let f = \<lparr>wf_server = query_get q ''server'',
                    wf_class = (if query_get q ''class'' = [] then ''all'' else query_get q ''class''),
                    wf_start = to_upper (query_get q ''start''), wf_end = to_upper (query_get q ''end''),
                    wf_timeline = None, wf_page = 1\<rparr>
      in if wf_class f \<notin> set filter_classes then Inl ''invalid class''
      else if wf_server f \<noteq> [] \<and> find_wal_server servers (wf_server f) = None then Inl ''unknown server''
      else and_then (parse_filter_timeline (query_get q ''timeline'')) (\<lambda>timeline.
           and_then (range_timeline (f\<lparr>wf_timeline := timeline\<rparr>) servers) (\<lambda>timeline'.
           and_then (parse_filter_page (query_get q ''page'')) (\<lambda>page.
             Inr (f\<lparr>wf_timeline := timeline', wf_page := page\<rparr>)))))"

definition filter_values :: "wal_filter \<Rightarrow> nat \<Rightarrow> (string \<times> string) list" where
  "filter_values f page =
     (if wf_server f = [] then [] else [(''server'', wf_server f)])
     @ (if wf_class f = ''all'' then [] else [(''class'', wf_class f)])
     @ (case wf_timeline f of None \<Rightarrow> [] | Some t \<Rightarrow> [(''timeline'', decimal_text (unat t))])
     @ (if wf_start f = [] then [] else [(''start'', wf_start f)])
     @ (if wf_end f = [] then [] else [(''end'', wf_end f)])
     @ (if 1 < page then [(''page'', decimal_text page)] else [])"

definition wal_page_url :: "wal_filter \<Rightarrow> nat \<Rightarrow> string" where
  "wal_page_url f page =
     (let encoded = encode_values (filter_values f page) in if encoded = [] then ''/wals'' else ''/wals?'' @ encoded)"

text \<open>The raw query of a URL without a fragment.\<close>

definition raw_query :: "string \<Rightarrow> string" where
  "raw_query url = snd (cut_byte (CHR ''?'') url)"

section \<open>Links and queries\<close>

lemma hex_digit_byte: "n < 16 \<Longrightarrow> hex_digit n \<notin> {CHR ''&'', CHR '';'', CHR ''=''}"
  by (auto simp: hex_digit_def dest: arg_cong [where f = byte])

lemma query_unescape_char:
  "query_unescape (escape_char c @ s) = map_option ((#) c) (query_unescape s)"
proof -
  have b: "byte c div 16 < 16" "byte c mod 16 < 16" using byte_less [of c] by (simp_all add: less_mult_imp_div_less)
  have "char_of (16 * (byte c div 16) + byte c mod 16) = c" by simp
  moreover have "unreserved c \<Longrightarrow> c \<noteq> CHR ''%'' \<and> c \<noteq> CHR ''+''"
    by (auto simp: unreserved_def is_digit_def)
  ultimately show ?thesis
    using hex_digit_small [OF b(1)] hex_digit_small [OF b(2)]
    by (auto simp: escape_char_def option.map_comp comp_def)
qed

lemma query_unescape_escape: "query_unescape (query_escape s) = Some s"
  by (induction s) (simp_all add: query_escape_def query_unescape_char)

lemma query_escape_chars: "c \<in> set (query_escape s) \<Longrightarrow> c \<notin> {CHR ''&'', CHR '';'', CHR ''=''}"
proof -
  assume "c \<in> set (query_escape s)"
  then obtain d where d: "c \<in> set (escape_char d)" by (auto simp: query_escape_def)
  have "byte d div 16 < 16" "byte d mod 16 < 16" using byte_less [of d] by (simp_all add: less_mult_imp_div_less)
  note hex = hex_digit_byte [OF this(1)] hex_digit_byte [OF this(2)]
  from d show ?thesis
  proof (cases "unreserved d")
    case True
    then show ?thesis using d by (auto simp: escape_char_def unreserved_def is_digit_def)
  next
    case False
    then show ?thesis using d hex by (cases "d = CHR '' ''") (auto simp: escape_char_def)
  qed
qed

lemma add_parsed_escaped:
  "add_parsed_part q (query_escape k @ ''='' @ query_escape v) = group_add k v q"
proof -
  have "\<forall>x\<in>set (query_escape k). x \<noteq> CHR ''=''" using query_escape_chars by blast
  then have "cut_byte (CHR ''='') (query_escape k @ ''='' @ query_escape v) = (query_escape k, query_escape v)"
    by (simp add: cut_byte_def takeWhile_append dropWhile_append)
  moreover have "CHR '';'' \<notin> set (query_escape k @ ''='' @ query_escape v)"
    using query_escape_chars [of "CHR '';''"] by auto
  ultimately show ?thesis by (simp add: add_parsed_part_def query_unescape_escape)
qed

lemma group_add_new: "k \<notin> fst ` set q \<Longrightarrow> group_add k v q = q @ [(k, [v])]"
  by (induction q) auto

lemma split_on_joined:
  "ps \<noteq> [] \<Longrightarrow> \<forall>p\<in>set ps. CHR ''&'' \<notin> set p \<Longrightarrow> split_on (CHR ''&'') (joined ''&'' ps) = ps"
proof (induction ps)
  case (Cons p ps)
  then show ?case
  proof (cases ps)
    case Nil
    then show ?thesis using Cons.prems split_on_plain by (simp add: joined_def)
  next
    case (Cons p' ps')
    then have "joined ''&'' (p # ps) = p @ ''&'' @ joined ''&'' ps" by (simp add: joined_def)
    then show ?thesis using Cons Cons.IH Cons.prems split_on_join by simp
  qed
qed simp

lemma foldl_parts:
  "distinct (map fst kvs @ map fst q) \<Longrightarrow>
   foldl add_parsed_part q (map (\<lambda>(k, v). query_escape k @ ''='' @ query_escape v) kvs)
   = q @ map (\<lambda>(k, v). (k, [v])) kvs"
proof (induction kvs arbitrary: q)
  case (Cons kv kvs)
  obtain k v where kv: "kv = (k, v)" by (cases kv)
  from Cons.prems have "k \<notin> fst ` set q" by (auto simp: kv)
  then show ?case using Cons.prems Cons.IH [of "q @ [(k, [v])]"]
    by (auto simp: kv add_parsed_escaped [simplified] group_add_new)
qed simp

text \<open>\<open>Values.Encode\<close> and \<open>URL.Query\<close> are inverse: every byte of a key and a value comes back.\<close>

lemma url_query_encode:
  assumes "distinct (map fst kvs)" "length kvs \<le> maxQueryParts"
  shows "url_query (encode_values kvs) = map (\<lambda>(k, v). (k, [v])) (sort_key fst kvs)"
proof (cases "kvs = []")
  case True
  then show ?thesis
    by (simp add: url_query_def encode_values_def joined_def maxQueryParts_def add_parsed_part_def)
next
  case False
  let ?s = "sort_key fst kvs"
  let ?ps = "map (\<lambda>(k, v). query_escape k @ ''='' @ query_escape v) ?s"
  have "set ?s \<noteq> {}" using False by simp
  then have "?ps \<noteq> []" by (metis set_empty map_is_Nil_conv)
  moreover have "\<forall>p\<in>set ?ps. CHR ''&'' \<notin> set p" using query_escape_chars by auto
  ultimately have "split_on (CHR ''&'') (encode_values kvs) = ?ps"
    unfolding encode_values_def by (rule split_on_joined)
  moreover have "distinct (map fst ?s)" using assms(1) distinct_sort [of fst kvs]
    by (metis distinct_map set_sort)
  ultimately show ?thesis using assms(2) foldl_parts [of ?s "[]"]
    by (simp add: url_query_def)
qed

section \<open>Filters and links\<close>

lemma upper_char_byte: "byte (upper_char c) < 97 \<or> 122 < byte (upper_char c)"
  using byte_less [of c] by (auto simp: upper_char_def)

lemma to_upper_bytes: "x \<in> set (to_upper s) \<Longrightarrow> byte x < 97 \<or> 122 < byte x"
proof (induction s rule: to_upper.induct)
  case (2 c cs)
  have I: "byte (CHR ''I'') < 97" "byte (CHR ''S'') < 97" by simp_all
  consider (i) "has_prefix (c # cs) [CHR 0xC4, CHR 0xB1]"
    | (s) "\<not> has_prefix (c # cs) [CHR 0xC4, CHR 0xB1]" "has_prefix (c # cs) [CHR 0xC5, CHR 0xBF]"
    | (other) "\<not> has_prefix (c # cs) [CHR 0xC4, CHR 0xB1]" "\<not> has_prefix (c # cs) [CHR 0xC5, CHR 0xBF]" by blast
  then show ?case
  proof cases
    case i
    with 2(4) have "x = CHR ''I'' \<or> x \<in> set (to_upper (drop 1 cs))" by simp
    then show ?thesis using 2(1) [OF i] I by blast
  next
    case s
    with 2(4) have "x = CHR ''S'' \<or> x \<in> set (to_upper (drop 1 cs))" by simp
    then show ?thesis using 2(2) [OF s] I by blast
  next
    case other
    with 2(4) have "x = upper_char c \<or> x \<in> set (to_upper cs)" by simp
    then show ?thesis using 2(3) [OF other] upper_char_byte by blast
  qed
qed simp

lemma to_upper_ascii: "(\<And>c. c \<in> set s \<Longrightarrow> byte c < 97) \<Longrightarrow> to_upper s = s"
proof (induction s)
  case (Cons c s)
  then have "byte c < 97" "to_upper s = s" by simp_all
  moreover from this(1) have "c \<noteq> CHR 0xC4" "c \<noteq> CHR 0xC5" by auto
  ultimately show ?case by (simp add: has_prefix_def upper_char_def)
qed simp

lemma to_upper_hex: "is_hex (to_upper s) \<Longrightarrow> to_upper (to_upper s) = to_upper s"
proof (rule to_upper_ascii)
  fix c assume "is_hex (to_upper s)" "c \<in> set (to_upper s)"
  then show "byte c < 97" using to_upper_bytes [of c s]
    by (auto simp: is_hex_def list_all_iff hex_char_def is_digit_def is_upper_hex_def is_lower_hex_def)
qed

lemma range_end_Inr:
  "range_end v sz timeline err = Inr r \<longleftrightarrow> (v = [] \<and> r = None) \<or>
     (v \<noteq> [] \<and> (\<exists>t p. r = Some (t, p) \<and> parse_wal_name v sz = Inr (t, p) \<and> (\<forall>t'\<in>set_option timeline. t' = t)))"
  by (auto simp: range_end_def split: sum.splits)

lemma parse_wal_name_hex: "parse_wal_name v sz = Inr r \<Longrightarrow> is_hex v"
  by (auto simp: parse_wal_name_def split: if_splits)

lemma parse_wal_name_timeline: "parse_wal_name v sz = Inr (t, p) \<Longrightarrow> t \<noteq> 0"
  by (auto simp: parse_wal_name_def wal_position_Inr_iff split: if_splits option.splits sum.splits)

lemma range_timeline_Inr:
  "range_timeline f servers = Inr r \<longleftrightarrow>
     (if wf_start f = [] \<and> wf_end f = [] then r = wf_timeline f
      else wf_server f \<noteq> [] \<and> server_size servers (wf_server f) \<noteq> 0 \<and>
        (\<exists>first last. range_end (wf_start f) (server_size servers (wf_server f)) (wf_timeline f) ''invalid start'' = Inr first
          \<and> range_end (wf_end f) (server_size servers (wf_server f)) (wf_timeline f) ''invalid end'' = Inr last
          \<and> join_ends first last (wf_timeline f) = Inr r))"
  by (auto simp: range_timeline_def and_then_Inr_iff Let_def)

lemma join_ends_again:
  assumes "join_ends a b timeline = Inr r" "\<And>t p. a = Some (t, p) \<Longrightarrow> t \<noteq> 0"
  shows "(\<forall>e\<in>set_option a. r = Some (fst e)) \<and> (\<forall>e\<in>set_option b. r = Some (fst e)) \<and> join_ends a b r = Inr r"
proof (cases a)
  case None
  then show ?thesis using assms(1) by (cases b) auto
next
  case (Some e)
  obtain t p where e: "e = (t, p)" by (cases e)
  have t: "t \<noteq> 0" using assms(2) Some e by blast
  show ?thesis
  proof (cases b)
    case None
    then show ?thesis using assms(1) Some e by auto
  next
    case b: (Some e')
    obtain t' p' where e': "e' = (t', p')" by (cases e')
    show ?thesis using assms(1) t unfolding Some b e e' by (simp split: if_splits)
  qed
qed

lemma range_end_nonzero: "range_end v sz timeline err = Inr e \<Longrightarrow> e = Some (t, p) \<Longrightarrow> t \<noteq> 0"
  by (auto simp: range_end_Inr dest: parse_wal_name_timeline)

lemma range_end_again:
  "range_end v sz timeline err = Inr e \<Longrightarrow> \<forall>x\<in>set_option e. r = Some (fst x) \<Longrightarrow> range_end v sz r err = Inr e"
  by (auto simp: range_end_Inr)

text \<open>The same range gives the timeline it gave again.\<close>

lemma range_timeline_stable:
  assumes "range_timeline f servers = Inr r"
  shows "range_timeline (f\<lparr>wf_timeline := r, wf_page := page\<rparr>) servers = Inr r"
proof (cases "wf_start f = [] \<and> wf_end f = []")
  case False
  with assms obtain a b where s: "wf_server f \<noteq> []" "server_size servers (wf_server f) \<noteq> 0"
    and a: "range_end (wf_start f) (server_size servers (wf_server f)) (wf_timeline f) ''invalid start'' = Inr a"
    and b: "range_end (wf_end f) (server_size servers (wf_server f)) (wf_timeline f) ''invalid end'' = Inr b"
    and ag: "join_ends a b (wf_timeline f) = Inr r"
    unfolding range_timeline_Inr by auto
  note again = join_ends_again [OF ag range_end_nonzero [OF a]]
  then show ?thesis using False s range_end_again [OF a again [THEN conjunct1]] range_end_again [OF b again [THEN conjunct2, THEN conjunct1]] again
    unfolding range_timeline_Inr by auto
qed (use assms in \<open>simp add: range_timeline_Inr\<close>)

lemma range_timeline_hex:
  assumes "range_timeline f servers = Inr r"
  shows "wf_start f = [] \<or> is_hex (wf_start f)" "wf_end f = [] \<or> is_hex (wf_end f)"
  using assms unfolding range_timeline_Inr by (auto simp: range_end_Inr dest: parse_wal_name_hex split: if_splits)

lemma range_timeline_nonzero:
  assumes "range_timeline f servers = Inr r" "wf_timeline f \<noteq> Some 0"
  shows "r \<noteq> Some 0"
proof (cases "wf_start f = [] \<and> wf_end f = []")
  case False
  with assms obtain a b where a: "range_end (wf_start f) (server_size servers (wf_server f)) (wf_timeline f) ''invalid start'' = Inr a"
    and b: "range_end (wf_end f) (server_size servers (wf_server f)) (wf_timeline f) ''invalid end'' = Inr b"
    and ag: "join_ends a b (wf_timeline f) = Inr r"
    unfolding range_timeline_Inr by auto
  show ?thesis using range_end_nonzero [OF a] range_end_nonzero [OF b] ag assms(2)
    by (cases a; cases b) (auto split: if_splits)
qed (use assms in \<open>simp add: range_timeline_Inr\<close>)

text \<open>What a filter that \<open>parseWALFilter\<close> returns satisfies.\<close>

definition filter_ok :: "wal_filter \<Rightarrow> server_wal list \<Rightarrow> bool" where
  "filter_ok f servers \<longleftrightarrow> wf_class f \<in> set filter_classes
     \<and> (wf_server f \<noteq> [] \<longrightarrow> find_wal_server servers (wf_server f) \<noteq> None)
     \<and> to_upper (wf_start f) = wf_start f \<and> to_upper (wf_end f) = wf_end f
     \<and> wf_timeline f \<noteq> Some 0 \<and> range_timeline f servers = Inr (wf_timeline f)
     \<and> 1 \<le> wf_page f \<and> wf_page f \<le> 1000000"

lemma parse_filter_timeline_nonzero: "parse_filter_timeline raw = Inr t \<Longrightarrow> t \<noteq> Some 0"
proof
  assume p: "parse_filter_timeline raw = Inr t" and t: "t = Some 0"
  then obtain n where n: "parse_uint 32 raw = Some n" "n \<noteq> 0" "(of_nat n :: u32) = 0"
    by (auto simp: parse_filter_timeline_def split: if_splits option.splits)
  then have "n < 2 ^ 32" by (auto simp: parse_uint_def Let_def split: if_splits)
  with n(2,3) show False
    by (auto simp: word_of_nat_eq_0_iff dest: dvd_imp_le)
qed

lemma parse_wal_filter_ok:
  assumes "parse_wal_filter q servers = Inr f"
  shows "filter_ok f servers"
proof -
  define g where "g = \<lparr>wf_server = query_get q ''server'',
      wf_class = (if query_get q ''class'' = [] then ''all'' else query_get q ''class''),
      wf_start = to_upper (query_get q ''start''), wf_end = to_upper (query_get q ''end''),
      wf_timeline = None, wf_page = 1\<rparr>"
  obtain t t' p where g: "wf_class g \<in> set filter_classes"
      "wf_server g \<noteq> [] \<longrightarrow> find_wal_server servers (wf_server g) \<noteq> None"
    and t: "parse_filter_timeline (query_get q ''timeline'') = Inr t"
    and t': "range_timeline (g\<lparr>wf_timeline := t\<rparr>) servers = Inr t'"
    and p: "parse_filter_page (query_get q ''page'') = Inr p"
    and f: "f = g\<lparr>wf_timeline := t', wf_page := p\<rparr>"
    using assms unfolding parse_wal_filter_def g_def [symmetric] Let_def
    by (auto simp: and_then_Inr_iff split: if_splits)
  have "1 \<le> p \<and> p \<le> 1000000"
    using p by (auto simp: parse_filter_page_def split: if_splits option.splits)
  moreover have "t' \<noteq> Some 0"
    using range_timeline_nonzero [OF t'] parse_filter_timeline_nonzero [OF t] by simp
  moreover have "to_upper (wf_start g) = wf_start g" "to_upper (wf_end g) = wf_end g"
    using range_timeline_hex [OF t'] to_upper_hex [of "query_get q ''start''"] to_upper_hex [of "query_get q ''end''"]
    by (auto simp: g_def)
  moreover have "range_timeline f servers = Inr t'"
    using range_timeline_stable [OF t', of p] by (simp add: f)
  ultimately show ?thesis using g by (simp add: filter_ok_def f)
qed

lemma map_of_sorted_values:
  assumes "distinct (map fst kvs)"
  shows "map_of (map (\<lambda>(k, v). (k, [v])) (sort_key fst kvs)) k = map_option (\<lambda>v. [v]) (map_of kvs k)"
proof -
  have "distinct (map fst (sort_key fst kvs))" using assms distinct_sort [of fst kvs]
    by (metis distinct_map set_sort)
  then have "map_of (sort_key fst kvs) = map_of kvs" using assms by (intro map_of_eqI) (auto simp: map_of_inject_set)
  then show ?thesis by (simp add: map_of_map)
qed

definition values_get :: "(string \<times> string) list \<Rightarrow> string \<Rightarrow> string" where
  "values_get kvs k = (case map_of kvs k of None \<Rightarrow> [] | Some v \<Rightarrow> v)"

lemma filter_values_get:
  "values_get (filter_values f page) ''server'' = wf_server f"
  "values_get (filter_values f page) ''class'' = (if wf_class f = ''all'' then [] else wf_class f)"
  "values_get (filter_values f page) ''timeline'' = (case wf_timeline f of None \<Rightarrow> [] | Some t \<Rightarrow> decimal_text (unat t))"
  "values_get (filter_values f page) ''start'' = wf_start f"
  "values_get (filter_values f page) ''end'' = wf_end f"
  "values_get (filter_values f page) ''page'' = (if 1 < page then decimal_text page else [])"
  by (simp_all add: values_get_def filter_values_def map_add_def split: option.splits)

lemma filter_values_keys:
  "distinct (map fst (filter_values f page))" "length (filter_values f page) \<le> maxQueryParts"
  "fst ` set (filter_values f page) \<subseteq> set filter_keys"
  by (auto simp: filter_values_def maxQueryParts_def filter_keys_def split: option.splits)

lemma raw_query_link: "raw_query (wal_page_url f page) = encode_values (filter_values f page)"
  by (simp add: raw_query_def wal_page_url_def Let_def cut_byte_def)

lemma parse_int64_decimal: "n < 2 ^ 63 \<Longrightarrow> parse_int64 (decimal_text n) = Some (int n)"
proof -
  assume n: "n < 2 ^ 63"
  note d = decimal_text_value [of n]
  then obtain c cs where c: "decimal_text n = c # cs" by (cases "decimal_text n") auto
  with d have "is_digit c" by simp
  then have "c \<noteq> CHR ''-''" "c \<noteq> CHR ''+''" by (auto simp: is_digit_def)
  then show ?thesis using d n by (simp add: parse_int64_def c)
qed

text \<open>The link of a page parses to the same filter with that page.\<close>

lemma link_parses:
  assumes f: "filter_ok f servers" and page: "1 \<le> page" "page \<le> 1000000"
  shows "parse_wal_filter (url_query (raw_query (wal_page_url f page))) servers = Inr (f\<lparr>wf_page := page\<rparr>)"
proof -
  let ?kvs = "filter_values f page"
  define q where "q = url_query (raw_query (wal_page_url f page))"
  have q: "q = map (\<lambda>(k, v). (k, [v])) (sort_key fst ?kvs)"
    unfolding q_def raw_query_link by (rule url_query_encode [OF filter_values_keys(1,2)])
  have keys: "list_all (\<lambda>(k, vs). k \<in> set filter_keys \<and> length vs = 1) q"
    using filter_values_keys(3) [of f page] by (auto simp: q list_all_iff)
  have get: "query_get q k = values_get ?kvs k" for k
    using map_of_sorted_values [OF filter_values_keys(1), of f page k]
    by (simp add: query_get_def values_get_def q split: option.splits)
  have "parse_filter_timeline (query_get q ''timeline'') = Inr (wf_timeline f)"
  proof (cases "wf_timeline f")
    case (Some t)
    then have "t \<noteq> 0" using f by (auto simp: filter_ok_def)
    moreover have "parse_uint 32 (decimal_text (unat t)) = Some (unat t)"
      using unat_lt_u32 [of t] by (intro parse_uint_decimal) simp
    ultimately show ?thesis using decimal_text_value [of "unat t"] unat_gt_0 [of t]
      by (simp add: parse_filter_timeline_def get filter_values_get Some)
  qed (simp add: parse_filter_timeline_def get filter_values_get)
  moreover have "parse_filter_page (query_get q ''page'') = Inr page"
  proof (cases "1 < page")
    case True
    then show ?thesis using page parse_int64_decimal [of page] decimal_text_value [of page]
      by (simp add: parse_filter_page_def get filter_values_get)
  qed (use page in \<open>simp add: parse_filter_page_def get filter_values_get\<close>)
  moreover have "\<lparr>wf_server = query_get q ''server'',
      wf_class = (if query_get q ''class'' = [] then ''all'' else query_get q ''class''),
      wf_start = to_upper (query_get q ''start''), wf_end = to_upper (query_get q ''end''),
      wf_timeline = None, wf_page = 1\<rparr> = f\<lparr>wf_timeline := None, wf_page := 1\<rparr>"
    using f by (auto simp: get filter_values_get filter_ok_def filter_classes_def)
  moreover have "range_timeline (f\<lparr>wf_timeline := wf_timeline f, wf_page := 1\<rparr>) servers = Inr (wf_timeline f)"
    using f range_timeline_stable [of f servers "wf_timeline f" 1] by (simp add: filter_ok_def)
  ultimately show ?thesis using f keys unfolding q_def [symmetric] parse_wal_filter_def
    by (auto simp: filter_ok_def and_then_def Let_def)
qed

section \<open>The rows of the WAL page\<close>

record wal_row =
  rw_server :: string
  rw_class :: string
  rw_timeline :: string
  rw_start :: string
  rw_end :: string
  rw_count :: string
  rw_status :: string
  rw_receipt :: string
  rw_reason :: string
  rw_key :: string
  rw_position_start :: u64
  rw_position_end :: u64
  rw_has_position :: bool
  rw_timeline_value :: u32

fun wal_class_text :: "wal_class \<Rightarrow> string" where
  "wal_class_text WALSegment = ''segment''"
| "wal_class_text WALPartial = ''partial''"
| "wal_class_text WALHistory = ''history''"
| "wal_class_text WALBackupHistory = ''backup-history''"
| "wal_class_text WALUnknown = ''unknown''"
| "wal_class_text WALDuplicate = ''duplicate''"
| "wal_class_text (OtherClass s) = s"

fun gap_status_text :: "gap_status \<Rightarrow> string" where
  "gap_status_text GapCandidate = ''candidate''"
| "gap_status_text GapConfirmed = ''confirmed''"
| "gap_status_text (OtherGap s) = s"

definition range_row :: "server_wal \<Rightarrow> wal_range \<Rightarrow> wal_row" where
  "range_row s v =
     \<lparr>rw_server = sw_server s, rw_class = ''segment'', rw_timeline = decimal_text (unat (wr_timeline v)),
      rw_start = wr_first v, rw_end = wr_last v, rw_count = decimal_text (unat (wr_count v)),
      rw_status = state_text (sw_state s), rw_receipt = archive_receipt_text (wr_latest_receipt v),
      rw_reason = ''complete segment-name range'', rw_key = [], rw_position_start = wr_start v,
      rw_position_end = wr_end v, rw_has_position = True, rw_timeline_value = wr_timeline v\<rparr>"

definition gap_row :: "server_wal \<Rightarrow> wal_gap \<Rightarrow> wal_row" where
  "gap_row s v =
     \<lparr>rw_server = sw_server s, rw_class = ''gap'', rw_timeline = decimal_text (unat (wg_timeline v)),
      rw_start = wg_first v, rw_end = wg_last v, rw_count = decimal_text (unat (wg_count v)),
      rw_status = gap_status_text (wg_status v), rw_receipt = ''not applicable'',
      rw_reason = ''bounded missing segment-name range'', rw_key = [], rw_position_start = wg_start v,
      rw_position_end = wg_end v, rw_has_position = True, rw_timeline_value = wg_timeline v\<rparr>"

text \<open>A diagnostic object has a position where its name starts with a WAL name.\<close>

definition diagnostic_row :: "server_wal \<Rightarrow> wal_diagnostic \<Rightarrow> wal_row" where
  "diagnostic_row s v =
     (let row = \<lparr>rw_server = sw_server s, rw_class = wal_class_text (wd_class v),
            rw_timeline = timeline_text (wd_timeline v), rw_start = wd_name v, rw_end = wd_name v, rw_count = ''1'',
            rw_status = ''diagnostic'', rw_receipt = archive_receipt_text (wd_last_modified v),
            rw_reason = wd_reason v, rw_key = wd_key v, rw_position_start = 0, rw_position_end = 0,
            rw_has_position = False, rw_timeline_value = wd_timeline v\<rparr>
      in if length (wd_name v) < 24 \<or> sw_segment_size s \<le> 0 then row
         else case parse_wal_name (take 24 (wd_name v)) (sw_segment_size s) of Inl e \<Rightarrow> row
         | Inr (t, position) \<Rightarrow>
             row\<lparr>rw_position_start := position, rw_position_end := position, rw_has_position := True,
                 rw_timeline_value := t\<rparr>)"

text \<open>
  \<open>includeWALRow\<close>; the timeline the source passes beside a row is the row's \<open>timelineValue\<close>. The
  position of a name that does not parse is 0.
\<close>

definition name_position :: "string \<Rightarrow> int \<Rightarrow> u64" where
  "name_position v sz = (case parse_wal_name v sz of Inl e \<Rightarrow> 0 | Inr (t, position) \<Rightarrow> position)"

definition include_wal_row :: "server_wal \<Rightarrow> wal_filter \<Rightarrow> wal_row \<Rightarrow> bool" where
  "include_wal_row s f row =
     (if wf_class f \<noteq> ''all'' \<and> wf_class f \<noteq> rw_class row then False
      else if (\<exists>t\<in>set_option (wf_timeline f). t \<noteq> rw_timeline_value row) then False
      else if wf_start f = [] \<and> wf_end f = [] then True
      else if \<not> rw_has_position row then False
      else if wf_start f \<noteq> [] \<and> rw_position_end row < name_position (wf_start f) (sw_segment_size s) then False
      else if wf_end f \<noteq> [] \<and> name_position (wf_end f) (sw_segment_size s) < rw_position_start row then False
      else True)"

text \<open>The order of the rows of one server.\<close>

definition row_order :: "wal_row \<Rightarrow> u32 \<times> bool \<times> u64 \<times> string \<times> string" where
  "row_order r = (rw_timeline_value r, \<not> rw_has_position r, rw_position_start r, rw_class r, rw_key r)"

definition server_rows :: "wal_filter \<Rightarrow> server_wal \<Rightarrow> wal_row list" where
  "server_rows f s =
     sort_key row_order (filter (include_wal_row s f)
       (map (range_row s) (sw_ranges s) @ map (gap_row s) (sw_gaps s) @ map (diagnostic_row s) (sw_diagnostics s)))"

text \<open>
  \<open>filterWALRows\<close>: the loop over the servers keeps the rows of one page, the number of rows so
  far, and whether a server it looked at was truncated.
\<close>

definition add_server_rows ::
  "wal_filter \<Rightarrow> nat \<Rightarrow> nat \<Rightarrow> wal_row list \<times> nat \<times> bool \<Rightarrow> server_wal \<Rightarrow> wal_row list \<times> nat \<times> bool" where
  "add_server_rows f page_start page_size acc s =
     (case acc of (rows, seen, truncated) \<Rightarrow>
       if wf_server f \<noteq> [] \<and> wf_server f \<noteq> sw_server s then acc
       else let new = server_rows f s; server_end = seen + length new; page_end = page_start + page_size;
                from = page_start - seen; upto = min (page_end - seen) (length new)
         in (if page_start < server_end \<and> seen < page_end then rows @ take (upto - from) (drop from new) else rows,
             server_end, truncated \<or> sw_diagnostics_truncated s \<or> sw_ranges_truncated s))"

definition filter_wal_rows :: "server_wal list \<Rightarrow> wal_filter \<Rightarrow> nat \<Rightarrow> nat \<Rightarrow> wal_row list \<times> nat \<times> bool" where
  "filter_wal_rows servers f page_start page_size =
     foldl (add_server_rows f page_start page_size) ([], 0, False) servers"

section \<open>Pages and replies\<close>

record wal_page =
  wp_generation :: string
  wp_completeness :: completeness
  wp_stale :: string
  wp_filter :: wal_filter
  wp_rows :: "wal_row list"
  wp_total_pages :: nat
  wp_total_rows :: nat
  wp_previous :: string
  wp_next :: string
  wp_notice :: string

record index_page =
  ix_format_name :: string
  ix_format_id :: string
  ix_provider :: string
  ix_scope_kind :: string
  ix_compatibility :: state
  ix_state :: state
  ix_reason :: string
  ix_completeness :: completeness
  ix_generation :: string
  ix_completed_at :: string
  ix_age :: string
  ix_stale :: string
  ix_object_count :: string
  ix_stored_bytes :: string
  ix_unscoped :: string
  ix_refresh :: string
  ix_scopes :: "scope list"
  ix_recent :: "recent_object_view list"
  ix_capabilities :: "capability list"
  ix_backups :: "backup_view list"
  ix_wal_servers :: "wal_summary_view list"
  ix_recovery_servers :: "recovery_server_view list"
  ix_user :: string

datatype web_body = PlainBody string | IndexBody index_page | WalBody wal_page

record web_reply =
  wy_status :: nat
  wy_headers :: "(string \<times> string) list"
  wy_body :: web_body

record web_request =
  wq_method :: string
  wq_path :: string
  wq_raw_query :: string
  wq_user_header :: string

text \<open>What a handler has, and what it asks for during a request.\<close>

record viewer =
  vw_provider :: string
  vw_format :: descriptor
  vw_trusted_user_header :: string
  vw_page_size :: nat

record web_env =
  we_inventory :: snapshot
  we_ready :: bool
  we_now :: gotime
  we_request_id :: string

definition plain_type :: string where "plain_type = ''text/plain; charset=utf-8''"
definition html_type :: string where "html_type = ''text/html; charset=utf-8''"

definition plain_reply :: "nat \<Rightarrow> string \<Rightarrow> web_reply" where
  "plain_reply status text =
     \<lparr>wy_status = status, wy_headers = [(''Content-Type'', plain_type)], wy_body = PlainBody text\<rparr>"

text \<open>\<open>http.Error\<close>, and \<open>http.NotFound\<close> as one of its uses.\<close>

definition http_error :: "nat \<Rightarrow> string \<Rightarrow> web_reply" where
  "http_error status message =
     \<lparr>wy_status = status, wy_headers = [(''Content-Type'', plain_type), (''X-Content-Type-Options'', ''nosniff'')],
      wy_body = PlainBody (message @ [CHR 0x0A])\<rparr>"

definition page_reply :: "web_body \<Rightarrow> web_reply" where
  "page_reply body = \<lparr>wy_status = 200, wy_headers = [(''Content-Type'', html_type)], wy_body = body\<rparr>"

definition safe_inventory :: "descriptor \<Rightarrow> snapshot \<Rightarrow> snapshot" where
  "safe_inventory d s =
     (if es_format (in_evidence s) = d_id d \<and> scope_kind (es_scope (in_evidence s)) = d_scope_kind d
         \<and> validate_evidence (in_evidence s) = None \<and> validate_snapshot s = None then s
      else let i = initial_inventory d; reason = ''invalid or incompatible evidence snapshot''; e = in_evidence i in
        i\<lparr>in_evidence := e\<lparr>es_reason := reason,
            es_capabilities := map (\<lambda>c. c\<lparr>cap_reason := reason\<rparr>) (es_capabilities e)\<rparr>\<rparr>)"

definition health_reply :: web_reply where
  "health_reply = plain_reply 200 (''live'' @ [CHR 0x0A])"

definition ready_reply :: "web_env \<Rightarrow> web_reply" where
  "ready_reply env =
     (if \<not> we_ready env then plain_reply 503 (''not ready'' @ [CHR 0x0A]) else plain_reply 200 (''ready'' @ [CHR 0x0A]))"

definition index_page_of :: "viewer \<Rightarrow> snapshot \<Rightarrow> gotime \<Rightarrow> string \<Rightarrow> index_page" where
  "index_page_of v s now user =
     (let e = in_evidence s in
      \<lparr>ix_format_name = d_display_name (vw_format v), ix_format_id = d_id (vw_format v),
       ix_provider = vw_provider v, ix_scope_kind = scope_kind (es_scope e),
       ix_compatibility = es_compatibility e, ix_state = es_state e, ix_reason = es_reason e,
       ix_completeness = es_completeness e, ix_generation = generation_text e,
       ix_completed_at = completed_at_text e, ix_age = evidence_age_text e (time_utc now), ix_stale = stale_text e,
       ix_object_count = total_text (in_totals_known s) (in_object_count s),
       ix_stored_bytes = bytes_text (in_totals_known s) (in_stored_bytes s),
       ix_unscoped = total_text (in_totals_known s) (in_unscoped s), ix_refresh = refresh_text s,
       ix_scopes = in_scopes s, ix_recent = map recent_object_view_of (in_recent s),
       ix_capabilities = es_capabilities e, ix_backups = map backup_view_of (in_catalog s),
       ix_wal_servers = map wal_summary_view_of (in_wal s),
       ix_recovery_servers = map recovery_server_view_of (in_recovery s),
       ix_user = displayed_user user (vw_trusted_user_header v \<noteq> [])\<rparr>)"

definition index_reply :: "viewer \<Rightarrow> web_env \<Rightarrow> web_request \<Rightarrow> web_reply" where
  "index_reply v env rq =
     (if wq_path rq \<noteq> ''/'' then http_error 404 ''404 page not found''
      else page_reply (IndexBody (index_page_of v (safe_inventory (vw_format v) (we_inventory env)) (we_now env)
        (wq_user_header rq))))"

definition wal_page_of :: "viewer \<Rightarrow> snapshot \<Rightarrow> wal_filter \<Rightarrow> wal_page" where
  "wal_page_of v s f =
     (let n = vw_page_size v; page_start = (wf_page f - 1) * n;
          (rows, total_rows, truncated) = filter_wal_rows (in_wal s) f page_start n
      in \<lparr>wp_generation = generation_text (in_evidence s), wp_completeness = es_completeness (in_evidence s),
          wp_stale = stale_text (in_evidence s), wp_filter = f, wp_rows = rows,
          wp_total_pages = (if 0 < total_rows then (total_rows + n - 1) div n else 0), wp_total_rows = total_rows,
          wp_previous = (if 1 < wf_page f then wal_page_url f (wf_page f - 1) else []),
          wp_next = (if page_start + length rows < total_rows then wal_page_url f (wf_page f + 1) else []),
          wp_notice = (if truncated
            then ''Diagnostic objects are bounded; class counts remain exact for the complete scan.'' else [])\<rparr>)"

definition wals_reply :: "viewer \<Rightarrow> web_env \<Rightarrow> web_request \<Rightarrow> web_reply" where
  "wals_reply v env rq =
     (if d_id (vw_format v) \<noteq> ''barman-cloud'' then http_error 404 ''404 page not found''
      else let s = safe_inventory (vw_format v) (we_inventory env) in
        case parse_wal_filter (url_query (wq_raw_query rq)) (in_wal s) of
          Inl e \<Rightarrow> http_error 400 ''invalid WAL filter''
        | Inr f \<Rightarrow> page_reply (WalBody (wal_page_of v s f)))"

definition quoted :: "string \<Rightarrow> string" where
  "quoted s = [CHR 0x27] @ s @ [CHR 0x27]"

definition security_headers :: "(string \<times> string) list" where
  "security_headers =
     [(''Cache-Control'', ''no-store''),
      (''Content-Security-Policy'', 
        ''default-src '' @ quoted ''none'' @ ''; base-uri '' @ quoted ''none'' @ ''; frame-ancestors '' @ quoted ''none''
        @ ''; form-action '' @ quoted ''self''),
      (''Referrer-Policy'', ''no-referrer''), (''X-Content-Type-Options'', ''nosniff''), (''X-Frame-Options'', ''DENY'')]"

text \<open>The multiplexer: every pattern has the method \<open>GET\<close>, which also serves \<open>HEAD\<close>.\<close>

definition mux_reply :: "viewer \<Rightarrow> web_env \<Rightarrow> web_request \<Rightarrow> web_reply" where
  "mux_reply v env rq =
     (if wq_method rq \<notin> {''GET'', ''HEAD''}
      then (http_error 405 ''Method Not Allowed'')
             \<lparr>wy_headers := (''Allow'', ''GET, HEAD'') # wy_headers (http_error 405 ''Method Not Allowed'')\<rparr>
      else if wq_path rq = ''/healthz'' then health_reply
      else if wq_path rq = ''/readyz'' then ready_reply env
      else if wq_path rq = ''/wals'' then wals_reply v env rq
      else index_reply v env rq)"

definition routes :: "viewer \<Rightarrow> web_env \<Rightarrow> web_request \<Rightarrow> web_reply" where
  "routes v env rq =
     (let r = mux_reply v env rq in
      r\<lparr>wy_headers := foldl (\<lambda>hs (k, x). assoc_set k x hs)
          (security_headers @ [(''X-Request-ID'', we_request_id env)]) (wy_headers r)\<rparr>)"

definition web_route_name :: "web_request \<Rightarrow> string" where
  "web_route_name rq =
     (if wq_path rq = ''/'' then ''index'' else if wq_path rq = ''/healthz'' then ''healthz''
      else if wq_path rq = ''/readyz'' then ''readyz'' else if wq_path rq = ''/wals'' then ''wals'' else ''not_found'')"

section \<open>Pages of rows\<close>

text \<open>All rows that match a filter, in the order of the servers.\<close>

definition wal_rows :: "wal_filter \<Rightarrow> server_wal list \<Rightarrow> wal_row list" where
  "wal_rows f servers =
     concat (map (server_rows f) (filter (\<lambda>s. wf_server f = [] \<or> wf_server f = sw_server s) servers))"

lemma take_drop_append:
  "take n (drop k (xs @ ys)) =
     (if k < length xs + length ys \<and> length xs < k + n
      then take n (drop k xs) @ take (min (k + n - length xs) (length ys) - (k - length xs)) (drop (k - length xs) ys)
      else take n (drop k xs))"
proof -
  have "take (n - (length xs - k)) (drop (k - length xs) ys)
      = take (min (k + n - length xs) (length ys) - (k - length xs)) (drop (k - length xs) ys)"
    if "length xs < k + n"
  proof (cases "length xs \<le> k")
    case True
    then have "take (min (k + n - length xs) (length ys) - (k - length xs)) (drop (k - length xs) ys)
        = take (min n (length ys - (k - length xs))) (drop (k - length xs) ys)"
      using that by (intro arg_cong2 [where f = take]) auto
    then show ?thesis using True by (simp add: min_def)
  next
    case False
    then show ?thesis using that by (simp add: min_def add.commute [of k n])
  qed
  then show ?thesis by auto
qed

text \<open>The loop gives one slice of the rows, their number, and whether a server was truncated.\<close>

lemma filter_wal_rows_slice:
  "filter_wal_rows servers f page_start page_size =
     (take page_size (drop page_start (wal_rows f servers)), length (wal_rows f servers),
      \<exists>s\<in>set servers. (wf_server f = [] \<or> wf_server f = sw_server s)
        \<and> (sw_diagnostics_truncated s \<or> sw_ranges_truncated s))"
proof (induction servers rule: rev_induct)
  case Nil
  then show ?case by (simp add: filter_wal_rows_def wal_rows_def)
next
  case (snoc s servers)
  let ?old = "wal_rows f servers"
  show ?case
  proof (cases "wf_server f = [] \<or> wf_server f = sw_server s")
    case True
    then have "wal_rows f (servers @ [s]) = ?old @ server_rows f s" by (simp add: wal_rows_def)
    then show ?thesis
      using True snoc take_drop_append [of page_size page_start ?old "server_rows f s"]
      by (auto simp: filter_wal_rows_def add_server_rows_def Let_def add.commute)
  next
    case False
    then have "wal_rows f (servers @ [s]) = ?old" by (simp add: wal_rows_def)
    then show ?thesis using False snoc by (auto simp: filter_wal_rows_def add_server_rows_def)
  qed
qed

lemma wal_rows_page [simp]: "wal_rows (f\<lparr>wf_page := p\<rparr>) servers = wal_rows f servers"
proof -
  have "include_wal_row s (f\<lparr>wf_page := p\<rparr>) = include_wal_row s f" for s
    by (rule ext) (simp add: include_wal_row_def)
  then have "server_rows (f\<lparr>wf_page := p\<rparr>) = server_rows f" by (intro ext) (simp only: server_rows_def)
  then show ?thesis by (simp add: wal_rows_def)
qed

lemma wal_page_fields:
  fixes v :: viewer
  defines "n \<equiv> vw_page_size v"
  shows "wp_rows (wal_page_of v s f) = take n (drop ((wf_page f - 1) * n) (wal_rows f (in_wal s)))"
    and "wp_total_rows (wal_page_of v s f) = length (wal_rows f (in_wal s))"
    and "wp_total_pages (wal_page_of v s f) =
      (if wal_rows f (in_wal s) = [] then 0 else (length (wal_rows f (in_wal s)) + n - 1) div n)"
    and "wp_previous (wal_page_of v s f) = (if 1 < wf_page f then wal_page_url f (wf_page f - 1) else [])"
    and "wp_filter (wal_page_of v s f) = f"
  by (simp_all add: wal_page_of_def filter_wal_rows_slice Let_def n_def)

lemma pages_concat: "concat (map (\<lambda>p. take n (drop (p * n) xs)) [0..<k]) = take (k * n) xs"
proof (induction k)
  case (Suc k)
  have "take (Suc k * n) xs = take (k * n + n) xs" by (simp add: add.commute)
  then show ?case using Suc by (simp only: take_add) simp
qed simp

lemma page_count:
  assumes "0 < n" "0 < l"
  shows "p < (l + n - 1) div n \<longleftrightarrow> p * n < (l::nat)" "l \<le> (l + n - 1) div n * n"
proof -
  have "p < (l + n - 1) div n \<longleftrightarrow> Suc p \<le> (l + n - 1) div n" for p by auto
  also have "\<dots> p \<longleftrightarrow> Suc p * n \<le> l + n - 1" for p using assms(1) by (simp add: less_eq_div_iff_mult_less_eq)
  also have "\<dots> p \<longleftrightarrow> p * n < l" for p using assms by auto
  finally have a: "p < (l + n - 1) div n \<longleftrightarrow> p * n < l" for p .
  from a show "p < (l + n - 1) div n \<longleftrightarrow> p * n < l" .
  from a [of "(l + n - 1) div n"] show "l \<le> (l + n - 1) div n * n" by simp
qed

text \<open>What a reader sees who follows the links to the next page, at most \<open>k\<close> pages.\<close>

primrec follow_links :: "nat \<Rightarrow> viewer \<Rightarrow> snapshot \<Rightarrow> string \<Rightarrow> wal_row list" where
  "follow_links 0 v s url = []"
| "follow_links (Suc k) v s url =
     (case parse_wal_filter (url_query (raw_query url)) (in_wal s) of Inl e \<Rightarrow> []
      | Inr f \<Rightarrow> let p = wal_page_of v s f in
          wp_rows p @ (if wp_next p = [] then [] else follow_links k v s (wp_next p)))"

lemma wal_page_url_page [simp]: "wal_page_url (f\<lparr>wf_page := p\<rparr>) q = wal_page_url f q"
  by (simp add: wal_page_url_def filter_values_def)

lemma wal_page_url_nonempty: "wal_page_url f q \<noteq> []"
  by (simp add: wal_page_url_def Let_def)

lemma wal_page_next:
  fixes v :: viewer
  defines "n \<equiv> vw_page_size v"
  assumes "1 \<le> wf_page f" "0 < n"
  shows "wp_next (wal_page_of v s f) =
    (if wf_page f * n < length (wal_rows f (in_wal s)) then wal_page_url f (wf_page f + 1) else [])"
proof -
  let ?l = "length (wal_rows f (in_wal s))" let ?start = "(wf_page f - 1) * n"
  have "wf_page f * n = ?start + n" using assms(2) by (cases "wf_page f") simp_all
  then have "?start + min n (?l - ?start) < ?l \<longleftrightarrow> wf_page f * n < ?l" using assms(3) by (auto simp: min_def)
  then show ?thesis by (simp add: wal_page_of_def filter_wal_rows_slice Let_def n_def min.commute)
qed

lemma follow_rows:
  fixes v :: viewer
  defines "n \<equiv> vw_page_size v"
  assumes "filter_ok f (in_wal s)" "0 < n" "length (wal_rows f (in_wal s)) \<le> 1000000 * n"
  shows "1 \<le> p \<Longrightarrow> p \<le> 1000000 \<Longrightarrow>
    follow_links k v s (wal_page_url f p) = take (k * n) (drop ((p - 1) * n) (wal_rows f (in_wal s)))"
proof (induction k arbitrary: p)
  case (Suc k)
  let ?all = "wal_rows f (in_wal s)" let ?f = "f\<lparr>wf_page := p\<rparr>"
  have parse: "parse_wal_filter (url_query (raw_query (wal_page_url f p))) (in_wal s) = Inr ?f"
    by (rule link_parses [OF assms(2) Suc.prems])
  have rows: "wp_rows (wal_page_of v s ?f) = take n (drop ((p - 1) * n) ?all)"
    by (simp add: wal_page_fields n_def)
  have next_page: "wp_next (wal_page_of v s ?f) = (if p * n < length ?all then wal_page_url f (p + 1) else [])"
    using wal_page_next [of ?f v s] assms(3) Suc.prems by (simp add: n_def)
  have pn: "p * n = n + (p - 1) * n" using Suc.prems by (cases p) simp_all
  have "take (Suc k * n) (drop ((p - 1) * n) ?all)
      = take n (drop ((p - 1) * n) ?all) @ take (k * n) (drop (p * n) ?all)"
    unfolding pn by (simp add: take_add drop_drop)
  moreover have "follow_links k v s (wal_page_url f (p + 1)) = take (k * n) (drop (p * n) ?all)" if "p * n < length ?all"
  proof -
    from that assms(4) have "p * n < 1000000 * n" by (rule less_le_trans)
    then show ?thesis using Suc.IH [of "p + 1"] by simp
  qed
  ultimately show ?case
    using rows next_page wal_page_url_nonempty [of f "p + 1"] by (simp add: parse Let_def)
qed simp

section \<open>Properties\<close>

text \<open>
  The pages of a filter are a partition of its rows: for a page size of at least one, the
  rows of the pages 1 to the number the page shows, put together, are all rows that match the
  filter in their order, each once; a page has at most the page size of them and shows their
  exact number.
\<close>

lemma pages_partition:
  assumes "0 < vw_page_size v"
  shows "concat (map (\<lambda>p. wp_rows (wal_page_of v s (f\<lparr>wf_page := Suc p\<rparr>))) [0..<wp_total_pages (wal_page_of v s f)])
      = wal_rows f (in_wal s)
    \<and> length (wp_rows (wal_page_of v s f)) \<le> vw_page_size v
    \<and> wp_total_rows (wal_page_of v s f) = length (wal_rows f (in_wal s))"
proof -
  let ?n = "vw_page_size v" let ?all = "wal_rows f (in_wal s)"
  have "length ?all \<le> wp_total_pages (wal_page_of v s f) * ?n"
    using page_count(2) [OF assms, of "length ?all"] by (simp add: wal_page_fields)
  then show ?thesis by (simp add: wal_page_fields pages_concat)
qed

text \<open>
  C38. The links of the pages work: the query of the link to a page parses, on the same
  snapshot, to the same filter with that page, whatever bytes the names in it have; and a
  reader who starts on the first page and follows the links to the next one for as many pages
  as the first one announces has read every matching row once, in order, and then finds no
  link. The number of rows is at most a million pages' worth, the bound of the page number.
\<close>

theorem links_visit_every_row:
  assumes "parse_wal_filter (url_query raw) (in_wal s) = Inr f" "0 < vw_page_size v"
    and "length (wal_rows f (in_wal s)) \<le> 1000000 * vw_page_size v"
  shows "(\<forall>p\<in>{1..1000000}. parse_wal_filter (url_query (raw_query (wal_page_url f p))) (in_wal s) = Inr (f\<lparr>wf_page := p\<rparr>))
    \<and> follow_links (wp_total_pages (wal_page_of v s f)) v s (wal_page_url f 1) = wal_rows f (in_wal s)
    \<and> (\<forall>p\<ge>1. wp_next (wal_page_of v s (f\<lparr>wf_page := p\<rparr>)) \<noteq> [] \<longleftrightarrow> p < wp_total_pages (wal_page_of v s f))"
proof (intro conjI ballI allI impI)
  let ?n = "vw_page_size v" let ?all = "wal_rows f (in_wal s)"
  note ok = parse_wal_filter_ok [OF assms(1)]
  show "parse_wal_filter (url_query (raw_query (wal_page_url f p))) (in_wal s) = Inr (f\<lparr>wf_page := p\<rparr>)"
    if "p \<in> {1..1000000}" for p using link_parses [OF ok, of p] that by simp
  have "length ?all \<le> wp_total_pages (wal_page_of v s f) * ?n"
    using page_count(2) [OF assms(2), of "length ?all"] by (simp add: wal_page_fields)
  then show "follow_links (wp_total_pages (wal_page_of v s f)) v s (wal_page_url f 1) = ?all"
    using follow_rows [OF ok assms(2,3), of 1] by simp
  show "wp_next (wal_page_of v s (f\<lparr>wf_page := p\<rparr>)) \<noteq> [] \<longleftrightarrow> p < wp_total_pages (wal_page_of v s f)"
    if "1 \<le> p" for p
  proof -
    have "p * ?n < length ?all \<longleftrightarrow> p < wp_total_pages (wal_page_of v s f)"
      using page_count(1) [OF assms(2), of "length ?all" p] by (cases "?all = []") (simp_all add: wal_page_fields)
    then show ?thesis using wal_page_next [of "f\<lparr>wf_page := p\<rparr>" v s] that assms(2) wal_page_url_nonempty by simp
  qed
qed

section \<open>What a page shows\<close>

definition of_format :: "descriptor \<Rightarrow> snapshot \<Rightarrow> bool" where
  "of_format d s \<longleftrightarrow> es_format (in_evidence s) = d_id d \<and> scope_kind (es_scope (in_evidence s)) = d_scope_kind d"

lemma of_format_initial: "of_format d (initial_inventory d)"
  by (simp add: of_format_def initial_inventory_def set_inventory_capability_def initial_snapshot_def)

lemma of_format_failed: "of_format d (failed_snapshot d generation started now category)"
  using of_format_initial [of d] by (simp add: of_format_def failed_snapshot_def Let_def)

lemma of_format_stale: "of_format d s \<Longrightarrow> of_format d (stale_snapshot s generation started now category)"
  by (simp add: of_format_def stale_snapshot_def Let_def)

lemma of_format_updates [simp]:
  "of_format d (set_evidence_capability i st reason s) = of_format d s"
  "of_format d (set_evidence_state st reason s) = of_format d s"
  "of_format d (s\<lparr>in_catalog := bs\<rparr>) = of_format d s"
  "of_format d (s\<lparr>in_wal := w\<rparr>) = of_format d s"
  "of_format d (s\<lparr>in_recovery := r\<rparr>) = of_format d s"
  by (simp_all add: of_format_def set_evidence_capability_def set_evidence_state_def)

lemma of_format_applied [simp]:
  "of_format d (apply_barman_evidence s) = of_format d s"
  "of_format d (apply_wal_evidence s) = of_format d s"
  "of_format d (apply_recovery_evidence s) = of_format d s"
  by (simp_all add: apply_barman_evidence_def apply_wal_evidence_def apply_recovery_evidence_def Let_def
      split: prod.split)

lemma of_format_complete: "of_format (bd_descriptor b) (builder_complete b generation started completed)"
  by (simp add: of_format_def builder_complete_def set_inventory_capability_def initial_snapshot_def)

lemma of_format_scan:
  assumes "scan opts env cache generation started completed = Inr s"
  shows "of_format (format_descriptor (so_format opts)) s"
proof (rule scan_InrD [OF assms])
  fix m ps b
  let ?d = "format_descriptor (so_format opts)" and ?c = "builder_complete b generation started (time_utc completed)"
  assume "bd_descriptor b = ?d"
    and s: "(if barman_scan opts then analyze_snapshot opts env (cache_load cache) generation b ?c else Inr ?c) = Inr s"
  then have "of_format ?d ?c" using of_format_complete [of b] by simp
  then show ?thesis using s
    by (auto simp: analyze_snapshot_def Let_def split: if_splits option.splits prod.splits)
qed

text \<open>The published snapshot is always one of the scanner's format.\<close>

lemma scanner_reach_of_format:
  assumes "scanner_reach opts st" "ss_cache st = Some s"
  shows "of_format (format_descriptor (so_format opts)) s"
  using assms
proof (induction arbitrary: s rule: scanner_reach.induct)
  case (start c valid age)
  then show ?case using of_format_initial by (auto simp: new_cache_def cache_publish_def split: option.splits if_splits)
next
  case (refreshed st t1 t0 env r st')
  obtain p where p: "ss_cache st = Some p" using scanner_reach_published [OF refreshed.hyps(1)]
    by (auto simp: published_ok_def)
  let ?d = "format_descriptor (so_format opts)"
  have "of_format ?d p" by (rule refreshed.IH [OF p])
  then have "of_format ?d (failure_snapshot opts (ss_cache st) g started now category)" for g started now category
    using of_format_failed of_format_stale by (simp add: failure_snapshot_def Let_def p cache_load_def)
  then show ?case
    using refreshed.hyps(4) refreshed.prems refreshed.IH of_format_scan
      refresh_success [of opts env st t0 t1] refresh_failure [of opts env st t0 t1]
    by (cases "scan opts env (ss_cache st) (ss_generation st + 1) (time_utc t0) t1")
      (fastforce simp: Let_def split: option.splits if_splits)+
next
  case (probed st answer now f st')
  then show ?case by (auto simp: probe_def split: sum.splits)
qed

section \<open>Rows and ranges\<close>

definition candidate_rows :: "server_wal \<Rightarrow> wal_row list" where
  "candidate_rows s =
     map (range_row s) (sw_ranges s) @ map (gap_row s) (sw_gaps s) @ map (diagnostic_row s) (sw_diagnostics s)"

lemma wal_rows_iff:
  "r \<in> set (wal_rows f servers) \<longleftrightarrow>
     (\<exists>s\<in>set servers. (wf_server f = [] \<or> wf_server f = sw_server s) \<and> r \<in> set (candidate_rows s) \<and> include_wal_row s f r)"
  by (auto simp: wal_rows_def server_rows_def candidate_rows_def)

lemma candidate_server: "r \<in> set (candidate_rows s) \<Longrightarrow> rw_server r = sw_server s"
  by (auto simp: candidate_rows_def range_row_def gap_row_def diagnostic_row_def Let_def split: if_splits sum.splits)

lemma valid_servers_distinct:
  assumes "validate_wal_catalog servers = None"
  shows "distinct (map sw_server servers)" "\<forall>s\<in>set servers. check_wal_server None s = None"
proof -
  have c: "check_wal_servers None servers = None"
    using assms by (simp add: validate_wal_catalog_def split: if_splits)
  then have "sorted_wrt (<) (map sw_server servers)" by (simp add: check_wal_servers_iff sorted_wrt_map)
  then show "distinct (map sw_server servers)" by (simp add: strict_sorted_iff)
  from c show "\<forall>s\<in>set servers. check_wal_server None s = None" by (simp add: check_wal_servers_iff)
qed

lemma checked_range: "check_wal_ranges sz prior rs = None \<Longrightarrow> r \<in> set rs \<Longrightarrow> wal_range_ok sz r"
  by (induction sz prior rs rule: check_wal_ranges.induct) (auto split: if_splits)

lemma find_wal_server_distinct:
  "distinct (map sw_server servers) \<Longrightarrow> s \<in> set servers \<Longrightarrow> find_wal_server servers (sw_server s) = Some s"
  unfolding find_wal_server_def by (induction servers) auto

text \<open>The two ends of an accepted range filter: names of one timeline on the server, in order.\<close>

lemma filter_range_ends:
  assumes "filter_ok f servers" "wf_start f \<noteq> []" "wf_end f \<noteq> []" "find_wal_server servers (wf_server f) = Some s"
  obtains t p q where "wf_timeline f = Some t" "parse_wal_name (wf_start f) (sw_segment_size s) = Inr (t, p)"
    "parse_wal_name (wf_end f) (sw_segment_size s) = Inr (t, q)" "p \<le> q" "wf_server f \<noteq> []"
proof -
  have r: "range_timeline f servers = Inr (wf_timeline f)" using assms(1) by (simp add: filter_ok_def)
  have sz: "server_size servers (wf_server f) = sw_segment_size s" using assms(4) by (simp add: server_size_def)
  obtain a b where a: "range_end (wf_start f) (sw_segment_size s) (wf_timeline f) ''invalid start'' = Inr a"
    and b: "range_end (wf_end f) (sw_segment_size s) (wf_timeline f) ''invalid end'' = Inr b"
    and j: "join_ends a b (wf_timeline f) = Inr (wf_timeline f)" and n: "wf_server f \<noteq> []"
    using r assms(2,3) unfolding range_timeline_Inr sz by auto
  obtain t p t' q where ab: "a = Some (t, p)" "b = Some (t', q)"
    and names: "parse_wal_name (wf_start f) (sw_segment_size s) = Inr (t, p)"
      "parse_wal_name (wf_end f) (sw_segment_size s) = Inr (t', q)"
    using a b assms(2,3) by (auto simp: range_end_Inr)
  have "t \<noteq> 0" using parse_wal_name_timeline [OF names(1)] .
  with j have "t = t'" "p \<le> q" "wf_timeline f = Some t'"
    unfolding ab join_ends.simps by (simp_all split: if_splits)
  with that names n show thesis by blast
qed

text \<open>
  C39. A range filter shows exactly the archive between its two names: for a filter that
  parses against a valid catalog and names both ends, an archived range of the server is among
  the rows of class segment exactly if it is on the filter's timeline and some position of the
  range lies between the positions of the two names.
\<close>

theorem range_filter_exact:
  assumes "parse_wal_filter q servers = Inr f" "validate_wal_catalog servers = None"
    and "wf_start f \<noteq> []" "wf_end f \<noteq> []" "wf_class f \<in> {''all'', ''segment''}"
    and "s \<in> set servers" "sw_server s = wf_server f" "v \<in> set (sw_ranges s)"
  shows "\<exists>t p p'. wf_timeline f = Some t \<and> parse_wal_name (wf_start f) (sw_segment_size s) = Inr (t, p)
      \<and> parse_wal_name (wf_end f) (sw_segment_size s) = Inr (t, p')
      \<and> (range_row s v \<in> set (wal_rows f servers) \<longleftrightarrow>
          wr_timeline v = t \<and> (\<exists>x. wr_start v \<le> x \<and> x \<le> wr_end v \<and> p \<le> x \<and> x \<le> p'))"
proof -
  note servers = valid_servers_distinct [OF assms(2)]
  have "find_wal_server servers (wf_server f) = Some s"
    using find_wal_server_distinct [OF servers(1) assms(6)] assms(7) by simp
  then obtain t p p' where t: "wf_timeline f = Some t" and names: "parse_wal_name (wf_start f) (sw_segment_size s) = Inr (t, p)"
      "parse_wal_name (wf_end f) (sw_segment_size s) = Inr (t, p')" and le: "p \<le> p'" and n: "wf_server f \<noteq> []"
    by (rule filter_range_ends [OF parse_wal_filter_ok [OF assms(1)] assms(3,4)])
  have "check_wal_ranges (sw_segment_size s) None (sw_ranges s) = None"
  proof (cases "check_wal_ranges (sw_segment_size s) None (sw_ranges s)")
    case (Some e)
    have "\<not> Option.is_none (if a then Some x else if b then Some y else if c then Some z else if d then Some u
        else if h then Some w else Some e)" for a b c d h :: bool and x y z u w :: string by simp
    then have "\<not> Option.is_none (check_wal_server None s)" unfolding check_wal_server_def Some option.case .
    then show ?thesis using servers(2) assms(6) by simp
  qed
  then have v: "wr_start v \<le> wr_end v" using checked_range assms(8) by (auto simp: wal_range_ok_def)
  have position: "name_position (wf_start f) (sw_segment_size s) = p"
    "name_position (wf_end f) (sw_segment_size s) = p'" by (simp_all add: name_position_def names)
  have "range_row s v \<in> set (wal_rows f servers) \<longleftrightarrow> include_wal_row s f (range_row s v)"
  proof
    assume "range_row s v \<in> set (wal_rows f servers)"
    then obtain s' where s': "s' \<in> set servers" "sw_server s' = sw_server s" "include_wal_row s' f (range_row s v)"
      using n assms(7) unfolding wal_rows_iff by auto
    with servers(1) assms(6) have "s' = s" by (auto simp: distinct_map inj_on_def)
    with s' show "include_wal_row s f (range_row s v)" by simp
  next
    assume "include_wal_row s f (range_row s v)"
    then show "range_row s v \<in> set (wal_rows f servers)"
      using assms(6-8) unfolding wal_rows_iff candidate_rows_def by (intro bexI [of _ s]) auto
  qed
  also have "\<dots> \<longleftrightarrow> wr_timeline v = t \<and> p \<le> wr_end v \<and> wr_start v \<le> p'"
    using assms(3-5) unfolding include_wal_row_def t position
    by (auto simp: range_row_def simp flip: not_less)
  also have "\<dots> \<longleftrightarrow> wr_timeline v = t \<and> (\<exists>x. wr_start v \<le> x \<and> x \<le> wr_end v \<and> p \<le> x \<and> x \<le> p')"
  proof -
    have "(\<exists>x. wr_start v \<le> x \<and> x \<le> wr_end v \<and> p \<le> x \<and> x \<le> p') \<longleftrightarrow> p \<le> wr_end v \<and> wr_start v \<le> p'"
    proof
      assume "p \<le> wr_end v \<and> wr_start v \<le> p'"
      with v le show "\<exists>x. wr_start v \<le> x \<and> x \<le> wr_end v \<and> p \<le> x \<and> x \<le> p'"
        by (intro exI [of _ "max p (wr_start v)"]) simp
    qed (meson order_trans)
    then show ?thesis by simp
  qed
  finally show ?thesis using t names by blast
qed

section \<open>Concrete pages\<close>

definition ex_page_range :: "u64 \<Rightarrow> u64 \<Rightarrow> string \<Rightarrow> string \<Rightarrow> wal_range" where
  "ex_page_range a b n m =
     \<lparr>wr_timeline = 1, wr_start = a, wr_end = b, wr_count = b - a + 1, wr_first = n, wr_last = m,
      wr_latest_receipt = zero_time, wr_end_receipt = zero_time\<rparr>"

definition ex_page_server :: server_wal where
  "ex_page_server =
     empty_server_wal\<lparr>sw_server := ''main'', sw_state := Warning, sw_reason := ''gap'', sw_version := 150000, sw_segment_size := 2 ^ 24,
       sw_ranges := [ex_page_range 2 5 ''000000010000000000000002'' ''000000010000000000000005'',
         ex_page_range 9 9 ''000000010000000000000009'' ''000000010000000000000009'']\<rparr>"

definition ex_wal_query :: "(string \<times> string list) list" where
  "ex_wal_query = [(''server'', [''main'']), (''start'', [''000000010000000000000004'']), (''end'', [''000000010000000000000007''])]"

definition ex_page_filter :: wal_filter where
  "ex_page_filter = \<lparr>wf_server = ''main'', wf_class = ''all'', wf_start = ''000000010000000000000004'',
     wf_end = ''000000010000000000000007'', wf_timeline = Some 1, wf_page = 1\<rparr>"

definition ex_pages :: snapshot where
  "ex_pages = (initial_inventory barman_descriptor)\<lparr>in_wal := [ex_page_server]\<rparr>"

definition ex_viewer :: viewer where
  "ex_viewer = \<lparr>vw_provider = ''s3'', vw_format = barman_descriptor, vw_trusted_user_header = [], vw_page_size = 1\<rparr>"

lemma ex_page_valid: "validate_wal_catalog [ex_page_server] = None" by code_simp

lemma ex_page_parse: "parse_wal_filter ex_wal_query [ex_page_server] = Inr ex_page_filter" by code_simp

lemma ex_all_parse: "parse_wal_filter (url_query []) [ex_page_server]
   = Inr \<lparr>wf_server = [], wf_class = ''all'', wf_start = [], wf_end = [], wf_timeline = None, wf_page = 1\<rparr>" by code_simp

lemma ex_page_rows: "map rw_start (wal_rows \<lparr>wf_server = [], wf_class = ''all'', wf_start = [], wf_end = [], wf_timeline = None, wf_page = 1\<rparr> [ex_page_server])
   = [''000000010000000000000002'', ''000000010000000000000009'']" by code_simp

theorem range_filter_exact_witness:
  "range_row ex_page_server (ex_page_range 2 5 ''000000010000000000000002'' ''000000010000000000000005'')
     \<in> set (wal_rows ex_page_filter [ex_page_server])
   \<and> range_row ex_page_server (ex_page_range 9 9 ''000000010000000000000009'' ''000000010000000000000009'')
     \<notin> set (wal_rows ex_page_filter [ex_page_server])"
proof -
  let ?a = "ex_page_range 2 5 ''000000010000000000000002'' ''000000010000000000000005''"
  let ?b = "ex_page_range 9 9 ''000000010000000000000009'' ''000000010000000000000009''"
  have f: "wf_start ex_page_filter \<noteq> []" "wf_end ex_page_filter \<noteq> []" "wf_class ex_page_filter \<in> {''all'', ''segment''}"
    "sw_server ex_page_server = wf_server ex_page_filter"
    by (simp_all add: ex_page_filter_def ex_page_server_def)
  have r: "?a \<in> set (sw_ranges ex_page_server)" "?b \<in> set (sw_ranges ex_page_server)"
    by (simp_all add: ex_page_server_def)
  have names: "parse_wal_name (wf_start ex_page_filter) (sw_segment_size ex_page_server) = Inr (1, 4)"
    "parse_wal_name (wf_end ex_page_filter) (sw_segment_size ex_page_server) = Inr (1, 7)" by code_simp+
  have v: "wr_start ?a = 2" "wr_end ?a = 5" "wr_timeline ?a = 1" "wr_start ?b = 9" by (simp_all add: ex_page_range_def)
  note ex = range_filter_exact [OF ex_page_parse ex_page_valid f(1-3) _ f(4)]
  have "\<not> (9 \<le> x \<and> x \<le> (7::u64))" for x by (auto dest: order_trans)
  then show ?thesis using ex [OF _ r(1)] ex [OF _ r(2)] unfolding names v
    by (auto intro: exI [of _ 4])
qed

lemma pages_partition_witness:
  "map rw_start (concat (map (\<lambda>p. wp_rows (wal_page_of ex_viewer ex_pages
      (\<lparr>wf_server = [], wf_class = ''all'', wf_start = [], wf_end = [], wf_timeline = None, wf_page = 1\<rparr>\<lparr>wf_page := Suc p\<rparr>)))
     [0..<wp_total_pages (wal_page_of ex_viewer ex_pages
      \<lparr>wf_server = [], wf_class = ''all'', wf_start = [], wf_end = [], wf_timeline = None, wf_page = 1\<rparr>)]))
   = [''000000010000000000000002'', ''000000010000000000000009'']"
proof -
  have "0 < vw_page_size ex_viewer" "in_wal ex_pages = [ex_page_server]" by (simp_all add: ex_viewer_def ex_pages_def)
  then show ?thesis using ex_page_rows by (simp only: pages_partition [THEN conjunct1])
qed

theorem links_visit_every_row_witness:
  "map rw_start (follow_links (wp_total_pages (wal_page_of ex_viewer ex_pages
      \<lparr>wf_server = [], wf_class = ''all'', wf_start = [], wf_end = [], wf_timeline = None, wf_page = 1\<rparr>)) ex_viewer ex_pages ''/wals'')
   = [''000000010000000000000002'', ''000000010000000000000009'']"
proof -
  let ?f = "\<lparr>wf_server = [], wf_class = ''all'', wf_start = [], wf_end = [], wf_timeline = None, wf_page = 1\<rparr>"
  have e: "in_wal ex_pages = [ex_page_server]" "vw_page_size ex_viewer = 1" by (simp_all add: ex_viewer_def ex_pages_def)
  have "length (wal_rows ?f [ex_page_server]) = 2" using ex_page_rows by (metis length_map list.size(3,4) One_nat_def Suc_1 add.right_neutral add_Suc_right)
  moreover have "wal_page_url ?f 1 = ''/wals''" by code_simp
  ultimately show ?thesis
    using links_visit_every_row [of "[]" ex_pages ?f ex_viewer] ex_all_parse ex_page_rows unfolding e by simp
qed

section \<open>Honest pages\<close>

definition format_known :: "descriptor \<Rightarrow> bool" where
  "format_known d \<longleftrightarrow> d = barman_descriptor \<or> d = pgbackrest_descriptor"

text \<open>The snapshot that is shown in the place of one that may not be.\<close>

definition withdrawn :: "descriptor \<Rightarrow> snapshot" where
  "withdrawn d = safe_inventory d zero_snapshot"

definition shows_nothing :: "snapshot \<Rightarrow> bool" where
  "shows_nothing s \<longleftrightarrow> es_state (in_evidence s) = Unknown \<and> \<not> in_totals_known s \<and> in_scopes s = [] \<and> in_recent s = []
     \<and> in_catalog s = [] \<and> in_wal s = [] \<and> in_recovery s = []
     \<and> list_all (\<lambda>c. cap_state c = Unknown) (es_capabilities (in_evidence s))"

lemma withdrawn_eq:
  assumes "d_id d \<noteq> []"
  shows "withdrawn d = (let i = initial_inventory d; reason = ''invalid or incompatible evidence snapshot''; e = in_evidence i in
        i\<lparr>in_evidence := e\<lparr>es_reason := reason,
            es_capabilities := map (\<lambda>c. c\<lparr>cap_reason := reason\<rparr>) (es_capabilities e)\<rparr>\<rparr>)"
  using assms by (simp add: withdrawn_def safe_inventory_def zero_snapshot_def zero_evidence_def)

lemma withdrawn_known:
  assumes "format_known d"
  shows "validate_snapshot (withdrawn d) = None" "of_format d (withdrawn d)" "shows_nothing (withdrawn d)"
proof -
  let ?cs = "es_capabilities (in_evidence (initial_inventory d))"
  note dc = descriptor_cases [OF assms [unfolded format_known_def]]
  have "d_id d \<noteq> []" using assms by (auto simp: format_known_def barman_descriptor_def pgbackrest_descriptor_def)
  note w = withdrawn_eq [OF this, unfolded Let_def]
  have ids: "map cap_id ?cs = sort (d_capabilities d)"
    using map_cap_id_initial [of "d_id d" "d_scope_kind d" "d_capabilities d"]
    by (simp add: initial_inventory_def set_inventory_capability_def map_cap_id_set)
  have caps: "es_capabilities (in_evidence (withdrawn d))
      = map (\<lambda>c. c\<lparr>cap_reason := ''invalid or incompatible evidence snapshot''\<rparr>) ?cs" by (simp add: w)
  have "map cap_id (es_capabilities (in_evidence (withdrawn d))) = sort (d_capabilities d)"
    unfolding caps ids [symmetric] by (simp add: comp_def)
  then have distinct: "distinct (map cap_id (es_capabilities (in_evidence (withdrawn d))))"
    using dc barman_capabilities_ok by simp
  have ok: "capability_ok c \<and> cap_state c = Unknown" if c: "c \<in> set (es_capabilities (in_evidence (withdrawn d)))" for c
    using c initial_evidence [of _ d] dc barman_capabilities_ok unfolding caps
    by (auto simp: capability_ok_def invalid_text_def ascii_control_def)
  let ?e = "in_evidence (withdrawn d)"
  have "es_format ?e = d_id d" "scope_kind (es_scope ?e) = d_scope_kind d" "scope_name (es_scope ?e) = []" "es_state ?e = Unknown"
    "es_compatibility ?e = Unknown" "es_completeness ?e = Unscanned"
    "es_reason ?e = ''invalid or incompatible evidence snapshot''"
    by (simp_all add: w initial_inventory_def set_inventory_capability_def initial_snapshot_def)
  moreover have "\<not> invalid_text ''invalid or incompatible evidence snapshot'' 256"
    by (simp add: invalid_text_def ascii_control_def)
  ultimately have "validate_evidence ?e = None"
    using dc distinct ok by (simp add: validate_evidence_iff valid_state_def)
  then show "validate_snapshot (withdrawn d) = None"
    by (simp add: validate_snapshot_None_iff refresh_times_ok_def utc_or_zero_def validate_totals_def w
        initial_inventory_def zero_snapshot_def validate_wal_catalog_def validate_recovery_catalog_def time_defs)
  show "of_format d (withdrawn d)" using of_format_initial [of d] by (simp add: w of_format_def)
  have "list_all (\<lambda>c. cap_state c = Unknown) (es_capabilities (in_evidence (withdrawn d)))"
    using ok by (simp add: list_all_iff)
  then show "shows_nothing (withdrawn d)"
    by (simp add: shows_nothing_def w initial_inventory_def zero_snapshot_def set_inventory_capability_def
        initial_snapshot_def)
qed

lemma validate_snapshot_evidence: "validate_snapshot s = None \<Longrightarrow> validate_evidence (in_evidence s) = None"
  by (simp add: validate_snapshot_None_iff)

lemma safe_inventory_cases:
  assumes "format_known d"
  shows "safe_inventory d s = (if of_format d s \<and> validate_snapshot s = None then s else withdrawn d)"
proof -
  have "d_id d \<noteq> []" using assms by (auto simp: format_known_def barman_descriptor_def pgbackrest_descriptor_def)
  note w = withdrawn_eq [OF this]
  then show ?thesis using validate_snapshot_evidence [of s] unfolding w by (auto simp: safe_inventory_def of_format_def)
qed

lemma index_route:
  assumes "wq_method rq \<in> {''GET'', ''HEAD''}" "wq_path rq = ''/''"
  shows "wy_status (routes v env rq) = 200"
    and "wy_body (routes v env rq) = IndexBody (index_page_of v (safe_inventory (vw_format v) (we_inventory env)) (we_now env) (wq_user_header rq))"
  using assms by (auto simp: routes_def mux_reply_def index_reply_def page_reply_def Let_def)

text \<open>
  C10. The summary page never overstates what it is given. Whatever snapshot its source returns,
  corrupt or of another format, the page shows one that validates and belongs to the format of
  the viewer: it is healthy only after a complete scan, and shows totals, scopes and recent
  objects only from one. A snapshot that does not validate is not shown in part: the page then
  has an unknown state, no count, no backup, no archive and no recovery path, with every
  capability unknown.
\<close>

theorem pages_never_overstate:
  assumes "format_known (vw_format v)" "wq_method rq \<in> {''GET'', ''HEAD''}" "wq_path rq = ''/''"
  shows "\<exists>p s. wy_status (routes v env rq) = 200 \<and> wy_body (routes v env rq) = IndexBody p
     \<and> p = index_page_of v s (we_now env) (wq_user_header rq) \<and> validate_snapshot s = None \<and> of_format (vw_format v) s
     \<and> (ix_state p = Healthy \<or> ix_object_count p \<noteq> ''unknown'' \<or> ix_scopes p \<noteq> [] \<or> ix_recent p \<noteq> []
          \<longrightarrow> ix_completeness p = Complete)
     \<and> (s \<noteq> we_inventory env \<longrightarrow> ix_state p = Unknown \<and> ix_object_count p = ''unknown'' \<and> ix_stored_bytes p = ''unknown''
          \<and> ix_scopes p = [] \<and> ix_recent p = [] \<and> ix_backups p = [] \<and> ix_wal_servers p = [] \<and> ix_recovery_servers p = []
          \<and> list_all (\<lambda>c. cap_state c = Unknown) (ix_capabilities p))"
proof -
  define s where "s = safe_inventory (vw_format v) (we_inventory env)"
  define p where "p = index_page_of v s (we_now env) (wq_user_header rq)"
  note w = withdrawn_known [OF assms(1)]
  have s: "validate_snapshot s = None" "of_format (vw_format v) s" "s \<noteq> we_inventory env \<Longrightarrow> shows_nothing s"
    using w by (auto simp: s_def safe_inventory_cases [OF assms(1)])
  have honest: "es_state (in_evidence s) = Healthy \<or> in_totals_known s \<longrightarrow> es_completeness (in_evidence s) = Complete"
    "\<not> in_totals_known s \<longrightarrow> in_scopes s = [] \<and> in_recent s = []"
    using s(1) by (auto simp: validate_snapshot_None_iff validate_evidence_iff totals_reconcile_def
        dest!: validate_totals_reconcile split: if_splits)
  have "ix_state p = Healthy \<or> ix_object_count p \<noteq> ''unknown'' \<or> ix_scopes p \<noteq> [] \<or> ix_recent p \<noteq> []
      \<longrightarrow> ix_completeness p = Complete"
    using honest by (auto simp: p_def index_page_of_def Let_def total_text_def)
  moreover have "s \<noteq> we_inventory env \<longrightarrow> ix_state p = Unknown \<and> ix_object_count p = ''unknown'' \<and> ix_stored_bytes p = ''unknown''
      \<and> ix_scopes p = [] \<and> ix_recent p = [] \<and> ix_backups p = [] \<and> ix_wal_servers p = [] \<and> ix_recovery_servers p = []
      \<and> list_all (\<lambda>c. cap_state c = Unknown) (ix_capabilities p)"
    using s(3) by (simp add: p_def index_page_of_def Let_def total_text_def bytes_text_def shows_nothing_def)
  ultimately show ?thesis
    using index_route [OF assms(2,3), of v env, folded s_def p_def] s(1,2) p_def by blast
qed

theorem pages_never_overstate_witness:
  "\<exists>p. wy_body (routes ex_viewer \<lparr>we_inventory = ex_pages\<lparr>in_object_count := 7\<rparr>, we_ready = True, we_now = zero_time, we_request_id = []\<rparr>
      \<lparr>wq_method = ''GET'', wq_path = ''/'', wq_raw_query = [], wq_user_header = []\<rparr>) = IndexBody p
    \<and> (ix_state p = Healthy \<longrightarrow> ix_completeness p = Complete)"
proof -
  have "format_known (vw_format ex_viewer)" by (simp add: ex_viewer_def format_known_def)
  from pages_never_overstate [OF this, of "\<lparr>wq_method = ''GET'', wq_path = ''/'', wq_raw_query = [], wq_user_header = []\<rparr>"
      "\<lparr>we_inventory = ex_pages\<lparr>in_object_count := 7\<rparr>, we_ready = True, we_now = zero_time, we_request_id = []\<rparr>"]
  show ?thesis by auto
qed

section \<open>The viewer of a started program\<close>

fun provider_text :: "provider \<Rightarrow> string" where
  "provider_text ProviderS3 = ''s3''"
| "provider_text ProviderAzure = ''azure''"
| "provider_text ProviderGCS = ''gcs''"

text \<open>The page handler that a standalone program is built with.\<close>

definition viewer_of :: "config \<Rightarrow> descriptor \<Rightarrow> int \<Rightarrow> viewer" where
  "viewer_of cfg d page_size =
     \<lparr>vw_provider = provider_text (cf_provider cfg), vw_format = d, vw_trusted_user_header = cf_user_header cfg,
      vw_page_size = nat page_size\<rparr>"

text \<open>What the handler sees during a request in a state of the scanner.\<close>

definition env_of :: "scanner_state \<Rightarrow> gotime \<Rightarrow> string \<Rightarrow> web_env" where
  "env_of st now request_id =
     \<lparr>we_inventory = cache_load (ss_cache st), we_ready = rr_ready (probe_result now (ss_readiness st)), we_now = now,
      we_request_id = request_id\<rparr>"

text \<open>
  C9. What the pages of a started program show is what was scanned. In every state that its
  scanner can reach, the cache holds a valid snapshot of the configured format, and it is this
  snapshot, never the replacement for an unusable one, that the summary page shows and that the
  archive page of a Barman repository filters.
\<close>

theorem viewer_shows_scanned:
  assumes "load_config cenv = Inr cfg" and "new_application env cfg version = Inr app"
    and "scanner_reach (ap_options app) st" and "new_web (format_descriptor (format_of (cf_format cfg))) (cf_page_size cfg) = Inr n"
    and "wq_method rq = ''GET''"
  shows "\<exists>s. ss_cache st = Some s \<and> validate_snapshot s = None \<and>
     (let v = viewer_of cfg (format_descriptor (format_of (cf_format cfg))) n; r = routes v (env_of st now rid) rq in
      0 < vw_page_size v \<and> vw_page_size v \<le> 1000
      \<and> (wq_path rq = ''/'' \<longrightarrow> wy_status r = 200 \<and> wy_body r = IndexBody (index_page_of v s now (wq_user_header rq)))
      \<and> (wq_path rq = ''/wals'' \<and> cf_format cfg = FormatBarmanCloud \<longrightarrow>
          (case parse_wal_filter (url_query (wq_raw_query rq)) (in_wal s) of
             Inl e \<Rightarrow> wy_status r = 400
           | Inr f \<Rightarrow> wy_status r = 200 \<and> wy_body r = WalBody (wal_page_of v s f))))"
proof -
  have ok: "config_ok cfg" using load_config_contract(1) [OF assms(1)] .
  let ?d = "format_descriptor (format_of (cf_format cfg))" and ?v = "viewer_of cfg (format_descriptor (format_of (cf_format cfg))) n"
  obtain s where s: "ss_cache st = Some s" "validate_snapshot s = None"
    using scanner_reach_published [OF assms(3)] by (auto simp: published_ok_def)
  have opts: "so_format (ap_options app) = format_of (cf_format cfg)"
    using new_application_Inr(1) [OF assms(2) ok] by (simp add: scanner_options_of_def)
  have "of_format ?d s" using scanner_reach_of_format [OF assms(3) s(1)] by (simp add: opts)
  moreover have known: "format_known ?d" by (cases "cf_format cfg") (simp_all add: format_known_def format_of_def)
  ultimately have safe: "safe_inventory ?d s = s" using safe_inventory_cases [OF known] s(2) by simp
  have v: "vw_format ?v = ?d" "we_inventory (env_of st now rid) = s" "we_now (env_of st now rid) = now"
    by (simp_all add: viewer_of_def env_of_def cache_load_def s(1))
  have n: "0 < vw_page_size ?v" "vw_page_size ?v \<le> 1000"
    using assms(4) by (auto simp: new_web_def viewer_of_def Let_def split: if_splits)
  have index: "wq_path rq = ''/'' \<longrightarrow> wy_status (routes ?v (env_of st now rid) rq) = 200
      \<and> wy_body (routes ?v (env_of st now rid) rq) = IndexBody (index_page_of ?v s now (wq_user_header rq))"
    using index_route [of rq ?v "env_of st now rid"] assms(5) by (simp add: v safe)
  have call: "wy_status (routes ?v (env_of st now rid) rq) = wy_status (wals_reply ?v (env_of st now rid) rq)
      \<and> wy_body (routes ?v (env_of st now rid) rq) = wy_body (wals_reply ?v (env_of st now rid) rq)" if "wq_path rq = ''/wals''"
    using that assms(5) by (simp add: routes_def mux_reply_def Let_def)
  have wals: "wals_reply ?v (env_of st now rid) rq =
      (case parse_wal_filter (url_query (wq_raw_query rq)) (in_wal s) of Inl e \<Rightarrow> http_error 400 ''invalid WAL filter''
       | Inr f \<Rightarrow> page_reply (WalBody (wal_page_of ?v s f)))" if "cf_format cfg = FormatBarmanCloud"
  proof -
    have "d_id ?d = ''barman-cloud''" using that by (simp add: format_of_def barman_descriptor_def)
    then show ?thesis unfolding wals_reply_def v safe Let_def by simp
  qed
  have "case parse_wal_filter (url_query (wq_raw_query rq)) (in_wal s) of
         Inl e \<Rightarrow> wy_status (routes ?v (env_of st now rid) rq) = 400
       | Inr f \<Rightarrow> wy_status (routes ?v (env_of st now rid) rq) = 200
           \<and> wy_body (routes ?v (env_of st now rid) rq) = WalBody (wal_page_of ?v s f)"
    if path: "wq_path rq = ''/wals''" and format: "cf_format cfg = FormatBarmanCloud"
    by (cases "parse_wal_filter (url_query (wq_raw_query rq)) (in_wal s)")
      (simp_all add: call [OF path] wals [OF format] http_error_def page_reply_def)
  with s n index show ?thesis unfolding Let_def by blast
qed

theorem viewer_shows_scanned_witness:
  "\<exists>app s. new_application ex_app_env ex_alone ''1'' = Inr app \<and> ss_cache (ap_state app) = Some s
     \<and> wy_body (routes (viewer_of ex_alone barman_descriptor 200) (env_of (ap_state app) zero_time [])
         \<lparr>wq_method = ''GET'', wq_path = ''/'', wq_raw_query = [], wq_user_header = []\<rparr>)
       = IndexBody (index_page_of (viewer_of ex_alone barman_descriptor 200) s zero_time [])"
proof -
  obtain app where app: "new_application ex_app_env ex_alone ''1'' = Inr app"
    "scanner_reach (ap_options app) (ap_state app)" by (rule ex_alone_start)
  have fields: "cf_format ex_alone = FormatBarmanCloud" "cf_page_size ex_alone = 200"
    by (simp_all add: ex_alone_def initial_config_def)
  have "new_web (format_descriptor (format_of (cf_format ex_alone))) (cf_page_size ex_alone) = Inr 200"
    by (simp add: new_web_def fields format_of_def barman_descriptor_def)
  from viewer_shows_scanned [OF ex_alone_loads app this,
      of "\<lparr>wq_method = ''GET'', wq_path = ''/'', wq_raw_query = [], wq_user_header = []\<rparr>" zero_time "[]"]
  show ?thesis using app(1) by (auto simp: Let_def fields format_of_def)
qed

end
